(* ===== verification/Prelude.thy ===== *)
theory Prelude
  imports Main "HOL-Library.Word" "HOL-Library.Multiset" "HOL-Library.Monad_Syntax"
begin

text \<open>
  Shared vocabulary of the development: the widths of the C integers, byte buffers with
  the accesses the firmware makes to them, byte order, C strings, and the generic
  interfaces (a codec, a running checksum, a state machine with an invariant) that the
  component theories interpret on their own definitions.

  A C object (array, packed struct, packet) is a list of bytes. An access outside the
  object is undefined behaviour in C, so every access that the code does not guard is
  partial here: \<open>None\<close> is "the code reads or writes outside the object".
\<close>

unbundle bit_operations_syntax

section \<open>Machine types\<close>

type_synonym u8 = "8 word"
type_synonym u16 = "16 word"
type_synonym u32 = "32 word"
type_synonym bytes = "u8 list"

named_theorems buf_simps \<open>lengths and contents of byte buffers after accesses\<close>
named_theorems codec_simps \<open>round trips of the byte encodings\<close>

section \<open>Byte buffers\<close>

definition rd :: "'a list \<Rightarrow> nat \<Rightarrow> 'a option" where
  "rd b i = (if i < length b then Some (b ! i) else None)"

definition wr :: "'a list \<Rightarrow> nat \<Rightarrow> 'a \<Rightarrow> 'a list option" where
  "wr b i v = (if i < length b then Some (b[i := v]) else None)"

definition rd_seg :: "'a list \<Rightarrow> nat \<Rightarrow> nat \<Rightarrow> 'a list option" where
  "rd_seg b off n = (if off + n \<le> length b then Some (take n (drop off b)) else None)"

definition put :: "'a list \<Rightarrow> nat \<Rightarrow> 'a list \<Rightarrow> 'a list" where
  "put b off src = take off b @ src @ drop (off + length src) b"

definition wr_seg :: "'a list \<Rightarrow> nat \<Rightarrow> 'a list \<Rightarrow> 'a list option" where
  "wr_seg b off src = (if off + length src \<le> length b then Some (put b off src) else None)"

definition zeros :: "nat \<Rightarrow> bytes" where
  "zeros n = replicate n 0"

lemma upt_0_8: "[0..<8] = [0, 1, 2, 3, 4, 5, 6, 7 :: nat]"
  by code_simp

lemma nth_update: "xs[i := x] ! j = (if i = j \<and> i < length xs then x else xs ! j)"
  by (cases "i < length xs") (auto simp: list_update_beyond)

lemma length_put [buf_simps, simp]: "off + length src \<le> length b \<Longrightarrow> length (put b off src) = length b"
  by (simp add: put_def)

lemma length_wr [buf_simps]: "wr b i v = Some b' \<Longrightarrow> length b' = length b"
  by (auto simp: wr_def split: if_splits)

lemma length_wr_seg [buf_simps]: "wr_seg b off src = Some b' \<Longrightarrow> length b' = length b"
  by (auto simp: wr_seg_def split: if_splits)

lemma length_rd_seg [buf_simps]: "rd_seg b off n = Some s \<Longrightarrow> length s = n"
  by (auto simp: rd_seg_def split: if_splits)

lemma length_zeros [buf_simps, simp]: "length (zeros n) = n"
  by (simp add: zeros_def)

lemma nth_put:
  assumes "off + length src \<le> length b" and "i < length b"
  shows "put b off src ! i =
    (if i < off then b ! i else if i < off + length src then src ! (i - off) else b ! i)"
  using assms by (auto simp: put_def nth_append min_def)

lemma put_same [simp]: "off + length src \<le> length b \<Longrightarrow> take (length src) (drop off (put b off src)) = src"
  by (simp add: put_def)

lemma rd_Some [simp]: "i < length b \<Longrightarrow> rd b i = Some (b ! i)"
  by (simp add: rd_def)

lemma rd_None_iff: "rd b i = None \<longleftrightarrow> length b \<le> i"
  by (simp add: rd_def)

lemma rd_append_left [simp]: "i < length xs \<Longrightarrow> rd (xs @ ys) i = Some (xs ! i)"
  by (simp add: rd_def nth_append)

lemma rd_seg_append: "length pre = off \<Longrightarrow> length s = n \<Longrightarrow> rd_seg (pre @ s @ post) off n = Some s"
  by (simp add: rd_seg_def)

lemma drop_zeros [simp]: "drop n (zeros m) = zeros (m - n)"
  by (simp add: zeros_def)

lemma take_zeros [simp]: "take n (zeros m) = zeros (min n m)"
  by (simp add: zeros_def)

lemma zeros_0 [simp]: "zeros 0 = []"
  by (simp add: zeros_def)

lemma wr_seg_zeros:
  "length pre \<le> off \<Longrightarrow> off + length src \<le> length pre + n \<Longrightarrow> wr_seg (pre @ zeros n) off src =
     Some ((pre @ zeros (off - length pre) @ src) @ zeros (length pre + n - off - length src))"
  by (simp add: wr_seg_def put_def add.commute)

lemma wr_seg_end:
  "length src \<le> n \<Longrightarrow> off = length pre \<Longrightarrow>
     wr_seg (pre @ zeros n) off src = Some ((pre @ src) @ zeros (n - length src))"
  by (simp add: wr_seg_def put_def)

text \<open>\<open>strncpy(dst, src, n)\<close>: at most \<open>n\<close> bytes up to the terminator, padded with zeros.\<close>

definition c_strncpy :: "bytes \<Rightarrow> bytes \<Rightarrow> nat \<Rightarrow> bytes option" where
  "c_strncpy dst s n =
     (if 0 \<in> set s \<or> n \<le> length s
      then let c = take n (takeWhile (\<lambda>x. x \<noteq> 0) s) in wr_seg dst 0 (c @ zeros (n - length c))
      else None)"

section \<open>Byte order\<close>

text \<open>
  The Cortex-M3 is little endian: \<open>le16\<close>, \<open>le32\<close> are what a \<open>memcpy\<close> of an integer stores,
  \<open>be16\<close> is network order, \<open>bswap32\<close> is both \<open>htonl\<close> and \<open>ntohl\<close>.
\<close>

definition hi8 :: "u16 \<Rightarrow> u8" where "hi8 w = ucast (drop_bit 8 w)"
definition lo8 :: "u16 \<Rightarrow> u8" where "lo8 w = ucast w"

definition be16 :: "u16 \<Rightarrow> bytes" where "be16 w = [hi8 w, lo8 w]"
definition le16 :: "u16 \<Rightarrow> bytes" where "le16 w = [lo8 w, hi8 w]"

definition mk16 :: "u8 \<Rightarrow> u8 \<Rightarrow> u16" where
  "mk16 h l = push_bit 8 (ucast h) OR ucast l"

definition le32 :: "u32 \<Rightarrow> bytes" where
  "le32 w = [ucast w, ucast (drop_bit 8 w), ucast (drop_bit 16 w), ucast (drop_bit 24 w)]"

definition mk32 :: "u8 \<Rightarrow> u8 \<Rightarrow> u8 \<Rightarrow> u8 \<Rightarrow> u32" where
  "mk32 b3 b2 b1 b0 =
     push_bit 24 (ucast b3) OR push_bit 16 (ucast b2) OR push_bit 8 (ucast b1) OR ucast b0"

fun of_le32 :: "bytes \<Rightarrow> u32 option" where
  "of_le32 [b0, b1, b2, b3] = Some (mk32 b3 b2 b1 b0)"
| "of_le32 _ = None"

definition bswap16 :: "u16 \<Rightarrow> u16" where
  "bswap16 w = mk16 (lo8 w) (hi8 w)"

definition bswap32 :: "u32 \<Rightarrow> u32" where
  "bswap32 w = mk32 (ucast w) (ucast (drop_bit 8 w)) (ucast (drop_bit 16 w)) (ucast (drop_bit 24 w))"

lemma mk16_hi8_lo8 [codec_simps, simp]: "mk16 (hi8 w) (lo8 w) = w"
  unfolding mk16_def hi8_def lo8_def
  by (rule bit_word_eqI) (auto simp: bit_simps)

lemma hi8_mk16 [codec_simps, simp]: "hi8 (mk16 h l) = h"
  unfolding mk16_def hi8_def
  by (rule bit_word_eqI) (auto simp: bit_simps dest: bit_imp_le_length)

lemma lo8_mk16 [codec_simps, simp]: "lo8 (mk16 h l) = l"
  unfolding mk16_def lo8_def
  by (rule bit_word_eqI) (auto simp: bit_simps)

lemma bswap16_bswap16 [codec_simps, simp]: "bswap16 (bswap16 w) = w"
  by (simp add: bswap16_def)

lemma mk32_bytes [codec_simps, simp]:
  "mk32 (ucast (drop_bit 24 w)) (ucast (drop_bit 16 w)) (ucast (drop_bit 8 w)) (ucast w) = w"
  unfolding mk32_def
  by (rule bit_word_eqI) (auto simp: bit_simps not_le less_diff_conv2, (metis le_add_diff_inverse not_le)+)

lemma bytes_mk32 [codec_simps, simp]:
  "(ucast (mk32 b3 b2 b1 b0) :: u8) = b0"
  "(ucast (drop_bit 8 (mk32 b3 b2 b1 b0)) :: u8) = b1"
  "(ucast (drop_bit 16 (mk32 b3 b2 b1 b0)) :: u8) = b2"
  "(ucast (drop_bit 24 (mk32 b3 b2 b1 b0)) :: u8) = b3"
  unfolding mk32_def
  by (rule bit_word_eqI; auto simp: bit_simps dest: bit_imp_le_length)+

lemma of_le32_le32 [codec_simps, simp]: "of_le32 (le32 w) = Some w"
  by (simp add: le32_def)

lemma bswap32_bswap32 [codec_simps, simp]: "bswap32 (bswap32 w) = w"
  by (simp add: bswap32_def)

lemma bswap32_eq_iff [simp]: "bswap32 a = bswap32 b \<longleftrightarrow> a = b"
  by (metis bswap32_bswap32)

lemma length_le32 [buf_simps, simp]: "length (le32 w) = 4"
  by (simp add: le32_def)

lemma length_be16 [buf_simps, simp]: "length (be16 w) = 2"
  by (simp add: be16_def)

lemma length_le16 [buf_simps, simp]: "length (le16 w) = 2"
  by (simp add: le16_def)

lemma u8_less: "unat (x :: u8) < 256"
  using unsigned_less [of x] by simp

lemma u16_less: "unat (x :: u16) < 65536"
  using unsigned_less [of x] by simp

lemma u32_less: "unat (x :: u32) < 4294967296"
  using unsigned_less [of x] by simp

lemma unat_of_nat8: "n < 256 \<Longrightarrow> unat (of_nat n :: u8) = n"
  by (simp add: unsigned_of_nat take_bit_nat_eq_self)

lemma unat_of_nat16: "n < 65536 \<Longrightarrow> unat (of_nat n :: u16) = n"
  by (simp add: unsigned_of_nat take_bit_nat_eq_self)

lemma unat_of_nat32: "n < 4294967296 \<Longrightarrow> unat (of_nat n :: u32) = n"
  by (simp add: unsigned_of_nat take_bit_nat_eq_self)

lemma mk16_of_nat: "unat (mk16 h l) = 256 * unat h + unat l"
proof -
  have disj: "push_bit 8 (ucast h :: u16) AND ucast l = 0"
    by (rule bit_word_eqI) (auto simp: bit_simps dest: bit_imp_le_length)
  then have "push_bit 8 (ucast h :: u16) OR ucast l = push_bit 8 (ucast h) + ucast l"
    by (simp add: disjunctive_add_eq_or)
  moreover have "unat (ucast h :: u16) = unat h" "unat (ucast l :: u16) = unat l"
    using u8_less[of h] u8_less[of l] by (simp_all add: unsigned_ucast_eq take_bit_nat_eq_self)
  ultimately show ?thesis
    using u8_less[of h] u8_less[of l]
    by (simp add: mk16_def push_bit_eq_mult unat_word_ariths)
qed

section \<open>C strings\<close>

text \<open>
  \<open>cstr b\<close> is the string a \<open>char *\<close> to the start of buffer \<open>b\<close> denotes, if a terminator lies
  inside the buffer; otherwise \<open>strlen\<close> runs out of it.
\<close>

definition cstr :: "bytes \<Rightarrow> bytes option" where
  "cstr b = (if 0 \<in> set b then Some (takeWhile (\<lambda>c. c \<noteq> 0) b) else None)"

definition no_nul :: "bytes \<Rightarrow> bool" where
  "no_nul s \<longleftrightarrow> 0 \<notin> set s"

definition ascii :: "string \<Rightarrow> bytes" where
  "ascii s = map (\<lambda>c. of_nat (of_char c)) s"

lemma takeWhile_append_nul:
  "no_nul s \<Longrightarrow> takeWhile (\<lambda>c. c \<noteq> 0) (s @ 0 # t) = s"
  by (induction s) (auto simp: no_nul_def)

lemma cstr_append [simp]: "no_nul s \<Longrightarrow> cstr (s @ 0 # t) = Some s"
  by (simp add: cstr_def takeWhile_append_nul)

lemma cstr_no_nul: "cstr b = Some s \<Longrightarrow> no_nul s"
  by (auto simp: cstr_def no_nul_def split: if_splits dest: set_takeWhileD)

lemma cstr_length: "cstr b = Some s \<Longrightarrow> length s < length b"
proof -
  assume "cstr b = Some s"
  then have "0 \<in> set b" and s: "s = takeWhile (\<lambda>c. c \<noteq> 0) b"
    by (auto simp: cstr_def split: if_splits)
  then obtain p q where "b = p @ 0 # q" "0 \<notin> set p"
    by (metis split_list_first)
  with s show ?thesis using takeWhile_append_nul[of p q] by (simp add: no_nul_def)
qed

lemma cstr_prefix: "cstr b = Some s \<Longrightarrow> take (length s) b = s"
  by (auto simp: cstr_def split: if_splits) (metis takeWhile_eq_take)

lemma length_ascii [buf_simps, simp]: "length (ascii s) = length s"
  by (simp add: ascii_def)

section \<open>Interfaces\<close>

subsection \<open>A machine with an invariant\<close>

text \<open>
  Every component with state is a step function on its state; a history is a list of
  events, those that meet \<open>ok\<close>. What each step keeps, every history keeps.
\<close>

locale invariant_machine =
  fixes step :: "'e \<Rightarrow> 's \<Rightarrow> 's" and ok :: "'e \<Rightarrow> bool" and inv :: "'s \<Rightarrow> bool"
  assumes step_inv: "ok e \<Longrightarrow> inv s \<Longrightarrow> inv (step e s)"
begin

lemma run_inv: "list_all ok es \<Longrightarrow> inv s \<Longrightarrow> inv (fold step es s)"
  by (induction es arbitrary: s) (simp_all add: step_inv)

end

text \<open>For machines whose step may be undefined: defined, and the invariant holds.\<close>

definition some_inv :: "('s \<Rightarrow> bool) \<Rightarrow> 's option \<Rightarrow> bool" where
  "some_inv I so \<longleftrightarrow> (\<exists>s. so = Some s \<and> I s)"

subsection \<open>A running checksum\<close>

text \<open>
  A checksum is a fold of a step over the bytes. If the step is injective in the
  accumulator and in the byte, changing one byte of a message always changes the result.
\<close>

locale byte_checksum =
  fixes upd :: "'c \<Rightarrow> u8 \<Rightarrow> 'c"
  assumes upd_acc: "upd a x = upd b x \<Longrightarrow> a = b"
    and upd_byte: "upd a x = upd a y \<Longrightarrow> x = y"
begin

lemma foldl_inj: "foldl upd a xs = foldl upd b xs \<Longrightarrow> a = b"
  by (induction xs arbitrary: a b) (auto dest: upd_acc)

lemma single_byte_detected:
  assumes "foldl upd a (pre @ x # post) = foldl upd a (pre @ y # post)"
  shows "x = y"
proof -
  from assms have "upd (foldl upd a pre) x = upd (foldl upd a pre) y"
    using foldl_inj by fastforce
  then show ?thesis by (rule upd_byte)
qed

end

subsection \<open>A self-delimiting code\<close>

text \<open>
  A code whose decoder, run on an encoding followed by anything, returns the value and the
  number of bytes it consumed.
\<close>

locale prefix_code =
  fixes enc :: "'a \<Rightarrow> bytes" and dec :: "bytes \<Rightarrow> ('a \<times> nat) option" and dom :: "'a \<Rightarrow> bool"
  assumes dec_enc: "dom x \<Longrightarrow> dec (enc x @ rest) = Some (x, length (enc x))"
begin

lemma enc_prefix_free:
  assumes "dom x" and "dom y" and "enc x @ r = enc y @ s"
  shows "x = y \<and> r = s"
proof -
  have "Some (x, length (enc x)) = Some (y, length (enc y))"
    using dec_enc[OF assms(1), of r] dec_enc[OF assms(2), of s] assms(3) by simp
  with assms(3) show ?thesis by simp
qed

fun dec_all :: "nat \<Rightarrow> bytes \<Rightarrow> 'a list option" where
  "dec_all 0 b = Some []"
| "dec_all (Suc n) b =
     (case dec b of None \<Rightarrow> None | Some (x, k) \<Rightarrow> map_option ((#) x) (dec_all n (drop k b)))"

lemma dec_all_enc: "list_all dom xs \<Longrightarrow> dec_all (length xs) (concat (map enc xs) @ rest) = Some xs"
  by (induction xs) (simp_all add: dec_enc)

end

subsection \<open>An allocator\<close>

text \<open>
  \<open>malloc s n\<close> gives a pointer (0 for failure) and the new state; \<open>live s b\<close> lists the pointers
  handed out and not yet released, with the bytes behind each. A client keeps a table of what
  it asked for.
\<close>

datatype heap_op = Malloc nat | Free nat

type_synonym 's client = "('s \<times> (nat \<times> nat) list) option"

fun client_step :: "('s \<Rightarrow> nat \<Rightarrow> (nat \<times> 's) option) \<Rightarrow> ('s \<Rightarrow> nat \<Rightarrow> 's option) \<Rightarrow> heap_op \<Rightarrow> 's client \<Rightarrow> 's client" where
  "client_step malloc free ev None = None"
| "client_step malloc free (Malloc n) (Some (s, tab)) =
     map_option (\<lambda>(p, s'). (s', if p \<noteq> 0 then tab @ [(p, n)] else tab)) (malloc s n)"
| "client_step malloc free (Free i) (Some (s, tab)) =
     (if i < length tab
      then map_option (\<lambda>s'. (s', take i tab @ drop (Suc i) tab)) (free s (fst (tab ! i)))
      else Some (s, tab))"

fun heap_op_ok :: "(nat \<Rightarrow> bool) \<Rightarrow> heap_op \<Rightarrow> bool" where
  "heap_op_ok okreq (Malloc n) = okreq n"
| "heap_op_ok okreq (Free i) = True"

text \<open>The table matches the live blocks one to one, each at least as large as was asked for.\<close>

definition tab_rel :: "nat \<times> nat \<Rightarrow> nat \<times> nat \<Rightarrow> bool" where
  "tab_rel t l \<longleftrightarrow> fst t = fst l \<and> snd t \<le> snd l"

locale allocator =
  fixes rep :: "'s \<Rightarrow> 'b \<Rightarrow> bool" and live :: "'b \<Rightarrow> (nat \<times> nat) list"
    and malloc :: "'s \<Rightarrow> nat \<Rightarrow> (nat \<times> 's) option" and free :: "'s \<Rightarrow> nat \<Rightarrow> 's option"
    and okreq :: "nat \<Rightarrow> bool"
  assumes malloc_ok: "rep s b \<Longrightarrow> okreq n \<Longrightarrow> \<exists>p s'. malloc s n = Some (p, s') \<and>
      (p = 0 \<and> s' = s \<or>
       (p \<noteq> 0 \<and> (\<exists>b' m. rep s' b' \<and> n \<le> m \<and> mset (live b') = add_mset (p, m) (mset (live b)))))"
    and free_ok: "rep s b \<Longrightarrow> (p, m) \<in> set (live b) \<Longrightarrow> \<exists>s' b'. free s p = Some s' \<and> rep s' b' \<and>
      mset (live b) = add_mset (p, m) (mset (live b'))"
begin

definition client_inv :: "'s client \<Rightarrow> bool" where
  "client_inv c \<longleftrightarrow> (\<exists>s tab b. c = Some (s, tab) \<and> rep s b \<and> rel_mset tab_rel (mset tab) (mset (live b)))"

lemma client_inv_step:
  assumes "heap_op_ok okreq ev" and "client_inv c"
  shows "client_inv (client_step malloc free ev c)"
proof -
  obtain s tab b where c: "c = Some (s, tab)" and r: "rep s b" and t: "rel_mset tab_rel (mset tab) (mset (live b))"
    using assms(2) by (auto simp: client_inv_def)
  show ?thesis
  proof (cases ev)
    case (Malloc n)
    with assms(1) have "okreq n" by simp
    from malloc_ok[OF r this] obtain p s' where m: "malloc s n = Some (p, s')" and
      d: "p = 0 \<and> s' = s \<or> (p \<noteq> 0 \<and> (\<exists>b' m. rep s' b' \<and> n \<le> m \<and> mset (live b') = add_mset (p, m) (mset (live b))))"
      by blast
    from d show ?thesis
    proof
      assume "p = 0 \<and> s' = s"
      then show ?thesis using m c Malloc r t by (auto simp: client_inv_def)
    next
      assume "p \<noteq> 0 \<and> (\<exists>b' m. rep s' b' \<and> n \<le> m \<and> mset (live b') = add_mset (p, m) (mset (live b)))"
      then obtain b' k where b': "p \<noteq> 0" "rep s' b'" "n \<le> k" "mset (live b') = add_mset (p, k) (mset (live b))" by blast
      have "rel_mset tab_rel (add_mset (p, n) (mset tab)) (add_mset (p, k) (mset (live b)))"
        using b' t by (intro rel_mset_Plus) (auto simp: tab_rel_def)
      then show ?thesis using m c Malloc b' by (auto simp: client_inv_def)
    qed
  next
    case (Free i)
    show ?thesis
    proof (cases "i < length tab")
      case False
      then show ?thesis using assms(2) c Free by simp
    next
      case True
      then have split: "mset tab = add_mset (tab ! i) (mset (take i tab @ drop (Suc i) tab))"
        by (metis id_take_nth_drop mset.simps(2) mset_append union_mset_add_mset_right)
      from t[unfolded split] obtain l L where L: "mset (live b) = add_mset l L" "tab_rel (tab ! i) l"
        "rel_mset tab_rel (mset (take i tab @ drop (Suc i) tab)) L"
        by (rule msed_rel_invL[elim_format]) auto
      then have "(fst (tab ! i), snd l) \<in> set (live b)"
        by (metis tab_rel_def prod.collapse set_mset_mset union_single_eq_member)
      from free_ok[OF r this] obtain s' b' where f: "free s (fst (tab ! i)) = Some s'" "rep s' b'"
        "mset (live b) = add_mset (fst (tab ! i), snd l) (mset (live b'))" by blast
      have "L = mset (live b')" using L f by (simp add: tab_rel_def)
      then show ?thesis using L f c Free True by (auto simp: client_inv_def)
    qed
  qed
qed

end

sublocale allocator \<subseteq> client: invariant_machine "client_step malloc free" "heap_op_ok okreq" client_inv
  by unfold_locales (rule client_inv_step)

end
