(* ===== verification/NstCrc.thy ===== *)
theory NstCrc
  imports Prelude
begin

text \<open>
  The two checksums of \<^verbatim>\<open>Source/Sys/util.c\<close>: \<open>NST_GetCrc8\<close> (a 256-entry table) and
  \<open>NST_GetCrc32\<close> (a hand-expanded matrix of exclusive ors, one row per bit of the register).
  The lemmas show that the table is the bit-serial CRC-8 with the reflected polynomial
  \<open>0xE0\<close>, that the matrix is eight steps of the bit-serial CRC-32 register with polynomial
  \<open>0x04C11DB7\<close> fed least significant data bit first, and that both are instances of
  \<^verbatim>\<open>byte_checksum\<close>: they detect every single-byte change.
\<close>

section \<open>CRC-8\<close>

definition crc8_tbl :: "u8 list" where
  "crc8_tbl =
     [0x00, 0x91, 0xe3, 0x72, 0x07, 0x96, 0xe4, 0x75,
      0x0e, 0x9f, 0xed, 0x7c, 0x09, 0x98, 0xea, 0x7b,
      0x1c, 0x8d, 0xff, 0x6e, 0x1b, 0x8a, 0xf8, 0x69,
      0x12, 0x83, 0xf1, 0x60, 0x15, 0x84, 0xf6, 0x67,
      0x38, 0xa9, 0xdb, 0x4a, 0x3f, 0xae, 0xdc, 0x4d,
      0x36, 0xa7, 0xd5, 0x44, 0x31, 0xa0, 0xd2, 0x43,
      0x24, 0xb5, 0xc7, 0x56, 0x23, 0xb2, 0xc0, 0x51,
      0x2a, 0xbb, 0xc9, 0x58, 0x2d, 0xbc, 0xce, 0x5f,
      0x70, 0xe1, 0x93, 0x02, 0x77, 0xe6, 0x94, 0x05,
      0x7e, 0xef, 0x9d, 0x0c, 0x79, 0xe8, 0x9a, 0x0b,
      0x6c, 0xfd, 0x8f, 0x1e, 0x6b, 0xfa, 0x88, 0x19,
      0x62, 0xf3, 0x81, 0x10, 0x65, 0xf4, 0x86, 0x17,
      0x48, 0xd9, 0xab, 0x3a, 0x4f, 0xde, 0xac, 0x3d,
      0x46, 0xd7, 0xa5, 0x34, 0x41, 0xd0, 0xa2, 0x33,
      0x54, 0xc5, 0xb7, 0x26, 0x53, 0xc2, 0xb0, 0x21,
      0x5a, 0xcb, 0xb9, 0x28, 0x5d, 0xcc, 0xbe, 0x2f,
      0xe0, 0x71, 0x03, 0x92, 0xe7, 0x76, 0x04, 0x95,
      0xee, 0x7f, 0x0d, 0x9c, 0xe9, 0x78, 0x0a, 0x9b,
      0xfc, 0x6d, 0x1f, 0x8e, 0xfb, 0x6a, 0x18, 0x89,
      0xf2, 0x63, 0x11, 0x80, 0xf5, 0x64, 0x16, 0x87,
      0xd8, 0x49, 0x3b, 0xaa, 0xdf, 0x4e, 0x3c, 0xad,
      0xd6, 0x47, 0x35, 0xa4, 0xd1, 0x40, 0x32, 0xa3,
      0xc4, 0x55, 0x27, 0xb6, 0xc3, 0x52, 0x20, 0xb1,
      0xca, 0x5b, 0x29, 0xb8, 0xcd, 0x5c, 0x2e, 0xbf,
      0x90, 0x01, 0x73, 0xe2, 0x97, 0x06, 0x74, 0xe5,
      0x9e, 0x0f, 0x7d, 0xec, 0x99, 0x08, 0x7a, 0xeb,
      0x8c, 0x1d, 0x6f, 0xfe, 0x8b, 0x1a, 0x68, 0xf9,
      0x82, 0x13, 0x61, 0xf0, 0x85, 0x14, 0x66, 0xf7,
      0xa8, 0x39, 0x4b, 0xda, 0xaf, 0x3e, 0x4c, 0xdd,
      0xa6, 0x37, 0x45, 0xd4, 0xa1, 0x30, 0x42, 0xd3,
      0xb4, 0x25, 0x57, 0xc6, 0xb3, 0x22, 0x50, 0xc1,
      0xba, 0x2b, 0x59, 0xc8, 0xbd, 0x2c, 0x5e, 0xcf]"

fun crc8_loop :: "u8 \<Rightarrow> bytes \<Rightarrow> nat \<Rightarrow> u8 option" where
  "crc8_loop crc8 ptr 0 = Some crc8"
| "crc8_loop crc8 [] (Suc len) = None"
| "crc8_loop crc8 (data # ptr) (Suc len) = crc8_loop (crc8_tbl ! unat (crc8 XOR data)) ptr len"

definition NST_GetCrc8 :: "bytes \<Rightarrow> nat \<Rightarrow> u8 option" where
  "NST_GetCrc8 ptr len = crc8_loop 0 ptr len"

text \<open>The bit-serial register the table tabulates.\<close>

definition crc8_shift :: "u8 \<Rightarrow> u8" where
  "crc8_shift r = (if bit r 0 then drop_bit 1 r XOR 0xE0 else drop_bit 1 r)"

definition crc8_bits :: "u8 \<Rightarrow> u8 \<Rightarrow> u8" where
  "crc8_bits r x = (crc8_shift ^^ 8) (r XOR x)"

lemma length_crc8_tbl [simp]: "length crc8_tbl = 256"
  by (simp add: crc8_tbl_def)

lemma crc8_shift8:
  "(crc8_shift ^^ 8) x =
     crc8_shift (crc8_shift (crc8_shift (crc8_shift (crc8_shift (crc8_shift (crc8_shift (crc8_shift x)))))))"
  by (simp add: eval_nat_numeral)

text \<open>\<open>tabulates g t i\<close>: the entries of \<open>t\<close> are \<open>g i\<close>, \<open>g (i + 1)\<close>, and so on.\<close>

fun tabulates :: "(u8 \<Rightarrow> u8) \<Rightarrow> u8 list \<Rightarrow> u8 \<Rightarrow> bool" where
  "tabulates g [] i = True"
| "tabulates g (t # ts) i = (g i = t \<and> tabulates g ts (i + 1))"

lemma tabulates_nth: "tabulates g ts i \<Longrightarrow> k < length ts \<Longrightarrow> ts ! k = g (i + of_nat k)"
proof (induction g ts i arbitrary: k rule: tabulates.induct)
  case (2 g t ts i)
  then show ?case by (cases k) (auto simp: algebra_simps)
qed simp

lemma crc8_tbl_tabulates: "tabulates (crc8_shift ^^ 8) crc8_tbl 0"
  by (simp add: crc8_tbl_def crc8_shift8 crc8_shift_def)

lemma crc8_tbl_bits: "crc8_tbl ! unat (r XOR x) = crc8_bits r x"
  using tabulates_nth[OF crc8_tbl_tabulates, of "unat (r XOR x)"] u8_less[of "r XOR x"]
  by (simp add: crc8_bits_def)

lemma crc8_loop_foldl:
  "crc8_loop r ptr len = (if len \<le> length ptr then Some (foldl crc8_bits r (take len ptr)) else None)"
  by (induction r ptr len rule: crc8_loop.induct) (auto simp: crc8_tbl_bits)

lemma crc8_shift_inj: "crc8_shift a = crc8_shift b \<Longrightarrow> a = b"
proof -
  assume eq: "crc8_shift a = crc8_shift b"
  have b7: "bit (crc8_shift x) 7 = bit x 0" for x
    by (auto simp: crc8_shift_def bit_simps dest: bit_imp_le_length)
  have bk: "bit x (Suc n) = (bit (crc8_shift x) n \<noteq> (bit x 0 \<and> bit (0xE0 :: u8) n))" if "n < 7" for x n
    using that by (auto simp: crc8_shift_def bit_simps)
  show "a = b"
  proof (rule bit_word_eqI)
    fix n assume "n < LENGTH(8)"
    then show "bit a n = bit b n"
      using b7[of a] b7[of b] bk[of "n - 1" a] bk[of "n - 1" b] eq by (cases n) auto
  qed
qed

lemma xor_cancel [simp]: "(a :: 'a::len word) XOR x = a XOR y \<longleftrightarrow> x = y"
proof
  assume "a XOR x = a XOR y"
  then have "(a XOR a) XOR x = (a XOR a) XOR y" by (simp only: xor.assoc)
  then show "x = y" by simp
qed simp

lemma xor_cancel_right [simp]: "(x :: 'a::len word) XOR a = y XOR a \<longleftrightarrow> x = y"
  by (simp only: xor.commute[of _ a] xor_cancel)

lemma crc8_bits_inj: "(crc8_shift ^^ 8) a = (crc8_shift ^^ 8) b \<Longrightarrow> a = b"
  by (rule injD[OF inj_fn[OF injI[OF crc8_shift_inj]]])

interpretation crc8: byte_checksum crc8_bits
  by unfold_locales (auto simp: crc8_bits_def dest: crc8_bits_inj)

text \<open>C36 The table-driven CRC-8 is the bit-serial register of the reflected polynomial \<open>0xE0\<close>
  run over the bytes: every one of the 256 table entries is eight shifts of its index. It fails
  only when the length given exceeds the buffer.\<close>

theorem NST_GetCrc8_correct:
  "NST_GetCrc8 p n = (if n \<le> length p then Some (foldl crc8_bits 0 (take n p)) else None)"
  by (simp add: NST_GetCrc8_def crc8_loop_foldl)

text \<open>Changing one byte of a message, at any position, always changes its CRC-8.\<close>

theorem NST_GetCrc8_single_byte:
  "NST_GetCrc8 (pre @ x # post) (length pre + 1 + length post) =
   NST_GetCrc8 (pre @ y # post) (length pre + 1 + length post) \<longleftrightarrow> x = y"
  by (auto simp: NST_GetCrc8_def crc8_loop_foldl simp del: foldl_append foldl_Cons
      dest!: crc8.single_byte_detected)

section \<open>CRC-32\<close>

text \<open>
  \<open>d i\<close> is \<open>in_data_buf[i]\<close>, \<open>c i\<close> is \<open>crc_buf[i]\<close>: bytes that hold one bit each.
\<close>

definition crc_out :: "(nat \<Rightarrow> u8) \<Rightarrow> (nat \<Rightarrow> u8) \<Rightarrow> u8 list" where
  "crc_out d c =
     [d 1 XOR d 7 XOR c 30 XOR c 24,
      d 0 XOR d 1 XOR d 6 XOR d 7 XOR c 31 XOR c 30 XOR c 25 XOR c 24,
      d 0 XOR d 1 XOR d 5 XOR d 6 XOR d 7 XOR c 31 XOR c 30 XOR c 26 XOR c 25 XOR c 24,
      d 0 XOR d 4 XOR d 5 XOR d 6 XOR c 31 XOR c 27 XOR c 26 XOR c 25,
      d 1 XOR d 3 XOR d 4 XOR d 5 XOR d 7 XOR c 30 XOR c 28 XOR c 27 XOR c 26 XOR c 24,
      d 0 XOR d 1 XOR d 2 XOR d 3 XOR d 4 XOR d 6 XOR d 7 XOR c 31 XOR c 30 XOR c 29 XOR c 28 XOR c 27 XOR c 25 XOR c 24,
      d 0 XOR d 1 XOR d 2 XOR d 3 XOR d 5 XOR d 6 XOR c 31 XOR c 30 XOR c 29 XOR c 28 XOR c 26 XOR c 25,
      d 0 XOR d 2 XOR d 4 XOR d 5 XOR d 7 XOR c 31 XOR c 29 XOR c 27 XOR c 26 XOR c 24,
      d 3 XOR d 4 XOR d 6 XOR d 7 XOR c 28 XOR c 27 XOR c 25 XOR c 24 XOR c 0,
      d 2 XOR d 3 XOR d 5 XOR d 6 XOR c 29 XOR c 28 XOR c 26 XOR c 25 XOR c 1,
      d 2 XOR d 4 XOR d 5 XOR d 7 XOR c 29 XOR c 27 XOR c 26 XOR c 24 XOR c 2,
      d 3 XOR d 4 XOR d 6 XOR d 7 XOR c 28 XOR c 27 XOR c 25 XOR c 24 XOR c 3,
      d 1 XOR d 2 XOR d 3 XOR d 5 XOR d 6 XOR d 7 XOR c 30 XOR c 29 XOR c 28 XOR c 26 XOR c 25 XOR c 24 XOR c 4,
      d 0 XOR d 1 XOR d 2 XOR d 4 XOR d 5 XOR d 6 XOR c 31 XOR c 30 XOR c 29 XOR c 27 XOR c 26 XOR c 25 XOR c 5,
      d 0 XOR d 1 XOR d 3 XOR d 4 XOR d 5 XOR c 31 XOR c 30 XOR c 28 XOR c 27 XOR c 26 XOR c 6,
      d 0 XOR d 2 XOR d 3 XOR d 4 XOR c 31 XOR c 29 XOR c 28 XOR c 27 XOR c 7,
      d 2 XOR d 3 XOR d 7 XOR c 29 XOR c 28 XOR c 24 XOR c 8,
      d 1 XOR d 2 XOR d 6 XOR c 30 XOR c 29 XOR c 25 XOR c 9,
      d 0 XOR d 1 XOR d 5 XOR c 31 XOR c 30 XOR c 26 XOR c 10,
      d 0 XOR d 4 XOR c 31 XOR c 27 XOR c 11,
      d 3 XOR c 28 XOR c 12,
      d 2 XOR c 29 XOR c 13,
      d 7 XOR c 24 XOR c 14,
      d 1 XOR d 6 XOR d 7 XOR c 30 XOR c 25 XOR c 24 XOR c 15,
      d 0 XOR d 5 XOR d 6 XOR c 31 XOR c 26 XOR c 25 XOR c 16,
      d 4 XOR d 5 XOR c 27 XOR c 26 XOR c 17,
      d 1 XOR d 3 XOR d 4 XOR d 7 XOR c 30 XOR c 28 XOR c 27 XOR c 24 XOR c 18,
      d 0 XOR d 2 XOR d 3 XOR d 6 XOR c 31 XOR c 29 XOR c 28 XOR c 25 XOR c 19,
      d 1 XOR d 2 XOR d 5 XOR c 30 XOR c 29 XOR c 26 XOR c 20,
      d 0 XOR d 1 XOR d 4 XOR c 31 XOR c 30 XOR c 27 XOR c 21,
      d 0 XOR d 3 XOR c 31 XOR c 28 XOR c 22,
      d 2 XOR c 23 XOR c 29]"

definition in_data_buf :: "u8 \<Rightarrow> nat \<Rightarrow> u8" where
  "in_data_buf data_8 i = drop_bit i data_8 AND 1"

definition crc_buf :: "u32 \<Rightarrow> nat \<Rightarrow> u8" where
  "crc_buf crc_result i = ucast (drop_bit i crc_result) AND 1"

definition collect_bits :: "(nat \<Rightarrow> bool) \<Rightarrow> u32" where
  "collect_bits f = foldl (\<lambda>r i. if f i then r OR push_bit i 1 else r) 0 [0..<32]"

definition cal_crc32 :: "u32 \<Rightarrow> u8 \<Rightarrow> u32" where
  "cal_crc32 crc_result data_8 =
     (let out = crc_out (in_data_buf data_8) (crc_buf crc_result)
      in collect_bits (\<lambda>i. out ! i \<noteq> 0))"

definition reverse32 :: "u32 \<Rightarrow> u32" where
  "reverse32 w = foldl (\<lambda>v i. if bit w i then v OR push_bit (31 - i) 1 else v) 0 [0..<32]"

fun crc32_loop :: "u32 \<Rightarrow> bytes \<Rightarrow> nat \<Rightarrow> u32 option" where
  "crc32_loop crc pData 0 = Some crc"
| "crc32_loop crc [] (Suc n) = None"
| "crc32_loop crc (x # pData) (Suc n) = crc32_loop (cal_crc32 crc x) pData n"

definition NST_GetCrc32 :: "bytes \<Rightarrow> nat \<Rightarrow> u32 option" where
  "NST_GetCrc32 pData DataSize =
     map_option (\<lambda>crc. NOT (reverse32 crc)) (crc32_loop 0xFFFFFFFF pData DataSize)"

text \<open>The bit-serial register: shift left, the data bits enter at the top, lowest bit first.\<close>

definition crc32_shift :: "u32 \<Rightarrow> u32" where
  "crc32_shift r = push_bit 1 r XOR (if bit r 31 then 0x04C11DB7 else 0)"

definition crc32_in :: "u32 \<Rightarrow> bool \<Rightarrow> u32" where
  "crc32_in r b = crc32_shift (r XOR (if b then 0x80000000 else 0))"

definition crc32_bits :: "u32 \<Rightarrow> u8 \<Rightarrow> u32" where
  "crc32_bits r x = foldl (\<lambda>r i. crc32_in r (bit x i)) r [0..<8]"

lemma bit_collect_aux:
  "bit (foldl (\<lambda>r i. if f i then r OR push_bit i 1 else r) r0 [0..<n]) k
     = (bit r0 k \<or> (k < n \<and> k < 32 \<and> f k))" for r0 :: u32
  by (induction n) (auto simp: bit_simps less_Suc_eq)

lemma bit_collect_bits: "bit (collect_bits f) k = (k < 32 \<and> f k)"
  unfolding collect_bits_def by (subst bit_collect_aux) auto

lemma crc_out_and: "crc_out (\<lambda>i. d i AND m) (\<lambda>i. c i AND m) = map (\<lambda>v. v AND m) (crc_out d c)"
  by (simp add: crc_out_def bit.conj_xor_distrib2)

lemma length_crc_out [simp]: "length (crc_out d c) = 32"
  by (simp add: crc_out_def)

lemma in_data_buf_and: "in_data_buf x i AND 1 = in_data_buf x i"
  by (simp add: in_data_buf_def and.assoc)

lemma crc_buf_and: "crc_buf c i AND 1 = crc_buf c i"
  by (simp add: crc_buf_def and.assoc)

lemma and_one_iff:
  fixes v :: u8
  assumes "v AND 1 = v"
  shows "v \<noteq> 0 \<longleftrightarrow> bit v 0"
proof
  assume "v \<noteq> 0"
  then obtain n where n: "bit v n" by (auto simp: bit_eq_iff)
  then have "bit (v AND 1) n" unfolding assms .
  then have "n = 0" by (simp only: bit_and_iff bit_1_iff)
  with n show "bit v 0" by simp
qed auto

lemma crc_out_bit:
  assumes "k < 32"
  shows "crc_out (in_data_buf x) (crc_buf c) ! k \<noteq> 0 \<longleftrightarrow> bit (crc_out (in_data_buf x) (crc_buf c) ! k) 0"
proof (rule and_one_iff)
  have "map (\<lambda>v. v AND 1) (crc_out (in_data_buf x) (crc_buf c)) = crc_out (in_data_buf x) (crc_buf c)"
    by (rule crc_out_and[of "in_data_buf x" 1 "crc_buf c", unfolded in_data_buf_and crc_buf_and, symmetric])
  then have "map (\<lambda>v. v AND 1) (crc_out (in_data_buf x) (crc_buf c)) ! k =
      crc_out (in_data_buf x) (crc_buf c) ! k"
    by (rule arg_cong)
  with assms show "crc_out (in_data_buf x) (crc_buf c) ! k AND 1 = crc_out (in_data_buf x) (crc_buf c) ! k"
    by (simp only: nth_map length_crc_out)
qed

lemma bit_cal_crc32:
  "bit (cal_crc32 c x) k \<longleftrightarrow> k < 32 \<and> bit (crc_out (in_data_buf x) (crc_buf c) ! k) 0"
  using crc_out_bit[of k x c] by (auto simp: cal_crc32_def bit_collect_bits)

text \<open>
  The register as a list of 32 one-bit bytes, and one shift of it. Eight shifts of the list,
  expanded symbolically, are the rows of \<open>crc_out\<close>.
\<close>

definition taps :: "bool list" where
  "taps = map (bit (0x04C11DB7 :: u32)) [0..<32]"

definition crc_shift_list :: "u8 \<Rightarrow> u8 list \<Rightarrow> u8 list" where
  "crc_shift_list d cs =
     (let f = last cs XOR d in map2 (\<lambda>p c. if p then c XOR f else c) taps (0 # butlast cs))"

lemma taps_eq: "taps = [True, True, True, False, True, True, False, True, True, False, True, True, True, False, False, False, True, False, False, False, False, False, True, True, False, False, True, False, False, False, False, False]"
  by (simp add: taps_def upt_rec eval_nat_numeral)

lemma xor_left_cancel_self: "x XOR (x XOR y) = y" for x :: "'a::len word"
  by (simp flip: xor.assoc)

lemmas xor_ac = xor.assoc xor.commute xor.left_commute xor_left_cancel_self

lemma crc_out_shifts:
  "crc_out d c = crc_shift_list (d 7) (crc_shift_list (d 6) (crc_shift_list (d 5) (crc_shift_list (d 4)
     (crc_shift_list (d 3) (crc_shift_list (d 2) (crc_shift_list (d 1) (crc_shift_list (d 0)
       [c 0, c 1, c 2, c 3, c 4, c 5, c 6, c 7, c 8, c 9, c 10, c 11, c 12, c 13, c 14, c 15, c 16, c 17, c 18, c 19, c 20, c 21, c 22, c 23, c 24, c 25, c 26, c 27, c 28, c 29, c 30, c 31])))))))"
  by (simp add: crc_shift_list_def taps_eq Let_def crc_out_def xor_ac)

definition holds_reg :: "u32 \<Rightarrow> u8 list \<Rightarrow> bool" where
  "holds_reg r cs \<longleftrightarrow> length cs = 32 \<and> (\<forall>k < 32. bit (cs ! k) 0 = bit r k)"

lemma bit_crc32_shift:
  "bit (crc32_shift r) k \<longleftrightarrow>
     k < 32 \<and> (0 < k \<and> bit r (k - 1)) \<noteq> (bit r 31 \<and> bit (0x04C11DB7 :: u32) k)"
  unfolding crc32_shift_def bit_xor_iff bit_push_bit_iff
  using bit_imp_le_length[of "0x04C11DB7 :: u32" k]
  by (auto simp del: bit_numeral_word_iff)

lemma bit_msb32: "bit (0x80000000 :: u32) j = (j = 31)"
proof -
  have "(0x80000000 :: u32) = push_bit 31 1" by simp
  then show ?thesis by (simp only: bit_push_bit_iff bit_1_iff) auto
qed

lemma bit_crc32_in:
  "bit (crc32_in r b) k \<longleftrightarrow>
     k < 32 \<and> (0 < k \<and> bit r (k - 1)) \<noteq> ((bit r 31 \<noteq> b) \<and> bit (0x04C11DB7 :: u32) k)"
  by (cases k) (auto simp: crc32_in_def bit_crc32_shift bit_xor_iff bit_msb32 simp del: bit_numeral_word_iff)

lemma holds_reg_shift:
  assumes "holds_reg r cs"
  shows "holds_reg (crc32_in r (bit d 0)) (crc_shift_list d cs)"
proof -
  have len: "length cs = 32" and eq: "k < 32 \<Longrightarrow> bit (cs ! k) 0 = bit r k" for k
    using assms by (auto simp: holds_reg_def)
  have "last cs = cs ! 31" using len by (subst last_conv_nth) auto
  moreover have "(0 # butlast cs) ! k = (if k = 0 then 0 else cs ! (k - 1))" if "k < 32" for k
    using that len by (cases k) (auto simp: nth_butlast)
  moreover have "length taps = 32" "k < 32 \<Longrightarrow> taps ! k = bit (0x04C11DB7 :: u32) k" for k
    by (simp_all add: taps_def)
  ultimately show ?thesis
    using len by (auto simp: holds_reg_def crc_shift_list_def Let_def bit_xor_iff eq bit_crc32_in simp del: bit_0)
qed

lemma holds_reg_crc_buf:
  "holds_reg c [crc_buf c 0, crc_buf c 1, crc_buf c 2, crc_buf c 3, crc_buf c 4, crc_buf c 5, crc_buf c 6, crc_buf c 7, crc_buf c 8, crc_buf c 9, crc_buf c 10, crc_buf c 11, crc_buf c 12, crc_buf c 13, crc_buf c 14, crc_buf c 15, crc_buf c 16, crc_buf c 17, crc_buf c 18, crc_buf c 19, crc_buf c 20, crc_buf c 21, crc_buf c 22, crc_buf c 23, crc_buf c 24, crc_buf c 25, crc_buf c 26, crc_buf c 27, crc_buf c 28, crc_buf c 29, crc_buf c 30, crc_buf c 31]"
  unfolding holds_reg_def by (auto simp: less_Suc_eq numeral_eq_Suc crc_buf_def bit_simps)

lemma crc_out_reg: "holds_reg (crc32_bits c x) (crc_out (in_data_buf x) (crc_buf c))"
proof -
  have bits: "bit (in_data_buf x i) 0 = bit x i" if "i < 8" for i
    using that by (simp add: in_data_buf_def bit_simps del: bit_0)
  let ?b = "\<lambda>i. bit (in_data_buf x i) 0"
  have "holds_reg (crc32_in (crc32_in (crc32_in (crc32_in (crc32_in (crc32_in (crc32_in (crc32_in c
      (?b 0)) (?b 1)) (?b 2)) (?b 3)) (?b 4)) (?b 5)) (?b 6)) (?b 7)) (crc_out (in_data_buf x) (crc_buf c))"
    unfolding crc_out_shifts by (intro holds_reg_shift holds_reg_crc_buf)
  then show ?thesis by (simp add: bits crc32_bits_def upt_0_8 del: bit_0)
qed

lemma cal_crc32_bits: "cal_crc32 c x = crc32_bits c x"
  using crc_out_reg[of c x]
  by (intro bit_word_eqI) (simp add: bit_cal_crc32 holds_reg_def del: bit_0)

lemma crc32_loop_foldl:
  "crc32_loop r p n = (if n \<le> length p then Some (foldl crc32_bits r (take n p)) else None)"
  by (induction r p n rule: crc32_loop.induct) (auto simp: cal_crc32_bits)

lemma crc32_in_eqD:
  assumes "\<And>k. k < n \<Longrightarrow> bit (crc32_in r b) k = bit (crc32_in r' b') k" and "0 < n" and "n \<le> 32"
  shows "(bit r 31 \<noteq> b) = (bit r' 31 \<noteq> b')" and "k + 1 < n \<Longrightarrow> bit r k = bit r' k"
proof -
  show top: "(bit r 31 \<noteq> b) = (bit r' 31 \<noteq> b')"
    using assms(1)[of 0] assms(2) by (simp add: bit_crc32_in del: bit_0)
  show "bit r k = bit r' k" if "k + 1 < n"
    using assms(1)[of "k + 1"] that assms(3) top by (auto simp: bit_crc32_in)
qed

lemma foldl_crc32_in_low:
  assumes "foldl crc32_in r bs = foldl crc32_in r' bs'" and "length bs = length bs'" and "length bs \<le> 31"
  shows "k < 32 - length bs \<Longrightarrow> bit r k = bit r' k"
  using assms
proof (induction bs arbitrary: bs' r r' k)
  case (Cons b bs)
  then obtain b' cs where bs': "bs' = b' # cs" by (cases bs') auto
  have "\<And>k. k < 32 - length bs \<Longrightarrow> bit (crc32_in r b) k = bit (crc32_in r' b') k"
    using Cons.prems bs' by (intro Cons.IH[where bs' = cs]) auto
  from crc32_in_eqD(2)[where n = "32 - length bs" and k = k, OF this] Cons.prems show ?case by auto
qed simp

lemma foldl_crc32_in_inj_bits:
  assumes "foldl crc32_in r bs = foldl crc32_in r bs'" and "length bs = length bs'" and "length bs \<le> 31"
  shows "bs = bs'"
  using assms
proof (induction bs arbitrary: bs' r)
  case (Cons b bs)
  then obtain b' cs where bs': "bs' = b' # cs" by (cases bs') auto
  have "\<And>k. k < 32 - length bs \<Longrightarrow> bit (crc32_in r b) k = bit (crc32_in r b') k"
    using Cons.prems bs' by (intro foldl_crc32_in_low[of "crc32_in r b" bs "crc32_in r b'" cs]) auto
  from crc32_in_eqD(1)[where n = "32 - length bs", OF this] Cons.prems have "b = b'" by auto
  then show ?case using Cons.prems bs' Cons.IH[of "crc32_in r b" cs] by auto
qed simp

lemma foldl_crc32_in_inj_reg: "foldl crc32_in r bs = foldl crc32_in r' bs \<Longrightarrow> r = r'"
proof (induction bs arbitrary: r r')
  case (Cons b bs)
  then have eq: "crc32_in r b = crc32_in r' b" by auto
  have "bit r k = bit r' k" if "k < 32" for k
    using crc32_in_eqD(1)[of 32 r b r' b] crc32_in_eqD(2)[of 32 r b r' b k] eq that
    by (cases "k = 31") auto
  then show ?case by (intro bit_word_eqI) simp
qed simp

lemma crc32_bits_foldl: "crc32_bits r x = foldl crc32_in r (map (bit x) [0..<8])"
  by (simp add: crc32_bits_def foldl_map)

interpretation crc32: byte_checksum crc32_bits
proof unfold_locales
  show "a = b" if "crc32_bits a x = crc32_bits b x" for a b x
    using that unfolding crc32_bits_foldl by (rule foldl_crc32_in_inj_reg)
  show "x = y" if "crc32_bits a x = crc32_bits a y" for a x y
  proof -
    have "map (bit x) [0..<8] = map (bit y) [0..<8]"
      using that unfolding crc32_bits_foldl by (rule foldl_crc32_in_inj_bits) simp_all
    then show ?thesis by (intro bit_word_eqI) auto
  qed
qed

lemma bit_reverse32_aux:
  "n \<le> 32 \<Longrightarrow> bit (foldl (\<lambda>v i. if bit w i then v OR push_bit (31 - i) 1 else v) (0 :: u32) [0..<n]) k
     \<longleftrightarrow> k < 32 \<and> 31 - k < n \<and> bit w (31 - k)"
proof (induction n)
  case (Suc n)
  have "bit (push_bit (31 - n) 1 :: u32) k \<longleftrightarrow> k < 32 \<and> 31 - k = n"
    using Suc.prems unfolding bit_push_bit_iff bit_1_iff by auto
  then show ?case using Suc by (auto simp: bit_or_iff less_Suc_eq simp del: push_bit_of_1)
qed simp

lemma bit_reverse32: "bit (reverse32 w) k \<longleftrightarrow> k < 32 \<and> bit w (31 - k)"
  unfolding reverse32_def by (subst bit_reverse32_aux) auto

lemma reverse32_inj: "reverse32 v = reverse32 w \<Longrightarrow> v = w"
proof (rule bit_word_eqI)
  fix k assume eq: "reverse32 v = reverse32 w" and "k < LENGTH(32)"
  then have k: "k < 32" by simp
  have "31 - k < 32" by simp
  from eq have "bit (reverse32 v) (31 - k) = bit (reverse32 w) (31 - k)" by simp
  with k \<open>31 - k < 32\<close> show "bit v k = bit w k" by (auto simp: bit_reverse32)
qed

text \<open>C23 The hand-expanded matrix of \<open>_cal_crc32\<close>, run over the bytes, is the bit-serial CRC-32
  register with polynomial \<open>0x04C11DB7\<close>, fed the low bit of every byte first, started at all
  ones, read out in reverse and complemented (the standard CRC-32); it fails only when the
  length given exceeds the buffer.\<close>

theorem NST_GetCrc32_correct:
  "NST_GetCrc32 p n =
     (if n \<le> length p then Some (NOT (reverse32 (foldl crc32_bits 0xFFFFFFFF (take n p)))) else None)"
  by (simp add: NST_GetCrc32_def crc32_loop_foldl)

text \<open>Changing one byte of a message, at any position, always changes its CRC-32.\<close>

theorem NST_GetCrc32_single_byte:
  "NST_GetCrc32 (pre @ x # post) (length pre + 1 + length post) =
   NST_GetCrc32 (pre @ y # post) (length pre + 1 + length post) \<longleftrightarrow> x = y"
  by (auto simp: NST_GetCrc32_def crc32_loop_foldl simp del: foldl_append foldl_Cons
      dest!: reverse32_inj crc32.single_byte_detected)

end
