(* ===== verification/OsDmem.thy ===== *)
theory OsDmem
  imports Prelude
begin

text \<open>
  The system heap, \<^verbatim>\<open>Source/Ports/Cortex-M3/os_dmem.c\<close>: a pool of memory divided into blocks,
  each behind a 16-byte header that links it to its neighbours in a circular list which is
  closed by an always allocated trailer header. \<open>OS_GetMem\<close> searches the circle from the
  search pointer for the first block large enough and splits it; \<open>OS_FreeMem\<close> frees a block and
  merges it with its free neighbours.

  Headers are an explicit store, a map from addresses to header records; dereferencing an
  address that holds no header is \<open>None\<close>. Addresses and sizes are naturals with the 32-bit
  wrap-around written out (\<open>add32\<close>, \<open>sub32\<close>). The list of blocks is the abstract state:
  \<open>pool_rep\<close> relates the two, and the operations are shown to refine operations on it.
\<close>

section \<open>State\<close>

definition add32 :: "nat \<Rightarrow> nat \<Rightarrow> nat" where
  "add32 a b = (a + b) mod 2 ^ 32"

definition sub32 :: "nat \<Rightarrow> nat \<Rightarrow> nat" where
  "sub32 a b = (a + 2 ^ 32 - b) mod 2 ^ 32"

definition DM_OVERHEAD :: nat where "DM_OVERHEAD = (16 + 4 - 1) div 4 * 4"
definition DM_DYNAMIC_ID :: nat where "DM_DYNAMIC_ID = 0x44594e41"
definition OS_DMEM_POOL_SIZE :: nat where "OS_DMEM_POOL_SIZE = 20 * 1024"

record dm_header =
  dm_next_memory :: nat
  dm_previous_memory :: nat
  dm_memory_free :: bool
  dm_memory_pool :: nat

record dm_pcb =
  dm_id :: nat
  dm_name :: bytes
  dm_start_address :: nat
  dm_pool_size :: nat
  dm_min_allocation :: nat
  dm_available :: nat
  dm_memory_list :: nat
  dm_search_ptr :: nat

text \<open>
  \<open>pcb_addr\<close> is the address of the control block \<open>OS_system_mempool\<close>, which every header of the
  pool points back to.
\<close>

record dmem =
  pcb_addr :: nat
  pcb :: dm_pcb
  heads :: "nat \<Rightarrow> dm_header option"
  DMD_Total_Pools :: nat

datatype dm_status = OS_ERR_NONE | OS_ERR_MEM_FULL

definition round4 :: "nat \<Rightarrow> nat" where
  "round4 n = add32 n 3 div 4 * 4"

section \<open>Operations\<close>

subsection \<open>Creating and deleting a pool\<close>

definition OS_Create_Memory_Pool :: "dmem \<Rightarrow> bytes \<Rightarrow> nat \<Rightarrow> nat \<Rightarrow> nat \<Rightarrow> dmem option" where
  "OS_Create_Memory_Pool st name start_address size0 min_allocation =
     do {
       nm \<leftarrow> rd_seg name 0 4;
       let pool_size = size0 div 4 * 4;
       let avail = sub32 pool_size (2 * DM_OVERHEAD);
       let trailer = add32 (add32 start_address avail) DM_OVERHEAD;
       let first = \<lparr>dm_next_memory = trailer, dm_previous_memory = trailer,
                    dm_memory_free = True, dm_memory_pool = pcb_addr st\<rparr>;
       let last = \<lparr>dm_next_memory = start_address, dm_previous_memory = start_address,
                   dm_memory_free = False, dm_memory_pool = pcb_addr st\<rparr>;
       Some (st\<lparr>pcb := \<lparr>dm_id = DM_DYNAMIC_ID, dm_name = nm, dm_start_address = start_address,
                   dm_pool_size = pool_size, dm_min_allocation = round4 min_allocation,
                   dm_available = avail, dm_memory_list = start_address,
                   dm_search_ptr = start_address\<rparr>,
                 heads := (heads st)(start_address \<mapsto> first, trailer \<mapsto> last),
                 DMD_Total_Pools := DMD_Total_Pools st + 1\<rparr>)
     }"

definition OS_DelMemPool :: "dmem \<Rightarrow> dmem" where
  "OS_DelMemPool st =
     st\<lparr>pcb := (pcb st)\<lparr>dm_id := 0\<rparr>, DMD_Total_Pools := sub32 (DMD_Total_Pools st) 1\<rparr>"

subsection \<open>Allocation\<close>

definition request_size :: "dm_pcb \<Rightarrow> nat \<Rightarrow> nat" where
  "request_size p sz = (if sz < dm_min_allocation p then dm_min_allocation p else round4 sz)"

text \<open>
  The search loop; \<open>sp\<close> is \<open>dm_search_ptr\<close>. It ends with the pointer and the last \<open>free_size\<close>.
  The fuel bounds the iterations; running out of it (a circle that never comes back to \<open>sp\<close>) is
  \<open>None\<close>.
\<close>

fun dm_scan :: "(nat \<Rightarrow> dm_header option) \<Rightarrow> nat \<Rightarrow> nat \<Rightarrow> nat \<Rightarrow> nat \<Rightarrow> (nat \<times> nat) option" where
  "dm_scan hs sp sz 0 memory_ptr = None"
| "dm_scan hs sp sz (Suc fuel) memory_ptr =
     (case hs memory_ptr of
        None \<Rightarrow> None
      | Some h \<Rightarrow>
          let free_size = (if dm_memory_free h
                           then sub32 (sub32 (dm_next_memory h) memory_ptr) DM_OVERHEAD else 0)
          in if free_size < sz
             then (if dm_next_memory h \<noteq> sp then dm_scan hs sp sz fuel (dm_next_memory h)
                   else Some (dm_next_memory h, free_size))
             else Some (memory_ptr, free_size))"

text \<open>Splitting the block found: the new header, and the links around it.\<close>

definition dm_split :: "dmem \<Rightarrow> nat \<Rightarrow> nat \<Rightarrow> dmem option" where
  "dm_split st memory_ptr sz =
     do {
       h \<leftarrow> heads st memory_ptr;
       let new_ptr = add32 (add32 memory_ptr sz) DM_OVERHEAD;
       let new = \<lparr>dm_next_memory = dm_next_memory h, dm_previous_memory = memory_ptr,
                  dm_memory_free = True, dm_memory_pool = pcb_addr st\<rparr>;
       let hs1 = (heads st)(new_ptr \<mapsto> new);
       nxt \<leftarrow> hs1 (dm_next_memory new);
       let hs2 = hs1(dm_next_memory new \<mapsto> nxt\<lparr>dm_previous_memory := new_ptr\<rparr>);
       h2 \<leftarrow> hs2 memory_ptr;
       let hs3 = hs2(memory_ptr \<mapsto> h2\<lparr>dm_next_memory := new_ptr\<rparr>);
       Some (st\<lparr>heads := hs3,
                 pcb := (pcb st)\<lparr>dm_available := sub32 (sub32 (dm_available (pcb st)) sz) DM_OVERHEAD\<rparr>\<rparr>)
     }"

definition OS_GetMem :: "dmem \<Rightarrow> nat \<Rightarrow> (dm_status \<times> nat \<times> dmem) option" where
  "OS_GetMem st size0 =
     do {
       let sz = request_size (pcb st) size0;
       (memory_ptr, free_size) \<leftarrow>
         dm_scan (heads st) (dm_search_ptr (pcb st)) sz (Suc (dm_pool_size (pcb st)))
           (dm_search_ptr (pcb st));
       if sz \<le> free_size then do {
         st1 \<leftarrow> (if add32 (add32 sz DM_OVERHEAD) (dm_min_allocation (pcb st)) \<le> free_size
                then dm_split st memory_ptr sz
                else Some (st\<lparr>pcb := (pcb st)\<lparr>dm_available := sub32 (dm_available (pcb st)) free_size\<rparr>\<rparr>));
         h \<leftarrow> heads st1 memory_ptr;
         let st2 = st1\<lparr>heads := (heads st1)(memory_ptr \<mapsto> h\<lparr>dm_memory_free := False\<rparr>)\<rparr>;
         let st3 = (if dm_search_ptr (pcb st2) = memory_ptr
                    then st2\<lparr>pcb := (pcb st2)\<lparr>dm_search_ptr := dm_next_memory h\<rparr>\<rparr> else st2);
         Some (OS_ERR_NONE, add32 memory_ptr DM_OVERHEAD, st3)
       }
       else Some (OS_ERR_MEM_FULL, 0, st)
     }"

subsection \<open>Release\<close>

text \<open>
  The three parts of \<open>OS_FreeMem\<close>: marking the block, merging it into a free previous block, and
  merging the free next block into it. The merges return the header that is current afterwards.
\<close>

definition dm_mark_free :: "dmem \<Rightarrow> nat \<Rightarrow> dmem option" where
  "dm_mark_free st header_ptr =
     do {
       h \<leftarrow> heads st header_ptr;
       if dm_memory_pool h = pcb_addr st then
         Some (st\<lparr>heads := (heads st)(header_ptr \<mapsto> h\<lparr>dm_memory_free := True\<rparr>),
                   pcb := (pcb st)\<lparr>dm_available :=
                     sub32 (add32 (dm_available (pcb st)) (sub32 (dm_next_memory h) header_ptr)) DM_OVERHEAD\<rparr>\<rparr>)
       else None
     }"

definition dm_merge_prev :: "dmem \<Rightarrow> nat \<Rightarrow> (nat \<times> dmem) option" where
  "dm_merge_prev st header_ptr =
     do {
       h \<leftarrow> heads st header_ptr;
       p \<leftarrow> heads st (dm_previous_memory h);
       if dm_memory_free p then do {
         let hs1 = (heads st)(dm_previous_memory h \<mapsto> p\<lparr>dm_next_memory := dm_next_memory h\<rparr>);
         h1 \<leftarrow> hs1 header_ptr;
         n \<leftarrow> hs1 (dm_next_memory h1);
         let hs2 = hs1(dm_next_memory h1 \<mapsto> n\<lparr>dm_previous_memory := dm_previous_memory h1\<rparr>);
         Some (dm_previous_memory h1,
               st\<lparr>heads := hs2,
                  pcb := (pcb st)\<lparr>dm_available := add32 (dm_available (pcb st)) DM_OVERHEAD,
                                   dm_search_ptr := dm_previous_memory h1\<rparr>\<rparr>)
       }
       else Some (header_ptr, st)
     }"

definition dm_merge_next :: "dmem \<Rightarrow> nat \<Rightarrow> dmem option" where
  "dm_merge_next st header_ptr =
     do {
       h \<leftarrow> heads st header_ptr;
       n \<leftarrow> heads st (dm_next_memory h);
       if dm_memory_free n then do {
         let new_ptr = dm_next_memory h;
         nn \<leftarrow> heads st (dm_next_memory n);
         let hs1 = (heads st)(dm_next_memory n \<mapsto> nn\<lparr>dm_previous_memory := header_ptr\<rparr>);
         n1 \<leftarrow> hs1 new_ptr;
         h1 \<leftarrow> hs1 header_ptr;
         let hs2 = hs1(header_ptr \<mapsto> h1\<lparr>dm_next_memory := dm_next_memory n1\<rparr>);
         Some (st\<lparr>heads := hs2,
                   pcb := (pcb st)\<lparr>dm_available := add32 (dm_available (pcb st)) DM_OVERHEAD,
                                    dm_search_ptr := header_ptr\<rparr>\<rparr>)
       }
       else Some st
     }"

definition OS_FreeMem :: "dmem \<Rightarrow> nat \<Rightarrow> dmem option" where
  "OS_FreeMem st memory =
     do {
       let header_ptr = sub32 memory DM_OVERHEAD;
       st1 \<leftarrow> dm_mark_free st header_ptr;
       (header_ptr', st2) \<leftarrow> dm_merge_prev st1 header_ptr;
       dm_merge_next st2 header_ptr'
     }"

subsection \<open>The system pool\<close>

definition OS_DMemInit :: "dmem \<Rightarrow> nat \<Rightarrow> dmem option" where
  "OS_DMemInit st sysemPool =
     OS_Create_Memory_Pool (st\<lparr>DMD_Total_Pools := 0\<rparr>) (ascii ''Sys'' @ [0]) sysemPool OS_DMEM_POOL_SIZE 16"

definition OSMMalloc :: "dmem \<Rightarrow> nat \<Rightarrow> (nat \<times> dmem) option" where
  "OSMMalloc st sz =
     do {
       (err, pointer, st') \<leftarrow> OS_GetMem st sz;
       Some (if err = OS_ERR_NONE then pointer else 0, st')
     }"

text \<open>\<open>OSMCalloc\<close> also returns the number of bytes its \<open>memset\<close> clears from the pointer on.\<close>

definition OSMCalloc :: "dmem \<Rightarrow> nat \<Rightarrow> nat \<Rightarrow> (nat \<times> nat \<times> dmem) option" where
  "OSMCalloc st cnt sz =
     do {
       let total = (cnt * sz) mod 2 ^ 32;
       (p, st') \<leftarrow> OSMMalloc st total;
       Some (p, if p \<noteq> 0 then total else 0, st')
     }"

definition OSMFree :: "dmem \<Rightarrow> nat \<Rightarrow> dmem option" where
  "OSMFree st ptr = OS_FreeMem st ptr"

section \<open>The block list\<close>

text \<open>
  The abstract state: the blocks in address order, each with its length (header included) and
  whether it is free. \<open>mk_heads\<close> lays the headers of a block list out from address \<open>a\<close>, followed by the
  trailer; \<open>s\<close> is the start of the pool, \<open>p\<close> the address of the previous header, \<open>c\<close> that of the
  control block.
\<close>

type_synonym blocks = "(nat \<times> bool) list"

definition blen :: "blocks \<Rightarrow> nat" where
  "blen bs = sum_list (map fst bs)"

definition mk_header :: "nat \<Rightarrow> nat \<Rightarrow> nat \<Rightarrow> bool \<Rightarrow> dm_header" where
  "mk_header c n p f = \<lparr>dm_next_memory = n, dm_previous_memory = p, dm_memory_free = f, dm_memory_pool = c\<rparr>"

fun mk_heads :: "nat \<Rightarrow> nat \<Rightarrow> nat \<Rightarrow> nat \<Rightarrow> blocks \<Rightarrow> nat \<Rightarrow> dm_header option" where
  "mk_heads c s p a [] = [a \<mapsto> mk_header c s p False]"
| "mk_heads c s p a ((l, f) # bs) = (mk_heads c s a (a + l) bs)(a \<mapsto> mk_header c (a + l) p f)"

fun mk_seg :: "nat \<Rightarrow> nat \<Rightarrow> nat \<Rightarrow> blocks \<Rightarrow> nat \<Rightarrow> dm_header option" where
  "mk_seg c p a [] = Map.empty"
| "mk_seg c p a ((l, f) # bs) = (mk_seg c a (a + l) bs)(a \<mapsto> mk_header c (a + l) p f)"

fun prev_of :: "nat \<Rightarrow> nat \<Rightarrow> blocks \<Rightarrow> nat" where
  "prev_of p a [] = p"
| "prev_of p a ((l, f) # bs) = prev_of a (a + l) bs"

fun no_adjacent_free :: "blocks \<Rightarrow> bool" where
  "no_adjacent_free ((_, f) # (l, g) # bs) = (\<not> (f \<and> g) \<and> no_adjacent_free ((l, g) # bs))"
| "no_adjacent_free _ = True"

definition block_ok :: "nat \<Rightarrow> nat \<times> bool \<Rightarrow> bool" where
  "block_ok mn b \<longleftrightarrow> DM_OVERHEAD + mn \<le> fst b \<and> 4 dvd fst b"

definition free_bytes :: "blocks \<Rightarrow> nat" where
  "free_bytes bs = sum_list (map (\<lambda>(l, f). if f then l - DM_OVERHEAD else 0) bs)"

text \<open>A position is the address of a block, or of the trailer.\<close>

definition position :: "nat \<Rightarrow> blocks \<Rightarrow> nat \<Rightarrow> bool" where
  "position s bs x \<longleftrightarrow> (\<exists>pre post. bs = pre @ post \<and> x = s + blen pre)"

definition pool_shape :: "dmem \<Rightarrow> blocks \<Rightarrow> bool" where
  "pool_shape st bs \<longleftrightarrow>
     (let p = pcb st; s = dm_start_address p in
      bs \<noteq> [] \<and> blen bs + DM_OVERHEAD = dm_pool_size p \<and>
      0 < dm_min_allocation p \<and> 4 dvd dm_min_allocation p \<and>
      0 < s \<and> 4 dvd s \<and> s + dm_pool_size p < 2 ^ 31 \<and>
      list_all (block_ok (dm_min_allocation p)) bs \<and>
      mk_heads (pcb_addr st) s (s + blen bs) s bs \<subseteq>\<^sub>m heads st \<and>
      dm_available p = free_bytes bs \<and>
      position s bs (dm_search_ptr p))"

definition pool_rep :: "dmem \<Rightarrow> blocks \<Rightarrow> bool" where
  "pool_rep st bs \<longleftrightarrow> pool_shape st bs \<and> no_adjacent_free bs"

subsection \<open>Lists of blocks\<close>

lemma DM_OVERHEAD_16 [simp]: "DM_OVERHEAD = 16"
  by (simp add: DM_OVERHEAD_def)

lemma add32_eq [simp]: "a + b < 2 ^ 32 \<Longrightarrow> add32 a b = a + b"
  by (simp add: add32_def)

lemma sub32_eq [simp]: "b \<le> a \<Longrightarrow> a < 2 ^ 32 \<Longrightarrow> sub32 a b = a - b"
  by (simp add: sub32_def mod_if)

lemma blen_simps [simp]:
  "blen [] = 0" "blen (b # bs) = fst b + blen bs" "blen (xs @ ys) = blen xs + blen ys"
  by (simp_all add: blen_def)

lemma free_bytes_simps [simp]:
  "free_bytes [] = 0"
  "free_bytes (b # bs) = (if snd b then fst b - 16 else 0) + free_bytes bs"
  "free_bytes (xs @ ys) = free_bytes xs + free_bytes ys"
  by (simp_all add: free_bytes_def split: prod.splits)

lemma free_bytes_le: "free_bytes bs \<le> blen bs"
  by (induction bs) auto

lemma prev_of_append [simp]: "prev_of p a (xs @ ys) = prev_of (prev_of p a xs) (a + blen xs) ys"
  by (induction p a xs rule: prev_of.induct) (auto simp: ac_simps)

lemma mk_heads_append:
  "list_all (\<lambda>b. 0 < fst b) xs \<Longrightarrow>
   mk_heads c s p a (xs @ ys) = mk_heads c s (prev_of p a xs) (a + blen xs) ys ++ mk_seg c p a xs"
  by (induction c p a xs rule: mk_seg.induct) (auto simp: ac_simps)

lemma mk_heads_dom: "list_all (\<lambda>b. 0 < fst b) bs \<Longrightarrow> mk_heads c s p a bs x \<noteq> None \<Longrightarrow> a \<le> x"
  by (induction c s p a bs rule: mk_heads.induct) (auto split: if_splits)

lemma mk_seg_dom: "list_all (\<lambda>b. 0 < fst b) bs \<Longrightarrow> mk_seg c p a bs x \<noteq> None \<Longrightarrow> a \<le> x \<and> x < a + blen bs"
  by (induction c p a bs rule: mk_seg.induct) (fastforce split: if_splits)+

lemma mk_heads_here [simp]:
  "mk_heads c s p a bs a = Some (mk_header c (case bs of [] \<Rightarrow> s | b # _ \<Rightarrow> a + fst b) p
     (case bs of [] \<Rightarrow> False | b # _ \<Rightarrow> snd b))"
  by (cases bs) auto

lemma mk_heads_set_prev:
  "list_all (\<lambda>b. 0 < fst b) bs \<Longrightarrow>
   (mk_heads c s p a bs)(a \<mapsto> mk_header c (case bs of [] \<Rightarrow> s | b # _ \<Rightarrow> a + fst b) q
     (case bs of [] \<Rightarrow> False | b # _ \<Rightarrow> snd b)) = mk_heads c s q a bs"
  by (cases bs) auto

lemma no_adjacent_free_append:
  "no_adjacent_free (xs @ ys) \<longleftrightarrow>
     no_adjacent_free xs \<and> no_adjacent_free ys \<and> (xs \<noteq> [] \<and> ys \<noteq> [] \<longrightarrow> \<not> (snd (last xs) \<and> snd (hd ys)))"
  by (induction xs rule: no_adjacent_free.induct; cases ys) auto

lemma no_adjacent_free_Cons:
  "no_adjacent_free (b # bs) \<longleftrightarrow> no_adjacent_free bs \<and> (bs \<noteq> [] \<longrightarrow> \<not> (snd b \<and> snd (hd bs)))"
  using no_adjacent_free_append[of "[b]" bs] by (cases b) auto

lemma mk_header_sel [simp]:
  "dm_next_memory (mk_header c n p f) = n" "dm_previous_memory (mk_header c n p f) = p"
  "dm_memory_free (mk_header c n p f) = f" "dm_memory_pool (mk_header c n p f) = c"
  "(mk_header c n p f)\<lparr>dm_next_memory := n'\<rparr> = mk_header c n' p f"
  "(mk_header c n p f)\<lparr>dm_previous_memory := p'\<rparr> = mk_header c n p' f"
  "(mk_header c n p f)\<lparr>dm_memory_free := f'\<rparr> = mk_header c n p f'"
  by (simp_all add: mk_header_def)

subsection \<open>The search\<close>

fun first_fit :: "nat \<Rightarrow> nat \<Rightarrow> blocks \<Rightarrow> (nat \<times> nat) option" where
  "first_fit sz a [] = None"
| "first_fit sz a ((l, f) # bs) =
     (if f \<and> sz \<le> l - 16 then Some (a, l - 16) else first_fit sz (a + l) bs)"

lemma first_fit_Some:
  "first_fit sz a bs = Some r \<Longrightarrow>
   \<exists>xs l ys. bs = xs @ (l, True) # ys \<and> r = (a + blen xs, l - 16) \<and> sz \<le> l - 16"
proof (induction sz a bs rule: first_fit.induct)
  case (2 sz a l f bs)
  show ?case
  proof (cases "f \<and> sz \<le> l - 16")
    case True
    then show ?thesis using "2.prems" by (intro exI[of _ "[]"]) auto
  next
    case False
    then obtain xs l' ys where "bs = xs @ (l', True) # ys \<and> r = (a + l + blen xs, l' - 16) \<and> sz \<le> l' - 16"
      using 2 by auto
    then show ?thesis by (intro exI[of _ "(l, f) # xs"]) auto
  qed
qed simp

lemma first_fit_None: "first_fit sz a bs = None \<longleftrightarrow> (\<forall>(l, f) \<in> set bs. f \<longrightarrow> l - 16 < sz)"
  by (induction sz a bs rule: first_fit.induct) (auto simp: not_le)

text \<open>\<open>laid_out c hs a bs\<close>: the store \<open>hs\<close> holds the headers of the blocks \<open>bs\<close> from \<open>a\<close> on.\<close>

fun laid_out :: "nat \<Rightarrow> (nat \<Rightarrow> dm_header option) \<Rightarrow> nat \<Rightarrow> blocks \<Rightarrow> bool" where
  "laid_out c hs a [] = True"
| "laid_out c hs a ((l, f) # bs) =
     ((\<exists>p. hs a = Some (mk_header c (a + l) p f)) \<and> laid_out c hs (a + l) bs)"

lemma dm_scan_step:
  assumes "hs a = Some (mk_header c (a + l) p f)" and "16 \<le> l" and "a + l < 2 ^ 32"
  shows "dm_scan hs sp sz (Suc n) a =
    (if (if f then l - 16 else 0) < sz
     then (if a + l \<noteq> sp then dm_scan hs sp sz n (a + l) else Some (sp, if f then l - 16 else 0))
     else Some (a, if f then l - 16 else 0))"
  using assms by (auto simp: Let_def)

declare dm_scan.simps(2) [simp del]

lemma dm_scan_seg:
  assumes "laid_out c hs a xs" and "list_all (\<lambda>b. 16 \<le> fst b) xs" and "a + blen xs < 2 ^ 32"
    and "0 < sz" and "sp \<le> a \<or> a + blen xs < sp"
  shows "dm_scan hs sp sz (length xs + n) a =
    (case first_fit sz a xs of Some r \<Rightarrow> Some r | None \<Rightarrow> dm_scan hs sp sz n (a + blen xs))"
  using assms
proof (induction sz a xs rule: first_fit.induct)
  case (2 sz a l f bs)
  then obtain p where h: "hs a = Some (mk_header c (a + l) p f)" by auto
  have "dm_scan hs sp sz (Suc (length bs + n)) a =
    (if (if f then l - 16 else 0) < sz
     then (if a + l \<noteq> sp then dm_scan hs sp sz (length bs + n) (a + l) else Some (sp, if f then l - 16 else 0))
     else Some (a, if f then l - 16 else 0))"
    using "2.prems" by (intro dm_scan_step) (auto intro: h)
  moreover have "a + l \<noteq> sp" using "2.prems" by auto
  moreover have "\<not> (f \<and> sz \<le> l - 16) \<Longrightarrow>
      dm_scan hs sp sz (length bs + n) (a + l) =
      (case first_fit sz (a + l) bs of Some r \<Rightarrow> Some r | None \<Rightarrow> dm_scan hs sp sz n (a + l + blen bs))"
    using "2.prems" by (intro "2.IH") auto
  ultimately show ?case using "2.prems" by (auto simp: ac_simps not_less split: option.split)
qed simp

lemma laid_out_upd: "b < a \<Longrightarrow> laid_out c (hs(b \<mapsto> h)) a bs = laid_out c hs a bs"
  by (induction c hs a bs rule: laid_out.induct) auto

lemma laid_out_mk_heads:
  "list_all (\<lambda>b. 0 < fst b) bs \<Longrightarrow> laid_out c (mk_heads c s p a (bs @ ys)) a bs"
  by (induction c s p a bs rule: mk_heads.induct) (auto simp: laid_out_upd)

lemma laid_out_mono: "laid_out c hs a bs \<Longrightarrow> hs \<subseteq>\<^sub>m hs' \<Longrightarrow> laid_out c hs' a bs"
  by (induction c hs a bs rule: laid_out.induct) (auto dest: map_le_antisym simp: map_le_def, force)

lemma laid_out_append:
  "laid_out c hs a (xs @ ys) \<longleftrightarrow> laid_out c hs a xs \<and> laid_out c hs (a + blen xs) ys"
  by (induction c hs a xs rule: laid_out.induct) (auto simp: ac_simps)

text \<open>
  The search visits every block once and comes back: it returns a free block that is large
  enough, or, when there is none, a size that is too small.
\<close>

lemma dm_scan_circle:
  assumes lo: "laid_out c hs s (pre @ suf)" and tr: "hs (s + blen pre + blen suf) = Some (mk_header c s p False)"
    and ok: "list_all (\<lambda>b. 16 \<le> fst b) (pre @ suf)" and lim: "s + blen pre + blen suf < 2 ^ 32" and "0 < sz"
  obtains r fs where "dm_scan hs (s + blen pre) sz (Suc (length pre + length suf) + n) (s + blen pre) = Some (r, fs)"
    and "sz \<le> fs \<Longrightarrow> \<exists>xs l ys. pre @ suf = xs @ (l, True) # ys \<and> r = s + blen xs \<and> fs = l - 16"
    and "fs < sz \<Longrightarrow> \<forall>(l, f) \<in> set (pre @ suf). f \<longrightarrow> l - 16 < sz"
proof -
  let ?sp = "s + blen pre"
  have seg: "dm_scan hs ?sp sz (length suf + Suc (length pre + n)) ?sp =
      (case first_fit sz ?sp suf of Some r \<Rightarrow> Some r
       | None \<Rightarrow> dm_scan hs ?sp sz (Suc (length pre + n)) (?sp + blen suf))"
    using assms by (intro dm_scan_seg) (auto simp: laid_out_append)
  have trl: "dm_scan hs ?sp sz (Suc m) (?sp + blen suf) =
      (if s \<noteq> ?sp then dm_scan hs ?sp sz m s else Some (s, 0))" for m
    using tr \<open>0 < sz\<close> by (simp add: dm_scan.simps(2))
  have fuel: "Suc (length pre + length suf) + n = length suf + Suc (length pre + n)" by simp
  show ?thesis
  proof (cases "first_fit sz ?sp suf")
    case (Some r)
    then obtain xs l ys where "suf = xs @ (l, True) # ys" "r = (?sp + blen xs, l - 16)" "sz \<le> l - 16"
      using first_fit_Some by blast
    with Some seg show ?thesis
      by (intro that[of "?sp + blen xs" "l - 16", unfolded fuel]) (auto intro!: exI[of _ "pre @ xs"])
  next
    case None
    show ?thesis
    proof (cases pre rule: rev_cases)
      case Nil
      with None seg trl[of n] show ?thesis
        using first_fit_None[of sz s suf] \<open>0 < sz\<close> by (intro that[of s 0, unfolded fuel]) auto
    next
      case (snoc pre0 b)
      obtain l f where b: "b = (l, f)" by (cases b)
      let ?a = "s + blen pre0"
      have seg0: "dm_scan hs ?sp sz (length pre0 + Suc n) s =
          (case first_fit sz s pre0 of Some r \<Rightarrow> Some r | None \<Rightarrow> dm_scan hs ?sp sz (Suc n) ?a)"
        using assms snoc b by (intro dm_scan_seg) (auto simp: laid_out_append)
      have all: "dm_scan hs ?sp sz (length suf + Suc (length pre + n)) ?sp =
          dm_scan hs ?sp sz (length pre0 + Suc n) s"
        using seg trl[of "length pre0 + Suc n"] None snoc b ok by auto
      show ?thesis
      proof (cases "first_fit sz s pre0")
        case (Some r)
        then obtain xs l' ys where "pre0 = xs @ (l', True) # ys" "r = (s + blen xs, l' - 16)" "sz \<le> l' - 16"
          using first_fit_Some by blast
        with Some seg0 all snoc show ?thesis
          by (intro that[of "s + blen xs" "l' - 16", unfolded fuel]) auto
      next
        case none0: None
        obtain p' where h: "hs ?a = Some (mk_header c (?a + l) p' f)"
          using lo snoc b by (auto simp: laid_out_append)
        have st: "dm_scan hs ?sp sz (Suc n) ?a =
            (if (if f then l - 16 else 0) < sz then Some (?sp, if f then l - 16 else 0)
             else Some (?a, if f then l - 16 else 0))"
          using lim ok snoc b by (subst dm_scan_step[where c = c and p = p' and f = f and l = l]) (auto simp: h ac_simps)
        let ?fs = "if f then l - 16 else 0"
        have res: "dm_scan hs ?sp sz (length suf + Suc (length pre + n)) ?sp =
            Some (if ?fs < sz then ?sp else ?a, ?fs)"
          using all seg0 none0 st by simp
        show ?thesis
        proof (rule that[of "if ?fs < sz then ?sp else ?a" ?fs, unfolded fuel])
          show "dm_scan hs ?sp sz (length suf + Suc (length pre + n)) ?sp = Some (if ?fs < sz then ?sp else ?a, ?fs)"
            by (rule res)
          show "sz \<le> ?fs \<Longrightarrow> \<exists>xs l ys. pre @ suf = xs @ (l, True) # ys \<and>
              (if ?fs < sz then ?sp else ?a) = s + blen xs \<and> ?fs = l - 16"
            using snoc b \<open>0 < sz\<close> by (cases f) (auto intro!: exI[of _ pre0])
          show "?fs < sz \<Longrightarrow> \<forall>(l, f) \<in> set (pre @ suf). f \<longrightarrow> l - 16 < sz"
            using None none0 snoc b by (auto simp: first_fit_None)
        qed
      qed
    qed
  qed
qed


subsection \<open>The store of a block list\<close>

lemma map_le_add_lookup: "A ++ P \<subseteq>\<^sub>m hs \<Longrightarrow> P k = None \<Longrightarrow> A k = Some v \<Longrightarrow> hs k = Some v"
  by (force simp: map_le_def map_add_def dom_def split: option.splits)

lemma map_le_add_upd: "A ++ P \<subseteq>\<^sub>m hs \<Longrightarrow> P k = None \<Longrightarrow> A(k \<mapsto> v) ++ P \<subseteq>\<^sub>m hs(k \<mapsto> v)"
  by (simp add: map_add_upd_left domIff map_le_upd)

lemma map_le_add_drop: "A(k \<mapsto> v) ++ P \<subseteq>\<^sub>m hs \<Longrightarrow> A k = None \<Longrightarrow> A ++ P \<subseteq>\<^sub>m hs"
  by (rule map_le_trans[rotated]) (auto simp: map_le_def map_add_def split: option.splits)

lemma block_ok_pos: "list_all (block_ok mn) bs \<Longrightarrow> list_all (\<lambda>b. 0 < fst b) bs"
  by (auto simp: list_all_iff block_ok_def)

lemma block_ok_16: "list_all (block_ok mn) bs \<Longrightarrow> list_all (\<lambda>b. 16 \<le> fst b) bs"
  by (auto simp: list_all_iff block_ok_def)

lemma shape_bounds:
  assumes "pool_shape st bs"
  shows "dm_start_address (pcb st) + blen bs + 16 < 2 ^ 31" "dm_available (pcb st) = free_bytes bs"
    "free_bytes bs \<le> blen bs" "list_all (block_ok (dm_min_allocation (pcb st))) bs"
    "blen bs + 16 = dm_pool_size (pcb st)"
  using assms free_bytes_le[of bs] by (auto simp: pool_shape_def Let_def)

lemma shape_split:
  assumes "pool_shape st (pre @ ys)"
  defines "s \<equiv> dm_start_address (pcb st)" and "T \<equiv> dm_start_address (pcb st) + blen (pre @ ys)"
  shows "mk_heads (pcb_addr st) s (prev_of T s pre) (s + blen pre) ys ++ mk_seg (pcb_addr st) T s pre \<subseteq>\<^sub>m heads st"
    and "\<And>k. s + blen pre \<le> k \<Longrightarrow> mk_seg (pcb_addr st) T s pre k = None"
proof -
  have pos: "list_all (\<lambda>b. 0 < fst b) (pre @ ys)"
    using shape_bounds(4)[OF assms(1)] by (rule block_ok_pos)
  then show "mk_heads (pcb_addr st) s (prev_of T s pre) (s + blen pre) ys ++ mk_seg (pcb_addr st) T s pre \<subseteq>\<^sub>m heads st"
    using assms mk_heads_append[of pre "pcb_addr st" s T s ys] by (auto simp: pool_shape_def Let_def)
  show "mk_seg (pcb_addr st) T s pre k = None" if "s + blen pre \<le> k" for k
    using mk_seg_dom[of pre "pcb_addr st" T s k] pos that by (cases "mk_seg (pcb_addr st) T s pre k") auto
qed

lemma shape_head:
  assumes "pool_shape st (pre @ ys)"
  defines "s \<equiv> dm_start_address (pcb st)" and "T \<equiv> dm_start_address (pcb st) + blen (pre @ ys)"
  shows "heads st (s + blen pre) = Some (mk_header (pcb_addr st)
      (case ys of [] \<Rightarrow> s | b # _ \<Rightarrow> s + blen pre + fst b) (prev_of T s pre)
      (case ys of [] \<Rightarrow> False | b # _ \<Rightarrow> snd b))"
  unfolding s_def T_def
  by (rule map_le_add_lookup[OF shape_split(1)[OF assms(1)] shape_split(2)[OF assms(1)]]) simp_all

text \<open>Building a shape from another with the same blocks before the change.\<close>

lemma shape_join:
  assumes old: "pool_shape st (pre @ ys)"
  defines "s \<equiv> dm_start_address (pcb st)" and "T \<equiv> dm_start_address (pcb st) + blen (pre @ ys)"
  assumes len: "blen zs = blen ys" "zs \<noteq> []" and ok: "list_all (block_ok (dm_min_allocation (pcb st))) zs"
    and hs: "mk_heads (pcb_addr st) s (prev_of T s pre) (s + blen pre) zs ++ mk_seg (pcb_addr st) T s pre \<subseteq>\<^sub>m hs"
    and av: "av + free_bytes ys = dm_available (pcb st) + free_bytes zs"
    and sp: "position s (pre @ zs) sp"
  shows "pool_shape (st\<lparr>heads := hs, pcb := (pcb st)\<lparr>dm_available := av, dm_search_ptr := sp\<rparr>\<rparr>) (pre @ zs)"
proof -
  have "mk_heads (pcb_addr st) s (s + blen (pre @ zs)) s (pre @ zs) \<subseteq>\<^sub>m hs"
    using hs mk_heads_append[of pre "pcb_addr st" s T s zs] block_ok_pos[OF shape_bounds(4)[OF old]] len
    by (simp add: T_def s_def)
  then show ?thesis
    using old len ok av sp by (auto simp: pool_shape_def Let_def s_def)
qed

subsection \<open>Refinement of the operations\<close>

lemma positionI: "position s (pre @ ys) (s + blen pre)"
  by (auto simp: position_def)

lemma position_next: "position s (pre @ b # ys) (s + blen pre + fst b)"
  unfolding position_def by (rule exI[of _ "pre @ [b]"]) auto

lemma position_take: "position s bs x \<longleftrightarrow> (\<exists>k. x = s + blen (take k bs))"
  unfolding position_def by (metis append_eq_conv_conj append_take_drop_id)

lemma position_fst: "map fst bs = map fst bs' \<Longrightarrow> position s bs x \<longleftrightarrow> position s bs' x"
  by (simp add: position_take blen_def flip: take_map)

lemma position_split:
  "position s (pre @ b # post) x \<Longrightarrow> fst b1 + fst b2 = fst b \<Longrightarrow> position s (pre @ b1 # b2 # post) x"
  unfolding position_def
proof (elim exE conjE)
  fix p q assume eq: "pre @ b # post = p @ q" and x: "x = s + blen p" and len: "fst b1 + fst b2 = fst b"
  from eq consider (l) us where "p @ us = pre" "q = us @ b # post" | (r) us where "p = pre @ us" "us @ q = b # post"
    by (auto simp: append_eq_append_conv2)
  then show "\<exists>p q. pre @ b1 # b2 # post = p @ q \<and> x = s + blen p"
  proof cases
    case l
    then show ?thesis using x by (intro exI[of _ p] exI[of _ "us @ b1 # b2 # post"]) auto
  next
    case r
    show ?thesis
    proof (cases us)
      case Nil
      then show ?thesis using r x by (intro exI[of _ pre] exI[of _ "b1 # b2 # post"]) auto
    next
      case (Cons u vs)
      then show ?thesis using r x len by (intro exI[of _ "pre @ b1 # b2 # vs"] exI[of _ q]) auto
    qed
  qed
qed

text \<open>Merging is the converse, except that the position between the two blocks is lost.\<close>

lemma dm_split_heads:
  assumes sh: "pool_shape st (pre @ (l, True) # post)"
    and n: "n = sz + 16" and fit: "n + 16 + dm_min_allocation (pcb st) \<le> l"
    and sz: "dm_min_allocation (pcb st) \<le> sz" "4 dvd sz"
  defines "c \<equiv> pcb_addr st" and "s \<equiv> dm_start_address (pcb st)"
    and "T \<equiv> dm_start_address (pcb st) + blen (pre @ (l, True) # post)"
  shows "\<exists>hs. dm_split st (s + blen pre) sz =
      Some (st\<lparr>heads := hs, pcb := (pcb st)\<lparr>dm_available := dm_available (pcb st) - n\<rparr>\<rparr>) \<and>
    mk_heads c s (prev_of T s pre) (s + blen pre) ((n, True) # (l - n, True) # post) ++ mk_seg c T s pre \<subseteq>\<^sub>m hs"
proof -
  let ?c = "pcb_addr st" and ?s = "dm_start_address (pcb st)"
  let ?m = "?s + blen pre"
  let ?T = "?s + blen (pre @ (l, True) # post)"
  let ?q = "prev_of ?T ?s pre" and ?P = "mk_seg ?c ?T ?s pre"
  let ?hd = "\<lambda>p. mk_header ?c (case post of [] \<Rightarrow> ?s | b # _ \<Rightarrow> ?m + l + fst b) p
               (case post of [] \<Rightarrow> False | b # _ \<Rightarrow> snd b)"
  note bd = shape_bounds[OF sh]
  have pos: "list_all (\<lambda>b. 0 < fst b) post" and l4: "4 dvd l"
    using bd(4) block_ok_pos by (auto simp: block_ok_def)
  have P: "?P k = None" if "?m \<le> k" for k using shape_split(2)[OF sh] that by simp
  have A0: "mk_heads ?c ?s ?q ?m ((l, True) # post) ++ ?P \<subseteq>\<^sub>m heads st" by (rule shape_split(1)[OF sh])
  have none: "mk_heads ?c ?s ?m (?m + l) post k = None" if "k < ?m + l" for k
    using mk_heads_dom[OF pos, of ?c ?s ?m "?m + l" k] that by (cases "mk_heads ?c ?s ?m (?m + l) post k") auto
  have nl: "n < l" "0 < n" using n fit by auto
  have A1: "(mk_heads ?c ?s ?m (?m + l) post) ++ ?P \<subseteq>\<^sub>m heads st"
    using nl by (intro map_le_add_drop[OF A0[unfolded mk_heads.simps(2)]] none) linarith
  define hs1 where "hs1 = (heads st)(?m + n \<mapsto> mk_header ?c (?m + l) ?m True)"
  have A2: "(mk_heads ?c ?s ?m (?m + l) post)(?m + n \<mapsto> mk_header ?c (?m + l) ?m True) ++ ?P \<subseteq>\<^sub>m hs1"
    unfolding hs1_def using P by (intro map_le_add_upd[OF A1]) simp
  have nxt: "hs1 (?m + l) = Some (?hd ?m)"
    using nl P by (intro map_le_add_lookup[OF A2]) simp_all
  define hs2 where "hs2 = hs1(?m + l \<mapsto> ?hd (?m + n))"
  have tw: "(mk_heads ?c ?s ?m (?m + l) post)(?m + n \<mapsto> mk_header ?c (?m + l) ?m True, ?m + l \<mapsto> ?hd (?m + n))
     = (mk_heads ?c ?s (?m + n) (?m + l) post)(?m + n \<mapsto> mk_header ?c (?m + l) ?m True)"
    unfolding mk_heads_set_prev[OF pos, of ?c ?s ?m "?m + l" "?m + n", symmetric]
    using nl by (intro fun_upd_twist) simp
  have A3: "(mk_heads ?c ?s (?m + n) (?m + l) post)(?m + n \<mapsto> mk_header ?c (?m + l) ?m True) ++ ?P \<subseteq>\<^sub>m hs2"
    using map_le_add_upd[OF A2, of "?m + l" "?hd (?m + n)"] P unfolding tw hs2_def by simp
  have h0: "heads st ?m = Some (mk_header ?c (?m + l) ?q True)" using shape_head[OF sh] by simp
  have h2: "hs2 ?m = Some (mk_header ?c (?m + l) ?q True)" using h0 nl by (simp add: hs2_def hs1_def)
  define hs3 where "hs3 = hs2(?m \<mapsto> mk_header ?c (?m + n) ?q True)"
  have A4: "mk_heads ?c ?s ?q ?m ((n, True) # (l - n, True) # post) ++ ?P \<subseteq>\<^sub>m hs3"
  proof -
    have e: "?m + n + (l - n) = ?m + l" using nl by simp
    show ?thesis unfolding hs3_def mk_heads.simps e by (rule map_le_add_upd[OF A3 P]) simp
  qed
  have av: "n \<le> dm_available (pcb st)" "dm_available (pcb st) < 2 ^ 32"
    using bd fit by auto
  have "dm_split st ?m sz = Some (st\<lparr>heads := hs3, pcb := (pcb st)\<lparr>dm_available := dm_available (pcb st) - n\<rparr>\<rparr>)"
    using h0 bd n fit av nxt h2
    by (simp add: dm_split_def Let_def hs3_def hs2_def hs1_def mk_header_def add.assoc)
  with A4 show ?thesis unfolding c_def s_def T_def by blast
qed

lemma set_not_free:
  assumes A: "mk_heads c s q m ((k, True) # rest) ++ P \<subseteq>\<^sub>m hs" and P: "P m = None"
  shows "hs m = Some (mk_header c (m + k) q True)"
    and "mk_heads c s q m ((k, False) # rest) ++ P \<subseteq>\<^sub>m hs(m \<mapsto> mk_header c (m + k) q False)"
proof -
  show "hs m = Some (mk_header c (m + k) q True)"
    using map_le_add_lookup[OF A P] by simp
  show "mk_heads c s q m ((k, False) # rest) ++ P \<subseteq>\<^sub>m hs(m \<mapsto> mk_header c (m + k) q False)"
    using map_le_add_upd[OF A P, of "mk_header c (m + k) q False"] by simp
qed

text \<open>What the allocation does to the block it found.\<close>

definition alloc_block :: "nat \<Rightarrow> nat \<Rightarrow> nat \<Rightarrow> blocks" where
  "alloc_block mn sz l =
     (if sz + 16 + mn \<le> l - 16 then [(sz + 16, False), (l - (sz + 16), True)] else [(l, False)])"

definition same_pool :: "dmem \<Rightarrow> dmem \<Rightarrow> bool" where
  "same_pool st st' \<longleftrightarrow> pcb_addr st' = pcb_addr st \<and>
     dm_start_address (pcb st') = dm_start_address (pcb st) \<and>
     dm_pool_size (pcb st') = dm_pool_size (pcb st) \<and>
     dm_min_allocation (pcb st') = dm_min_allocation (pcb st)"

lemma OS_GetMem_found:
  assumes sh: "pool_shape st (pre @ (l, True) # post)" and nf: "no_adjacent_free (pre @ (l, True) # post)"
    and sz: "sz = request_size (pcb st) sz0" "4 dvd sz" "dm_min_allocation (pcb st) \<le> sz"
    and fit: "sz \<le> l - 16"
    and scan: "dm_scan (heads st) (dm_search_ptr (pcb st)) sz (Suc (dm_pool_size (pcb st))) (dm_search_ptr (pcb st))
               = Some (dm_start_address (pcb st) + blen pre, l - 16)"
  shows "\<exists>st'. OS_GetMem st sz0 = Some (OS_ERR_NONE, dm_start_address (pcb st) + blen pre + 16, st') \<and>
    pool_rep st' (pre @ alloc_block (dm_min_allocation (pcb st)) sz l @ post) \<and> same_pool st st'"
proof -
  let ?c = "pcb_addr st" and ?s = "dm_start_address (pcb st)" and ?mn = "dm_min_allocation (pcb st)"
  let ?m = "?s + blen pre"
  let ?T = "?s + blen (pre @ (l, True) # post)"
  let ?q = "prev_of ?T ?s pre" and ?P = "mk_seg ?c ?T ?s pre"
  note bd = shape_bounds[OF sh]
  have P: "?P ?m = None" using shape_split(2)[OF sh] by simp
  have mn: "0 < ?mn" "4 dvd l" "16 + ?mn \<le> l" using sh by (auto simp: pool_shape_def Let_def block_ok_def)
  let ?n = "if sz + 16 + ?mn \<le> l - 16 then sz + 16 else l"
  let ?av = "dm_available (pcb st) - (if sz + 16 + ?mn \<le> l - 16 then sz + 16 else l - 16)"
  let ?rest = "(if sz + 16 + ?mn \<le> l - 16 then [(l - (sz + 16), True)] else []) @ post"
  obtain hs where step: "(if add32 (add32 sz DM_OVERHEAD) ?mn \<le> l - 16 then dm_split st ?m sz
        else Some (st\<lparr>pcb := (pcb st)\<lparr>dm_available := sub32 (dm_available (pcb st)) (l - 16)\<rparr>\<rparr>)) =
      Some (st\<lparr>heads := hs, pcb := (pcb st)\<lparr>dm_available := ?av\<rparr>\<rparr>)"
    and A: "mk_heads ?c ?s ?q ?m ((?n, True) # ?rest) ++ ?P \<subseteq>\<^sub>m hs"
  proof (cases "sz + 16 + ?mn \<le> l - 16")
    case True
    then have fit2: "sz + 16 + 16 + ?mn \<le> l" using mn by linarith
    obtain hs where hs: "dm_split st ?m sz =
        Some (st\<lparr>heads := hs, pcb := (pcb st)\<lparr>dm_available := dm_available (pcb st) - (sz + 16)\<rparr>\<rparr>)"
      "mk_heads ?c ?s ?q ?m ((sz + 16, True) # (l - (sz + 16), True) # post) ++ ?P \<subseteq>\<^sub>m hs"
      using dm_split_heads[OF sh refl fit2 sz(3,2)] by blast
    have "add32 (add32 sz DM_OVERHEAD) ?mn \<le> l - 16" using True bd by simp
    with hs True show ?thesis by (intro that[of hs]) (simp_all only: if_True append_Cons append_Nil)
  next
    case False
    then have "sub32 (dm_available (pcb st)) (l - 16) = dm_available (pcb st) - (l - 16)"
      using bd mn by (intro sub32_eq) auto
    moreover have "\<not> add32 (add32 sz DM_OVERHEAD) ?mn \<le> l - 16" using False bd fit mn(3) by simp
    ultimately show ?thesis
      using False shape_split(1)[OF sh] by (intro that[of "heads st"]) (simp_all only: if_False append_Nil, simp)
  qed
  note B = set_not_free[OF A P]
  let ?sp = "if dm_search_ptr (pcb st) = ?m then ?m + ?n else dm_search_ptr (pcb st)"
  let ?st' = "st\<lparr>heads := hs(?m \<mapsto> mk_header ?c (?m + ?n) ?q False),
                  pcb := (pcb st)\<lparr>dm_available := ?av, dm_search_ptr := ?sp\<rparr>\<rparr>"
  have get: "OS_GetMem st sz0 = Some (OS_ERR_NONE, ?m + 16, ?st')"
    using scan step B(1) fit bd unfolding OS_GetMem_def sz(1)[symmetric] Let_def by (auto simp: bind_def)
  have pos0: "position ?s (pre @ (l, True) # post) (dm_search_ptr (pcb st))"
    using sh by (auto simp: pool_shape_def Let_def)
  have sp: "position ?s (pre @ ((?n, False) # ?rest)) ?sp"
  proof (cases "sz + 16 + ?mn \<le> l - 16")
    case True
    then have "position ?s (pre @ (sz + 16, False) # (l - (sz + 16), True) # post) (dm_search_ptr (pcb st))"
      using mn by (intro position_split[OF pos0]) auto
    then show ?thesis using True position_next[of ?s pre "(sz + 16, False)" "(l - (sz + 16), True) # post"] by auto
  next
    case False
    have "position ?s (pre @ (l, False) # post) (dm_search_ptr (pcb st))"
      using pos0 by (rule position_fst[THEN iffD1, rotated]) simp
    then show ?thesis using False position_next[of ?s pre "(l, False)" post] by auto
  qed
  have "pool_shape ?st' (pre @ (?n, False) # ?rest)"
    using bd mn sz fit
    by (intro shape_join[OF sh _ _ _ B(2) _ sp]) (auto simp: block_ok_def)
  moreover have "no_adjacent_free (pre @ (?n, False) # ?rest)"
    using nf by (auto simp: no_adjacent_free_append no_adjacent_free_Cons)
  moreover have "(?n, False) # ?rest = alloc_block ?mn sz l @ post" by (simp add: alloc_block_def)
  ultimately show ?thesis using get by (auto simp: pool_rep_def same_pool_def)
qed

lemma pool_shape_update:
  "pool_shape (st\<lparr>heads := hs, pcb := (pcb st)\<lparr>dm_available := av, dm_search_ptr := sp\<rparr>\<rparr>) bs \<Longrightarrow>
   sp = dm_search_ptr (pcb st) \<Longrightarrow> pool_shape (st\<lparr>heads := hs, pcb := (pcb st)\<lparr>dm_available := av\<rparr>\<rparr>) bs"
  by simp

lemma dm_mark_free_shape:
  assumes sh: "pool_shape st (pre @ (l, False) # post)"
  shows "\<exists>st'. dm_mark_free st (dm_start_address (pcb st) + blen pre) = Some st' \<and>
    pool_shape st' (pre @ (l, True) # post) \<and> same_pool st st'"
proof -
  let ?c = "pcb_addr st" and ?s = "dm_start_address (pcb st)"
  let ?m = "?s + blen pre"
  let ?T = "?s + blen (pre @ (l, False) # post)"
  let ?q = "prev_of ?T ?s pre" and ?P = "mk_seg ?c ?T ?s pre"
  note bd = shape_bounds[OF sh]
  let ?hs = "(heads st)(?m \<mapsto> mk_header ?c (?m + l) ?q True)"
  let ?av = "dm_available (pcb st) + l - 16"
  have P: "?P ?m = None" using shape_split(2)[OF sh] by simp
  have A: "mk_heads ?c ?s ?q ?m ((l, True) # post) ++ ?P \<subseteq>\<^sub>m ?hs"
    using map_le_add_upd[OF shape_split(1)[OF sh] P, of "mk_header ?c (?m + l) ?q True"] by simp
  have h: "heads st ?m = Some (mk_header ?c (?m + l) ?q False)" using shape_head[OF sh] by simp
  have l: "16 < l" using sh by (auto simp: pool_shape_def Let_def block_ok_def)
  have sp: "position ?s (pre @ (l, True) # post) (dm_search_ptr (pcb st))"
    using sh position_fst[of "pre @ (l, True) # post" "pre @ (l, False) # post"]
    by (simp add: pool_shape_def Let_def)
  have "dm_mark_free st ?m = Some (st\<lparr>heads := ?hs, pcb := (pcb st)\<lparr>dm_available := ?av, dm_search_ptr := dm_search_ptr (pcb st)\<rparr>\<rparr>)"
    using h bd l by (simp add: dm_mark_free_def)
  moreover have "pool_shape (st\<lparr>heads := ?hs, pcb := (pcb st)\<lparr>dm_available := ?av, dm_search_ptr := dm_search_ptr (pcb st)\<rparr>\<rparr>) (pre @ (l, True) # post)"
    using bd l A by (intro shape_join[OF sh _ _ _ A _ sp]) (auto simp: block_ok_def)
  ultimately show ?thesis by (simp add: same_pool_def)
qed

text \<open>Merging block \<open>m0\<close> with the block after it.\<close>

lemma merge_heads:
  assumes A: "mk_heads c s q m0 ((l0, f0) # (l, f) # post) ++ P \<subseteq>\<^sub>m hs"
    and P: "\<And>k. m0 \<le> k \<Longrightarrow> P k = None" and l: "0 < l0" "0 < l" and pos: "list_all (\<lambda>b. 0 < fst b) post"
  defines "e \<equiv> m0 + l0 + l"
    and "hdr \<equiv> \<lambda>p. mk_header c (case post of [] \<Rightarrow> s | b # _ \<Rightarrow> m0 + l0 + l + fst b) p
               (case post of [] \<Rightarrow> False | b # _ \<Rightarrow> snd b)"
  shows "hs m0 = Some (mk_header c (m0 + l0) q f0)" "hs (m0 + l0) = Some (mk_header c e m0 f)"
    "hs e = Some (hdr (m0 + l0))"
    "mk_heads c s q m0 ((l0 + l, f0) # post) ++ P \<subseteq>\<^sub>m hs(e \<mapsto> hdr m0, m0 \<mapsto> mk_header c e q f0)"
proof -
  note look = map_le_add_lookup[OF A P]
  show "hs m0 = Some (mk_header c (m0 + l0) q f0)" by (rule look) simp_all
  show "hs (m0 + l0) = Some (mk_header c e m0 f)" by (rule look) (use l in \<open>simp_all add: e_def\<close>)
  have none: "mk_heads c s p e post k = None" if "k < e" for k p
    using mk_heads_dom[OF pos, of c s p e k] that by (cases "mk_heads c s p e post k") auto
  have A1: "mk_heads c s m0 (m0 + l0) ((l, f) # post) ++ P \<subseteq>\<^sub>m hs"
  proof (rule map_le_add_drop[OF A[unfolded mk_heads.simps(2)[of c s q m0 l0]]])
    have "list_all (\<lambda>b. 0 < fst b) ((l, f) # post)" using l pos by simp
    from mk_heads_dom[OF this, of c s m0 "m0 + l0" m0] l
    show "mk_heads c s m0 (m0 + l0) ((l, f) # post) m0 = None"
      by (cases "mk_heads c s m0 (m0 + l0) ((l, f) # post) m0") (auto simp del: mk_heads.simps)
  qed
  have A2: "mk_heads c s (m0 + l0) e post ++ P \<subseteq>\<^sub>m hs"
    unfolding e_def using l
    by (intro map_le_add_drop[OF A1[unfolded mk_heads.simps(2)]] none[unfolded e_def]) simp
  show "hs e = Some (hdr (m0 + l0))"
    by (rule map_le_add_lookup[OF A2]) (use l P in \<open>simp_all add: e_def hdr_def\<close>)
  have Pe: "P e = None" "P m0 = None" using P by (simp_all add: e_def)
  have "(mk_heads c s (m0 + l0) e post)(e \<mapsto> hdr m0) = mk_heads c s m0 e post"
    unfolding hdr_def e_def by (rule mk_heads_set_prev[OF pos])
  with map_le_add_upd[OF A2 Pe(1), of "hdr m0"] have "mk_heads c s m0 e post ++ P \<subseteq>\<^sub>m hs(e \<mapsto> hdr m0)"
    by simp
  from map_le_add_upd[OF this Pe(2), of "mk_header c e q f0"]
  show "mk_heads c s q m0 ((l0 + l, f0) # post) ++ P \<subseteq>\<^sub>m hs(e \<mapsto> hdr m0, m0 \<mapsto> mk_header c e q f0)"
    by (simp add: e_def add.assoc)
qed

lemma merge_shape:
  assumes sh: "pool_shape st (pre @ (l0, True) # (l, True) # post)"
  defines "c \<equiv> pcb_addr st" and "s \<equiv> dm_start_address (pcb st)"
    and "m0 \<equiv> dm_start_address (pcb st) + blen pre" and "e \<equiv> dm_start_address (pcb st) + blen pre + l0 + l"
    and "q \<equiv> prev_of (dm_start_address (pcb st) + blen (pre @ (l0, True) # (l, True) # post)) (dm_start_address (pcb st)) pre"
  obtains h where "heads st m0 = Some (mk_header c (m0 + l0) q True)"
    "heads st (m0 + l0) = Some (mk_header c e m0 True)" "heads st e = Some h"
    "dm_previous_memory h = m0 + l0"
    "pool_shape (st\<lparr>heads := (heads st)(e \<mapsto> h\<lparr>dm_previous_memory := m0\<rparr>, m0 \<mapsto> mk_header c e q True),
        pcb := (pcb st)\<lparr>dm_available := dm_available (pcb st) + 16, dm_search_ptr := m0\<rparr>\<rparr>)
      (pre @ (l0 + l, True) # post)"
proof -
  note bd = shape_bounds[OF sh]
  have l: "32 \<le> 16 + l0" "16 < l0" "16 < l" and pos: "list_all (\<lambda>b. 0 < fst b) post" and l4: "4 dvd l0" "4 dvd l"
    and mn: "16 + dm_min_allocation (pcb st) \<le> l0"
    using sh bd(4) block_ok_pos by (auto simp: pool_shape_def Let_def block_ok_def)
  note M = merge_heads[OF shape_split(1)[OF sh] shape_split(2)[OF sh] _ _ pos]
  have "heads st m0 = Some (mk_header c (m0 + l0) q True)"
    "heads st (m0 + l0) = Some (mk_header c e m0 True)"
    unfolding c_def m0_def e_def q_def using M(1,2) l by simp_all
  moreover have "pool_shape (st\<lparr>heads := (heads st)(e \<mapsto> h\<lparr>dm_previous_memory := m0\<rparr>, m0 \<mapsto> mk_header c e q True),
        pcb := (pcb st)\<lparr>dm_available := dm_available (pcb st) + 16, dm_search_ptr := m0\<rparr>\<rparr>)
      (pre @ (l0 + l, True) # post)"
    if h: "h = mk_header c (case post of [] \<Rightarrow> s | b # _ \<Rightarrow> m0 + l0 + l + fst b) (m0 + l0)
               (case post of [] \<Rightarrow> False | b # _ \<Rightarrow> snd b)" for h
    unfolding c_def s_def m0_def e_def q_def h mk_header_sel
    by (rule shape_join[OF sh _ _ _ M(4) _ positionI])
      (use bd l l4 mn in \<open>auto simp: block_ok_def\<close>)
  moreover have "heads st e = Some (mk_header c (case post of [] \<Rightarrow> s | b # _ \<Rightarrow> m0 + l0 + l + fst b) (m0 + l0)
               (case post of [] \<Rightarrow> False | b # _ \<Rightarrow> snd b))"
    unfolding c_def s_def m0_def e_def using M(3) l by simp
  ultimately show ?thesis using that by simp
qed

lemma dm_merge_prev_free:
  assumes sh: "pool_shape st (pre @ (l0, True) # (l, True) # post)"
  shows "\<exists>st'. dm_merge_prev st (dm_start_address (pcb st) + blen pre + l0) =
      Some (dm_start_address (pcb st) + blen pre, st') \<and>
    pool_shape st' (pre @ (l0 + l, True) # post) \<and> same_pool st st'"
proof -
  let ?c = "pcb_addr st" and ?m0 = "dm_start_address (pcb st) + blen pre"
  let ?e = "?m0 + l0 + l"
  from merge_shape[OF sh] obtain h q where H: "heads st ?m0 = Some (mk_header ?c (?m0 + l0) q True)"
    "heads st (?m0 + l0) = Some (mk_header ?c ?e ?m0 True)" "heads st ?e = Some h"
    and S: "pool_shape (st\<lparr>heads := (heads st)(?e \<mapsto> h\<lparr>dm_previous_memory := ?m0\<rparr>, ?m0 \<mapsto> mk_header ?c ?e q True),
        pcb := (pcb st)\<lparr>dm_available := dm_available (pcb st) + 16, dm_search_ptr := ?m0\<rparr>\<rparr>)
      (pre @ (l0 + l, True) # post)" by metis
  note bd = shape_bounds[OF sh]
  have l: "0 < l0" "0 < l" using sh by (auto simp: pool_shape_def Let_def block_ok_def)
  have eq: "dm_merge_prev st (?m0 + l0) =
    Some (?m0, st\<lparr>heads := (heads st)(?m0 \<mapsto> mk_header ?c ?e q True, ?e \<mapsto> h\<lparr>dm_previous_memory := ?m0\<rparr>),
        pcb := (pcb st)\<lparr>dm_available := dm_available (pcb st) + 16, dm_search_ptr := ?m0\<rparr>\<rparr>)"
    using H l bd by (simp add: dm_merge_prev_def Let_def)
  have tw: "(heads st)(?m0 \<mapsto> mk_header ?c ?e q True, ?e \<mapsto> h\<lparr>dm_previous_memory := ?m0\<rparr>) =
      (heads st)(?e \<mapsto> h\<lparr>dm_previous_memory := ?m0\<rparr>, ?m0 \<mapsto> mk_header ?c ?e q True)"
    using l by (intro fun_upd_twist) simp
  show ?thesis
  proof (intro exI conjI)
    show "pool_shape (st\<lparr>heads := (heads st)(?e \<mapsto> h\<lparr>dm_previous_memory := ?m0\<rparr>, ?m0 \<mapsto> mk_header ?c ?e q True),
        pcb := (pcb st)\<lparr>dm_available := dm_available (pcb st) + 16, dm_search_ptr := ?m0\<rparr>\<rparr>)
      (pre @ (l0 + l, True) # post)" by (rule S)
  qed (use eq[unfolded tw] in \<open>simp_all add: same_pool_def\<close>)
qed

lemma shape_trailer:
  assumes "pool_shape st bs"
  shows "\<exists>p. heads st (dm_start_address (pcb st) + blen bs) =
    Some (mk_header (pcb_addr st) (dm_start_address (pcb st)) p False)"
  using shape_head[of st bs "[]"] assms by auto

lemma dm_merge_prev_used:
  assumes sh: "pool_shape st (pre @ (l, True) # post)" and "pre = [] \<or> \<not> snd (last pre)"
  shows "dm_merge_prev st (dm_start_address (pcb st) + blen pre) = Some (dm_start_address (pcb st) + blen pre, st)"
proof -
  let ?c = "pcb_addr st" and ?s = "dm_start_address (pcb st)" and ?T = "dm_start_address (pcb st) + blen (pre @ (l, True) # post)"
  have h: "heads st (?s + blen pre) = Some (mk_header ?c (?s + blen pre + l) (prev_of ?T ?s pre) True)"
    using shape_head[OF sh] by simp
  obtain n p where "heads st (prev_of ?T ?s pre) = Some (mk_header ?c n p False)"
  proof (cases pre rule: rev_cases)
    case Nil
    with shape_trailer[OF sh] that show ?thesis by auto
  next
    case (snoc pre0 b)
    obtain lb fb where b: "b = (lb, fb)" by (cases b)
    have "pool_shape st (pre0 @ b # (l, True) # post)" using sh snoc by simp
    from shape_head[OF this] that assms(2) snoc b show ?thesis by auto
  qed
  with h show ?thesis by (simp add: dm_merge_prev_def Let_def)
qed

lemma dm_merge_next_free:
  assumes sh: "pool_shape st (pre @ (l0, True) # (l, True) # post)"
  shows "\<exists>st'. dm_merge_next st (dm_start_address (pcb st) + blen pre) = Some st' \<and>
    pool_shape st' (pre @ (l0 + l, True) # post) \<and> same_pool st st'"
proof -
  let ?c = "pcb_addr st" and ?m0 = "dm_start_address (pcb st) + blen pre"
  let ?e = "?m0 + l0 + l"
  from merge_shape[OF sh] obtain h q where H: "heads st ?m0 = Some (mk_header ?c (?m0 + l0) q True)"
    "heads st (?m0 + l0) = Some (mk_header ?c ?e ?m0 True)" "heads st ?e = Some h"
    and S: "pool_shape (st\<lparr>heads := (heads st)(?e \<mapsto> h\<lparr>dm_previous_memory := ?m0\<rparr>, ?m0 \<mapsto> mk_header ?c ?e q True),
        pcb := (pcb st)\<lparr>dm_available := dm_available (pcb st) + 16, dm_search_ptr := ?m0\<rparr>\<rparr>)
      (pre @ (l0 + l, True) # post)" by metis
  note bd = shape_bounds[OF sh]
  have l: "0 < l0" "0 < l" using sh by (auto simp: pool_shape_def Let_def block_ok_def)
  have "dm_merge_next st ?m0 =
    Some (st\<lparr>heads := (heads st)(?e \<mapsto> h\<lparr>dm_previous_memory := ?m0\<rparr>, ?m0 \<mapsto> mk_header ?c ?e q True),
        pcb := (pcb st)\<lparr>dm_available := dm_available (pcb st) + 16, dm_search_ptr := ?m0\<rparr>\<rparr>)"
    using H l bd by (simp add: dm_merge_next_def Let_def)
  then show ?thesis using S by (simp add: same_pool_def)
qed

lemma dm_merge_next_used:
  assumes sh: "pool_shape st (pre @ (l, True) # post)" and "post = [] \<or> \<not> snd (hd post)"
  shows "dm_merge_next st (dm_start_address (pcb st) + blen pre) = Some st"
proof -
  let ?c = "pcb_addr st" and ?s = "dm_start_address (pcb st)"
  obtain q where h: "heads st (?s + blen pre) = Some (mk_header ?c (?s + blen pre + l) q True)"
    using shape_head[OF sh] by simp
  have "pool_shape st ((pre @ [(l, True)]) @ post)" using sh by simp
  from shape_head[OF this] obtain n p where "heads st (?s + blen pre + l) = Some (mk_header ?c n p False)"
    using assms(2) by (cases post) (auto simp: add.assoc)
  with h show ?thesis by (simp add: dm_merge_next_def Let_def)
qed

text \<open>What \<open>OS_FreeMem\<close> does to the block list.\<close>

definition merge_left :: "blocks \<Rightarrow> nat \<Rightarrow> blocks \<times> nat" where
  "merge_left pre l = (if pre \<noteq> [] \<and> snd (last pre) then (butlast pre, fst (last pre) + l) else (pre, l))"

definition merge_right :: "nat \<Rightarrow> blocks \<Rightarrow> nat \<times> blocks" where
  "merge_right l post = (if post \<noteq> [] \<and> snd (hd post) then (l + fst (hd post), tl post) else (l, post))"

definition free_block :: "blocks \<Rightarrow> nat \<Rightarrow> blocks \<Rightarrow> blocks" where
  "free_block pre l post =
     (case merge_left pre l of (pre', l') \<Rightarrow> case merge_right l' post of (l'', post') \<Rightarrow> pre' @ (l'', True) # post')"

lemma same_pool_trans: "same_pool a b \<Longrightarrow> same_pool b c \<Longrightarrow> same_pool a c"
  by (simp add: same_pool_def)

lemma same_pool_refl [simp]: "same_pool a a"
  by (simp add: same_pool_def)

lemma same_poolD: "same_pool st st' \<Longrightarrow> dm_start_address (pcb st') = dm_start_address (pcb st)"
  by (simp add: same_pool_def)

lemma dm_merge_prev_shape:
  assumes sh: "pool_shape st (pre @ (l, True) # post)" and ml: "merge_left pre l = (pre', l')"
  shows "\<exists>st'. dm_merge_prev st (dm_start_address (pcb st) + blen pre) =
      Some (dm_start_address (pcb st) + blen pre', st') \<and>
    pool_shape st' (pre' @ (l', True) # post) \<and> same_pool st st'"
proof (cases "pre \<noteq> [] \<and> snd (last pre)")
  case True
  then obtain l0 where pre: "pre = pre' @ [(l0, True)]" and l': "l' = l0 + l"
    using ml by (cases pre rule: rev_cases) (auto simp: merge_left_def)
  have sh': "pool_shape st (pre' @ (l0, True) # (l, True) # post)" using sh pre by simp
  from dm_merge_prev_free[OF sh'] show ?thesis by (simp add: pre l' add.assoc)
next
  case False
  then have "pre = [] \<or> \<not> snd (last pre)" by simp
  from dm_merge_prev_used[OF sh this] sh ml False show ?thesis by (auto simp: merge_left_def)
qed

lemma dm_merge_next_shape:
  assumes sh: "pool_shape st (pre @ (l, True) # post)" and mr: "merge_right l post = (l', post')"
  shows "\<exists>st'. dm_merge_next st (dm_start_address (pcb st) + blen pre) = Some st' \<and>
    pool_shape st' (pre @ (l', True) # post') \<and> same_pool st st'"
proof (cases "post \<noteq> [] \<and> snd (hd post)")
  case True
  then obtain l2 where post: "post = (l2, True) # post'" and l': "l' = l + l2"
    using mr by (cases post) (auto simp: merge_right_def)
  from dm_merge_next_free[OF sh[unfolded post]] show ?thesis by (simp add: l')
next
  case False
  then have "post = [] \<or> \<not> snd (hd post)" by simp
  from dm_merge_next_used[OF sh this] sh mr False show ?thesis by (auto simp: merge_right_def)
qed

lemma no_adjacent_free_block:
  assumes "no_adjacent_free (pre @ (l, False) # post)"
  shows "no_adjacent_free (free_block pre l post)"
proof -
  have "no_adjacent_free (butlast pre)" "pre \<noteq> [] \<Longrightarrow> snd (last pre) \<Longrightarrow> butlast pre \<noteq> [] \<Longrightarrow> \<not> snd (last (butlast pre))"
    using assms by (cases pre rule: rev_cases; auto simp: no_adjacent_free_append)+
  moreover have "no_adjacent_free (tl post)" "post \<noteq> [] \<Longrightarrow> snd (hd post) \<Longrightarrow> tl post \<noteq> [] \<Longrightarrow> \<not> snd (hd (tl post))"
    using assms by (cases post; auto simp: no_adjacent_free_append no_adjacent_free_Cons)+
  ultimately show ?thesis
    using assms by (auto simp: free_block_def merge_left_def merge_right_def no_adjacent_free_append no_adjacent_free_Cons)
qed

lemma OS_FreeMem_block:
  assumes rep: "pool_rep st (pre @ (l, False) # post)"
  shows "\<exists>st'. OS_FreeMem st (dm_start_address (pcb st) + blen pre + 16) = Some st' \<and>
    pool_rep st' (free_block pre l post) \<and> same_pool st st'"
proof -
  let ?m = "dm_start_address (pcb st) + blen pre"
  have sh: "pool_shape st (pre @ (l, False) # post)" using rep by (simp add: pool_rep_def)
  obtain pre' l' l'' post' where ml: "merge_left pre l = (pre', l')" and mr: "merge_right l' post = (l'', post')"
    by (metis surj_pair)
  from dm_mark_free_shape[OF sh] obtain st1 where 1: "dm_mark_free st ?m = Some st1"
    "pool_shape st1 (pre @ (l, True) # post)" "same_pool st st1" by blast
  from dm_merge_prev_shape[OF 1(2) ml] obtain st2 where
    2: "dm_merge_prev st1 ?m = Some (dm_start_address (pcb st) + blen pre', st2)"
    "pool_shape st2 (pre' @ (l', True) # post)" "same_pool st1 st2" using 1(3) by (auto simp: same_pool_def)
  from dm_merge_next_shape[OF 2(2) mr] obtain st3 where
    3: "dm_merge_next st2 (dm_start_address (pcb st) + blen pre') = Some st3"
    "pool_shape st3 (pre' @ (l'', True) # post')" "same_pool st2 st3" using 1(3) 2(3) by (auto simp: same_pool_def)
  have "sub32 (?m + 16) DM_OVERHEAD = ?m" using shape_bounds[OF sh] by simp
  then have "OS_FreeMem st (?m + 16) = Some st3"
    using 1(1) 2(1) 3(1) by (simp add: OS_FreeMem_def Let_def)
  moreover have "pool_rep st3 (free_block pre l post)"
    using 3(2) ml mr no_adjacent_free_block[of pre l post] rep by (simp add: pool_rep_def free_block_def)
  ultimately show ?thesis using 1(3) 2(3) 3(3) same_pool_trans by blast
qed

subsection \<open>The heap a client sees\<close>

fun live :: "nat \<Rightarrow> blocks \<Rightarrow> (nat \<times> nat) list" where
  "live a [] = []"
| "live a ((l, f) # bs) = (if f then [] else [(a + 16, l - 16)]) @ live (a + l) bs"

lemma live_append [simp]: "live a (xs @ ys) = live a xs @ live (a + blen xs) ys"
  by (induction a xs rule: live.induct) (auto simp: add.assoc)

lemma live_range:
  "list_all (block_ok mn) bs \<Longrightarrow> 4 dvd a \<Longrightarrow> (p, n) \<in> set (live a bs) \<Longrightarrow>
   a + 16 \<le> p \<and> p + n \<le> a + blen bs \<and> 4 dvd p"
proof (induction a bs rule: live.induct)
  case (2 a l f bs)
  then have "16 + mn \<le> l" "4 dvd l" by (auto simp: block_ok_def)
  with 2 show ?case by (cases "(p, n) \<in> set (live (a + l) bs)") (auto split: if_splits)
qed simp

lemma live_disjoint:
  "list_all (block_ok mn) bs \<Longrightarrow> 4 dvd a \<Longrightarrow> (p, m) \<in> set (live a bs) \<Longrightarrow> (q, n) \<in> set (live a bs) \<Longrightarrow>
   (p, m) = (q, n) \<or> p + m < q \<or> q + n < p"
proof (induction a bs rule: live.induct)
  case (2 a l f bs)
  then have ok: "list_all (block_ok mn) bs" by simp
  from 2 have l: "16 + mn \<le> l" "4 dvd a + l" by (auto simp: block_ok_def)
  have "a + l + 16 \<le> p'" if "(p', n') \<in> set (live (a + l) bs)" for p' n'
    using live_range[OF ok l(2) that] by simp
  with 2 l ok show ?case by (fastforce split: if_splits)
qed simp

lemma live_distinct: "list_all (block_ok mn) bs \<Longrightarrow> 4 dvd a \<Longrightarrow> distinct (map fst (live a bs))"
proof (induction a bs rule: live.induct)
  case (2 a l f bs)
  then have ok: "list_all (block_ok mn) bs" by simp
  from 2 have l: "16 + mn \<le> l" "4 dvd a + l" by (auto simp: block_ok_def)
  have "a + l + 16 \<le> p'" if "(p', n') \<in> set (live (a + l) bs)" for p' n'
    using live_range[OF ok l(2) that] by simp
  with 2 l ok show ?case by (fastforce split: if_splits)
qed simp

lemma live_mem:
  "(p, n) \<in> set (live a bs) \<Longrightarrow> \<exists>pre l post. bs = pre @ (l, False) # post \<and> p = a + blen pre + 16 \<and> n = l - 16"
proof (induction a bs rule: live.induct)
  case (2 a l f bs)
  show ?case
  proof (cases "(p, n) \<in> set (live (a + l) bs)")
    case True
    then obtain pre l' post where "bs = pre @ (l', False) # post" "p = a + l + blen pre + 16" "n = l' - 16"
      using "2.IH" by blast
    then show ?thesis by (intro exI[of _ "(l, f) # pre"] exI[of _ l'] exI[of _ post]) auto
  next
    case False
    with "2.prems" show ?thesis by (intro exI[of _ "[]"] exI[of _ l] exI[of _ bs]) (auto split: if_splits)
  qed
qed simp

lemma live_Nil_all_free: "live a bs = [] \<Longrightarrow> list_all snd bs"
  by (induction a bs rule: live.induct) (auto split: if_splits)

lemma all_free_single: "no_adjacent_free bs \<Longrightarrow> list_all snd bs \<Longrightarrow> bs \<noteq> [] \<Longrightarrow> \<exists>l. bs = [(l, True)]"
  by (induction bs rule: no_adjacent_free.induct) auto

lemma live_free_block: "live a (free_block pre l post) = live a pre @ live (a + blen pre + l) post"
proof (cases pre rule: rev_cases)
  case Nil
  then show ?thesis by (cases post) (auto simp: free_block_def merge_left_def merge_right_def add.assoc)
next
  case (snoc pre0 b)
  then show ?thesis
    by (cases post; cases b) (auto simp: free_block_def merge_left_def merge_right_def add.assoc)
qed

lemma live_alloc_block:
  "16 \<le> l \<Longrightarrow> sz \<le> l - 16 \<Longrightarrow> \<exists>n \<ge> sz. live a (alloc_block mn sz l) = [(a + 16, n)] \<and> blen (alloc_block mn sz l) = l"
  by (auto simp: alloc_block_def)

text \<open>The requests for which rounding up to a word does not wrap.\<close>

definition request_ok :: "nat \<Rightarrow> bool" where
  "request_ok n \<longleftrightarrow> n \<le> 2 ^ 32 - 4"

lemma request_size_props:
  assumes "pool_shape st bs" and "request_ok n"
  shows "4 dvd request_size (pcb st) n" "dm_min_allocation (pcb st) \<le> request_size (pcb st) n"
    "n \<le> request_size (pcb st) n" "0 < request_size (pcb st) n"
proof -
  have mn: "4 dvd dm_min_allocation (pcb st)" "0 < dm_min_allocation (pcb st)"
    using assms(1) by (auto simp: pool_shape_def Let_def)
  have r: "round4 n = (n + 3) div 4 * 4"
    using assms(2) by (simp add: round4_def request_ok_def)
  have le: "n \<le> (n + 3) div 4 * 4" by presburger
  have "dm_min_allocation (pcb st) \<le> n \<Longrightarrow> 0 < (n + 3) div 4 * 4" using mn(2) by simp
  with mn le show "4 dvd request_size (pcb st) n" "dm_min_allocation (pcb st) \<le> request_size (pcb st) n"
    "n \<le> request_size (pcb st) n" "0 < request_size (pcb st) n"
    by (auto simp: request_size_def r)
qed

lemma OS_GetMem_block:
  assumes rep: "pool_rep st bs" and n: "request_ok n"
  defines "s \<equiv> dm_start_address (pcb st)" and "sz \<equiv> request_size (pcb st) n"
  shows "(\<exists>pre l post st'. bs = pre @ (l, True) # post \<and> sz \<le> l - 16 \<and>
      OS_GetMem st n = Some (OS_ERR_NONE, s + blen pre + 16, st') \<and>
      pool_rep st' (pre @ alloc_block (dm_min_allocation (pcb st)) sz l @ post) \<and> same_pool st st') \<or>
    (OS_GetMem st n = Some (OS_ERR_MEM_FULL, 0, st) \<and> (\<forall>(l, f) \<in> set bs. f \<longrightarrow> l - 16 < sz))"
proof -
  let ?c = "pcb_addr st"
  have sh: "pool_shape st bs" and nf: "no_adjacent_free bs" using rep by (auto simp: pool_rep_def)
  note bd = shape_bounds[OF sh] and R = request_size_props[OF sh n, folded sz_def]
  have "position s bs (dm_search_ptr (pcb st))" using sh by (simp add: pool_shape_def Let_def s_def)
  then obtain pre suf where ps: "bs = pre @ suf" "dm_search_ptr (pcb st) = s + blen pre"
    by (auto simp: position_def)
  have "mk_heads ?c s (s + blen bs) s (bs @ []) \<subseteq>\<^sub>m heads st"
    using sh by (simp add: pool_shape_def Let_def s_def)
  with laid_out_mk_heads[OF block_ok_pos[OF bd(4)], of ?c s "s + blen bs" s "[]"]
  have lo: "laid_out ?c (heads st) s (pre @ suf)" using laid_out_mono ps(1) by simp
  obtain p where tr: "heads st (s + blen pre + blen suf) = Some (mk_header ?c s p False)"
    using shape_trailer[OF sh] ps(1) by (auto simp: s_def add.assoc)
  have len: "length xs \<le> blen xs" if "list_all (\<lambda>b. 16 \<le> fst b) xs" for xs
    using that by (induction xs) auto
  have ok16: "list_all (\<lambda>b. 16 \<le> fst b) (pre @ suf)" using block_ok_16[OF bd(4)] ps(1) by simp
  have lim: "s + blen pre + blen suf < 2 ^ 32" using bd ps(1) by (simp add: s_def)
  have fuel: "Suc (dm_pool_size (pcb st)) = Suc (length pre + length suf) + (dm_pool_size (pcb st) - (length pre + length suf))"
    using len[OF ok16] bd(5) ps(1) by simp
  obtain r fs where scan: "dm_scan (heads st) (dm_search_ptr (pcb st)) sz (Suc (dm_pool_size (pcb st))) (dm_search_ptr (pcb st)) = Some (r, fs)"
    and big: "sz \<le> fs \<Longrightarrow> \<exists>xs l ys. bs = xs @ (l, True) # ys \<and> r = s + blen xs \<and> fs = l - 16"
    and small: "fs < sz \<Longrightarrow> \<forall>(l, f) \<in> set bs. f \<longrightarrow> l - 16 < sz"
    by (rule dm_scan_circle[OF lo tr ok16 lim R(4), where n = "dm_pool_size (pcb st) - (length pre + length suf)",
          folded fuel ps]) (rule that)
  show ?thesis
  proof (cases "sz \<le> fs")
    case True
    then obtain xs l ys where x: "bs = xs @ (l, True) # ys" "r = s + blen xs" "fs = l - 16" using big by blast
    have "sz \<le> l - 16" using True x(3) by simp
    from OS_GetMem_found[OF sh[unfolded x(1)] nf[unfolded x(1)] sz_def[THEN meta_eq_to_obj_eq] R(1,2) this
        scan[unfolded x(2,3) s_def]] \<open>sz \<le> l - 16\<close> x(1)
    show ?thesis unfolding s_def by (intro disjI1) auto
  next
    case False
    then have "OS_GetMem st n = Some (OS_ERR_MEM_FULL, 0, st)"
      using scan unfolding OS_GetMem_def Let_def sz_def[symmetric] by simp
    with small False show ?thesis by auto
  qed
qed

definition heap_rep :: "nat \<Rightarrow> nat \<Rightarrow> dmem \<Rightarrow> blocks \<Rightarrow> bool" where
  "heap_rep a N st bs \<longleftrightarrow> pool_rep st bs \<and> dm_start_address (pcb st) = a \<and> dm_pool_size (pcb st) = N"

lemma heap_repD:
  assumes "heap_rep a N st bs"
  shows "\<exists>mn. list_all (block_ok mn) bs" "4 dvd a" "blen bs + 16 = N" "bs \<noteq> []" "no_adjacent_free bs"
    "dm_available (pcb st) = free_bytes bs"
  using assms by (auto simp: heap_rep_def pool_rep_def pool_shape_def Let_def)

lemma OSMMalloc_block:
  assumes rep: "heap_rep a N st bs" and n: "request_ok n"
  shows "(\<exists>pre l post st' k. bs = pre @ (l, True) # post \<and>
      OSMMalloc st n = Some (a + blen pre + 16, st') \<and> n \<le> k \<and>
      live a (pre @ alloc_block (dm_min_allocation (pcb st)) (request_size (pcb st) n) l @ post)
        = live a pre @ (a + blen pre + 16, k) # live (a + blen pre + l) post \<and>
      heap_rep a N st' (pre @ alloc_block (dm_min_allocation (pcb st)) (request_size (pcb st) n) l @ post)) \<or>
    (OSMMalloc st n = Some (0, st) \<and> (\<forall>(l, f) \<in> set bs. f \<longrightarrow> l - 16 < request_size (pcb st) n))"
proof -
  have pr: "pool_rep st bs" and sh: "pool_shape st bs" and a: "dm_start_address (pcb st) = a"
    using rep by (auto simp: heap_rep_def pool_rep_def)
  from OS_GetMem_block[OF pr n] show ?thesis
  proof (elim disjE exE conjE)
    fix pre l post st'
    assume b: "bs = pre @ (l, True) # post" and fit: "request_size (pcb st) n \<le> l - 16"
      and g: "OS_GetMem st n = Some (OS_ERR_NONE, dm_start_address (pcb st) + blen pre + 16, st')"
      and r: "pool_rep st' (pre @ alloc_block (dm_min_allocation (pcb st)) (request_size (pcb st) n) l @ post)"
      and sp: "same_pool st st'"
    have "16 \<le> l" using sh b by (auto simp: pool_shape_def Let_def block_ok_def)
    from live_alloc_block[OF this fit, of "a + blen pre" "dm_min_allocation (pcb st)"]
    obtain k where k: "request_size (pcb st) n \<le> k"
      "live (a + blen pre) (alloc_block (dm_min_allocation (pcb st)) (request_size (pcb st) n) l) = [(a + blen pre + 16, k)]"
      "blen (alloc_block (dm_min_allocation (pcb st)) (request_size (pcb st) n) l) = l" by auto
    have "n \<le> k" using request_size_props(3)[OF sh n] k(1) by simp
    with b g r sp k a rep show ?thesis
      by (intro disjI1 exI[of _ pre] exI[of _ l] exI[of _ post] exI[of _ st'] exI[of _ k])
        (auto simp: OSMMalloc_def heap_rep_def same_pool_def)
  qed (auto simp: OSMMalloc_def)
qed

lemma OSMFree_block:
  assumes rep: "heap_rep a N st bs" and mem: "(p, m) \<in> set (live a bs)"
  shows "\<exists>pre l post st'. bs = pre @ (l, False) # post \<and> p = a + blen pre + 16 \<and> m = l - 16 \<and>
    OSMFree st p = Some st' \<and> heap_rep a N st' (free_block pre l post)"
proof -
  from live_mem[OF mem] obtain pre l post where
    b: "bs = pre @ (l, False) # post" "p = a + blen pre + 16" "m = l - 16" by blast
  have "pool_rep st (pre @ (l, False) # post)" "dm_start_address (pcb st) = a" using rep b by (auto simp: heap_rep_def)
  from OS_FreeMem_block[OF this(1)] this(2) b rep show ?thesis
    by (auto simp: OSMFree_def heap_rep_def same_pool_def)
qed

interpretation heap: allocator "heap_rep a N" "live a" OSMMalloc OSMFree request_ok for a N
proof unfold_locales
  fix s b n
  assume r: "heap_rep a N s b" and n: "request_ok n"
  from OSMMalloc_block[OF r n] show "\<exists>p s'. OSMMalloc s n = Some (p, s') \<and> (p = 0 \<and> s' = s \<or>
       (p \<noteq> 0 \<and> (\<exists>b' m. heap_rep a N s' b' \<and> n \<le> m \<and> mset (live a b') = add_mset (p, m) (mset (live a b)))))"
  proof (elim disjE exE conjE)
    fix pre l post st' k
    assume H: "b = pre @ (l, True) # post" "OSMMalloc s n = Some (a + blen pre + 16, st')" "n \<le> k"
      "live a (pre @ alloc_block (dm_min_allocation (pcb s)) (request_size (pcb s) n) l @ post)
        = live a pre @ (a + blen pre + 16, k) # live (a + blen pre + l) post"
      "heap_rep a N st' (pre @ alloc_block (dm_min_allocation (pcb s)) (request_size (pcb s) n) l @ post)"
    then have "mset (live a (pre @ alloc_block (dm_min_allocation (pcb s)) (request_size (pcb s) n) l @ post)) =
      add_mset (a + blen pre + 16, k) (mset (live a b))" by (simp del: live_append) simp
    with H show ?thesis by (intro exI conjI disjI2) auto
  qed auto
next
  fix s b p m
  assume r: "heap_rep a N s b" and mem: "(p, m) \<in> set (live a b)"
  from OSMFree_block[OF this] obtain pre l post st' where H: "b = pre @ (l, False) # post" "p = a + blen pre + 16"
    "m = l - 16" "OSMFree s p = Some st'" "heap_rep a N st' (free_block pre l post)" by blast
  then show "\<exists>s' b'. OSMFree s p = Some s' \<and> heap_rep a N s' b' \<and> mset (live a b) = add_mset (p, m) (mset (live a b'))"
    by (intro exI[of _ st'] exI[of _ "free_block pre l post"]) (simp add: live_free_block)
qed

section \<open>Properties\<close>

definition sysemPool_ok :: "nat \<Rightarrow> bool" where
  "sysemPool_ok a \<longleftrightarrow> 0 < a \<and> 4 dvd a \<and> a + OS_DMEM_POOL_SIZE < 2 ^ 31"

lemma OS_DMemInit_rep:
  assumes "sysemPool_ok a"
  shows "\<exists>st. OS_DMemInit st0 a = Some st \<and> heap_rep a OS_DMEM_POOL_SIZE st [(OS_DMEM_POOL_SIZE - 16, True)]"
proof -
  have n: "rd_seg (ascii ''Sys'' @ [0]) 0 4 = Some (ascii ''Sys'' @ [0])" by (simp add: rd_seg_def ascii_def)
  have "sub32 20480 32 = 20448" "round4 16 = 16" by (simp_all add: sub32_def round4_def add32_def)
  moreover have "position a [(20464, True)] a" by (auto simp: position_def intro: exI[of _ "[]"])
  ultimately show ?thesis
    using assms n
    by (simp add: OS_DMemInit_def OS_Create_Memory_Pool_def Let_def heap_rep_def pool_rep_def pool_shape_def
        sysemPool_ok_def OS_DMEM_POOL_SIZE_def block_ok_def mk_header_def map_le_def fun_upd_twist)
qed

text \<open>What a client may rely on for the table of its allocations.\<close>

definition table_safe :: "nat \<Rightarrow> (nat \<times> nat) list \<Rightarrow> bool" where
  "table_safe a tab \<longleftrightarrow>
     (\<forall>i < length tab. a + 16 \<le> fst (tab ! i) \<and> 4 dvd fst (tab ! i) \<and>
        fst (tab ! i) + snd (tab ! i) + 16 \<le> a + OS_DMEM_POOL_SIZE) \<and>
     (\<forall>i < length tab. \<forall>j < length tab. i \<noteq> j \<longrightarrow>
        fst (tab ! i) + snd (tab ! i) < fst (tab ! j) \<or> fst (tab ! j) + snd (tab ! j) < fst (tab ! i))"

lemma table_safe_live:
  assumes rep: "heap_rep a OS_DMEM_POOL_SIZE st bs" and rel: "rel_mset tab_rel (mset tab) (mset (live a bs))"
  shows "table_safe a tab"
proof -
  from rel obtain xs ys0 where "mset xs = mset tab" "mset ys0 = mset (live a bs)" "list_all2 tab_rel xs ys0"
    by (auto simp: rel_mset_def)
  with list_all2_reorder_left_invariance[of tab_rel xs ys0 tab]
  obtain ys where r: "list_all2 tab_rel tab ys" and m: "mset ys = mset (live a bs)" by auto
  obtain mn where ok: "list_all (block_ok mn) bs" using heap_repD(1)[OF rep] by blast
  note a4 = heap_repD(2)[OF rep] and len = heap_repD(3)[OF rep]
  have "mset (map fst ys) = mset (map fst (live a bs))" using m by simp
  with live_distinct[OF ok a4] have d: "distinct (map fst ys)" by (metis mset_eq_imp_distinct_iff)
  have l: "length ys = length tab" and t: "\<And>i. i < length tab \<Longrightarrow> fst (tab ! i) = fst (ys ! i) \<and> snd (tab ! i) \<le> snd (ys ! i)"
    using r by (auto simp: list_all2_conv_all_nth tab_rel_def)
  have mem: "(fst (ys ! i), snd (ys ! i)) \<in> set (live a bs)" if "i < length tab" for i
    using that l mset_eq_setD[OF m] by (metis nth_mem prod.collapse)
  show ?thesis
    unfolding table_safe_def
  proof (intro conjI allI impI)
    fix i assume i: "i < length tab"
    from live_range[OF ok a4 mem[OF i]] t[OF i] len
    show "a + 16 \<le> fst (tab ! i)" "4 dvd fst (tab ! i)"
      "fst (tab ! i) + snd (tab ! i) + 16 \<le> a + OS_DMEM_POOL_SIZE" by auto
  next
    fix i j assume ij: "i < length tab" "j < length tab" "i \<noteq> j"
    then have "fst (ys ! i) \<noteq> fst (ys ! j)" using d l by (simp add: distinct_conv_nth)
    with live_disjoint[OF ok a4 mem[OF ij(1)] mem[OF ij(2)]] t[OF ij(1)] t[OF ij(2)]
    show "fst (tab ! i) + snd (tab ! i) < fst (tab ! j) \<or> fst (tab ! j) + snd (tab ! j) < fst (tab ! i)"
      by auto
  qed
qed

text \<open>A history: the pool is created at \<open>a\<close>, then the client runs.\<close>

definition heap_run :: "dmem \<Rightarrow> nat \<Rightarrow> heap_op list \<Rightarrow> dmem client" where
  "heap_run st0 a es =
     fold (client_step OSMMalloc OSMFree) es (map_option (\<lambda>st. (st, [])) (OS_DMemInit st0 a))"

definition dmem_bss :: dmem where
  "dmem_bss = \<lparr>pcb_addr = 0x10000, pcb = \<lparr>dm_id = 0, dm_name = zeros 4, dm_start_address = 0,
     dm_pool_size = 0, dm_min_allocation = 0, dm_available = 0, dm_memory_list = 0, dm_search_ptr = 0\<rparr>,
     heads = Map.empty, DMD_Total_Pools = 0\<rparr>"

lemma heap_history:
  assumes "sysemPool_ok a" and "list_all (heap_op_ok request_ok) es"
  shows "\<exists>st' tab bs. heap_run st0 a es = Some (st', tab) \<and>
    heap_rep a OS_DMEM_POOL_SIZE st' bs \<and> rel_mset tab_rel (mset tab) (mset (live a bs))"
proof -
  obtain st where st: "OS_DMemInit st0 a = Some st" "heap_rep a OS_DMEM_POOL_SIZE st [(OS_DMEM_POOL_SIZE - 16, True)]"
    using OS_DMemInit_rep[OF assms(1), of st0] by auto
  then have "heap.client_inv a OS_DMEM_POOL_SIZE (Some (st, []))"
    unfolding heap.client_inv_def by (fastforce simp: rel_mset_def)
  from heap.client.run_inv[OF assms(2) this] st(1) show ?thesis by (simp add: heap.client_inv_def heap_run_def)
qed

lemma dm_scan_numeral [simp]:
  "dm_scan hs sp sz (numeral k) a = dm_scan hs sp sz (Suc (pred_numeral k)) a"
  by (simp add: numeral_eq_Suc)

lemma rd_seg_Sys [simp]: "rd_seg (ascii ''Sys'' @ [0]) 0 4 = Some (ascii ''Sys'' @ [0])"
  by (simp add: rd_seg_def ascii_def)

lemmas heap_eval = OS_DMemInit_def OS_Create_Memory_Pool_def OSMMalloc_def OS_GetMem_def dm_scan.simps(2)
  Let_def OS_DMEM_POOL_SIZE_def request_size_def round4_def add32_def sub32_def dm_split_def

lemma dmem_bss_rep:
  "\<exists>st. OS_DMemInit dmem_bss 0x20000000 = Some st \<and> pool_rep st [(20464, True)] \<and> dm_start_address (pcb st) = 0x20000000"
  using OS_DMemInit_rep[of "0x20000000" dmem_bss]
  by (auto simp: heap_rep_def sysemPool_ok_def OS_DMEM_POOL_SIZE_def)

text \<open>C1 Heap safety over every history. From \<open>OS_DMemInit\<close> on, whatever sequence of allocations and
  releases of live pointers a client makes, no operation follows a corrupt link, and the blocks
  the client holds lie inside the pool between the first and the last header, are word aligned,
  have at least the bytes asked for, and no two overlap.\<close>

theorem OSM_history_safe:
  assumes "sysemPool_ok a" and "list_all (heap_op_ok request_ok) es"
  shows "\<exists>st' tab. heap_run st0 a es = Some (st', tab) \<and> table_safe a tab"
  using heap_history[OF assms, of st0] table_safe_live by blast

theorem OSM_history_safe_witness:
  "\<exists>st' tab. heap_run dmem_bss 0x20000000 [Malloc 100, Malloc 8, Free 0, Malloc 30000] = Some (st', tab) \<and>
     table_safe 0x20000000 tab"
  by (rule OSM_history_safe) (simp_all add: sysemPool_ok_def OS_DMEM_POOL_SIZE_def request_ok_def)

text \<open>C11 No leak and no fragmentation. After any history that leaves the client with no block, the
  pool is one free block again: the available count is back at its initial value and the whole
  pool can be allocated in one piece.\<close>

theorem OSM_history_no_leak:
  assumes "sysemPool_ok a" and "list_all (heap_op_ok request_ok) es" and "heap_run st0 a es = Some (st', [])"
  shows "dm_available (pcb st') = OS_DMEM_POOL_SIZE - 32 \<and>
    (\<exists>st''. OSMMalloc st' (OS_DMEM_POOL_SIZE - 32) = Some (a + 16, st''))"
proof -
  from heap_history[OF assms(1,2), of st0] assms(3) obtain bs where
    r: "heap_rep a OS_DMEM_POOL_SIZE st' bs" and m: "rel_mset tab_rel {#} (mset (live a bs))" by auto
  then have "live a bs = []" by (auto simp: rel_mset_def)
  then obtain l where bs: "bs = [(l, True)]"
    using live_Nil_all_free all_free_single heap_repD(4,5)[OF r] by blast
  then have l: "l = OS_DMEM_POOL_SIZE - 16" using heap_repD(3)[OF r] by simp
  then have av: "dm_available (pcb st') = OS_DMEM_POOL_SIZE - 32"
    using heap_repD(6)[OF r] bs by (simp add: OS_DMEM_POOL_SIZE_def)
  have "dm_min_allocation (pcb st') + 16 \<le> l"
    using r bs by (auto simp: heap_rep_def pool_rep_def pool_shape_def Let_def block_ok_def)
  then have "\<not> l - 16 < request_size (pcb st') (OS_DMEM_POOL_SIZE - 32)"
    by (simp add: l request_size_def round4_def add32_def OS_DMEM_POOL_SIZE_def)
  with OSMMalloc_block[OF r, of "OS_DMEM_POOL_SIZE - 32"] bs
  have "\<exists>st''. OSMMalloc st' (OS_DMEM_POOL_SIZE - 32) = Some (a + 16, st'')"
    by (auto simp: request_ok_def OS_DMEM_POOL_SIZE_def Cons_eq_append_conv simp del: live_append)
  with av show ?thesis by simp
qed

theorem OSM_history_no_leak_witness:
  "\<exists>st'. heap_run dmem_bss 0x20000000 [Malloc 100, Free 0] = Some (st', []) \<and>
     dm_available (pcb st') = OS_DMEM_POOL_SIZE - 32"
proof -
  let ?es = "[Malloc 100, Free 0]"
  have ok: "sysemPool_ok 0x20000000" "list_all (heap_op_ok request_ok) ?es"
    by (simp_all add: sysemPool_ok_def OS_DMEM_POOL_SIZE_def request_ok_def)
  obtain st' tab where run: "heap_run dmem_bss 0x20000000 ?es = Some (st', tab)"
    using heap_history[OF ok, of dmem_bss] by blast
  obtain st where "OS_DMemInit dmem_bss 0x20000000 = Some st" using dmem_bss_rep by blast
  with run have "tab = []" by (cases "OSMMalloc st 100") (auto simp: heap_run_def split: if_splits)
  with run have st': "heap_run dmem_bss 0x20000000 ?es = Some (st', [])" by simp
  from OSM_history_no_leak[OF ok st'] st' show ?thesis by blast
qed

text \<open>C16 First fit is complete. \<open>OSMMalloc\<close> fails only if no free block of the pool can hold the request
  rounded up to words; then the pool is unchanged. Otherwise it allocates, and the blocks that
  were live stay as they were.\<close>

theorem OSMMalloc_complete:
  assumes "pool_rep st bs" and "request_ok n"
  shows "(\<exists>p st' bs' k. OSMMalloc st n = Some (p, st') \<and> p \<noteq> 0 \<and> pool_rep st' bs' \<and> n \<le> k \<and>
      mset (live (dm_start_address (pcb st)) bs') = add_mset (p, k) (mset (live (dm_start_address (pcb st)) bs))) \<or>
    (OSMMalloc st n = Some (0, st) \<and> (\<forall>(l, f) \<in> set bs. f \<longrightarrow> l - 16 < request_size (pcb st) n))"
proof -
  have r: "heap_rep (dm_start_address (pcb st)) (dm_pool_size (pcb st)) st bs" using assms(1) by (simp add: heap_rep_def)
  from OSMMalloc_block[OF r assms(2)] show ?thesis
  proof (elim disjE exE conjE)
    fix pre l post st' k
    assume H: "bs = pre @ (l, True) # post"
      "OSMMalloc st n = Some (dm_start_address (pcb st) + blen pre + 16, st')" "n \<le> k"
      "live (dm_start_address (pcb st)) (pre @ alloc_block (dm_min_allocation (pcb st)) (request_size (pcb st) n) l @ post)
        = live (dm_start_address (pcb st)) pre @ (dm_start_address (pcb st) + blen pre + 16, k) #
          live (dm_start_address (pcb st) + blen pre + l) post"
      "heap_rep (dm_start_address (pcb st)) (dm_pool_size (pcb st)) st'
        (pre @ alloc_block (dm_min_allocation (pcb st)) (request_size (pcb st) n) l @ post)"
    show ?thesis
      by (intro disjI1 exI[of _ "dm_start_address (pcb st) + blen pre + 16"] exI[of _ st']
          exI[of _ "pre @ alloc_block (dm_min_allocation (pcb st)) (request_size (pcb st) n) l @ post"] exI[of _ k] conjI)
        (use H in \<open>auto simp: heap_rep_def simp del: live_append\<close>, simp)
  qed auto
qed

theorem OSMMalloc_complete_witness:
  "\<exists>st p st'. OS_DMemInit dmem_bss 0x20000000 = Some st \<and> OSMMalloc st 100 = Some (p, st') \<and> p \<noteq> 0"
proof -
  obtain st where st: "OS_DMemInit dmem_bss 0x20000000 = Some st" "pool_rep st [(20464, True)]"
    using dmem_bss_rep by blast
  have ok: "request_ok 100" by (simp add: request_ok_def)
  have "dm_min_allocation (pcb st) + 16 \<le> 20464"
    using st(2) by (auto simp: pool_rep_def pool_shape_def Let_def block_ok_def)
  then have fits: "\<not> 20464 - 16 < request_size (pcb st) 100"
    by (simp add: request_size_def round4_def add32_def)
  from OSMMalloc_complete[OF st(2) ok] show ?thesis
  proof
    assume "OSMMalloc st 100 = Some (0, st) \<and> (\<forall>(l, f) \<in> set [(20464, True)]. f \<longrightarrow> l - 16 < request_size (pcb st) 100)"
    with fits show ?thesis by simp
  qed (use st(1) in blast)
qed

text \<open>A request within 3 bytes of \<open>2 ^ 32\<close> wraps to 0 when it is rounded up, and the search then
  accepts any block, free or not: on a fresh heap, once the whole pool is allocated, the call
  returns the address behind the trailer, outside the pool, and the next such call returns the
  block the client already holds.\<close>

theorem OSMMalloc_wrap:
  "(do {
      st \<leftarrow> OS_DMemInit st0 0x20000000;
      (p1, st1) \<leftarrow> OSMMalloc st (OS_DMEM_POOL_SIZE - 32);
      (p2, st2) \<leftarrow> OSMMalloc st1 0xFFFFFFFF;
      (p3, st3) \<leftarrow> OSMMalloc st2 0xFFFFFFFF;
      Some (p1, p2, p3)
    }) = Some (0x20000010, 0x20000000 + OS_DMEM_POOL_SIZE, 0x20000010)"
  by (simp add: heap_eval)

text \<open>\<open>OSMCalloc\<close> of a product that does not wrap clears exactly \<open>cnt * sz\<close> bytes, all of them inside
  the new block.\<close>

theorem OSMCalloc_clears:
  assumes "pool_rep st bs" and "request_ok (cnt * sz)"
  shows "\<exists>p z st'. OSMCalloc st cnt sz = Some (p, z, st') \<and>
    (p = 0 \<and> z = 0 \<and> st' = st \<or>
     (\<exists>bs' k. pool_rep st' bs' \<and> (p, k) \<in> set (live (dm_start_address (pcb st)) bs') \<and> z = cnt * sz \<and> z \<le> k))"
proof -
  have t: "(cnt * sz) mod 2 ^ 32 = cnt * sz" using assms(2) by (simp add: request_ok_def)
  have r: "heap_rep (dm_start_address (pcb st)) (dm_pool_size (pcb st)) st bs" using assms(1) by (simp add: heap_rep_def)
  from heap.malloc_ok[OF r assms(2)] obtain p st' where m: "OSMMalloc st (cnt * sz) = Some (p, st')" and
    d: "p = 0 \<and> st' = st \<or> (p \<noteq> 0 \<and> (\<exists>b' m. heap_rep (dm_start_address (pcb st)) (dm_pool_size (pcb st)) st' b' \<and>
        cnt * sz \<le> m \<and> mset (live (dm_start_address (pcb st)) b') =
          add_mset (p, m) (mset (live (dm_start_address (pcb st)) bs))))" by blast
  have c: "OSMCalloc st cnt sz = Some (p, if p \<noteq> 0 then cnt * sz else 0, st')"
    using m t by (simp add: OSMCalloc_def Let_def)
  from d show ?thesis
  proof
    assume "p = 0 \<and> st' = st"
    with c show ?thesis by auto
  next
    assume "p \<noteq> 0 \<and> (\<exists>b' m. heap_rep (dm_start_address (pcb st)) (dm_pool_size (pcb st)) st' b' \<and>
        cnt * sz \<le> m \<and> mset (live (dm_start_address (pcb st)) b') =
          add_mset (p, m) (mset (live (dm_start_address (pcb st)) bs)))"
    then obtain b' k where b': "p \<noteq> 0" "pool_rep st' b'" "cnt * sz \<le> k"
      "mset (live (dm_start_address (pcb st)) b') = add_mset (p, k) (mset (live (dm_start_address (pcb st)) bs))"
      by (auto simp: heap_rep_def)
    then have "(p, k) \<in> set (live (dm_start_address (pcb st)) b')"
      by (metis set_mset_mset union_single_eq_member)
    with b' c show ?thesis by auto
  qed
qed

theorem OSMCalloc_clears_witness:
  "\<exists>st p z st'. OS_DMemInit dmem_bss 0x20000000 = Some st \<and> OSMCalloc st 3 40 = Some (p, z, st') \<and> (z = 0 \<or> z = 120)"
proof -
  obtain st where st: "OS_DMemInit dmem_bss 0x20000000 = Some st" "pool_rep st [(20464, True)]"
    using dmem_bss_rep by blast
  have "request_ok (3 * 40)" by (simp add: request_ok_def)
  from OSMCalloc_clears[OF st(2) this] st(1) show ?thesis by auto
qed

end
