(* ===== verification/NstUtil.thy ===== *)
theory NstUtil
  imports Prelude "HOL-Library.Sublist"
begin

text \<open>
  The utility layer: the timers of Sys/util.c over the timers of the operating system, the
  overlapping memory move, hexadecimal conversion, the C string functions the firmware brings
  along (Sys/util.c, App/GizWitsWifi/lib/str_lib.c) and the substring search of lib/utilcoding.c.
  A \<open>const char *\<close> is the list of the bytes from there on; running off its end is \<open>None\<close>.
\<close>

section \<open>Timers\<close>

text \<open>
  An \<open>NST_TIMER\<close> is an \<open>OS_TMR\<close>; of it the code sets the mode, the delay and the period. NULL is
  \<open>None\<close>. Whether \<open>OSTmrCreate\<close> succeeds, and what \<open>OSTmrStop\<close> and \<open>OSTmrDel\<close> return, comes from
  the operating system.
\<close>

record nst_timer =
  OSTmrPeriodic :: bool
  OSTmrDly :: u32
  OSTmrPeriod :: u32
  OSTmrRunning :: bool

type_synonym nst_timer_ptr = "nst_timer option"

definition NST_InitTimer :: "bool \<Rightarrow> nst_timer_ptr \<Rightarrow> bool \<Rightarrow> nst_timer_ptr" where
  "NST_InitTimer created pTimer Repeat =
     (case pTimer of
        Some t \<Rightarrow> Some t
      | None \<Rightarrow> if created then Some \<lparr>OSTmrPeriodic = Repeat, OSTmrDly = 0, OSTmrPeriod = 0, OSTmrRunning = False\<rparr> else None)"

definition NST_DelTimer :: "bool \<Rightarrow> nst_timer_ptr \<Rightarrow> nst_timer_ptr \<times> bool option" where
  "NST_DelTimer deleted pTimer = (case pTimer of None \<Rightarrow> (None, None) | Some t \<Rightarrow> (None, Some deleted))"

definition NST_SetTimer :: "nst_timer_ptr \<Rightarrow> u32 \<Rightarrow> nst_timer_ptr" where
  "NST_SetTimer pTimer Value =
     (case pTimer of
        None \<Rightarrow> None
      | Some t \<Rightarrow>
          let TimeValue = Value div 10;
              TimeValue = (if TimeValue = 0 then 1 else TimeValue)
          in Some ((if OSTmrPeriodic t then t\<lparr>OSTmrPeriod := TimeValue, OSTmrDly := 0\<rparr>
                    else t\<lparr>OSTmrPeriod := 0, OSTmrDly := TimeValue\<rparr>)\<lparr>OSTmrRunning := True\<rparr>))"

definition NST_CancelTimer :: "bool \<Rightarrow> nst_timer_ptr \<Rightarrow> nst_timer_ptr \<times> bool option" where
  "NST_CancelTimer stopped pTimer =
     (case pTimer of None \<Rightarrow> (None, None) | Some t \<Rightarrow> (Some (t\<lparr>OSTmrRunning := False\<rparr>), Some stopped))"

definition NST_ModTimer :: "bool \<Rightarrow> nst_timer_ptr \<Rightarrow> u32 \<Rightarrow> nst_timer_ptr" where
  "NST_ModTimer stopped pTimer Value =
     (case pTimer of None \<Rightarrow> None | Some t \<Rightarrow> NST_SetTimer (fst (NST_CancelTimer stopped pTimer)) Value)"

section \<open>Moving memory\<close>

fun copy_down :: "bytes \<Rightarrow> nat \<Rightarrow> nat \<Rightarrow> nat \<Rightarrow> bytes option" where
  "copy_down mem dst s 0 = Some mem"
| "copy_down mem dst s (Suc n) = do { v \<leftarrow> rd mem (s + n); mem' \<leftarrow> wr mem (dst + n) v; copy_down mem' dst s n }"

fun copy_up :: "bytes \<Rightarrow> nat \<Rightarrow> nat \<Rightarrow> nat \<Rightarrow> bytes option" where
  "copy_up mem dst s 0 = Some mem"
| "copy_up mem dst s (Suc n) = do { v \<leftarrow> rd mem s; mem' \<leftarrow> wr mem dst v; copy_up mem' (dst + 1) (s + 1) n }"

text \<open>Two regions of one memory, given by their first bytes.\<close>

definition NST_MoveMemOvlap :: "bytes \<Rightarrow> nat \<Rightarrow> nat \<Rightarrow> u16 \<Rightarrow> bytes option" where
  "NST_MoveMemOvlap mem pDst pSrc Size =
     (if pSrc < pDst then copy_down mem pDst pSrc (unat Size) else copy_up mem pDst pSrc (unat Size))"

section \<open>Hexadecimal digits\<close>

definition BtoH :: "u8 \<Rightarrow> u8" where
  "BtoH ch = (if 48 \<le> ch \<and> ch \<le> 57 then ch - 48 else if 65 \<le> ch \<and> ch \<le> 70 then ch - 65 + 10
     else if 97 \<le> ch \<and> ch \<le> 102 then ch - 97 + 10 else 255)"

fun AtoH :: "bytes \<Rightarrow> bytes \<Rightarrow> nat \<Rightarrow> nat \<Rightarrow> bytes option" where
  "AtoH s dest i 0 = Some dest"
| "AtoH s dest i (Suc destlen) = do {
     h \<leftarrow> rd s (2 * i);
     dest1 \<leftarrow> wr dest i (push_bit 4 (BtoH h));
     l \<leftarrow> rd s (2 * i + 1);
     dest2 \<leftarrow> wr dest1 i (push_bit 4 (BtoH h) + BtoH l);
     AtoH s dest2 (i + 1) destlen
   }"

section \<open>Strings\<close>

fun strcpy_from :: "bytes \<Rightarrow> nat \<Rightarrow> bytes \<Rightarrow> bytes option" where
  "strcpy_from dest i [] = None"
| "strcpy_from dest i (c # cs) = do { dest' \<leftarrow> wr dest i c; if c = 0 then Some dest' else strcpy_from dest' (i + 1) cs }"

definition nst_strcpy :: "bytes \<Rightarrow> bytes \<Rightarrow> bytes option" where
  "nst_strcpy dest s = strcpy_from dest 0 s"

fun nul_index :: "bytes \<Rightarrow> nat option" where
  "nul_index [] = None"
| "nul_index (c # cs) = (if c = 0 then Some 0 else map_option Suc (nul_index cs))"

definition nst_strcat :: "bytes \<Rightarrow> bytes \<Rightarrow> bytes option" where
  "nst_strcat dest s = do { e \<leftarrow> nul_index dest; strcpy_from dest e s }"

fun char_in :: "u8 \<Rightarrow> bytes \<Rightarrow> bool option" where
  "char_in c [] = None"
| "char_in c (a # as) = (if a = 0 then Some False else if c = a then Some True else char_in c as)"

fun nst_strspn :: "bytes \<Rightarrow> bytes \<Rightarrow> nat \<Rightarrow> nat option" where
  "nst_strspn [] accept cnt = None"
| "nst_strspn (p # ps) accept cnt =
     (if p = 0 then Some cnt
      else do { b \<leftarrow> char_in p accept; if b then nst_strspn ps accept (cnt + 1) else Some cnt })"

fun nst_strpbrk :: "bytes \<Rightarrow> bytes \<Rightarrow> nat \<Rightarrow> nat option option" where
  "nst_strpbrk [] s2 i = None"
| "nst_strpbrk (s # ss) s2 i =
     (if s = 0 then Some None
      else do { b \<leftarrow> char_in s s2; if b then Some (Some i) else nst_strpbrk ss s2 (i + 1) })"

text \<open>
  \<open>strncpy\<close> copies four characters a round; \<open>i\<close> is the index in both strings. The rounds end with
  the index of the terminator just copied, or with the index of the first character not copied.
\<close>

definition copy_char :: "bytes \<Rightarrow> bytes \<Rightarrow> nat \<Rightarrow> (u8 \<times> bytes) option" where
  "copy_char d s i = do { c \<leftarrow> rd s i; d' \<leftarrow> wr d i c; Some (c, d') }"

fun strncpy_quads :: "nat \<Rightarrow> bytes \<Rightarrow> bytes \<Rightarrow> nat \<Rightarrow> (bytes \<times> nat \<times> bool) option" where
  "strncpy_quads 0 d s i = Some (d, i, False)"
| "strncpy_quads (Suc n4) d s i = do {
     (c, d) \<leftarrow> copy_char d s i;
     if c = 0 then Some (d, i, True) else do {
     (c, d) \<leftarrow> copy_char d s (i + 1);
     if c = 0 then Some (d, i + 1, True) else do {
     (c, d) \<leftarrow> copy_char d s (i + 2);
     if c = 0 then Some (d, i + 2, True) else do {
     (c, d) \<leftarrow> copy_char d s (i + 3);
     if c = 0 then Some (d, i + 3, True) else strncpy_quads n4 d s (i + 4) }}}}"

fun zero_fill :: "nat \<Rightarrow> bytes \<Rightarrow> nat \<Rightarrow> bytes option" where
  "zero_fill 0 d i = None"
| "zero_fill (Suc n) d i = do { d \<leftarrow> wr d i 0; if n = 0 then Some d else zero_fill n d (i + 1) }"

fun last_chars :: "nat \<Rightarrow> bytes \<Rightarrow> bytes \<Rightarrow> nat \<Rightarrow> bytes option" where
  "last_chars 0 d s i = Some d"
| "last_chars (Suc n) d s i = do {
     (c, d) \<leftarrow> copy_char d s i;
     if n = 0 then Some d else if c \<noteq> 0 then last_chars n d s (i + 1) else zero_fill n d (i + 1) }"

definition nst_strncpy :: "bytes \<Rightarrow> bytes \<Rightarrow> nat \<Rightarrow> bytes option" where
  "nst_strncpy d s n =
     (if 4 \<le> n then do {
        (d, i, ended) \<leftarrow> strncpy_quads (n div 4) d s 0;
        if ended then let n' = n - i - 1 in if n' = 0 then Some d else zero_fill n' d (i + 1)
        else last_chars (n mod 4) d s i
      } else last_chars (n mod 4) d s 0)"

fun strncmp_loop :: "bytes \<Rightarrow> bytes \<Rightarrow> nat \<Rightarrow> int option" where
  "strncmp_loop (a # as) (b # bs) (Suc n) =
     (if a \<noteq> b then Some (if a = 0 then -1 else if b = 0 then 1 else int (unat a) - int (unat b))
      else if a = 0 then Some 0
      else if n = 0 then Some 0 else strncmp_loop as bs n)"
| "strncmp_loop _ _ _ = None"

definition nst_strncmp :: "bytes \<Rightarrow> bytes \<Rightarrow> nat \<Rightarrow> int option" where
  "nst_strncmp s1 s2 n = (if n = 0 then Some 0 else strncmp_loop s1 s2 n)"

fun match_here :: "bytes \<Rightarrow> bytes \<Rightarrow> bool option" where
  "match_here (x # xs) (y # ys) =
     (if x = y then (case ys of [] \<Rightarrow> None | z # _ \<Rightarrow> if z = 0 then Some True else match_here xs ys) else Some False)"
| "match_here _ _ = None"

fun strstr_loop :: "bytes \<Rightarrow> bytes \<Rightarrow> nat \<Rightarrow> nat option option" where
  "strstr_loop [] s2 i = None"
| "strstr_loop (c # cs) s2 i =
     (if c = 0 then Some None
      else do { b \<leftarrow> match_here (c # cs) s2; if b then Some (Some i) else strstr_loop cs s2 (i + 1) })"

definition GAgent_strstr :: "bytes \<Rightarrow> bytes \<Rightarrow> nat option option" where
  "GAgent_strstr s1 s2 = do { c \<leftarrow> rd s2 0; if c \<noteq> 0 then strstr_loop s1 s2 0 else Some (Some 0) }"


section \<open>The move is correct for every overlap\<close>

definition moved :: "bytes \<Rightarrow> nat \<Rightarrow> nat \<Rightarrow> nat \<Rightarrow> bytes \<Rightarrow> bool" where
  "moved mem d s n r \<longleftrightarrow> length r = length mem \<and>
     (\<forall>j < length mem. r ! j = (if d \<le> j \<and> j < d + n then mem ! (s + j - d) else mem ! j))"

lemma moved_0: "moved mem d s 0 mem"
  by (auto simp: moved_def)

lemma moved_down:
  assumes "s < d" "d + Suc n \<le> length mem" and m: "moved (mem[d + n := mem ! (s + n)]) d s n r"
  shows "moved mem d s (Suc n) r"
proof -
  have "r ! j = (if d \<le> j \<and> j < d + Suc n then mem ! (s + j - d) else mem ! j)" if "j < length mem" for j
  proof -
    have "r ! j = (if d \<le> j \<and> j < d + n then mem[d + n := mem ! (s + n)] ! (s + j - d) else mem[d + n := mem ! (s + n)] ! j)"
      using m that by (simp add: moved_def)
    then show ?thesis using assms(1,2) by (cases "j = d + n") (auto simp: nth_update)
  qed
  then show ?thesis using m by (simp add: moved_def)
qed

lemma moved_up:
  assumes "d \<le> s" "s < length mem" and m: "moved (mem[d := mem ! s]) (d + 1) (s + 1) n r"
  shows "moved mem d s (Suc n) r"
proof -
  have "r ! j = (if d \<le> j \<and> j < d + Suc n then mem ! (s + j - d) else mem ! j)" if "j < length mem" for j
  proof -
    have "r ! j = (if d + 1 \<le> j \<and> j < d + 1 + n then mem[d := mem ! s] ! (s + 1 + j - (d + 1)) else mem[d := mem ! s] ! j)"
      using m that by (simp add: moved_def)
    then show ?thesis using assms(1,2) by (cases "j = d") (auto simp: nth_update)
  qed
  then show ?thesis using m by (simp add: moved_def)
qed

lemma copy_down_correct:
  "s < d \<Longrightarrow> s + n \<le> length mem \<Longrightarrow> d + n \<le> length mem \<Longrightarrow> \<exists>r. copy_down mem d s n = Some r \<and> moved mem d s n r"
proof (induction n arbitrary: mem)
  case (Suc n)
  have "\<exists>r. copy_down (mem[d + n := mem ! (s + n)]) d s n = Some r \<and> moved (mem[d + n := mem ! (s + n)]) d s n r"
    by (rule Suc.IH) (use Suc.prems in simp_all)
  then show ?case using Suc.prems moved_down[of s d n mem] by (auto simp: wr_def)
qed (simp add: moved_0)

lemma copy_up_correct:
  "d \<le> s \<Longrightarrow> s + n \<le> length mem \<Longrightarrow> \<exists>r. copy_up mem d s n = Some r \<and> moved mem d s n r"
proof (induction n arbitrary: mem d s)
  case (Suc n)
  have "\<exists>r. copy_up (mem[d := mem ! s]) (d + 1) (s + 1) n = Some r \<and> moved (mem[d := mem ! s]) (d + 1) (s + 1) n r"
    by (rule Suc.IH) (use Suc.prems in simp_all)
  then show ?case using Suc.prems moved_up[of d s mem n] by (auto simp: wr_def)
qed (simp add: moved_0)

lemma move_correct:
  assumes "pSrc + unat Size \<le> length mem" and "pDst + unat Size \<le> length mem"
  shows "NST_MoveMemOvlap mem pDst pSrc Size = wr_seg mem pDst (take (unat Size) (drop pSrc mem))"
proof -
  obtain r where r: "NST_MoveMemOvlap mem pDst pSrc Size = Some r" and m: "moved mem pDst pSrc (unat Size) r"
  proof (cases "pSrc < pDst")
    case True
    then show ?thesis using copy_down_correct[OF True assms] that by (auto simp: NST_MoveMemOvlap_def)
  next
    case False
    then show ?thesis using copy_up_correct[of pDst pSrc "unat Size" mem] assms that by (auto simp: NST_MoveMemOvlap_def)
  qed
  let ?src = "take (unat Size) (drop pSrc mem)"
  have l: "length ?src = unat Size" using assms(1) by simp
  have "r = put mem pDst ?src"
  proof (rule nth_equalityI)
    show "length r = length (put mem pDst ?src)" using m l assms by (simp add: moved_def)
    fix j assume "j < length r"
    then have j: "j < length mem" using m by (simp add: moved_def)
    then have "r ! j = (if pDst \<le> j \<and> j < pDst + unat Size then mem ! (pSrc + j - pDst) else mem ! j)"
      using m by (simp add: moved_def)
    moreover have "put mem pDst ?src ! j = (if j < pDst then mem ! j else if j < pDst + unat Size then ?src ! (j - pDst) else mem ! j)"
      using nth_put[of pDst ?src mem j] l assms(2) j by simp
    ultimately show "r ! j = put mem pDst ?src ! j" using assms(1) by auto
  qed
  then show ?thesis using r l assms by (simp add: wr_seg_def)
qed

section \<open>The unrolled copy\<close>

fun copy_ref :: "nat \<Rightarrow> bytes \<Rightarrow> bytes \<Rightarrow> nat \<Rightarrow> bytes option" where
  "copy_ref 0 d s i = Some d"
| "copy_ref (Suc n) d s i = do {
     (c, d) \<leftarrow> copy_char d s i;
     if c = 0 then (if n = 0 then Some d else zero_fill n d (i + 1)) else copy_ref n d s (i + 1) }"

lemma last_chars_ref: "last_chars n d s i = copy_ref n d s i"
proof (induction n arbitrary: d i)
  case (Suc n)
  show ?case
    by (cases "copy_char d s i"; cases "n = 0") (simp_all add: Suc.IH split: prod.splits)
qed simp

lemma quads_index:
  "strncpy_quads n4 d s i = Some (d', i', ended) \<Longrightarrow> i \<le> i' \<and> (ended \<longrightarrow> i' < i + 4 * n4)"
proof (induction n4 arbitrary: d i)
  case (Suc n4)
  from Suc.prems consider "ended" "i' \<in> {i, i + 1, i + 2, i + 3}" | e where "strncpy_quads n4 e s (i + 4) = Some (d', i', ended)"
    by (auto simp: Let_def split: bind_splits prod.splits if_splits)
  then show ?case
  proof cases
    case 2
    then show ?thesis using Suc.IH[of e "i + 4"] by auto
  qed auto
qed simp

definition quads_end :: "nat \<Rightarrow> bytes \<Rightarrow> nat \<Rightarrow> nat \<Rightarrow> nat \<Rightarrow> (bytes \<times> nat \<times> bool) \<Rightarrow> bytes option" where
  "quads_end n s i n4 k r = (case r of (d', i', ended) \<Rightarrow>
     if ended then (let n' = n - (i' - i) - 1 in if n' = 0 then Some d' else zero_fill n' d' (i' + 1))
     else copy_ref k d' s i')"

lemma strncpy_quads_ref:
  "4 * n4 \<le> n \<Longrightarrow> copy_ref n d s i = strncpy_quads n4 d s i \<bind> quads_end n s i n4 (n - 4 * n4)"
proof (induction n4 arbitrary: n d i)
  case 0
  show ?case by (simp add: quads_end_def)
next
  case (Suc n4)
  define m where "m = n - 4"
  have n: "n = Suc (Suc (Suc (Suc m)))" and m: "4 * n4 \<le> m" using Suc.prems by (simp_all add: m_def)
  have t: "n - 4 * Suc n4 = m - 4 * n4" by (simp add: m_def)
  have IH: "copy_ref m e s (i + 4) = strncpy_quads n4 e s (i + 4) \<bind> quads_end n s i (Suc n4) (m - 4 * n4)" for e
  proof -
    have "quads_end m s (i + 4) n4 (m - 4 * n4) r = quads_end n s i (Suc n4) (m - 4 * n4) r"
      if "strncpy_quads n4 e s (i + 4) = Some r" for r
    proof -
      obtain d' i' ended where r: "r = (d', i', ended)" by (cases r)
      have "m - (i' - (i + 4)) - 1 = n - (i' - i) - 1"
        using quads_index[of n4 e s "i + 4" d' i' ended] that r by (auto simp: n)
      then show ?thesis by (simp only: r quads_end_def prod.case)
    qed
    then show ?thesis unfolding Suc.IH[OF m] by (cases "strncpy_quads n4 e s (i + 4)") simp_all
  qed
  let ?q = "quads_end n s i (Suc n4) (m - 4 * n4)"
  have st: "copy_char d s (i + j) \<bind> (\<lambda>(c, d). if c = 0 then (if k = 0 then Some d else zero_fill k d (i + j + 1)) else F d) =
      copy_char d s (i + j) \<bind> (\<lambda>(c, d). if c = 0 then Some (d, i + j, True) else G d) \<bind> ?q"
    if "k = n - j - 1" "\<And>d. F d = G d \<bind> ?q" for d j k F G
    using that by (cases "copy_char d s (i + j)") (auto simp: quads_end_def Let_def split: prod.splits)
  let ?Q3 = "\<lambda>d. copy_char d s (i + 3) \<bind> (\<lambda>(c, d). if c = 0 then Some (d, i + 3, True) else strncpy_quads n4 d s (i + 4))"
  let ?Q2 = "\<lambda>d. copy_char d s (i + 2) \<bind> (\<lambda>(c, d). if c = 0 then Some (d, i + 2, True) else ?Q3 d)"
  let ?Q1 = "\<lambda>d. copy_char d s (i + 1) \<bind> (\<lambda>(c, d). if c = 0 then Some (d, i + 1, True) else ?Q2 d)"
  have i: "i + 1 + 1 = i + 2" "i + 2 + 1 = i + 3" "i + 3 + 1 = i + 4" by simp_all
  have q3: "copy_ref (Suc m) d s (i + 3) = ?Q3 d \<bind> ?q" for d
    unfolding copy_ref.simps i by (rule st[where j = 3, unfolded i, OF _ IH]) (simp add: n)
  have q2: "copy_ref (Suc (Suc m)) d s (i + 2) = ?Q2 d \<bind> ?q" for d
    unfolding copy_ref.simps(2)[of "Suc m"] i by (rule st[where j = 2, unfolded i, OF _ q3]) (simp add: n)
  have q1: "copy_ref (Suc (Suc (Suc m))) d s (i + 1) = ?Q1 d \<bind> ?q" for d
    unfolding copy_ref.simps(2)[of "Suc (Suc m)"] i by (rule st[where j = 1, unfolded i, OF _ q2]) (simp add: n)
  have q0: "copy_ref n d s i = (copy_char d s i \<bind> (\<lambda>(c, d). if c = 0 then Some (d, i, True) else ?Q1 d)) \<bind> ?q"
    unfolding n copy_ref.simps(2)[of "Suc (Suc (Suc m))"]
    by (rule st[where j = 0, unfolded n add_0_right, OF _ q1[unfolded n]]) simp
  show ?case unfolding t strncpy_quads.simps by (rule q0)
qed

lemma wr_seg_Cons: "wr_seg d i (x # xs) = wr d i x \<bind> (\<lambda>d'. wr_seg d' (i + 1) xs)"
  by (auto simp: wr_seg_def wr_def put_def take_Suc_conv_app_nth take_update_cancel drop_update_cancel)

lemma wr_seg_Nil: "i \<le> length d \<Longrightarrow> wr_seg d i [] = Some d"
  by (simp add: wr_seg_def put_def)

lemma zero_fill_eq: "zero_fill (Suc n) d i = wr_seg d i (zeros (Suc n))"
proof (induction n arbitrary: d i)
  case 0
  show ?case by (auto simp: zeros_def wr_seg_Cons wr_def wr_seg_Nil)
next
  case (Suc n)
  have "zero_fill (Suc (Suc n)) d i = wr d i 0 \<bind> (\<lambda>d'. zero_fill (Suc n) d' (i + 1))"
    by (simp del: zero_fill.simps add: zero_fill.simps(2)[of "Suc n"])
  also have "\<dots> = wr d i 0 \<bind> (\<lambda>d'. wr_seg d' (i + 1) (zeros (Suc n)))" by (simp only: Suc.IH)
  also have "\<dots> = wr_seg d i (0 # zeros (Suc n))" by (simp only: wr_seg_Cons)
  finally show ?case by (simp add: zeros_def)
qed

lemma copy_ref_eq:
  "i \<le> length d \<Longrightarrow> i \<le> length s \<Longrightarrow> copy_ref n d s i =
     (let c = take n (takeWhile (\<lambda>x. x \<noteq> 0) (drop i s)) in
      if 0 \<in> set (drop i s) \<or> n \<le> length (drop i s) then wr_seg d i (c @ zeros (n - length c)) else None)"
proof (induction n arbitrary: d i)
  case 0
  then show ?case by (simp add: wr_seg_Nil)
next
  case (Suc n)
  show ?case
  proof (cases "i < length s \<and> i < length d")
    case False
    with Suc.prems consider "i = length s" | "i < length s" "i = length d" by linarith
    then show ?thesis
      by cases (auto simp: copy_char_def rd_def wr_def wr_seg_def Let_def)
  next
    case True
    then have ds: "drop i s = s ! i # drop (Suc i) s" by (simp add: Cons_nth_drop_Suc)
    have cc: "copy_char d s i = Some (s ! i, d[i := s ! i])" using True by (simp add: copy_char_def rd_def wr_def)
    have w: "wr d i (s ! i) = Some (d[i := s ! i])" using True by (simp add: wr_def)
    show ?thesis
    proof (cases "s ! i = 0")
      case False
      have IH: "copy_ref n (d[i := s ! i]) s (i + 1) =
        (let c = take n (takeWhile (\<lambda>x. x \<noteq> 0) (drop (i + 1) s)) in
         if 0 \<in> set (drop (i + 1) s) \<or> n \<le> length (drop (i + 1) s)
         then wr_seg (d[i := s ! i]) (i + 1) (c @ zeros (n - length c)) else None)"
        by (rule Suc.IH) (use True in simp_all)
      show ?thesis using False True IH w
        by (simp add: cc ds Let_def wr_seg_Cons)
    next
      case z: True
      then show ?thesis using True w
        by (cases n) (simp_all add: cc ds Let_def wr_seg_Cons zeros_def wr_seg_Nil zero_fill_eq del: zero_fill.simps)
    qed
  qed
qed

lemma nst_strncpy_ref: "nst_strncpy d s n = copy_ref n d s 0"
proof (cases "4 \<le> n")
  case True
  have "n - 4 * (n div 4) = n mod 4" by (simp add: minus_mult_div_eq_mod)
  then have "copy_ref n d s 0 = strncpy_quads (n div 4) d s 0 \<bind> quads_end n s 0 (n div 4) (n mod 4)"
    using strncpy_quads_ref[of "n div 4" n d s 0] by (simp add: mult.commute)
  then show ?thesis using True
    by (simp add: nst_strncpy_def last_chars_ref quads_end_def [abs_def] Let_def split_def cong: if_cong)
next
  case False
  then show ?thesis by (simp add: nst_strncpy_def last_chars_ref)
qed

section \<open>Substring search\<close>

lemma match_here_eq:
  "no_nul a \<Longrightarrow> no_nul b \<Longrightarrow> b \<noteq> [] \<Longrightarrow> match_here (a @ 0 # r) (b @ 0 # t) = Some (prefix b a)"
proof (induction a arbitrary: b)
  case Nil
  then show ?case by (cases b) (auto simp: no_nul_def)
next
  case (Cons x a)
  then obtain y b' where b: "b = y # b'" by (cases b) auto
  show ?case
  proof (cases b')
    case Nil
    then show ?thesis by (auto simp: b)
  next
    case (Cons z b'')
    then have "z \<noteq> 0" using \<open>no_nul b\<close> b by (auto simp: no_nul_def)
    moreover have "match_here (a @ 0 # r) (b' @ 0 # t) = Some (prefix b' a)"
      by (rule Cons.IH) (use Cons.prems b Cons in \<open>auto simp: no_nul_def\<close>)
    ultimately show ?thesis using Cons by (simp add: b)
  qed
qed

definition first_occurrence :: "bytes \<Rightarrow> bytes \<Rightarrow> nat option" where
  "first_occurrence a b = List.find (\<lambda>i. prefix b (drop i a)) [0..<length a]"

lemma strstr_loop_eq:
  "no_nul a \<Longrightarrow> no_nul b \<Longrightarrow> b \<noteq> [] \<Longrightarrow> strstr_loop (drop i a @ 0 # r) (b @ 0 # t) i =
     Some (List.find (\<lambda>j. prefix b (drop j a)) [i..<length a])"
proof (induction "length a - i" arbitrary: i)
  case 0
  then show ?case by simp
next
  case (Suc k)
  then have i: "i < length a" by simp
  then have d: "drop i a = a ! i # drop (Suc i) a" by (simp add: Cons_nth_drop_Suc)
  have nz: "a ! i \<noteq> 0" using Suc.prems i by (metis no_nul_def nth_mem)
  have "no_nul (drop i a)" using Suc.prems by (auto simp: no_nul_def dest: in_set_dropD)
  from match_here_eq[OF this Suc.prems(2,3), of r t]
  have m: "match_here (a ! i # drop (Suc i) a @ 0 # r) (b @ 0 # t) = Some (prefix b (drop i a))" by (simp add: d)
  have IH: "strstr_loop (drop (Suc i) a @ 0 # r) (b @ 0 # t) (Suc i) =
     Some (List.find (\<lambda>j. prefix b (drop j a)) [Suc i..<length a])"
    by (rule Suc.hyps(1)) (use Suc in simp_all)
  have u: "[i..<length a] = i # [Suc i..<length a]" using i by (simp add: upt_conv_Cons)
  show ?case unfolding u using nz IH m by (simp add: d)
qed

section \<open>Properties\<close>

text \<open>\<open>NST_MoveMemOvlap\<close> moves a region correctly whatever the overlap of source and destination:
  the result is the old memory with the old source bytes written at the destination.\<close>

theorem NST_MoveMemOvlap_correct:
  assumes "pSrc + unat Size \<le> length mem" and "pDst + unat Size \<le> length mem"
  shows "NST_MoveMemOvlap mem pDst pSrc Size = wr_seg mem pDst (take (unat Size) (drop pSrc mem))"
  by (rule move_correct[OF assms])

theorem NST_MoveMemOvlap_correct_witness:
  "NST_MoveMemOvlap [1, 2, 3, 4, 5, 6] 2 0 4 = wr_seg [1, 2, 3, 4, 5, 6] 2 (take (unat (4 :: u16)) (drop 0 [1, 2, 3, 4, 5, 6]))"
  by (rule NST_MoveMemOvlap_correct) simp_all

text \<open>The unrolled \<open>strncpy\<close> of Sys/util.c is the standard one on every input: at most \<open>n\<close> characters
  up to the terminator and zeros up to \<open>n\<close>; it accesses memory outside its arguments exactly when the
  standard function has to.\<close>

theorem strncpy_is_standard: "nst_strncpy d s n = c_strncpy d s n"
  using copy_ref_eq[of 0 d s n] by (simp add: nst_strncpy_ref c_strncpy_def Let_def)

text \<open>\<open>GAgent_strstr\<close> finds the first occurrence of a non-empty string, and none exactly when there
  is none.\<close>

theorem GAgent_strstr_first:
  assumes "no_nul a" "no_nul b" "b \<noteq> []"
  shows "\<exists>r. GAgent_strstr (a @ 0 # x) (b @ 0 # y) = Some r \<and>
    (case r of
       Some i \<Rightarrow> i < length a \<and> prefix b (drop i a) \<and> (\<forall>j < i. \<not> prefix b (drop j a))
     | None \<Rightarrow> \<not> sublist b a)"
proof -
  have "rd (b @ 0 # y) 0 = Some (b ! 0)" "b ! 0 \<noteq> 0"
    using assms(2,3) by (auto simp: no_nul_def rd_def nth_append) (metis length_greater_0_conv nth_mem)
  then have r: "GAgent_strstr (a @ 0 # x) (b @ 0 # y) = Some (first_occurrence a b)"
    using strstr_loop_eq[OF assms, of 0 x y] by (simp add: GAgent_strstr_def first_occurrence_def)
  show ?thesis
  proof (cases "first_occurrence a b")
    case None
    have "\<not> sublist b a"
    proof
      assume "sublist b a"
      then obtain u v where a: "a = u @ b @ v" by (auto simp: sublist_def)
      then have "prefix b (drop (length u) a)" "length u < length a" using assms(3) by auto
      then show False using None by (auto simp: first_occurrence_def find_None_iff)
    qed
    then show ?thesis using r None by auto
  next
    case (Some i)
    then have "i < length a \<and> prefix b (drop i a) \<and> (\<forall>j < i. \<not> prefix b (drop j a))"
      by (auto simp: first_occurrence_def find_Some_iff)
    then show ?thesis using r Some by simp
  qed
qed

theorem GAgent_strstr_first_witness:
  "\<exists>r. GAgent_strstr (ascii ''did=42'' @ 0 # []) (ascii ''='' @ 0 # []) = Some r \<and>
    (case r of
       Some i \<Rightarrow> i < length (ascii ''did=42'') \<and> prefix (ascii ''='') (drop i (ascii ''did=42'')) \<and>
         (\<forall>j < i. \<not> prefix (ascii ''='') (drop j (ascii ''did=42'')))
     | None \<Rightarrow> \<not> sublist (ascii ''='') (ascii ''did=42''))"
  by (rule GAgent_strstr_first) (simp_all add: no_nul_def ascii_def)

text \<open>A string copied by \<open>strcpy\<close> or appended by \<open>strcat\<close> is there afterwards, when the destination
  has room for it, and the rest of the destination is unchanged.\<close>

lemma strcpy_from_eq: "no_nul s \<Longrightarrow> strcpy_from d i (s @ 0 # r) = wr_seg d i (s @ [0])"
proof (induction s arbitrary: d i)
  case Nil
  show ?case by (auto simp: wr_seg_Cons wr_def wr_seg_Nil)
next
  case (Cons c s)
  have "c \<noteq> 0" using Cons.prems by (simp add: no_nul_def)
  moreover have "no_nul s" using Cons.prems by (simp add: no_nul_def)
  ultimately show ?case by (simp add: wr_seg_Cons Cons.IH)
qed

lemma nul_index_eq: "no_nul t \<Longrightarrow> nul_index (t @ 0 # r) = Some (length t)"
  by (induction t) (auto simp: no_nul_def)

lemma strcat_eq: "no_nul t \<Longrightarrow> no_nul s \<Longrightarrow> nst_strcat (t @ 0 # pad) (s @ 0 # r) = wr_seg (t @ 0 # pad) (length t) (s @ [0])"
  by (simp add: nst_strcat_def nul_index_eq strcpy_from_eq)

lemma strcpy_eq: "no_nul s \<Longrightarrow> nst_strcpy d (s @ 0 # r) = wr_seg d 0 (s @ [0])"
  by (simp add: nst_strcpy_def strcpy_from_eq)

lemma char_in_eq: "no_nul a \<Longrightarrow> char_in c (a @ 0 # r) = Some (c \<in> set a)"
  by (induction a) (auto simp: no_nul_def)

lemma strspn_eq:
  "no_nul s \<Longrightarrow> no_nul a \<Longrightarrow> nst_strspn (s @ 0 # r) (a @ 0 # t) k = Some (k + length (takeWhile (\<lambda>c. c \<in> set a) s))"
  by (induction s arbitrary: k) (auto simp: no_nul_def char_in_eq)

lemma strncmp_eq_0:
  "no_nul a \<Longrightarrow> no_nul b \<Longrightarrow> 0 < n \<Longrightarrow> \<exists>k. strncmp_loop (a @ 0 # r) (b @ 0 # t) n = Some k \<and> (k = 0 \<longleftrightarrow> take n a = take n b)"
proof (induction n arbitrary: a b)
  case (Suc n)
  show ?case
  proof (cases a; cases b)
    fix x xs y ys assume ab: "a = x # xs" "b = y # ys"
    then have nz: "x \<noteq> 0" "y \<noteq> 0" "no_nul xs" "no_nul ys" using Suc.prems by (auto simp: no_nul_def)
    show ?thesis
    proof (cases "x = y \<and> 0 < n")
      case True
      then show ?thesis using Suc.IH[of xs ys] nz ab by simp
    next
      case False
      have "int (unat x) = int (unat y) \<longleftrightarrow> x = y" by (simp only: of_nat_eq_iff word_unat_eq_iff)
      then show ?thesis using nz ab False by (auto simp del: of_nat_unat)
    qed
  qed (use Suc.prems in \<open>auto simp: no_nul_def\<close>)
qed simp

end
