(* ===== verification/RemLen.thy ===== *)
theory RemLen
  imports Prelude
begin

text \<open>
  The variable length field of MQTT, which the LAN protocol reuses: seven bits a byte, least
  significant first, bit 7 says that another byte follows. The decoder is in
  App/GizWitsWifi/cloud/mqttlib.c, the two encoders are \<open>Tran2varc\<close> (lan/mcu_common.c) and the
  code repeated in the MQTT packet builders. A \<open>const uint8_t *\<close> is the list of the bytes from
  there on; the decoder skips the first, the flags of an MQTT packet.
\<close>

section \<open>The decoder\<close>

definition mqtt_num_rem_len_bytes :: "bytes \<Rightarrow> u8 option" where
  "mqtt_num_rem_len_bytes buf = do {
     b1 \<leftarrow> rd buf 1;
     if b1 AND 0x80 = 0x80 then do {
       b2 \<leftarrow> rd buf 2;
       if b2 AND 0x80 = 0x80 then do {
         b3 \<leftarrow> rd buf 3;
         Some (if b3 AND 0x80 = 0x80 then 4 else 3)
       } else Some 2
     } else Some 1
   }"

fun rem_len_loop :: "bytes \<Rightarrow> u16 \<Rightarrow> u16 \<Rightarrow> u16 option" where
  "rem_len_loop [] multiplier value = None"
| "rem_len_loop (digit # rest) multiplier value =
     (let value' = value + ucast (digit AND 127) * multiplier
      in if digit AND 128 \<noteq> 0 then rem_len_loop rest (multiplier * 128) value' else Some value')"

definition mqtt_parse_rem_len :: "bytes \<Rightarrow> u16 option" where
  "mqtt_parse_rem_len buf = rem_len_loop (drop 1 buf) 1 0"

section \<open>The encoders\<close>

text \<open>The remaining length as the packet builders write it, one byte up to 127, two after that.\<close>

definition rem_len_field :: "u16 \<Rightarrow> bytes" where
  "rem_len_field remainLen =
     (if remainLen \<le> 127 then [ucast remainLen]
      else [ucast (remainLen mod 128) OR 0x80, ucast (remainLen div 128)])"

text \<open>
  \<open>Tran2varc\<close> takes a \<open>short\<close>: a negative length is stored as one byte. \<open>varcbty\<close> is the length of
  the list.
\<close>

definition Tran2varc :: "u16 \<Rightarrow> bytes" where
  "Tran2varc remainLen =
     (if sint remainLen \<le> 127 then [ucast remainLen]
      else [ucast (remainLen mod 128) OR 0x80, ucast (remainLen div 128)])"


section \<open>Arithmetic of the two fields\<close>

lemma and_127: "unat ((a :: u8) AND 127) = unat a mod 128"
proof -
  have "a AND 127 = take_bit 7 a"
    by (simp add: take_bit_eq_mask mask_eq_decr_exp)
  then show ?thesis
    by (simp add: take_bit_eq_mod unat_mod)
qed

lemma bit7: "bit (a :: u8) 7 \<longleftrightarrow> 128 \<le> unat a"
proof -
  have "bit (unat a) 7 \<longleftrightarrow> bit a 7" by (simp add: bit_unsigned_iff)
  moreover have "bit (unat a) 7 \<longleftrightarrow> odd (unat a div 128)" by (simp add: bit_iff_odd)
  moreover have "unat a div 128 = (if 128 \<le> unat a then 1 else 0)"
    using u8_less[of a] by (simp add: div_nat_eqI)
  ultimately show ?thesis by (simp split: if_splits)
qed

lemma and_128: "(a :: u8) AND 128 = (if 128 \<le> unat a then 128 else 0)"
proof -
  have b: "bit (128 :: u8) n \<longleftrightarrow> n = 7" for n
    using bit_exp_iff [of 7 n, where 'a = "8 word"] by (auto simp del: bit_numeral_word_iff)
  have "a AND 128 = (if bit a 7 then 128 else 0)"
    by (rule bit_word_eqI) (auto simp: bit_and_iff b simp del: bit_numeral_word_iff)
  then show ?thesis by (simp add: bit7)
qed

lemma or_128: "unat (a :: u8) < 128 \<Longrightarrow> unat (a OR 128) = unat a + 128"
proof -
  assume "unat a < 128"
  then have "a AND 128 = 0" by (simp add: and_128)
  then have "a OR 128 = a + 128" by (simp add: disjunctive_add_eq_or)
  then show ?thesis using \<open>unat a < 128\<close> by (simp add: unat_word_ariths)
qed

lemma unat_ucast8: "unat (ucast (x :: u16) :: u8) = unat x mod 256"
  by (simp add: unsigned_ucast_eq take_bit_eq_mod)

lemma unat_ucast16: "unat (ucast (x :: u8) :: u16) = unat x"
  using u8_less[of x] by (simp add: unsigned_ucast_eq take_bit_nat_eq_self)

section \<open>Round trip\<close>

lemma parse_one: "unat x < 128 \<Longrightarrow> mqtt_parse_rem_len (f # x # rest) = Some (ucast x)"
  by (simp add: mqtt_parse_rem_len_def and_128 Let_def) (simp add: word_unat_eq_iff unat_ucast16 and_127)

lemma parse_two:
  assumes "128 \<le> unat x" and "unat y < 128"
  shows "mqtt_parse_rem_len (f # x # y # rest) = Some (of_nat (unat x - 128 + 128 * unat y))"
proof -
  have w: "ucast c = (of_nat (unat c) :: u16)" for c :: u8 by simp
  have "unat x mod 128 = unat x - 128" "unat y mod 128 = unat y"
    using assms u8_less[of x] by (simp_all add: mod_if)
  then have "ucast (x AND 127) + ucast (y AND 127) * 128 = (of_nat (unat x - 128 + 128 * unat y) :: u16)"
    unfolding w and_127 by (simp only: of_nat_add of_nat_mult of_nat_numeral mult.commute)
  then show ?thesis
    using assms by (simp add: mqtt_parse_rem_len_def and_128 Let_def)
qed

lemma num_bytes:
  "mqtt_num_rem_len_bytes (f # x # rest) =
     (if unat x < 128 then Some 1
      else case rest of [] \<Rightarrow> None | y # rest' \<Rightarrow>
        if unat y < 128 then Some 2
        else case rest' of [] \<Rightarrow> None | z # _ \<Rightarrow> Some (if unat z < 128 then 3 else 4))"
  by (auto simp: mqtt_num_rem_len_bytes_def rd_def and_128 split: list.splits)

lemma rem_len_field_bytes:
  assumes "unat x < 16384"
  shows "(unat x < 128 \<and> rem_len_field x = [ucast x]) \<or>
     (128 \<le> unat x \<and> (\<exists>b0 b1. rem_len_field x = [b0, b1] \<and> unat b0 = unat x mod 128 + 128 \<and> unat b1 = unat x div 128))"
proof (cases "unat x < 128")
  case True
  then show ?thesis by (simp add: rem_len_field_def word_le_nat_alt)
next
  case False
  have "unat (ucast (x mod 128) OR 128 :: u8) = unat x mod 128 + 128"
    by (subst or_128) (simp_all add: unat_ucast8 unat_mod mod_mod_cancel)
  moreover have "unat (ucast (x div 128) :: u8) = unat x div 128"
    using assms by (simp add: unat_ucast8 unat_div) 
  ultimately show ?thesis using False by (simp add: rem_len_field_def word_le_nat_alt)
qed

definition rem_len_dec :: "bytes \<Rightarrow> (u16 \<times> nat) option" where
  "rem_len_dec b = (case (mqtt_parse_rem_len (0 # b), mqtt_num_rem_len_bytes (0 # b)) of
     (Some v, Some k) \<Rightarrow> Some (v, unat k) | _ \<Rightarrow> None)"

lemma rem_len_dec_field:
  assumes "unat x < 16384"
  shows "mqtt_parse_rem_len (f # rem_len_field x @ rest) = Some x \<and>
    mqtt_num_rem_len_bytes (f # rem_len_field x @ rest) = Some (of_nat (length (rem_len_field x)))"
proof -
  consider "unat x < 128" "rem_len_field x = [ucast x]"
    | b0 b1 where "128 \<le> unat x" "rem_len_field x = [b0, b1]" "unat b0 = unat x mod 128 + 128" "unat b1 = unat x div 128"
    using rem_len_field_bytes[OF assms] by blast
  then show ?thesis
  proof cases
    case 1
    then show ?thesis
      by (simp add: parse_one unat_ucast8 num_bytes word_unat_eq_iff unat_ucast16)
  next
    case 2
    then have "128 \<le> unat b0" "unat b1 < 128" using assms by auto
    then show ?thesis using 2 parse_two[of b0 b1 f rest]
      by (simp add: num_bytes)
  qed
qed

lemma sint_small:
  assumes "unat (x :: u16) < 32768"
  shows "sint x = int (unat x)"
proof -
  have "sint x = signed_take_bit 15 (uint x)" by (simp add: sint_uint)
  also have "\<dots> = uint x"
    using assms by (intro signed_take_bit_int_eq_self) (simp_all add: uint_nat del: of_nat_unat)
  finally show ?thesis by simp
qed

lemma Tran2varc_field: "unat x < 32768 \<Longrightarrow> Tran2varc x = rem_len_field x"
  using sint_small[of x] by (simp add: Tran2varc_def rem_len_field_def word_le_nat_alt del: of_nat_unat)

lemma Tran2varc_over:
  assumes "16384 \<le> unat x"
  shows "mqtt_parse_rem_len (f # Tran2varc x) \<noteq> Some x"
proof (cases "unat x < 32768")
  case True
  then have "x div 128 = of_nat (unat x div 128)"
    by (simp add: word_unat_eq_iff unat_div unat_of_nat16)
  have b1: "128 \<le> unat (ucast (x div 128) :: u8)"
    using True assms by (simp add: unat_ucast8 unat_div) 
  have b0: "128 \<le> unat (ucast (x mod 128) OR 0x80 :: u8)"
    by (subst or_128) (simp_all add: unat_ucast8 unat_mod mod_mod_cancel)
  have "Tran2varc x = [ucast (x mod 128) OR 0x80, ucast (x div 128)]"
    using True assms by (simp add: Tran2varc_field rem_len_field_def word_le_nat_alt)
  then show ?thesis using b0 b1 by (simp add: mqtt_parse_rem_len_def and_128 Let_def)
next
  case False
  have "sint x < 0"
  proof -
    have "bit (unat x) 15 \<longleftrightarrow> bit x 15" by (simp add: bit_unsigned_iff)
    moreover have "bit (unat x) 15 \<longleftrightarrow> odd (unat x div 32768)" by (simp add: bit_iff_odd)
    moreover have "unat x div 32768 = 1" using False u16_less[of x] by (simp add: div_nat_eqI)
    ultimately show ?thesis using bit_last_iff[of x] by simp
  qed
  then have T: "Tran2varc x = [ucast x]" by (simp add: Tran2varc_def)
  show ?thesis
  proof (cases "unat (ucast x :: u8) < 128")
    case True
    then show ?thesis using assms unat_ucast16[of "ucast x"] u8_less[of "ucast x"]
      by (auto simp: T parse_one)
  next
    case False
    then show ?thesis by (simp add: T mqtt_parse_rem_len_def and_128 Let_def)
  qed
qed

definition rem_len_ok :: "u16 \<Rightarrow> bool" where
  "rem_len_ok x \<longleftrightarrow> unat x < 16384"

lemma rem_len_dec_enc: "rem_len_ok x \<Longrightarrow> rem_len_dec (rem_len_field x @ rest) = Some (x, length (rem_len_field x))"
  using rem_len_dec_field[of x 0 rest] rem_len_field_bytes[of x]
  by (auto simp: rem_len_dec_def rem_len_ok_def)

interpretation rem_len: prefix_code rem_len_field rem_len_dec rem_len_ok
  by unfold_locales (rule rem_len_dec_enc)

interpretation varc: prefix_code Tran2varc rem_len_dec rem_len_ok
  by unfold_locales (simp add: rem_len_ok_def Tran2varc_field rem_len_dec_enc)

section \<open>Properties\<close>

text \<open>A length field is self-delimiting: for all lengths below 16384 two packets that begin with
  \<open>Tran2varc\<close> of different lengths differ, and a sequence of length fields is read back as written,
  by the decoder of the MQTT library.\<close>

theorem length_fields_roundtrip:
  assumes "list_all (\<lambda>x. unat x < 16384) xs"
  shows "varc.dec_all (length xs) (concat (map Tran2varc xs) @ rest) = Some xs"
  by (rule varc.dec_all_enc) (use assms in \<open>simp add: rem_len_ok_def list_all_iff\<close>)

theorem length_fields_roundtrip_witness:
  "varc.dec_all 3 (concat (map Tran2varc [5, 300, 16383]) @ [0xFF]) = Some [5, 300, 16383]"
  using length_fields_roundtrip[of "[5, 300, 16383]" "[0xFF]"]
  by (simp del: varc.dec_all.simps add: numeral_3_eq_3)

text \<open>The length field that the LAN and cloud packets use is exact up to 16383 and only there:
  for a larger (or negative) length the decoder does not get back what was encoded.\<close>

theorem Tran2varc_exact:
  "(\<forall>f rest. mqtt_parse_rem_len (f # Tran2varc x @ rest) = Some x \<and>
      mqtt_num_rem_len_bytes (f # Tran2varc x @ rest) = Some (of_nat (length (Tran2varc x)))) \<longleftrightarrow>
   unat x < 16384"
proof
  assume "\<forall>f rest. mqtt_parse_rem_len (f # Tran2varc x @ rest) = Some x \<and>
      mqtt_num_rem_len_bytes (f # Tran2varc x @ rest) = Some (of_nat (length (Tran2varc x)))"
  from this[THEN spec, THEN spec, of 0 "[]"] have "mqtt_parse_rem_len (0 # Tran2varc x) = Some x" by simp
  then show "unat x < 16384" using Tran2varc_over[of x 0] by (auto simp: not_less [symmetric])
next
  assume "unat x < 16384"
  then show "\<forall>f rest. mqtt_parse_rem_len (f # Tran2varc x @ rest) = Some x \<and>
      mqtt_num_rem_len_bytes (f # Tran2varc x @ rest) = Some (of_nat (length (Tran2varc x)))"
    using rem_len_dec_field[of x] by (simp add: Tran2varc_field)
qed

end
