(* ===== verification/MqttLib.thy ===== *)
theory MqttLib
  imports RemLen
begin

text \<open>
  The MQTT packet library (App/GizWitsWifi/cloud/mqttlib.c, mqttlib.h): parsing of PUBLISH
  packets and building of CONNECT, PUBLISH, SUBSCRIBE, UNSUBSCRIBE, PUBREL, PINGREQ and DISCONNECT.
  A \<open>const uint8_t *\<close> is the list of the bytes from there on, NULL is \<open>None\<close>.
  \<open>mem i\<close> says whether the \<open>i\<close>th \<open>mem_malloc\<close> of a call succeeds; \<open>mqttsend\<close> is the broker's
  function pointer, its result the number of bytes it says it sent. An operation returns its
  result and the packets it passed to \<open>mqttsend\<close>; \<open>None\<close> is an access outside an object.
\<close>

section \<open>Packet types and flags\<close>

abbreviation (input) "MQTT_QOS1_FLAG \<equiv> (2 :: u8)"
abbreviation (input) "MQTT_QOS2_FLAG \<equiv> (4 :: u8)"
abbreviation (input) "MQTT_RETAIN_FLAG \<equiv> (1 :: u8)"
abbreviation (input) "MQTT_CLEAN_SESSION \<equiv> (0x02 :: u8)"
abbreviation (input) "MQTT_USERNAME_FLAG \<equiv> (0x80 :: u8)"
abbreviation (input) "MQTT_PASSWORD_FLAG \<equiv> (0x40 :: u8)"
abbreviation (input) "MQTT_MSG_CONNECT \<equiv> (0x10 :: u8)"
abbreviation (input) "MQTT_MSG_CONNACK \<equiv> (0x20 :: u8)"
abbreviation (input) "MQTT_MSG_PUBLISH \<equiv> (0x30 :: u8)"
abbreviation (input) "MQTT_MSG_PUBREL \<equiv> (0x60 :: u8)"
abbreviation (input) "MQTT_MSG_SUBSCRIBE \<equiv> (0x80 :: u8)"
abbreviation (input) "MQTT_MSG_SUBACK \<equiv> (0x90 :: u8)"
abbreviation (input) "MQTT_MSG_UNSUBSCRIBE \<equiv> (0xA0 :: u8)"
abbreviation (input) "MQTT_MSG_UNSUBACK \<equiv> (0xB0 :: u8)"
abbreviation (input) "MQTT_MSG_PINGREQ \<equiv> (0xC0 :: u8)"
abbreviation (input) "MQTT_MSG_PINGRESP \<equiv> (0xD0 :: u8)"
abbreviation (input) "MQTT_MSG_DISCONNECT \<equiv> (0xE0 :: u8)"

definition MQTTParseMessageType :: "bytes \<Rightarrow> u8 option" where
  "MQTTParseMessageType buf = map_option (\<lambda>b. b AND 0xF0) (rd buf 0)"

definition MQTTParseMessageQos :: "bytes \<Rightarrow> u8 option" where
  "MQTTParseMessageQos buf = map_option (\<lambda>b. drop_bit 1 (b AND 0x06)) (rd buf 0)"

section \<open>Parsing\<close>

text \<open>The two-byte topic length, at the start of the variable header.\<close>

definition utf_len :: "bytes \<Rightarrow> nat \<Rightarrow> u16 option" where
  "utf_len buf off = do { h \<leftarrow> rd buf off; l \<leftarrow> rd buf (off + 1); Some (mk16 h l) }"

text \<open>
  The message id and the offsets are kept in a \<open>uint8_t\<close>: the high byte shifted left by 8 is 0, and
  the sum wraps at 256.
\<close>

definition mqtt_parse_msg_id :: "bytes \<Rightarrow> u8 option" where
  "mqtt_parse_msg_id buf = do {
     type \<leftarrow> MQTTParseMessageType buf;
     qos \<leftarrow> MQTTParseMessageQos buf;
     if MQTT_MSG_PUBLISH \<le> type \<and> type \<le> MQTT_MSG_UNSUBACK then do {
       rlb \<leftarrow> mqtt_num_rem_len_bytes buf;
       if type = MQTT_MSG_PUBLISH then
         if qos \<noteq> 0 then do {
           len \<leftarrow> utf_len buf (1 + unat rlb);
           let offset = lo8 len + (1 + rlb + 2);
           id \<leftarrow> utf_len buf (unat offset);
           Some (lo8 id)
         } else Some 0
       else do { id \<leftarrow> utf_len buf (1 + unat rlb); Some (lo8 id) }
     } else Some 0
   }"

definition mqtt_parse_pub_topic_ptr :: "bytes \<Rightarrow> (u16 \<times> bytes option) option" where
  "mqtt_parse_pub_topic_ptr buf = do {
     type \<leftarrow> MQTTParseMessageType buf;
     if type = MQTT_MSG_PUBLISH then do {
       rlb \<leftarrow> mqtt_num_rem_len_bytes buf;
       len \<leftarrow> utf_len buf (1 + unat rlb);
       Some (len, Some (drop (1 + unat rlb + 2) buf))
     } else Some (0, None)
   }"

definition mqtt_parse_pub_msg_ptr :: "bytes \<Rightarrow> (u16 \<times> bytes option) option" where
  "mqtt_parse_pub_msg_ptr buf = do {
     type \<leftarrow> MQTTParseMessageType buf;
     if type = MQTT_MSG_PUBLISH then do {
       rlb \<leftarrow> mqtt_num_rem_len_bytes buf;
       len \<leftarrow> utf_len buf (1 + unat rlb);
       qos \<leftarrow> MQTTParseMessageQos buf;
       let offset = lo8 len + (1 + rlb + 2);
       let offset = (if qos \<noteq> 0 then offset + 2 else offset);
       rem \<leftarrow> mqtt_parse_rem_len buf;
       Some (rem - (ucast offset - (ucast rlb + 1)), Some (drop (unat offset) buf))
     } else Some (0, None)
   }"

text \<open>Both copies go to a buffer of the caller.\<close>

definition copy_out :: "bytes \<Rightarrow> u16 \<times> bytes option \<Rightarrow> (u16 \<times> bytes) option" where
  "copy_out dst lp = (case lp of
     (len, Some ptr) \<Rightarrow>
       if len \<noteq> 0 then do {
         s \<leftarrow> rd_seg ptr 0 (unat len);
         dst' \<leftarrow> wr_seg dst 0 s;
         Some (len, dst')
       } else Some (len, dst)
   | (len, None) \<Rightarrow> Some (len, dst))"

definition mqtt_parse_pub_topic :: "bytes \<Rightarrow> bytes \<Rightarrow> (u16 \<times> bytes) option" where
  "mqtt_parse_pub_topic buf topic = mqtt_parse_pub_topic_ptr buf \<bind> copy_out topic"

definition mqtt_parse_publish_msg :: "bytes \<Rightarrow> bytes \<Rightarrow> (u16 \<times> bytes) option" where
  "mqtt_parse_publish_msg buf msg = mqtt_parse_pub_msg_ptr buf \<bind> copy_out msg"

section \<open>The broker handle\<close>

record mqtt_broker_handle_t =
  mb_socketid :: int
  mb_clientid :: bytes
  mb_username :: bytes
  mb_password :: bytes
  mb_will_retain :: u8
  mb_will_qos :: u8
  mb_clean_session :: u8
  mb_seq :: u16
  mb_alive :: u16

definition mqtt_set_alive :: "mqtt_broker_handle_t \<Rightarrow> u16 \<Rightarrow> mqtt_broker_handle_t" where
  "mqtt_set_alive broker alive = broker\<lparr>mb_alive := alive\<rparr>"

definition mqtt_init :: "mqtt_broker_handle_t \<Rightarrow> bytes option \<Rightarrow> mqtt_broker_handle_t option" where
  "mqtt_init broker clientid = do {
     let b = (mqtt_set_alive broker 120)\<lparr>mb_seq := 1, mb_clientid := zeros 50, mb_username := zeros 24, mb_password := zeros 24\<rparr>;
     cid \<leftarrow> (case clientid of
        Some c \<Rightarrow> c_strncpy (mb_clientid b) c 50
      | None \<Rightarrow> c_strncpy (mb_clientid b) (ascii ''emqtt'' @ [0]) 6);
     Some (b\<lparr>mb_clientid := cid, mb_clean_session := 1\<rparr>)
   }"

definition mqtt_init_auth ::
  "mqtt_broker_handle_t \<Rightarrow> bytes option \<Rightarrow> bytes option \<Rightarrow> mqtt_broker_handle_t option" where
  "mqtt_init_auth broker username password = do {
     b1 \<leftarrow> (case username of
        None \<Rightarrow> Some broker
      | Some u \<Rightarrow> do {
          c \<leftarrow> rd u 0;
          if c \<noteq> 0 then map_option (\<lambda>f. broker\<lparr>mb_username := f\<rparr>) (c_strncpy (mb_username broker) u 23) else Some broker });
     (case password of
        None \<Rightarrow> Some b1
      | Some p \<Rightarrow> do {
          c \<leftarrow> rd p 0;
          if c \<noteq> 0 then map_option (\<lambda>f. b1\<lparr>mb_password := f\<rparr>) (c_strncpy (mb_password b1) p 23) else Some b1 })
   }"

section \<open>Sending\<close>

text \<open>
  The result of \<open>mqttsend\<close> is compared with an \<open>int\<close> length in the builders that allocate, with
  \<open>sizeof(packet)\<close> in the fixed-size ones: that comparison is unsigned.
\<close>

definition short_int :: "int \<Rightarrow> bytes \<Rightarrow> bool" where
  "short_int r packet \<longleftrightarrow> r < int (length packet)"

definition short_sizeof :: "int \<Rightarrow> bytes \<Rightarrow> bool" where
  "short_sizeof r packet \<longleftrightarrow> (word_of_int r :: u32) < of_nat (length packet)"

definition mqtt_disconnect :: "(int \<Rightarrow> bytes \<Rightarrow> int) \<Rightarrow> mqtt_broker_handle_t \<Rightarrow> int \<times> bytes list" where
  "mqtt_disconnect mqttsend broker =
     (let packet = [MQTT_MSG_DISCONNECT, 0x00]
      in (if short_sizeof (mqttsend (mb_socketid broker) packet) packet then -1 else 1, [packet]))"

definition mqtt_ping :: "(int \<Rightarrow> bytes \<Rightarrow> int) \<Rightarrow> mqtt_broker_handle_t \<Rightarrow> int \<times> bytes list" where
  "mqtt_ping mqttsend broker =
     (let packet = [MQTT_MSG_PINGREQ, 0x00]
      in (if short_sizeof (mqttsend (mb_socketid broker) packet) packet then -1 else 1, [packet]))"

definition mqtt_pubrel :: "(int \<Rightarrow> bytes \<Rightarrow> int) \<Rightarrow> mqtt_broker_handle_t \<Rightarrow> u16 \<Rightarrow> int \<times> bytes list" where
  "mqtt_pubrel mqttsend broker message_id =
     (let packet = [MQTT_MSG_PUBREL OR MQTT_QOS1_FLAG, 0x02, hi8 message_id, lo8 message_id]
      in (if short_sizeof (mqttsend (mb_socketid broker) packet) packet then -1 else 1, [packet]))"

section \<open>Building packets\<close>

text \<open>\<open>topiclen\<close> is \<open>strlen(topic)\<close> cut to 16 bits.\<close>

definition topic_arg :: "bytes \<Rightarrow> bytes option" where
  "topic_arg topic = map_option (\<lambda>s. take (unat (of_nat (length s) :: u16)) s) (cstr topic)"

definition utf_topic :: "bytes \<Rightarrow> nat \<Rightarrow> bytes option" where
  "utf_topic t n = do { u \<leftarrow> wr_seg (zeros n) 0 (be16 (of_nat (length t))); wr_seg u 2 t }"

definition assemble :: "bytes list \<Rightarrow> nat \<Rightarrow> bytes option" where
  "assemble parts n =
     map_option fst (fold (\<lambda>p acc. do { (b, off) \<leftarrow> acc; b' \<leftarrow> wr_seg b off p; Some (b', off + length p) })
       parts (Some (zeros n, 0)))"

definition mqtt_connect ::
  "(nat \<Rightarrow> bool) \<Rightarrow> (int \<Rightarrow> bytes \<Rightarrow> int) \<Rightarrow> mqtt_broker_handle_t \<Rightarrow> (int \<times> bytes list) option" where
  "mqtt_connect mem mqttsend broker = do {
     cid \<leftarrow> cstr (mb_clientid broker);
     user \<leftarrow> cstr (mb_username broker);
     pass \<leftarrow> cstr (mb_password broker);
     let payload_len = length cid + 2 + (if user \<noteq> [] then length user + 2 else 0) + (if pass \<noteq> [] then length pass + 2 else 0);
     let flags = (if user \<noteq> [] then MQTT_USERNAME_FLAG else 0) OR (if pass \<noteq> [] then MQTT_PASSWORD_FLAG else 0)
       OR (if mb_clean_session broker \<noteq> 0 then MQTT_CLEAN_SESSION else 0);
     let var_header = [0x00, 0x06, 0x4d, 0x51, 0x49, 0x73, 0x64, 0x70, 0x03, flags, hi8 (mb_alive broker), lo8 (mb_alive broker)];
     let remainLen = (of_nat (12 + payload_len) :: u8);
     if \<not> mem 0 then Some (-1, [])
     else do {
       let fixed_header = MQTT_MSG_CONNECT # rem_len_field (ucast remainLen);
       if \<not> mem 1 then Some (-2, [])
       else do {
         let packetLen = length fixed_header + 12 + payload_len;
         packet \<leftarrow> assemble ([fixed_header, var_header, be16 (of_nat (length cid)), cid]
           @ (if user \<noteq> [] then [be16 (of_nat (length user)), user] else [])
           @ (if pass \<noteq> [] then [be16 (of_nat (length pass)), pass] else [])) packetLen;
         Some (if short_int (mqttsend (mb_socketid broker) packet) packet then -3 else 0, [packet])
       }
     }
   }"

type_synonym mqtt_result = "int \<times> mqtt_broker_handle_t \<times> u16 option \<times> bytes list"

definition qos_fields :: "u8 \<Rightarrow> nat \<times> u8" where
  "qos_fields qos = (if qos = 1 then (2, MQTT_QOS1_FLAG) else if qos = 2 then (2, MQTT_QOS2_FLAG) else (0, 0))"

text \<open>The variable header, the message id if the caller asks for it, and the sequence number after.\<close>

definition publish_var_header ::
  "mqtt_broker_handle_t \<Rightarrow> bytes \<Rightarrow> u8 \<Rightarrow> bool \<Rightarrow> (bytes \<times> u16 option \<times> mqtt_broker_handle_t) option" where
  "publish_var_header broker t qos want_id = do {
     let (qos_size, qos_flag) = qos_fields qos;
     vh \<leftarrow> utf_topic t (length t + 2 + qos_size);
     if qos_size \<noteq> 0 then do {
       vh' \<leftarrow> wr_seg vh (length t + 2) (be16 (mb_seq broker));
       Some (vh', if want_id then Some (mb_seq broker) else None, broker\<lparr>mb_seq := mb_seq broker + 1\<rparr>)
     } else Some (vh, None, broker)
   }"

definition publish_fixed_header :: "u8 \<Rightarrow> u8 \<Rightarrow> u16 \<Rightarrow> bytes" where
  "publish_fixed_header qos retain remainLen =
     (MQTT_MSG_PUBLISH OR snd (qos_fields qos) OR (if retain \<noteq> 0 then MQTT_RETAIN_FLAG else 0)) # rem_len_field remainLen"

text \<open>The first version does not look at what \<open>mem_malloc\<close> returns.\<close>

definition mqtt_publish_with_qos ::
  "(nat \<Rightarrow> bool) \<Rightarrow> (int \<Rightarrow> bytes \<Rightarrow> int) \<Rightarrow> mqtt_broker_handle_t \<Rightarrow> bytes \<Rightarrow> bytes \<Rightarrow> u8 \<Rightarrow> u8 \<Rightarrow> bool \<Rightarrow> mqtt_result option" where
  "mqtt_publish_with_qos mem mqttsend broker topic msg retain qos want_id = do {
     t \<leftarrow> topic_arg topic;
     m \<leftarrow> topic_arg msg;
     if \<not> (mem 0 \<and> mem 1 \<and> mem 2) then None
     else do {
       (var_header, id, broker') \<leftarrow> publish_var_header broker t qos want_id;
       let fixed_header = publish_fixed_header qos retain (of_nat (length var_header + length m));
       packet \<leftarrow> assemble [fixed_header, var_header, m] (length fixed_header + length var_header + length m);
       Some (if short_int (mqttsend (mb_socketid broker) packet) packet then -1 else 1, broker', id, [packet])
     }
   }"

definition mqtt_publish ::
  "(nat \<Rightarrow> bool) \<Rightarrow> (int \<Rightarrow> bytes \<Rightarrow> int) \<Rightarrow> mqtt_broker_handle_t \<Rightarrow> bytes \<Rightarrow> bytes \<Rightarrow> u8 \<Rightarrow> mqtt_result option" where
  "mqtt_publish mem mqttsend broker topic msg retain = mqtt_publish_with_qos mem mqttsend broker topic msg retain 0 False"

text \<open>
  The second version takes the length of the message, but still runs \<open>strlen\<close> over it.
\<close>

definition XPGmqtt_publish_with_qos ::
  "(nat \<Rightarrow> bool) \<Rightarrow> (int \<Rightarrow> bytes \<Rightarrow> int) \<Rightarrow> mqtt_broker_handle_t \<Rightarrow> bytes \<Rightarrow> bytes \<Rightarrow> nat \<Rightarrow> u8 \<Rightarrow> u8 \<Rightarrow> bool \<Rightarrow> mqtt_result option" where
  "XPGmqtt_publish_with_qos mem mqttsend broker topic msg msgLen retain qos want_id = do {
     t \<leftarrow> topic_arg topic;
     msglen \<leftarrow> cstr msg;
     if \<not> mem 0 then Some (-1, broker, None, [])
     else do {
       (var_header, id, broker') \<leftarrow> publish_var_header broker t qos want_id;
       let fixed_header = publish_fixed_header qos retain (of_nat (length var_header + msgLen));
       if \<not> mem 1 \<or> \<not> mem 2 then Some (-1, broker', id, [])
       else do {
         m \<leftarrow> rd_seg msg 0 msgLen;
         packet \<leftarrow> assemble [fixed_header, var_header, m] (length fixed_header + length var_header + msgLen);
         Some (if short_int (mqttsend (mb_socketid broker) packet) packet then -1 else 1, broker', id, [packet])
       }
     }
   }"

definition XPGmqtt_publish ::
  "(nat \<Rightarrow> bool) \<Rightarrow> (int \<Rightarrow> bytes \<Rightarrow> int) \<Rightarrow> mqtt_broker_handle_t \<Rightarrow> bytes \<Rightarrow> bytes \<Rightarrow> nat \<Rightarrow> u8 \<Rightarrow> mqtt_result option" where
  "XPGmqtt_publish mem mqttsend broker topic msg msgLen retain =
     XPGmqtt_publish_with_qos mem mqttsend broker topic msg msgLen retain 0 False"

text \<open>
  SUBSCRIBE and UNSUBSCRIBE put the length into one byte. A subscription ends with the byte of the
  requested QoS, 0.
\<close>

definition topic_request ::
  "u8 \<Rightarrow> nat \<Rightarrow> (nat \<Rightarrow> bool) \<Rightarrow> (int \<Rightarrow> bytes \<Rightarrow> int) \<Rightarrow> mqtt_broker_handle_t \<Rightarrow> bytes \<Rightarrow> bool \<Rightarrow> mqtt_result option" where
  "topic_request type extra mem mqttsend broker topic want_id = do {
     t \<leftarrow> topic_arg topic;
     let var_header = be16 (mb_seq broker);
     let id = (if want_id then Some (mb_seq broker) else None);
     let broker' = broker\<lparr>mb_seq := mb_seq broker + 1\<rparr>;
     if \<not> mem 0 then Some (-1, broker', id, [])
     else do {
       utf \<leftarrow> utf_topic t (length t + extra);
       let fixed_header = [type OR MQTT_QOS1_FLAG, of_nat (2 + length utf)];
       if \<not> mem 1 then Some (-1, broker', id, [])
       else do {
         packet \<leftarrow> assemble [fixed_header, var_header, utf] (2 + 2 + length utf);
         Some (if short_int (mqttsend (mb_socketid broker) packet) packet then -1 else 1, broker', id, [packet])
       }
     }
   }"

definition mqtt_subscribe ::
  "(nat \<Rightarrow> bool) \<Rightarrow> (int \<Rightarrow> bytes \<Rightarrow> int) \<Rightarrow> mqtt_broker_handle_t \<Rightarrow> bytes \<Rightarrow> bool \<Rightarrow> mqtt_result option" where
  "mqtt_subscribe = topic_request MQTT_MSG_SUBSCRIBE 3"

definition mqtt_unsubscribe ::
  "(nat \<Rightarrow> bool) \<Rightarrow> (int \<Rightarrow> bytes \<Rightarrow> int) \<Rightarrow> mqtt_broker_handle_t \<Rightarrow> bytes \<Rightarrow> bool \<Rightarrow> mqtt_result option" where
  "mqtt_unsubscribe = topic_request MQTT_MSG_UNSUBSCRIBE 2"


section \<open>Assembled packets\<close>

lemma assemble_fold:
  "length (concat parts) \<le> k \<Longrightarrow>
     fold (\<lambda>p acc. do { (b, off) \<leftarrow> acc; b' \<leftarrow> wr_seg b off p; Some (b', off + length p) })
       parts (Some (pre @ zeros k, length pre)) =
     Some (pre @ concat parts @ zeros (k - length (concat parts)), length pre + length (concat parts))"
proof (induction parts arbitrary: pre k)
  case (Cons p parts)
  have "fold (\<lambda>p acc. do { (b, off) \<leftarrow> acc; b' \<leftarrow> wr_seg b off p; Some (b', off + length p) })
       parts (Some ((pre @ p) @ zeros (k - length p), length (pre @ p))) =
     Some ((pre @ p) @ concat parts @ zeros (k - length p - length (concat parts)), length (pre @ p) + length (concat parts))"
    by (rule Cons.IH) (use Cons.prems in simp)
  then show ?case using Cons.prems wr_seg_end[of p k "length pre" pre] by (simp add: add.assoc)
qed simp

lemma assemble_exact [buf_simps]: "n = length (concat parts) \<Longrightarrow> assemble parts n = Some (concat parts)"
  using assemble_fold[of parts n "[]"] by (simp add: assemble_def)

lemma utf_topic_exact [buf_simps]:
  "utf_topic t (length t + 2 + k) = Some (be16 (of_nat (length t)) @ t @ zeros k)"
  by (simp add: utf_topic_def wr_seg_def put_def)

lemma topic_arg_eq: "no_nul t \<Longrightarrow> length t < 65536 \<Longrightarrow> topic_arg (t @ 0 # r) = Some t"
  by (simp add: topic_arg_def unat_of_nat16)

definition var_header_bytes :: "mqtt_broker_handle_t \<Rightarrow> bytes \<Rightarrow> u8 \<Rightarrow> bytes" where
  "var_header_bytes broker t qos =
     be16 (of_nat (length t)) @ t @ (if qos = 1 \<or> qos = 2 then be16 (mb_seq broker) else [])"

lemma publish_var_header_eq:
  "publish_var_header broker t qos want_id =
     Some (var_header_bytes broker t qos, if (qos = 1 \<or> qos = 2) \<and> want_id then Some (mb_seq broker) else None,
       if qos = 1 \<or> qos = 2 then broker\<lparr>mb_seq := mb_seq broker + 1\<rparr> else broker)"
proof (cases "qos = 1 \<or> qos = 2")
  case True
  then have q: "fst (qos_fields qos) = 2" by (auto simp: qos_fields_def)
  have "wr_seg (be16 (of_nat (length t)) @ t @ zeros 2) (length t + 2) (be16 (mb_seq broker)) =
      Some (be16 (of_nat (length t)) @ t @ be16 (mb_seq broker))"
    using wr_seg_end[of "be16 (mb_seq broker)" 2 "length t + 2" "be16 (of_nat (length t)) @ t"] by simp
  then show ?thesis using True q utf_topic_exact[of t 2]
    by (auto simp: publish_var_header_def var_header_bytes_def utf_topic_exact Let_def split: prod.splits)
next
  case False
  then show ?thesis using utf_topic_exact[of t 0]
    by (simp add: publish_var_header_def var_header_bytes_def qos_fields_def)
qed

definition publish_packet :: "mqtt_broker_handle_t \<Rightarrow> bytes \<Rightarrow> bytes \<Rightarrow> u8 \<Rightarrow> u8 \<Rightarrow> bytes" where
  "publish_packet broker t m retain qos =
     publish_fixed_header qos retain (of_nat (length (var_header_bytes broker t qos) + length m))
       @ var_header_bytes broker t qos @ m"

lemma XPGmqtt_publish_packet:
  assumes "no_nul t" and "length t < 65536" and "0 \<in> set msg" and "n \<le> length msg" and "mem 0" "mem 1" "mem 2"
  shows "XPGmqtt_publish_with_qos mem mqttsend broker (t @ 0 # r) msg n retain qos want_id =
    (let packet = publish_packet broker t (take n msg) retain qos in
     Some (if mqttsend (mb_socketid broker) packet < int (length packet) then -1 else 1,
       if qos = 1 \<or> qos = 2 then broker\<lparr>mb_seq := mb_seq broker + 1\<rparr> else broker,
       if (qos = 1 \<or> qos = 2) \<and> want_id then Some (mb_seq broker) else None, [packet]))"
  using assms
  by (simp add: XPGmqtt_publish_with_qos_def topic_arg_eq cstr_def publish_var_header_eq rd_seg_def Let_def
      assemble_exact publish_packet_def short_int_def min_absorb2)

section \<open>Parsing what was built\<close>

lemma publish_type:
  "MQTTParseMessageType (publish_fixed_header qos retain rem @ rest) = Some MQTT_MSG_PUBLISH"
  "MQTTParseMessageQos (publish_fixed_header qos retain rem @ rest) = Some (if qos = 1 then 1 else if qos = 2 then 2 else 0)"
  by (auto simp: MQTTParseMessageType_def MQTTParseMessageQos_def publish_fixed_header_def qos_fields_def)

definition qos_size :: "u8 \<Rightarrow> nat" where
  "qos_size qos = (if qos = 1 \<or> qos = 2 then 2 else 0)"

definition rem_total :: "bytes \<Rightarrow> bytes \<Rightarrow> u8 \<Rightarrow> nat" where
  "rem_total t m qos = length t + 2 + qos_size qos + length m"

definition rlb :: "bytes \<Rightarrow> bytes \<Rightarrow> u8 \<Rightarrow> nat" where
  "rlb t m qos = (if rem_total t m qos < 128 then 1 else 2)"

definition header_len :: "bytes \<Rightarrow> bytes \<Rightarrow> u8 \<Rightarrow> nat" where
  "header_len t m qos = 1 + rlb t m qos + 2 + length t + qos_size qos"

lemma length_var_header: "length (var_header_bytes broker t qos) = length t + 2 + qos_size qos"
  by (simp add: var_header_bytes_def qos_size_def)

lemma length_rem_len_field: "unat x < 16384 \<Longrightarrow> length (rem_len_field x) = (if unat x < 128 then 1 else 2)"
  by (auto simp: rem_len_field_def word_le_nat_alt)

lemma publish_packet_shape:
  "publish_packet broker t m retain qos =
      (MQTT_MSG_PUBLISH OR snd (qos_fields qos) OR (if retain \<noteq> 0 then MQTT_RETAIN_FLAG else 0))
        # rem_len_field (of_nat (rem_total t m qos)) @ be16 (of_nat (length t)) @ t @
        (if qos = 1 \<or> qos = 2 then be16 (mb_seq broker) else []) @ m"
proof -
  have "length (var_header_bytes broker t qos) + length m = rem_total t m qos"
    by (simp add: length_var_header rem_total_def)
  then show ?thesis
    by (simp only: publish_packet_def publish_fixed_header_def append_Cons append_assoc)
      (simp only: var_header_bytes_def append_assoc)
qed

lemma rem_total_field:
  assumes "rem_total t m qos < 16384"
  shows "unat (of_nat (rem_total t m qos) :: u16) = rem_total t m qos"
    and "length (rem_len_field (of_nat (rem_total t m qos))) = rlb t m qos"
proof -
  show u: "unat (of_nat (rem_total t m qos) :: u16) = rem_total t m qos"
    using assms by (intro unat_of_nat16) simp
  show "length (rem_len_field (of_nat (rem_total t m qos))) = rlb t m qos"
    using assms length_rem_len_field[of "of_nat (rem_total t m qos)", unfolded u] by (simp only: rlb_def)
qed

lemma publish_packet_len:
  assumes "rem_total t m qos < 16384"
  shows "mqtt_parse_rem_len (publish_packet broker t m retain qos) = Some (of_nat (rem_total t m qos))"
    and "mqtt_num_rem_len_bytes (publish_packet broker t m retain qos) = Some (of_nat (rlb t m qos))"
    and "length (publish_packet broker t m retain qos) = 1 + rlb t m qos + rem_total t m qos"
    and "utf_len (publish_packet broker t m retain qos) (1 + rlb t m qos) = Some (of_nat (length t))"
    and "drop (1 + rlb t m qos + 2) (publish_packet broker t m retain qos) =
      t @ (if qos = 1 \<or> qos = 2 then be16 (mb_seq broker) else []) @ m"
proof -
  note u = rem_total_field(1)[OF assms] and l = rem_total_field(2)[OF assms] and p = publish_packet_shape[of broker t m retain qos]
  note d = rem_len_dec_field[of "of_nat (rem_total t m qos)", unfolded u, OF assms]
  show "mqtt_parse_rem_len (publish_packet broker t m retain qos) = Some (of_nat (rem_total t m qos))"
    "mqtt_num_rem_len_bytes (publish_packet broker t m retain qos) = Some (of_nat (rlb t m qos))"
    unfolding p using d l by simp_all
  show "length (publish_packet broker t m retain qos) = 1 + rlb t m qos + rem_total t m qos"
    unfolding p by (simp only: list.size length_append l) (simp add: rem_total_def qos_size_def)
  show "utf_len (publish_packet broker t m retain qos) (1 + rlb t m qos) = Some (of_nat (length t))"
    unfolding p by (simp add: utf_len_def rd_def l nth_append be16_def)
  show "drop (1 + rlb t m qos + 2) (publish_packet broker t m retain qos) =
      t @ (if qos = 1 \<or> qos = 2 then be16 (mb_seq broker) else []) @ m"
    unfolding p by (simp add: l be16_def)
qed

lemma publish_packet_type:
  "MQTTParseMessageType (publish_packet broker t m retain qos) = Some MQTT_MSG_PUBLISH"
  "MQTTParseMessageQos (publish_packet broker t m retain qos) = Some (if qos = 1 then 1 else if qos = 2 then 2 else 0)"
  by (simp_all add: publish_packet_def publish_type)

lemma unat_rlb: "unat (of_nat (rlb t m qos) :: u8) = rlb t m qos"
  by (simp add: rlb_def)

lemma parse_topic_exact:
  assumes "rem_total t m qos < 16384"
  shows "mqtt_parse_pub_topic_ptr (publish_packet broker t m retain qos) =
    Some (of_nat (length t), Some (t @ (if qos = 1 \<or> qos = 2 then be16 (mb_seq broker) else []) @ m))"
  using publish_packet_len[OF assms, of broker retain] publish_packet_type[of broker t m retain qos] by (simp add: mqtt_parse_pub_topic_ptr_def unat_rlb)

text \<open>What the 8 bit offset points to, on every packet.\<close>

lemma offset_byte:
  assumes "rem_total t m qos < 16384"
  shows "unat (lo8 (of_nat (length t)) + (1 + of_nat (rlb t m qos) + 2) + of_nat (qos_size qos) :: u8) = header_len t m qos mod 256"
proof -
  have "lo8 (of_nat (length t)) = of_nat (length t)"
    by (simp add: lo8_def word_unat_eq_iff unat_ucast8 unsigned_of_nat take_bit_eq_mod mod_mod_cancel)
  then have "lo8 (of_nat (length t)) + (1 + of_nat (rlb t m qos) + 2) + of_nat (qos_size qos) = (of_nat (header_len t m qos) :: u8)"
    by (simp add: header_len_def)
  then show ?thesis by (simp add: unsigned_of_nat take_bit_eq_mod)
qed

lemma parse_msg_exact:
  assumes "rem_total t m qos < 16384"
  shows "mqtt_parse_pub_msg_ptr (publish_packet broker t m retain qos) =
    Some (of_nat (rem_total t m qos) - (of_nat (header_len t m qos mod 256) - of_nat (1 + rlb t m qos)),
      Some (drop (header_len t m qos mod 256) (publish_packet broker t m retain qos)))"
proof -
  let ?o = "lo8 (of_nat (length t)) + (1 + of_nat (rlb t m qos) + 2) :: u8"
  have q: "(if (if qos = 1 then 1 else if qos = 2 then 2 else 0 :: u8) \<noteq> 0 then ?o + 2 else ?o) = ?o + of_nat (qos_size qos)"
    by (simp add: qos_size_def)
  have o: "unat (?o + of_nat (qos_size qos)) = header_len t m qos mod 256" by (rule offset_byte[OF assms])
  have "ucast (?o + of_nat (qos_size qos)) = (of_nat (unat (?o + of_nat (qos_size qos))) :: u16)"
    by (simp only: unsigned_of_nat of_nat_unat ucast_id of_nat_take_bit)
  then have "ucast (?o + of_nat (qos_size qos)) = (of_nat (header_len t m qos mod 256) :: u16)"
    by (simp only: o)
  moreover have "ucast (of_nat (rlb t m qos) :: u8) + 1 = (of_nat (1 + rlb t m qos) :: u16)"
    by (simp add: rlb_def)
  ultimately show ?thesis
    using publish_packet_len[OF assms, of broker retain] publish_packet_type[of broker t m retain qos] o
    by (simp only: mqtt_parse_pub_msg_ptr_def bind.bind_lunit unat_rlb q Let_def if_True simp_thms)
qed

lemma parse_id_exact:
  assumes "rem_total t m qos < 16384" and "header_len t m qos < 256" and "qos = 1 \<or> qos = 2"
  shows "mqtt_parse_msg_id (publish_packet broker t m retain qos) = Some (lo8 (mb_seq broker))"
proof -
  let ?p = "publish_packet broker t m retain qos"
  let ?o = "lo8 (of_nat (length t)) + (1 + of_nat (rlb t m qos) + 2) :: u8"
  have qs: "qos_size qos = 2" using assms(3) by (simp add: qos_size_def)
  have w: "unat (x + 2) = (unat x + 2) mod 256" for x :: u8
    by (simp add: unat_word_ariths)
  have "(unat ?o + 2) mod 256 = header_len t m qos"
    using offset_byte[OF assms(1), unfolded qs] assms(2) by (simp only: w of_nat_numeral mod_less)
  moreover have "x = 1 + rlb t m qos + 2 + length t" if "(x + 2) mod 256 = header_len t m qos" "x < 256" for x :: nat
    using that unfolding header_len_def qs by (cases "x + 2 < 256") (simp_all add: mod_if split: if_splits)
  ultimately have o: "unat ?o = 1 + rlb t m qos + 2 + length t"
    using u8_less by blast
  have d: "drop (1 + rlb t m qos + 2) ?p = t @ be16 (mb_seq broker) @ m"
    using publish_packet_len(5)[OF assms(1), of broker retain] assms(3) by simp
  then have "drop (length t) (drop (1 + rlb t m qos + 2) ?p) = be16 (mb_seq broker) @ m" by simp
  then have d: "drop (1 + rlb t m qos + 2 + length t) ?p = be16 (mb_seq broker) @ m"
    by (simp add: add.commute)
  moreover have "1 + rlb t m qos + 2 + length t + 2 \<le> length ?p"
    using publish_packet_len(3)[OF assms(1), of broker retain] assms(3) by (simp add: rem_total_def qos_size_def)
  ultimately have "rd ?p (1 + rlb t m qos + 2 + length t) = Some (hi8 (mb_seq broker))"
    "rd ?p (1 + rlb t m qos + 2 + length t + 1) = Some (lo8 (mb_seq broker))"
    using nth_drop[of "1 + rlb t m qos + 2 + length t" ?p 0] nth_drop[of "1 + rlb t m qos + 2 + length t" ?p 1]
    by (simp_all add: rd_def be16_def)
  then have "utf_len ?p (unat ?o) = Some (mb_seq broker)"
    by (simp only: utf_len_def o bind.bind_lunit mk16_hi8_lo8)
  moreover have "(if qos = 1 then 1 else if qos = 2 then 2 else 0 :: u8) \<noteq> 0" using assms(3) by auto
  moreover have "(0x30 :: u8) \<le> 0x30 \<and> (0x30 :: u8) \<le> 0xB0" by simp
  ultimately show ?thesis
    using publish_packet_len[OF assms(1), of broker retain] publish_packet_type[of broker t m retain qos]
    by (simp only: mqtt_parse_msg_id_def bind.bind_lunit unat_rlb Let_def if_True simp_thms)
qed

text \<open>The message of a packet that the library built, as the parser finds it.\<close>

lemma publish_packet_msg:
  assumes "rem_total t m qos < 16384" and "header_len t m qos < 256"
  shows "mqtt_parse_pub_msg_ptr (publish_packet broker t m retain qos) = Some (of_nat (length m), Some m)"
proof -
  let ?p = "publish_packet broker t m retain qos"
  have "drop (length t + qos_size qos) (drop (1 + rlb t m qos + 2) ?p) = m"
    using publish_packet_len(5)[OF assms(1), of broker retain] by (simp add: qos_size_def)
  then have "drop (header_len t m qos) ?p = m"
    by (simp add: header_len_def ac_simps)
  moreover have "(of_nat (rem_total t m qos) :: u16) - (of_nat (header_len t m qos) - of_nat (1 + rlb t m qos)) = of_nat (length m)"
    by (simp add: rem_total_def header_len_def)
  ultimately show ?thesis using parse_msg_exact[OF assms(1), of broker retain] assms(2) by simp
qed

section \<open>Properties\<close>

text \<open>C33 What \<open>XPGmqtt_publish_with_qos\<close> sends is what the parsing functions read: for a topic and a
  message whose headers fit in 255 bytes, the one packet passed to the socket announces its own
  length, and gives back the topic and the message byte for byte.\<close>

theorem publish_roundtrip:
  assumes "no_nul t" and "0 \<in> set msg" and "n \<le> length msg" and "mem 0" "mem 1" "mem 2"
    and "rem_total t (take n msg) qos < 16384" and "header_len t (take n msg) qos < 256"
  shows "\<exists>ret broker' id packet.
    XPGmqtt_publish_with_qos mem mqttsend broker (t @ 0 # r) msg n retain qos want_id = Some (ret, broker', id, [packet]) \<and>
    mqtt_parse_rem_len packet = Some (of_nat (rem_total t (take n msg) qos)) \<and>
    (\<exists>rest. mqtt_parse_pub_topic_ptr packet = Some (of_nat (length t), Some (t @ rest))) \<and>
    mqtt_parse_pub_msg_ptr packet = Some (of_nat n, Some (take n msg))"
proof -
  let ?m = "take n msg"
  let ?p = "publish_packet broker t ?m retain qos"
  have t: "length t < 65536" using assms(7) by (simp add: rem_total_def)
  have "mqtt_parse_pub_msg_ptr ?p = Some (of_nat n, Some ?m)"
    using publish_packet_msg[OF assms(7,8)] assms(3) by (simp add: min_absorb2)
  then show ?thesis
    using XPGmqtt_publish_packet[of t msg n mem mqttsend broker r retain qos want_id] assms t
      publish_packet_len(1)[OF assms(7), of broker retain] parse_topic_exact[OF assms(7), of broker retain]
    by (auto simp: Let_def)
qed

definition broker0 :: mqtt_broker_handle_t where
  "broker0 = \<lparr>mb_socketid = 3, mb_clientid = ascii ''did'' @ zeros 47, mb_username = ascii ''user'' @ zeros 20,
     mb_password = zeros 24, mb_will_retain = 0, mb_will_qos = 0, mb_clean_session = 1, mb_seq = 0x0203, mb_alive = 120\<rparr>"

theorem publish_roundtrip_witness:
  "\<exists>ret broker' id packet.
    XPGmqtt_publish_with_qos (\<lambda>i. True) (\<lambda>fd p. int (length p)) broker0 ([97, 98] @ 0 # []) [0, 0, 0, 3, 7] 5 0 1 True =
      Some (ret, broker', id, [packet]) \<and>
    mqtt_parse_rem_len packet = Some (of_nat (rem_total [97, 98] (take 5 [0, 0, 0, 3, 7]) 1)) \<and>
    (\<exists>rest. mqtt_parse_pub_topic_ptr packet = Some (of_nat (length ([97, 98] :: bytes)), Some ([97, 98] @ rest))) \<and>
    mqtt_parse_pub_msg_ptr packet = Some (of_nat 5, Some (take 5 [0, 0, 0, 3, 7]))"
  by (rule publish_roundtrip) (simp_all add: no_nul_def rem_total_def header_len_def rlb_def qos_size_def)

text \<open>\<open>mqtt_parse_pub_msg_ptr\<close> finds the message exactly when the headers are shorter than 256
  bytes: the offset is kept in 8 bits, and for a longer topic the message handed to the application
  starts inside the topic.\<close>

theorem publish_msg_found_iff:
  assumes "rem_total t m qos < 16384"
  shows "(\<exists>len. mqtt_parse_pub_msg_ptr (publish_packet broker t m retain qos) = Some (len, Some m)) \<longleftrightarrow>
    header_len t m qos < 256"
proof -
  let ?p = "publish_packet broker t m retain qos"
  have len: "length ?p = header_len t m qos + length m"
    using publish_packet_len(3)[OF assms, of broker retain] by (simp add: header_len_def rem_total_def)
  have "drop (length t + qos_size qos) (drop (1 + rlb t m qos + 2) ?p) = m"
    using publish_packet_len(5)[OF assms, of broker retain] by (simp add: qos_size_def)
  then have d: "drop (header_len t m qos) ?p = m"
    by (simp add: header_len_def ac_simps)
  show ?thesis
  proof
    assume "header_len t m qos < 256"
    then show "\<exists>len. mqtt_parse_pub_msg_ptr ?p = Some (len, Some m)"
      using parse_msg_exact[OF assms, of broker retain] d by simp
  next
    assume "\<exists>len. mqtt_parse_pub_msg_ptr ?p = Some (len, Some m)"
    then have "length (drop (header_len t m qos mod 256) ?p) = length m"
      using parse_msg_exact[OF assms, of broker retain] by auto
    then have "header_len t m qos mod 256 = header_len t m qos" using len by auto
    then show "header_len t m qos < 256" by (metis mod_less_divisor zero_less_numeral)
  qed
qed

theorem publish_msg_found_iff_witness:
  "(\<exists>len. mqtt_parse_pub_msg_ptr (publish_packet broker0 (replicate 300 97) [1, 2] 0 0) = Some (len, Some [1, 2])) \<longleftrightarrow>
    header_len (replicate 300 97) [1, 2] 0 < 256"
  by (rule publish_msg_found_iff) (simp add: rem_total_def qos_size_def)

text \<open>\<open>mqtt_ping\<close> (like DISCONNECT and PUBREL) compares the result of the send, an \<open>int\<close>, with
  \<open>sizeof(packet)\<close>: a failed send, -1, counts as a large unsigned number and is reported as success.
  Only the results 0 and 1 are seen as failures.\<close>

theorem mqtt_ping_result:
  "fst (mqtt_ping (\<lambda>fd p. sint (w :: 32 word)) broker) = (if w = 0 \<or> w = 1 then -1 else 1) \<and>
   snd (mqtt_ping (\<lambda>fd p. sint w) broker) = [[0xC0, 0]]"
proof -
  have "w < 2 \<longleftrightarrow> w = 0 \<or> w = 1"
    by (auto simp: word_less_nat_alt word_unat_eq_iff)
  then show ?thesis by (simp add: mqtt_ping_def short_sizeof_def)
qed

text \<open>A SUBSCRIBE for a topic of \<open>k\<close> bytes carries the length of its own body exactly when \<open>k\<close> is
  at most 122: the length is written as one byte without the continuation form.\<close>

theorem mqtt_subscribe_wellformed_iff:
  assumes "no_nul t" and "length t < 65536"
  shows "\<exists>packet. mqtt_subscribe (\<lambda>i. True) (\<lambda>fd p. int (length p)) broker (t @ 0 # r) want_id =
      Some (1, broker\<lparr>mb_seq := mb_seq broker + 1\<rparr>, if want_id then Some (mb_seq broker) else None, [packet]) \<and>
    packet = [0x82, of_nat (length t + 5)] @ be16 (mb_seq broker) @ be16 (of_nat (length t)) @ t @ [0] \<and>
    (mqtt_num_rem_len_bytes packet = Some 1 \<and> map_option unat (mqtt_parse_rem_len packet) = Some (length packet - 2) \<longleftrightarrow> length t \<le> 122)"
proof -
  let ?p = "[0x82, of_nat (length t + 5)] @ be16 (mb_seq broker) @ be16 (of_nat (length t)) @ t @ [0]"
  have u: "utf_topic t (length t + 3) = Some (be16 (of_nat (length t)) @ t @ [0])"
    using utf_topic_exact[of t 1] by (simp add: zeros_def numeral_3_eq_3)
  have s: "mqtt_subscribe (\<lambda>i. True) (\<lambda>fd p. int (length p)) broker (t @ 0 # r) want_id =
      Some (1, broker\<lparr>mb_seq := mb_seq broker + 1\<rparr>, if want_id then Some (mb_seq broker) else None, [?p])"
    using u topic_arg_eq[OF assms]
    by (simp add: mqtt_subscribe_def topic_request_def assemble_exact short_int_def zeros_def Let_def)
  have m: "unat (of_nat (length t + 5) :: u8) = (length t + 5) mod 256"
    by (simp only: unsigned_of_nat take_bit_eq_mod) simp
  have "mqtt_num_rem_len_bytes ?p = Some 1 \<and> map_option unat (mqtt_parse_rem_len ?p) = Some (length ?p - 2) \<longleftrightarrow> length t \<le> 122"
  proof (cases "unat (of_nat (length t + 5) :: u8) < 128")
    case True
    have "mqtt_parse_rem_len ?p = Some (ucast (of_nat (length t + 5) :: u8))"
      using parse_one[OF True] by simp
    then have "map_option unat (mqtt_parse_rem_len ?p) = Some ((length t + 5) mod 256)"
      by (simp only: option.map unat_ucast16 m)
    moreover have "mqtt_num_rem_len_bytes ?p = Some 1"
      using True num_bytes[where f = "0x82" and x = "of_nat (length t + 5)"] by simp
    moreover have "(length t + 5) mod 256 = length t + 5 \<longleftrightarrow> length t \<le> 122"
    proof
      assume "(length t + 5) mod 256 = length t + 5"
      then have "length t + 5 < 128" using True m by linarith
      then show "length t \<le> 122" by simp
    qed simp
    moreover have "length ?p - 2 = length t + 5" by simp
    ultimately show ?thesis by (simp only: option.inject simp_thms)
  next
    case False
    then have "mqtt_num_rem_len_bytes ?p \<noteq> Some 1"
      using num_bytes[where f = "0x82" and x = "of_nat (length t + 5)"] by (simp split: list.splits)
    moreover have "\<not> length t \<le> 122" using False m by auto
    ultimately show ?thesis by simp
  qed
  then show ?thesis using s by blast
qed

theorem mqtt_subscribe_wellformed_iff_witness:
  "\<exists>packet. mqtt_subscribe (\<lambda>i. True) (\<lambda>fd p. int (length p)) broker0 (replicate 200 97 @ 0 # []) False =
      Some (1, broker0\<lparr>mb_seq := mb_seq broker0 + 1\<rparr>, if False then Some (mb_seq broker0) else None, [packet]) \<and>
    packet = [0x82, of_nat (length (replicate 200 (97 :: u8)) + 5)] @ be16 (mb_seq broker0) @
      be16 (of_nat (length (replicate 200 (97 :: u8)))) @ replicate 200 97 @ [0] \<and>
    (mqtt_num_rem_len_bytes packet = Some 1 \<and> map_option unat (mqtt_parse_rem_len packet) = Some (length packet - 2) \<longleftrightarrow>
      length (replicate 200 (97 :: u8)) \<le> 122)"
  by (rule mqtt_subscribe_wellformed_iff) (simp_all add: no_nul_def)

section \<open>CONNECT\<close>

definition field_ok :: "bytes \<Rightarrow> nat \<Rightarrow> bool" where
  "field_ok b n \<longleftrightarrow> length b = n \<and> 0 \<in> set b"

lemma field_okD: "field_ok b n \<Longrightarrow> \<exists>s. cstr b = Some s \<and> length s < n"
  using cstr_length[of b] by (auto simp: field_ok_def cstr_def)

text \<open>\<open>mqtt_init\<close> and \<open>mqtt_init_auth\<close> leave every credential terminated if the client id is shorter
  than its array.\<close>

definition opt_field :: "bytes \<Rightarrow> bytes" where
  "opt_field s = (if s = [] then [] else be16 (of_nat (length s)) @ s)"

lemma connect_sent:
  assumes "field_ok (mb_clientid broker) 50" "field_ok (mb_username broker) 24" "field_ok (mb_password broker) 24"
    and "mem 0" "mem 1"
  shows "\<exists>cid user pass packet. cstr (mb_clientid broker) = Some cid \<and> cstr (mb_username broker) = Some user \<and>
      cstr (mb_password broker) = Some pass \<and>
      mqtt_connect mem mqttsend broker = Some (if mqttsend (mb_socketid broker) packet < int (length packet) then -3 else 0, [packet]) \<and>
      packet = [0x10, of_nat (length packet - 2), 0x00, 0x06, 0x4d, 0x51, 0x49, 0x73, 0x64, 0x70, 0x03,
          (if user \<noteq> [] then 0x80 else 0) OR (if pass \<noteq> [] then 0x40 else 0) OR (if mb_clean_session broker \<noteq> 0 then 2 else 0)]
        @ be16 (mb_alive broker) @ be16 (of_nat (length cid)) @ cid @ opt_field user @ opt_field pass \<and>
      mqtt_num_rem_len_bytes packet = Some 1 \<and> mqtt_parse_rem_len packet = Some (of_nat (length packet - 2))"
proof -
  obtain cid user pass where c: "cstr (mb_clientid broker) = Some cid" "length cid < 50"
    "cstr (mb_username broker) = Some user" "length user < 24" "cstr (mb_password broker) = Some pass" "length pass < 24"
    using assms(1-3)[THEN field_okD] by blast
  let ?n = "12 + (length cid + 2 + (if user \<noteq> [] then length user + 2 else 0) + (if pass \<noteq> [] then length pass + 2 else 0))"
  have n: "?n < 128" using c by simp
  let ?fl = "(if user \<noteq> [] then 0x80 else 0) OR (if pass \<noteq> [] then 0x40 else 0) OR (if mb_clean_session broker \<noteq> 0 then 2 else 0) :: u8"
  let ?body = "[0x00, 0x06, 0x4d, 0x51, 0x49, 0x73, 0x64, 0x70, 0x03, ?fl]
        @ be16 (mb_alive broker) @ be16 (of_nat (length cid)) @ cid @ opt_field user @ opt_field pass"
  let ?p = "[0x10, of_nat ?n] @ ?body"
  have body: "length ?body = ?n" by (simp add: opt_field_def)
  have w: "unat (of_nat ?n :: u8) = ?n" by (rule unat_of_nat8) (use n in simp)
  have f: "rem_len_field (ucast (of_nat ?n :: u8)) = [of_nat ?n]"
    using n w unat_ucast16[of "of_nat ?n"] rem_len_field_bytes[of "ucast (of_nat ?n :: u8)"]
    by (auto simp: word_unat_eq_iff unat_ucast8)
  have asm: "assemble ([0x10 # [of_nat ?n], [0x00, 0x06, 0x4d, 0x51, 0x49, 0x73, 0x64, 0x70, 0x03, ?fl, hi8 (mb_alive broker), lo8 (mb_alive broker)],
        be16 (of_nat (length cid)), cid] @ (if user \<noteq> [] then [be16 (of_nat (length user)), user] else [])
           @ (if pass \<noteq> [] then [be16 (of_nat (length pass)), pass] else [])) (length (0x10 # [of_nat ?n] :: bytes) + 12 +
        (length cid + 2 + (if user \<noteq> [] then length user + 2 else 0) + (if pass \<noteq> [] then length pass + 2 else 0))) = Some ?p"
    by (subst assemble_exact) (simp_all add: opt_field_def be16_def)
  have "mqtt_connect mem mqttsend broker = Some (if mqttsend (mb_socketid broker) ?p < int (length ?p) then -3 else 0, [?p])"
    by (simp only: mqtt_connect_def c bind.bind_lunit Let_def assms(4,5) not_True_eq_False if_False f asm short_int_def)
  moreover have l: "length ?p - 2 = ?n" by (simp add: opt_field_def)
  moreover have "mqtt_parse_rem_len ?p = Some (ucast (of_nat ?n :: u8))"
    using parse_one[where x = "of_nat ?n" and f = "0x10" and rest = ?body, unfolded w, OF n] by simp
  moreover have "ucast (of_nat ?n :: u8) = (of_nat ?n :: u16)"
    unfolding word_unat_eq_iff unat_ucast16 w by (rule unat_of_nat16[symmetric]) (use n in simp)
  moreover have "mqtt_num_rem_len_bytes ?p = Some 1"
    using num_bytes[where f = "0x10" and x = "of_nat ?n" and rest = ?body, unfolded w] n by simp
  ultimately have "\<exists>p. mqtt_connect mem mqttsend broker = Some (if mqttsend (mb_socketid broker) p < int (length p) then -3 else 0, [p]) \<and>
      p = [0x10, of_nat (length p - 2)] @ ?body \<and> mqtt_num_rem_len_bytes p = Some 1 \<and>
      mqtt_parse_rem_len p = Some (of_nat (length p - 2))"
    by (intro exI[of _ ?p]) (simp only: l simp_thms)
  then obtain p where "mqtt_connect mem mqttsend broker = Some (if mqttsend (mb_socketid broker) p < int (length p) then -3 else 0, [p])"
      "p = [0x10, of_nat (length p - 2)] @ ?body" "mqtt_num_rem_len_bytes p = Some 1" "mqtt_parse_rem_len p = Some (of_nat (length p - 2))"
    by (elim exE conjE)
  then show ?thesis using c(1,3,5)
    by (intro exI[of _ cid] exI[of _ user] exI[of _ pass] exI[of _ p]) (simp only: append.simps simp_thms)
qed

text \<open>The CONNECT of a broker whose three strings are terminated inside their arrays is well
  formed: protocol name, flags for exactly the credentials present, keep-alive, and the credentials,
  each preceded by its length; its length byte is the number of bytes that follow.\<close>

theorem mqtt_connect_packet:
  assumes "field_ok (mb_clientid broker) 50" "field_ok (mb_username broker) 24" "field_ok (mb_password broker) 24"
    and "mem 0" "mem 1"
  shows "\<exists>cid user pass packet. cstr (mb_clientid broker) = Some cid \<and> cstr (mb_username broker) = Some user \<and>
      cstr (mb_password broker) = Some pass \<and>
      mqtt_connect mem mqttsend broker = Some (if mqttsend (mb_socketid broker) packet < int (length packet) then -3 else 0, [packet]) \<and>
      packet = [0x10, of_nat (length packet - 2), 0x00, 0x06, 0x4d, 0x51, 0x49, 0x73, 0x64, 0x70, 0x03,
          (if user \<noteq> [] then 0x80 else 0) OR (if pass \<noteq> [] then 0x40 else 0) OR (if mb_clean_session broker \<noteq> 0 then 2 else 0)]
        @ be16 (mb_alive broker) @ be16 (of_nat (length cid)) @ cid @ opt_field user @ opt_field pass \<and>
      mqtt_num_rem_len_bytes packet = Some 1 \<and> mqtt_parse_rem_len packet = Some (of_nat (length packet - 2))"
  by (rule connect_sent[OF assms])

theorem mqtt_connect_packet_witness:
  "\<exists>cid user pass packet. cstr (mb_clientid broker0) = Some cid \<and> cstr (mb_username broker0) = Some user \<and>
      cstr (mb_password broker0) = Some pass \<and>
      mqtt_connect (\<lambda>i. True) (\<lambda>fd p. -1) broker0 = Some (if -1 < int (length packet) then -3 else 0, [packet]) \<and>
      packet = [0x10, of_nat (length packet - 2), 0x00, 0x06, 0x4d, 0x51, 0x49, 0x73, 0x64, 0x70, 0x03,
          (if user \<noteq> [] then 0x80 else 0) OR (if pass \<noteq> [] then 0x40 else 0) OR (if mb_clean_session broker0 \<noteq> 0 then 2 else 0)]
        @ be16 (mb_alive broker0) @ be16 (of_nat (length cid)) @ cid @ opt_field user @ opt_field pass \<and>
      mqtt_num_rem_len_bytes packet = Some 1 \<and> mqtt_parse_rem_len packet = Some (of_nat (length packet - 2))"
  by (rule mqtt_connect_packet) (simp_all add: field_ok_def broker0_def zeros_def)

lemma takeWhile_no_nul: "no_nul s \<Longrightarrow> takeWhile (\<lambda>c. c \<noteq> 0) s = s"
  by (auto simp: takeWhile_eq_all_conv no_nul_def)

lemma c_strncpy_zeros:
  assumes "no_nul s" and "n \<le> m"
  shows "c_strncpy (zeros m) (s @ 0 # r) n = Some (take n s @ zeros (m - length (take n s)))"
proof -
  have "takeWhile (\<lambda>c. c \<noteq> 0) (s @ 0 # r) = s" using assms(1) by (rule takeWhile_append_nul)
  then show ?thesis using assms(2)
    by (simp add: c_strncpy_def wr_seg_def put_def Let_def zeros_def replicate_add [symmetric])
qed

lemma cstr_padded: "no_nul s \<Longrightarrow> 0 < k \<Longrightarrow> cstr (s @ zeros k) = Some s"
  by (cases k) (simp_all add: zeros_def)

lemma no_nul_take: "no_nul s \<Longrightarrow> no_nul (take n s)"
  by (auto simp: no_nul_def dest: in_set_takeD)

text \<open>Initialising a handle stores the client id (up to 50 bytes, and then without a terminator) and
  the first 23 bytes of the user name and the password, terminated; the sequence number restarts at
  1. With a client id shorter than its array every string is terminated, as the CONNECT builder
  requires.\<close>

theorem mqtt_init_credentials:
  assumes "no_nul cid" "no_nul user" "no_nul pass" "user \<noteq> []" "pass \<noteq> []" and "length cid < 50"
  shows "\<exists>b. mqtt_init broker (Some (cid @ 0 # r1)) \<bind> (\<lambda>b. mqtt_init_auth b (Some (user @ 0 # r2)) (Some (pass @ 0 # r3))) = Some b \<and>
    cstr (mb_clientid b) = Some cid \<and> cstr (mb_username b) = Some (take 23 user) \<and> cstr (mb_password b) = Some (take 23 pass) \<and>
    field_ok (mb_clientid b) 50 \<and> field_ok (mb_username b) 24 \<and> field_ok (mb_password b) 24 \<and> mb_seq b = 1 \<and> mb_alive b = 120"
proof -
  have h: "rd (s @ 0 # r) 0 = Some (s ! 0) \<and> s ! 0 \<noteq> 0" if "no_nul s" "s \<noteq> []" for s r
    using that by (cases s) (auto simp: no_nul_def rd_def)
  have z: "0 \<in> set (s @ zeros k)" if "0 < k" for s k using that by (cases k) (simp_all add: zeros_def)
  show ?thesis
    using assms h[OF assms(2,4), of r2] h[OF assms(3,5), of r3]
    by (simp add: mqtt_init_def mqtt_init_auth_def mqtt_set_alive_def c_strncpy_zeros Let_def field_ok_def cstr_padded
        no_nul_take z del: take_append set_append)
qed

theorem mqtt_init_credentials_witness:
  "\<exists>b. mqtt_init broker0 (Some (ascii ''dev1'' @ 0 # [])) \<bind>
      (\<lambda>b. mqtt_init_auth b (Some (replicate 40 117 @ 0 # [])) (Some (ascii ''secret'' @ 0 # []))) = Some b \<and>
    cstr (mb_clientid b) = Some (ascii ''dev1'') \<and> cstr (mb_username b) = Some (take 23 (replicate 40 117)) \<and>
    cstr (mb_password b) = Some (take 23 (ascii ''secret'')) \<and>
    field_ok (mb_clientid b) 50 \<and> field_ok (mb_username b) 24 \<and> field_ok (mb_password b) 24 \<and> mb_seq b = 1 \<and> mb_alive b = 120"
  by (rule mqtt_init_credentials) (simp_all add: no_nul_def ascii_def)

end
