(* ===== verification/StripDevice.thy ===== *)
theory StripDevice
  imports NstUtil
begin

text \<open>
  The device behind the firmware, a socket with timers (App/GizWitsWifi/dev/strip.c, strip.h, and
  the dispatcher control.c compiled for it): the command parser, the daily on and off timers and
  the weekday computation. The state is the table entry of the one socket, the three timers, the
  repeat flag and the levels of the output pins. The tick counter (\<open>OSTimeGet\<close>, 100 ticks a second)
  is an argument of what reads it.
\<close>

section \<open>State\<close>

record socket_status_t =
  onoff :: u8
  week_repeat :: u8
  time_on_minute :: u16
  time_off_minute :: u16
  countdown_minute :: u16
  power_consumption :: u16

record strip_t =
  status_flag :: u8
  socket_gpio :: u8
  socket_name :: bytes
  socket_status :: socket_status_t
  Timer_on :: nst_timer_ptr
  Timer_off :: nst_timer_ptr
  Timer_countDown :: nst_timer_ptr
  repeat_flag :: u8
  pins :: "u8 \<Rightarrow> u8"

abbreviation (input) "STRIP_GPIO_NUM_ONE \<equiv> (30 :: u8)"
abbreviation (input) "USER_GPIO_IDX_LED \<equiv> (3 :: u8)"

definition BSP_GPIOSetValue :: "u8 \<Rightarrow> u8 \<Rightarrow> strip_t \<Rightarrow> strip_t" where
  "BSP_GPIOSetValue g v s = s\<lparr>pins := (pins s)(g := v)\<rparr>"

definition SETBIT :: "nat \<Rightarrow> strip_t \<Rightarrow> strip_t" where
  "SETBIT y s = s\<lparr>socket_status := (socket_status s)\<lparr>onoff := onoff (socket_status s) OR push_bit y 1\<rparr>\<rparr>"

definition CLRBIT :: "nat \<Rightarrow> strip_t \<Rightarrow> strip_t" where
  "CLRBIT y s = s\<lparr>socket_status := (socket_status s)\<lparr>onoff := onoff (socket_status s) AND NOT (push_bit y 1)\<rparr>\<rparr>"

section \<open>Time\<close>

definition system_sec :: "u32 \<Rightarrow> u32" where
  "system_sec ticks = ticks div 100 + 1417305600 + 28800"

definition timing_week :: "u32 \<Rightarrow> u32" where
  "timing_week ticks =
     (let days = system_sec ticks div 60 div 60 div 24;
          wday = (4 + days) mod 7
      in if wday = 0 then 7 else wday)"

definition timing_value :: "u32 \<Rightarrow> u16 \<Rightarrow> u32" where
  "timing_value ticks minute =
     (let sec = system_sec ticks;
          system_minute = (sec div 60) mod 60 + ((sec div 60 div 60) mod 24) * 60;
          m = ucast minute
      in if system_minute = m then 10
         else if system_minute < m then (m - system_minute) * 1000 * 60 - (sec mod 60) * 1000
         else (24 * 60 - (system_minute - m)) * 1000 * 60)"

section \<open>Timers\<close>

definition switch_on :: "strip_t \<Rightarrow> strip_t" where
  "switch_on s = SETBIT 0 (BSP_GPIOSetValue USER_GPIO_IDX_LED 0 (BSP_GPIOSetValue (socket_gpio s) 1 s))"

definition switch_off :: "strip_t \<Rightarrow> strip_t" where
  "switch_off s = CLRBIT 0 (BSP_GPIOSetValue USER_GPIO_IDX_LED 1 (BSP_GPIOSetValue (socket_gpio s) 0 s))"

text \<open>Today is one of the days of \<open>week_repeat\<close>.\<close>

definition repeat_today :: "u32 \<Rightarrow> strip_t \<Rightarrow> bool" where
  "repeat_today ticks s \<longleftrightarrow>
     repeat_flag s = 1 \<and> drop_bit (unat (timing_week ticks - 1)) (week_repeat (socket_status s)) AND 1 \<noteq> 0"

definition timer_on_task :: "u32 \<Rightarrow> strip_t \<Rightarrow> strip_t" where
  "timer_on_task ticks s =
     (let s = (if week_repeat (socket_status s) = 0 then switch_on s else s);
          s = (if week_repeat (socket_status s) \<noteq> 0 \<and> repeat_flag s = 1
               then s\<lparr>Timer_on := NST_SetTimer (Timer_on s) (24 * 60 * 1000 * 60)\<rparr> else s)
      in if repeat_today ticks s then switch_on s else s)"

definition timer_off_task :: "u32 \<Rightarrow> strip_t \<Rightarrow> strip_t" where
  "timer_off_task ticks s =
     (let s = (if week_repeat (socket_status s) = 0 then switch_off s else s);
          s = (if week_repeat (socket_status s) \<noteq> 0 \<and> repeat_flag s = 1
               then s\<lparr>Timer_off := NST_SetTimer (Timer_off s) (24 * 60 * 1000 * 60)\<rparr> else s)
      in if repeat_today ticks s then switch_off s else s)"

definition timer_task_init :: "bool \<Rightarrow> strip_t \<Rightarrow> strip_t" where
  "timer_task_init created s =
     s\<lparr>Timer_on := NST_InitTimer created (Timer_on s) False, Timer_off := NST_InitTimer created (Timer_off s) False,
       Timer_countDown := NST_InitTimer created (Timer_countDown s) False\<rparr>"

section \<open>Commands\<close>

definition decodeInt16 :: "bytes \<Rightarrow> nat \<Rightarrow> u16 option" where
  "decodeInt16 b i = do { h \<leftarrow> rd b i; l \<leftarrow> rd b (i + 1); Some (mk16 h l) }"

text \<open>The blocks of \<open>strip_data_parse\<close>, one per attribute flag.\<close>

definition set_switch :: "u8 \<Rightarrow> strip_t \<Rightarrow> strip_t" where
  "set_switch c s = (if c AND 0x01 = 0x01 then switch_on s else switch_off s)"

definition set_time_onoff :: "u32 \<Rightarrow> u8 \<Rightarrow> strip_t \<Rightarrow> strip_t" where
  "set_time_onoff ticks c s =
     (if c AND 0x02 = 0x02 then
        let s = SETBIT 1 s;
            s = (if week_repeat (socket_status s) \<noteq> 0 then s\<lparr>repeat_flag := 1\<rparr> else s)
        in s\<lparr>Timer_on := NST_SetTimer (Timer_on s) (timing_value ticks (time_on_minute (socket_status s))),
             Timer_off := NST_SetTimer (Timer_off s) (timing_value ticks (time_off_minute (socket_status s)))\<rparr>
      else
        let s = CLRBIT 1 s
        in s\<lparr>Timer_on := fst (NST_CancelTimer False (Timer_on s)), Timer_off := fst (NST_CancelTimer False (Timer_off s)),
             repeat_flag := 0\<rparr>)"

definition set_countdown_onoff :: "u8 \<Rightarrow> strip_t \<Rightarrow> strip_t" where
  "set_countdown_onoff c s = (if c AND 0x04 = 0x04 then SETBIT 2 s else CLRBIT 2 s)"

definition set_week_repeat :: "u8 \<Rightarrow> strip_t \<Rightarrow> strip_t" where
  "set_week_repeat w s = s\<lparr>socket_status := (socket_status s)\<lparr>week_repeat := w\<rparr>, repeat_flag := (if w \<noteq> 0 then 1 else 0)\<rparr>"

definition set_time_on :: "u32 \<Rightarrow> u16 \<Rightarrow> strip_t \<Rightarrow> strip_t" where
  "set_time_on ticks m s = s\<lparr>socket_status := (socket_status s)\<lparr>time_on_minute := m\<rparr>,
     Timer_on := NST_SetTimer (Timer_on s) (timing_value ticks m)\<rparr>"

definition set_time_off :: "u32 \<Rightarrow> u16 \<Rightarrow> strip_t \<Rightarrow> strip_t" where
  "set_time_off ticks m s = s\<lparr>socket_status := (socket_status s)\<lparr>time_off_minute := m\<rparr>,
     Timer_off := NST_SetTimer (Timer_off s) (timing_value ticks m)\<rparr>"

definition strip_data_parse :: "u32 \<Rightarrow> u8 \<Rightarrow> bytes \<Rightarrow> strip_t \<Rightarrow> strip_t option" where
  "strip_data_parse ticks attr_flags ctrl_data s = do {
     c \<leftarrow> rd ctrl_data 0;
     let s = (if attr_flags AND 0x01 = 0x01 then set_switch c s else s);
     let s = (if attr_flags AND 0x02 = 0x02 then set_time_onoff ticks c s else s);
     let s = (if attr_flags AND 0x04 = 0x04 then set_countdown_onoff c s else s);
     s \<leftarrow> (if attr_flags AND 0x08 = 0x08 then do { w \<leftarrow> rd ctrl_data 1; Some (set_week_repeat w s) } else Some s);
     s \<leftarrow> (if attr_flags AND 0x10 = 0x10 then do { m \<leftarrow> decodeInt16 ctrl_data 2; Some (set_time_on ticks m s) } else Some s);
     s \<leftarrow> (if attr_flags AND 0x20 = 0x20 then do { m \<leftarrow> decodeInt16 ctrl_data 4; Some (set_time_off ticks m s) } else Some s);
     (if attr_flags AND 0x40 = 0x40
      then do { m \<leftarrow> decodeInt16 ctrl_data 6; Some (s\<lparr>socket_status := (socket_status s)\<lparr>countdown_minute := m\<rparr>\<rparr>) }
      else Some s)
   }"

definition strip_start :: "u32 \<Rightarrow> u8 \<Rightarrow> u8 \<Rightarrow> bytes \<Rightarrow> strip_t \<Rightarrow> strip_t option" where
  "strip_start ticks action attr_flags ctrl_data s =
     map_option (\<lambda>s. s\<lparr>status_flag := 1\<rparr>) (strip_data_parse ticks attr_flags ctrl_data s)"

definition strip_stop :: "strip_t \<Rightarrow> strip_t" where
  "strip_stop s = (BSP_GPIOSetValue (socket_gpio s) 0 s)\<lparr>status_flag := 0\<rparr>"

definition strip_init :: "bool \<Rightarrow> strip_t \<Rightarrow> strip_t" where
  "strip_init created s =
     timer_task_init created (BSP_GPIOSetValue STRIP_GPIO_NUM_ONE 0
       (s\<lparr>status_flag := 0, socket_gpio := STRIP_GPIO_NUM_ONE, socket_name := ascii ''SOCKET-one'',
          socket_status := \<lparr>onoff = 0, week_repeat = 0, time_on_minute = 0, time_off_minute = 0, countdown_minute = 0,
            power_consumption = 0\<rparr>\<rparr>))"

definition get_socket_status :: "u8 \<Rightarrow> strip_t \<Rightarrow> socket_status_t \<Rightarrow> socket_status_t" where
  "get_socket_status gpio s old = (if gpio = STRIP_GPIO_NUM_ONE then socket_status s else old)"

text \<open>\<open>device_control\<close> and \<open>device_init\<close> of control.c, compiled with \<open>DEV_STRIP_MASK\<close>.\<close>

definition device_control :: "u32 \<Rightarrow> u8 \<Rightarrow> u8 \<Rightarrow> bytes \<Rightarrow> strip_t \<Rightarrow> strip_t option" where
  "device_control = strip_start"

definition device_init :: "bool \<Rightarrow> strip_t \<Rightarrow> strip_t" where
  "device_init = strip_init"


section \<open>Time in natural numbers\<close>

lemma unat_system_sec: "unat (system_sec ticks) = unat ticks div 100 + 1417334400"
proof -
  have "unat ticks div 100 \<le> 42949672"
    using unsigned_less[of ticks, where 'a = nat] by simp
  then show ?thesis by (simp add: system_sec_def unat_word_ariths unat_div)
qed

definition day_sec :: "u32 \<Rightarrow> nat" where
  "day_sec ticks = (unat ticks div 100 + 1417334400) mod 86400"

lemma minute_of_day: "(s :: nat) div 60 mod 60 + s div 60 div 60 mod 24 * 60 = s mod 86400 div 60"
proof -
  have "s mod 86400 div 60 = s div 60 mod 1440"
    using div_mult2_eq[of s 60 1440] mod_mult2_eq[of s 60 1440] by simp
  also have "\<dots> = s div 60 mod 60 + s div 60 div 60 mod 24 * 60"
    using mod_mult2_eq[of "s div 60" 60 24] by simp
  finally show ?thesis by simp
qed

lemma unat_system_minute:
  "unat ((system_sec ticks div 60) mod 60 + ((system_sec ticks div 60 div 60) mod 24) * 60) = day_sec ticks div 60"
proof -
  let ?s = "unat (system_sec ticks)"
  have "?s div 60 mod 60 + ?s div 60 div 60 mod 24 * 60 < 4294967296"
    using minute_of_day[of ?s] by (simp add: less_mult_imp_div_less)
  moreover have "?s div 60 < 4294967296" using unsigned_less[of "system_sec ticks", where 'a = nat] by simp
  ultimately have "unat ((system_sec ticks div 60) mod 60 + ((system_sec ticks div 60 div 60) mod 24) * 60) =
      ?s div 60 mod 60 + ?s div 60 div 60 mod 24 * 60"
    by (simp add: unat_word_ariths unat_div unat_mod)
  also have "\<dots> = day_sec ticks div 60" unfolding minute_of_day by (simp only: day_sec_def unat_system_sec)
  finally show ?thesis .
qed

lemma unat_sec_mod: "unat (system_sec ticks mod 60) = day_sec ticks mod 60"
  by (simp add: unat_mod unat_system_sec day_sec_def mod_mod_cancel)

lemma unat_ucast32: "unat (ucast (m :: u16) :: u32) = unat m"
  using u16_less[of m] by (simp add: unsigned_ucast_eq take_bit_nat_eq_self)

text \<open>The time to the next switching, in milliseconds. The wrap-around of the 32 bit arithmetic never
  shows. Before the minute it is exact to the second; once the minute has passed the seconds of the
  current minute are not subtracted, so the timer of the next day comes up to 59 seconds late; in the
  minute itself the device switches at once.\<close>

theorem timing_value_exact:
  "unat (timing_value ticks m) =
     (let now = day_sec ticks in
      if now div 60 = unat m then 10
      else if now div 60 < unat m then (60 * unat m - now) * 1000
      else (86400 - 60 * (now div 60 - unat m)) * 1000)"
proof -
  define mi where "mi = (system_sec ticks div 60) mod 60 + ((system_sec ticks div 60 div 60) mod 24) * 60"
  have mi: "unat mi = day_sec ticks div 60" unfolding mi_def by (rule unat_system_minute)
  have d: "day_sec ticks < 86400" by (simp add: day_sec_def)
  then have lt: "unat mi < 1440" unfolding mi by (simp add: less_mult_imp_div_less)
  have tv: "timing_value ticks m = (if mi = ucast m then 10
         else if mi < ucast m then (ucast m - mi) * 1000 * 60 - (system_sec ticks mod 60) * 1000
         else (24 * 60 - (mi - ucast m)) * 1000 * 60)"
    by (simp only: timing_value_def Let_def mi_def)
  have eqs: "mi = ucast m \<longleftrightarrow> unat mi = unat m" "mi < ucast m \<longleftrightarrow> unat mi < unat m"
    by (simp_all only: word_unat_eq_iff word_less_nat_alt unat_ucast32)
  consider "unat mi = unat m" | "unat mi < unat m" | "unat m < unat mi" by linarith
  then show ?thesis
  proof cases
    case 1
    then show ?thesis unfolding tv eqs by (simp add: mi [symmetric] Let_def)
  next
    case 2
    have "ucast m - mi = of_nat (unat m - unat mi)"
      using 2 by (simp add: of_nat_diff)
    moreover have "system_sec ticks mod 60 = of_nat (day_sec ticks mod 60)"
      by (simp add: unat_sec_mod [symmetric])
    moreover define k where "k = (unat m - unat mi) * 60000 - day_sec ticks mod 60 * 1000"
    have "day_sec ticks mod 60 * 1000 \<le> (unat m - unat mi) * 60000"
      using 2 mod_less_divisor[of 60 "day_sec ticks"] by linarith
    ultimately have w: "(ucast m - mi) * 1000 * 60 - (system_sec ticks mod 60) * 1000 = of_nat k"
      unfolding k_def by (simp add: of_nat_diff)
    have "k < 4294967296" unfolding k_def using u16_less[of m] by linarith
    then have u: "unat ((ucast m - mi) * 1000 * 60 - (system_sec ticks mod 60) * 1000) = k"
      unfolding w by (rule unat_of_nat32)
    have "day_sec ticks * 1000 = day_sec ticks mod 60 * 1000 + day_sec ticks div 60 * 60000"
      using mult_div_mod_eq[of 60 "day_sec ticks"] by linarith
    then have "k = (60 * unat m - day_sec ticks) * 1000"
      using 2 unfolding k_def mi by (simp add: algebra_simps)
    moreover have "unat mi \<noteq> unat m" using 2 by simp
    ultimately show ?thesis using 2 u unfolding tv eqs by (simp only: mi [symmetric] Let_def if_False if_True simp_thms)
  next
    case 3
    have "mi - ucast m = of_nat (unat mi - unat m)"
      using 3 by (simp add: of_nat_diff)
    moreover define k where "k = (1440 - (unat mi - unat m)) * 60000"
    have "unat mi - unat m \<le> 1440" using lt by simp
    ultimately have w: "(24 * 60 - (mi - ucast m)) * 1000 * 60 = of_nat k"
      unfolding k_def by (simp add: of_nat_diff)
    have "k < 4294967296" unfolding k_def by simp
    then have "unat ((24 * 60 - (mi - ucast m)) * 1000 * 60) = k" unfolding w by (rule unat_of_nat32)
    moreover have "k = (86400 - 60 * (unat mi - unat m)) * 1000" unfolding k_def by (simp add: algebra_simps)
    moreover have "unat mi \<noteq> unat m" "\<not> unat mi < unat m" using 3 by simp_all
    ultimately show ?thesis unfolding tv eqs by (simp only: mi [symmetric] Let_def if_False if_True simp_thms)
  qed
qed

lemma timing_week_range:
  "unat (timing_week ticks) = (let w = (4 + (unat ticks div 100 + 1417334400) div 86400) mod 7 in if w = 0 then 7 else w)"
  "1 \<le> unat (timing_week ticks) \<and> unat (timing_week ticks) \<le> 7"
proof -
  define D where "D = (unat ticks div 100 + 1417334400) div 86400"
  have D: "D < 4294967290" unfolding D_def using unsigned_less[of ticks, where 'a = nat] by simp
  have "unat (system_sec ticks div 60 div 60 div 24) = D"
    by (simp add: unat_div unat_system_sec D_def div_mult2_eq [symmetric])
  then have w0: "system_sec ticks div 60 div 60 div 24 = of_nat D"
    using D by (simp add: word_unat_eq_iff unat_of_nat32)
  have "unat (4 + of_nat D :: u32) = 4 + D"
    using D by (simp add: unat_word_ariths unat_of_nat32)
  then have "unat ((4 + of_nat D) mod 7 :: u32) = (4 + D) mod 7"
    by (simp only: unat_mod) simp
  then show w: "unat (timing_week ticks) = (let w = (4 + (unat ticks div 100 + 1417334400) div 86400) mod 7 in if w = 0 then 7 else w)"
    unfolding timing_week_def w0 D_def [symmetric]
    by (simp add: Let_def word_unat_eq_iff)
  show "1 \<le> unat (timing_week ticks) \<and> unat (timing_week ticks) \<le> 7"
    unfolding w Let_def using mod_less_divisor[of 7 "4 + (unat ticks div 100 + 1417334400) div 86400"] by auto
qed

section \<open>Flags as bits\<close>

lemma flag_bit:
  assumes "n < 8"
  shows "(x :: u8) AND 2 ^ n = 2 ^ n \<longleftrightarrow> bit x n"
proof
  assume "x AND 2 ^ n = 2 ^ n"
  then have "bit (x AND 2 ^ n) n" using assms by (simp only: bit_exp_iff possible_bit_word) simp
  then show "bit x n" by (simp add: bit_and_iff)
next
  assume "bit x n"
  then show "x AND 2 ^ n = 2 ^ n" by (auto intro!: bit_word_eqI simp: bit_and_iff bit_exp_iff)
qed

lemma flags:
  "(x :: u8) AND 1 = 1 \<longleftrightarrow> bit x 0" "x AND 2 = 2 \<longleftrightarrow> bit x 1" "x AND 4 = 4 \<longleftrightarrow> bit x 2" "x AND 8 = 8 \<longleftrightarrow> bit x 3"
  "x AND 16 = 16 \<longleftrightarrow> bit x 4" "x AND 32 = 32 \<longleftrightarrow> bit x 5" "x AND 64 = 64 \<longleftrightarrow> bit x 6"
  using flag_bit[of 0 x] flag_bit[of 1 x] flag_bit[of 2 x] flag_bit[of 3 x] flag_bit[of 4 x] flag_bit[of 5 x] flag_bit[of 6 x]
  by simp_all

lemma bit_SETBIT: "y < 8 \<Longrightarrow> bit (onoff (socket_status (SETBIT y s))) n \<longleftrightarrow> bit (onoff (socket_status s)) n \<or> n = y"
  by (auto simp: SETBIT_def bit_or_iff bit_exp_iff dest: bit_imp_le_length)

lemma bit_CLRBIT: "bit (onoff (socket_status (CLRBIT y s))) n \<longleftrightarrow> bit (onoff (socket_status s)) n \<and> n \<noteq> y"
  by (auto simp: CLRBIT_def bit_and_iff bit_not_iff bit_exp_iff dest: bit_imp_le_length)

lemma SETBIT_frame:
  "socket_gpio (SETBIT y s) = socket_gpio s" "pins (SETBIT y s) = pins s" "Timer_on (SETBIT y s) = Timer_on s"
  "Timer_off (SETBIT y s) = Timer_off s" "repeat_flag (SETBIT y s) = repeat_flag s"
  "week_repeat (socket_status (SETBIT y s)) = week_repeat (socket_status s)"
  "time_on_minute (socket_status (SETBIT y s)) = time_on_minute (socket_status s)"
  "time_off_minute (socket_status (SETBIT y s)) = time_off_minute (socket_status s)"
  "countdown_minute (socket_status (SETBIT y s)) = countdown_minute (socket_status s)"
  "power_consumption (socket_status (SETBIT y s)) = power_consumption (socket_status s)"
  by (simp_all add: SETBIT_def)

lemma CLRBIT_frame:
  "socket_gpio (CLRBIT y s) = socket_gpio s" "pins (CLRBIT y s) = pins s" "Timer_on (CLRBIT y s) = Timer_on s"
  "Timer_off (CLRBIT y s) = Timer_off s" "repeat_flag (CLRBIT y s) = repeat_flag s"
  "week_repeat (socket_status (CLRBIT y s)) = week_repeat (socket_status s)"
  "time_on_minute (socket_status (CLRBIT y s)) = time_on_minute (socket_status s)"
  "time_off_minute (socket_status (CLRBIT y s)) = time_off_minute (socket_status s)"
  "countdown_minute (socket_status (CLRBIT y s)) = countdown_minute (socket_status s)"
  "power_consumption (socket_status (CLRBIT y s)) = power_consumption (socket_status s)"
  by (simp_all add: CLRBIT_def)

lemmas bit_frame = bit_SETBIT bit_CLRBIT SETBIT_frame CLRBIT_frame

lemma onoff_pins: "onoff (socket_status (BSP_GPIOSetValue g v s)) = onoff (socket_status s)"
  by (simp add: BSP_GPIOSetValue_def)

section \<open>The socket follows its status\<close>

text \<open>
  The output pin is bit 0 of the status, the LED is its inverse once the socket has been switched.
\<close>

definition strip_inv :: "strip_t \<Rightarrow> bool" where
  "strip_inv s \<longleftrightarrow> socket_gpio s = 30 \<and> pins s 30 = (if bit (onoff (socket_status s)) 0 then 1 else 0)
     \<and> (bit (onoff (socket_status s)) 0 \<longrightarrow> pins s 3 = 0) \<and> repeat_flag s \<in> {0, 1}"

definition same_output :: "strip_t \<Rightarrow> strip_t \<Rightarrow> bool" where
  "same_output s s' \<longleftrightarrow> socket_gpio s' = socket_gpio s \<and> pins s' = pins s
     \<and> (bit (onoff (socket_status s')) 0 \<longleftrightarrow> bit (onoff (socket_status s)) 0) \<and> (repeat_flag s \<in> {0, 1} \<longrightarrow> repeat_flag s' \<in> {0, 1})"

lemma strip_inv_same: "same_output s s' \<Longrightarrow> strip_inv s \<Longrightarrow> strip_inv s'"
  by (auto simp: same_output_def strip_inv_def)

lemma strip_inv_switch: "strip_inv s \<Longrightarrow> strip_inv (switch_on s)" "strip_inv s \<Longrightarrow> strip_inv (switch_off s)"
  by (simp_all add: strip_inv_def switch_on_def switch_off_def bit_frame onoff_pins)
    (simp_all add: BSP_GPIOSetValue_def)

lemma strip_inv_blocks:
  assumes "strip_inv s"
  shows "strip_inv (set_switch c s)" "strip_inv (set_time_onoff ticks c s)" "strip_inv (set_countdown_onoff c s)"
    "strip_inv (set_week_repeat w s)" "strip_inv (set_time_on ticks m s)" "strip_inv (set_time_off ticks m s)"
    "strip_inv (s\<lparr>socket_status := (socket_status s)\<lparr>countdown_minute := m\<rparr>\<rparr>)"
    "strip_inv (s\<lparr>status_flag := v\<rparr>)"
  using assms
  by (simp add: set_switch_def strip_inv_switch)
    (rule strip_inv_same[OF _ assms], auto simp: same_output_def set_time_onoff_def set_countdown_onoff_def set_week_repeat_def
      set_time_on_def set_time_off_def bit_frame Let_def)+

lemma decodeInt16_eq: "i + 1 < length b \<Longrightarrow> decodeInt16 b i = Some (mk16 (b ! i) (b ! (i + 1)))"
  by (simp add: decodeInt16_def rd_def)

lemma strip_inv_parse:
  assumes "strip_inv s" and "8 \<le> length ctrl"
  shows "some_inv strip_inv (strip_data_parse ticks attr ctrl s)"
proof -
  have "0 < length ctrl" using assms(2) by linarith
  then show ?thesis using assms
    by (simp add: strip_data_parse_def rd_def decodeInt16_eq some_inv_def strip_inv_blocks Let_def del: length_greater_0_conv)
qed

lemma strip_inv_timers: "strip_inv s \<Longrightarrow> strip_inv (timer_on_task ticks s)" "strip_inv s \<Longrightarrow> strip_inv (timer_off_task ticks s)"
proof -
  assume s: "strip_inv s"
  have t: "strip_inv (s\<lparr>Timer_on := x\<rparr>)" "strip_inv (s\<lparr>Timer_off := x\<rparr>)" if "strip_inv s" for s x
    using that by (simp_all add: strip_inv_def)
  show "strip_inv (timer_on_task ticks s)" "strip_inv (timer_off_task ticks s)"
    using s by (simp_all add: timer_on_task_def timer_off_task_def Let_def strip_inv_switch t)
qed

section \<open>Histories of the device\<close>

datatype strip_event = Command u32 u8 u8 bytes | OnExpired u32 | OffExpired u32

fun strip_step :: "strip_event \<Rightarrow> strip_t option \<Rightarrow> strip_t option" where
  "strip_step ev None = None"
| "strip_step (Command t action attr ctrl) (Some s) = device_control t action attr ctrl s"
| "strip_step (OnExpired t) (Some s) = Some (timer_on_task t s)"
| "strip_step (OffExpired t) (Some s) = Some (timer_off_task t s)"

text \<open>The receive buffer always has the eight bytes a command may refer to.\<close>

fun strip_event_ok :: "strip_event \<Rightarrow> bool" where
  "strip_event_ok (Command t action attr ctrl) \<longleftrightarrow> 8 \<le> length ctrl"
| "strip_event_ok _ \<longleftrightarrow> True"

lemma strip_step_inv:
  assumes "strip_event_ok ev" and "some_inv strip_inv so"
  shows "some_inv strip_inv (strip_step ev so)"
proof -
  obtain s where s: "so = Some s" "strip_inv s" using assms(2) by (auto simp: some_inv_def)
  show ?thesis
  proof (cases ev)
    case (Command t action attr ctrl)
    then show ?thesis using strip_inv_parse[OF s(2), of ctrl t attr] assms(1) s strip_inv_blocks(8)
      by (auto simp: device_control_def strip_start_def some_inv_def)
  qed (use s strip_inv_timers in \<open>simp_all add: some_inv_def\<close>)
qed

interpretation strip: invariant_machine strip_step strip_event_ok "some_inv strip_inv"
  by unfold_locales (rule strip_step_inv)

lemma strip_inv_init: "repeat_flag s \<in> {0, 1} \<Longrightarrow> strip_inv (device_init created s)"
  by (auto simp: device_init_def strip_init_def timer_task_init_def BSP_GPIOSetValue_def strip_inv_def)

section \<open>Properties\<close>

text \<open>C25 The status the device reports is the state of the socket: after initialisation and any history of
  control commands and timer expirations the output pin is exactly bit 0 of the status byte, the LED
  is lit (low) whenever the socket is on, and nothing is undefined.\<close>

theorem strip_status_is_output:
  assumes "list_all strip_event_ok es" and "repeat_flag s \<in> {0, 1}"
  shows "\<exists>s'. fold strip_step es (Some (device_init created s)) = Some s' \<and>
    pins s' 30 = (if bit (onoff (get_socket_status 30 s' st)) 0 then 1 else 0) \<and>
    (bit (onoff (get_socket_status 30 s' st)) 0 \<longrightarrow> pins s' 3 = 0)"
proof -
  have "some_inv strip_inv (Some (device_init created s))"
    using strip_inv_init[OF assms(2)] by (simp add: some_inv_def)
  from strip.run_inv[OF assms(1) this] show ?thesis
    by (auto simp: some_inv_def strip_inv_def get_socket_status_def)
qed

definition strip0 :: strip_t where
  "strip0 = \<lparr>status_flag = 0, socket_gpio = 0, socket_name = [], socket_status =
     \<lparr>onoff = 0, week_repeat = 0, time_on_minute = 0, time_off_minute = 0, countdown_minute = 0, power_consumption = 0\<rparr>,
     Timer_on = None, Timer_off = None, Timer_countDown = None, repeat_flag = 0, pins = (\<lambda>_. 0)\<rparr>"

theorem strip_status_is_output_witness:
  "\<exists>s'. fold strip_step [Command 100 1 0x13 [3, 0, 0, 90, 0, 0, 0, 0], OnExpired 6000] (Some (device_init True strip0)) = Some s' \<and>
    pins s' 30 = (if bit (onoff (get_socket_status 30 s' (socket_status strip0))) 0 then 1 else 0) \<and>
    (bit (onoff (get_socket_status 30 s' (socket_status strip0))) 0 \<longrightarrow> pins s' 3 = 0)"
  by (rule strip_status_is_output) (simp_all add: strip0_def)

text \<open>What a command does to the status: each attribute flag updates exactly its own field from the
  control data (the minutes in network order), a cleared flag leaves its field alone, and the other
  bits of the status byte and the power reading never change.\<close>

theorem strip_data_parse_effect:
  assumes "8 \<le> length c"
  shows "\<exists>s'. strip_data_parse ticks attr c s = Some s' \<and>
    (\<forall>n. bit (onoff (socket_status s')) n \<longleftrightarrow> (if n < 3 \<and> bit attr n then bit (c ! 0) n else bit (onoff (socket_status s)) n)) \<and>
    week_repeat (socket_status s') = (if bit attr 3 then c ! 1 else week_repeat (socket_status s)) \<and>
    time_on_minute (socket_status s') = (if bit attr 4 then mk16 (c ! 2) (c ! 3) else time_on_minute (socket_status s)) \<and>
    time_off_minute (socket_status s') = (if bit attr 5 then mk16 (c ! 4) (c ! 5) else time_off_minute (socket_status s)) \<and>
    countdown_minute (socket_status s') = (if bit attr 6 then mk16 (c ! 6) (c ! 7) else countdown_minute (socket_status s)) \<and>
    power_consumption (socket_status s') = power_consumption (socket_status s)"
proof -
  define s1 where "s1 = (if bit attr 0 then set_switch (c ! 0) s else s)"
  define s2 where "s2 = (if bit attr 1 then set_time_onoff ticks (c ! 0) s1 else s1)"
  define s3 where "s3 = (if bit attr 2 then set_countdown_onoff (c ! 0) s2 else s2)"
  define s4 where "s4 = (if bit attr 3 then set_week_repeat (c ! 1) s3 else s3)"
  define s5 where "s5 = (if bit attr 4 then set_time_on ticks (mk16 (c ! 2) (c ! 3)) s4 else s4)"
  define s6 where "s6 = (if bit attr 5 then set_time_off ticks (mk16 (c ! 4) (c ! 5)) s5 else s5)"
  define s7 where "s7 = (if bit attr 6 then s6\<lparr>socket_status := (socket_status s6)\<lparr>countdown_minute := mk16 (c ! 6) (c ! 7)\<rparr>\<rparr> else s6)"
  note blocks = set_switch_def switch_on_def switch_off_def onoff_pins set_time_onoff_def set_countdown_onoff_def set_week_repeat_def
    set_time_on_def set_time_off_def bit_frame flags Let_def BSP_GPIOSetValue_def
  have "0 < length c" using assms by linarith
  then have "strip_data_parse ticks attr c s = Some s7"
    using assms
    by (simp add: strip_data_parse_def flags decodeInt16_eq s7_def s6_def s5_def s4_def s3_def s2_def s1_def Let_def
        del: length_greater_0_conv)
  moreover have b1: "bit (onoff (socket_status s1)) n \<longleftrightarrow> (if n = 0 \<and> bit attr 0 then bit (c ! 0) 0 else bit (onoff (socket_status s)) n)" for n
    by (auto simp: s1_def blocks)
  moreover have b2: "bit (onoff (socket_status s2)) n \<longleftrightarrow> (if n = 1 \<and> bit attr 1 then bit (c ! 0) 1 else bit (onoff (socket_status s1)) n)" for n
    by (auto simp: s2_def blocks)
  moreover have b3: "bit (onoff (socket_status s3)) n \<longleftrightarrow> (if n = 2 \<and> bit attr 2 then bit (c ! 0) 2 else bit (onoff (socket_status s2)) n)" for n
    by (auto simp: s3_def blocks)
  moreover have "onoff (socket_status s7) = onoff (socket_status s3)"
    by (simp add: s7_def s6_def s5_def s4_def blocks)
  moreover have "n < 3 \<longleftrightarrow> n = 0 \<or> n = 1 \<or> n = 2" for n :: nat by auto
  moreover have r: "week_repeat (socket_status s3) = week_repeat (socket_status s)"
    "time_on_minute (socket_status s3) = time_on_minute (socket_status s)"
    "time_off_minute (socket_status s3) = time_off_minute (socket_status s)"
    "countdown_minute (socket_status s3) = countdown_minute (socket_status s)"
    "power_consumption (socket_status s3) = power_consumption (socket_status s)"
    by (simp_all add: s3_def s2_def s1_def blocks)
  moreover have "week_repeat (socket_status s7) = (if bit attr 3 then c ! 1 else week_repeat (socket_status s3))"
    "time_on_minute (socket_status s7) = (if bit attr 4 then mk16 (c ! 2) (c ! 3) else time_on_minute (socket_status s3))"
    "time_off_minute (socket_status s7) = (if bit attr 5 then mk16 (c ! 4) (c ! 5) else time_off_minute (socket_status s3))"
    "countdown_minute (socket_status s7) = (if bit attr 6 then mk16 (c ! 6) (c ! 7) else countdown_minute (socket_status s3))"
    "power_consumption (socket_status s7) = power_consumption (socket_status s3)"
    by (simp_all add: s7_def s6_def s5_def s4_def blocks)
  ultimately show ?thesis by (intro exI[of _ s7] conjI allI) auto
qed

theorem strip_data_parse_effect_witness:
  "\<exists>s'. strip_data_parse 0 0x19 [1, 5, 0, 90, 0, 0, 0, 0] strip0 = Some s' \<and>
    (\<forall>n. bit (onoff (socket_status s')) n \<longleftrightarrow>
      (if n < 3 \<and> bit (0x19 :: u8) n then bit (([1, 5, 0, 90, 0, 0, 0, 0] :: bytes) ! 0) n else bit (onoff (socket_status strip0)) n)) \<and>
    week_repeat (socket_status s') = (if bit (0x19 :: u8) 3 then [1, 5, 0, 90, 0, 0, 0, 0] ! 1 else week_repeat (socket_status strip0)) \<and>
    time_on_minute (socket_status s') =
      (if bit (0x19 :: u8) 4 then mk16 ([1, 5, 0, 90, 0, 0, 0, 0] ! 2) ([1, 5, 0, 90, 0, 0, 0, 0] ! 3) else time_on_minute (socket_status strip0)) \<and>
    time_off_minute (socket_status s') =
      (if bit (0x19 :: u8) 5 then mk16 ([1, 5, 0, 90, 0, 0, 0, 0] ! 4) ([1, 5, 0, 90, 0, 0, 0, 0] ! 5) else time_off_minute (socket_status strip0)) \<and>
    countdown_minute (socket_status s') =
      (if bit (0x19 :: u8) 6 then mk16 ([1, 5, 0, 90, 0, 0, 0, 0] ! 6) ([1, 5, 0, 90, 0, 0, 0, 0] ! 7) else countdown_minute (socket_status strip0)) \<and>
    power_consumption (socket_status s') = power_consumption (socket_status strip0)"
  by (rule strip_data_parse_effect) simp

text \<open>A minute set while the timers are switched off arms the timer all the same, and when it expires the
  socket is switched.\<close>

theorem disabled_timer_armed:
  "\<exists>s. strip_data_parse 0 0x12 [0, 0, 0, 90, 0, 0, 0, 0] (device_init True strip0) = Some s \<and>
     \<not> bit (onoff (socket_status s)) 1 \<and> map_option OSTmrRunning (Timer_on s) = Some True \<and>
     pins (timer_on_task 6000 s) 30 = 1"
  by (simp add: strip_data_parse_def rd_def decodeInt16_def device_init_def strip_init_def timer_task_init_def strip0_def
      NST_InitTimer_def BSP_GPIOSetValue_def set_time_onoff_def set_time_on_def CLRBIT_def NST_CancelTimer_def NST_SetTimer_def
      timer_on_task_def switch_on_def SETBIT_def repeat_today_def Let_def)

text \<open>\<open>strip_stop\<close> drives the pin low and leaves the status byte as it was.\<close>

theorem strip_stop_status: "socket_status (strip_stop s) = socket_status s \<and> pins (strip_stop s) (socket_gpio s) = 0"
  by (simp add: strip_stop_def BSP_GPIOSetValue_def)

end
