(* ===== verification/McuGateway.thy ===== *)
theory McuGateway
  imports MqttLib StripDevice
begin

text \<open>
  The gateway between the device and its users (App/GizWitsWifi/lan/mcu_v4.c, mcu_common.c, the
  checksum and byte order helpers of lib/utilcoding.c, and \<open>Socket_SendData2Client\<close> of lan/Socket.c):
  executing a command, framing what goes to the phones on the LAN and to the cloud, the status
  report. The state \<open>gw\<close> holds the globals these functions read and write; what a function sends is
  the list of its effects, in order. \<open>send\<close>'s result, the heap and the tick counter come from the
  environment.
\<close>

section \<open>State\<close>

record GAgent_CONFIG_S =
  magicNumber :: u32
  cfg_flag :: u32
  wifipasscode :: bytes
  wifi_ssid :: bytes
  wifi_key :: bytes
  FirmwareId :: bytes
  Cloud_DId :: bytes
  FirmwareVerLen :: bytes
  FirmwareVer :: bytes

record SOCKET_CLIENT_S =
  SocketFD :: int
  TCPClientAddr :: "u32 \<times> u16"
  TimeOut :: int

record gw =
  g_SocketLogin :: "int list"
  g_stTCPSocketClients :: "SOCKET_CLIENT_S list"
  g_passcodeEnable :: int
  g_stGAgentConfigData :: GAgent_CONFIG_S
  DID :: bytes
  DIdLen :: nat
  product_key :: bytes
  g_productKeyLen :: nat
  hard_ver :: bytes
  soft_ver :: bytes
  p0_ver :: bytes
  protocol_ver :: bytes
  Service_mac :: bytes
  g_busiProtocolVer :: bytes
  g_busiProtocolVerLen :: u16
  g_Wifihotspots :: bytes
  g_WifihotspotsLen :: u16
  sys_onboarding :: u8
  sys_wifi_status :: u8
  device :: strip_t
  g_MQTTStatus :: int
  g_stMQTTBroker :: mqtt_broker_handle_t
  mcuStatus_sum :: u8
  g_UDPServerFd :: int
  g_UDPBroadcastServerFd :: int
  g_stUDPBroadcastAddr :: "u32 \<times> u16"
  g_stSocketRecBuffer :: bytes
  g_TCPSocketMaxClientFd :: int
  upgradeFlag :: u32
  fileSize :: u32
  recvFileSize :: u32
  WritePtr :: u32
  upgradeSector :: u32
  OtaDataBuf :: bytes
  upgrade_socket_info :: "int \<times> u32 \<times> u16"

datatype effect =
  Send int bytes
| SendTo int "u32 \<times> u16" bytes
| CloseFd int
| StationStart bytes bytes
| SoftApStart
| DirectCfgStart
| WiFiStart
| SaveConfig GAgent_CONFIG_S
| ResetSystem
| ConnectTo int u32 u16
| BindTo int u16

text \<open>
  \<open>e_mem i\<close>: the \<open>i\<close>th \<open>mem_malloc\<close> of a call succeeds. \<open>e_send\<close> is the result of \<open>send\<close>.
  \<open>e_addr5\<close>, \<open>e_addr6\<close>: the bytes at the memory addresses 5 and 6.
\<close>

record env =
  e_mem :: "nat \<Rightarrow> bool"
  e_send :: "int \<Rightarrow> bytes \<Rightarrow> int"
  e_ticks :: u32
  e_addr5 :: u8
  e_addr6 :: u8

text \<open>
  The size that \<open>mem_malloc\<close> makes of the requested one, in 16 bits (LwIP/src/core/mem.c): nothing for 0 and above
  8192 bytes, otherwise rounded up to a multiple of 4 and at least 12. \<open>room\<close>: the heap has a block for it. A negative
  request becomes a 16 bit number; -3 to -1 get a block of 12 bytes.
\<close>

definition mem_malloc :: "bool \<Rightarrow> int \<Rightarrow> nat option" where
  "mem_malloc room n =
     (let sz = (word_of_int n :: u16)
      in if sz = 0 then None
         else let sz = (sz + 3) AND NOT 3; sz = (if sz < 12 then 12 else sz)
           in if 8192 < sz \<or> \<not> room then None else Some (unat sz))"

definition later_mem :: "nat \<Rightarrow> env \<Rightarrow> env" where
  "later_mem k e = e\<lparr>e_mem := (\<lambda>i. e_mem e (i + k))\<rparr>"

abbreviation (input) "MQTT_STATUS_LOGIN \<equiv> (2 :: int)"
abbreviation (input) "MQTT_STATUS_LOGINTOPIC1 \<equiv> (16 :: int)"
abbreviation (input) "MQTT_STATUS_LOGINTOPIC2 \<equiv> (32 :: int)"
abbreviation (input) "MQTT_STATUS_LOGINTOPIC3 \<equiv> (64 :: int)"
abbreviation (input) "MQTT_STATUS_RUNNING \<equiv> (128 :: int)"

section \<open>Framing\<close>

fun checksum_from :: "bytes \<Rightarrow> nat \<Rightarrow> nat \<Rightarrow> u8 \<Rightarrow> u8 option" where
  "checksum_from buf i 0 checkSum = Some checkSum"
| "checksum_from buf i (Suc n) checkSum = do { b \<leftarrow> rd buf i; checksum_from buf (i + 1) n (checkSum + b) }"

definition GAgent_SetCheckSum :: "bytes \<Rightarrow> nat \<Rightarrow> u8 option" where
  "GAgent_SetCheckSum buf packLen = checksum_from buf 2 (packLen - 2) 0"

definition Add_W2PHead :: "u16 \<Rightarrow> u8 \<Rightarrow> bytes" where
  "Add_W2PHead ULen Cmd = [0x00, 0x00, 0x00, 0x03] @ Tran2varc ULen @ [0x00, 0x00, Cmd]"

definition get_uart_Pload :: "bytes \<Rightarrow> nat \<Rightarrow> u8 \<Rightarrow> bytes option" where
  "get_uart_Pload Re_buf Plen Cmd = rd_seg Re_buf (if Cmd = 0x91 then 8 else 0) Plen"

text \<open>To every client, for command 0x91 once per entry of the login table that is this client's.\<close>

definition Socket_SendData2Client :: "bytes \<Rightarrow> u8 \<Rightarrow> gw \<Rightarrow> effect list" where
  "Socket_SendData2Client pdata Cmd g =
     concat (map (\<lambda>c. if 0 < SocketFD c
       then (if Cmd = 0x91 then map (\<lambda>_. Send (SocketFD c) pdata) (filter (\<lambda>l. SocketFD c = l) (g_SocketLogin g))
             else [Send (SocketFD c) pdata])
       else []) (g_stTCPSocketClients g))"

text \<open>
  A block got for a negative payload length is overrun by the \<open>memset\<close> that clears it.
\<close>

definition Dev_SendPacket2Phone :: "env \<Rightarrow> bytes \<Rightarrow> nat \<Rightarrow> u8 \<Rightarrow> int \<Rightarrow> gw \<Rightarrow> effect list option" where
  "Dev_SendPacket2Phone e uartbuf uartbufLen Cmd fd g = do {
     PLen \<leftarrow> (if Cmd = 0x91 then do { h \<leftarrow> rd uartbuf 2; l \<leftarrow> rd uartbuf 3; Some (int (unat h) * 256 + int (unat l) - 5) }
              else if Cmd = 0x12 then Some (int uartbufLen) else Some 0);
     let ULen = (word_of_int (PLen + 3) :: u16);
     case mem_malloc (e_mem e 0) PLen of
       None \<Rightarrow> Some []
     | Some blk \<Rightarrow>
         if PLen < 0 \<or> int blk < PLen then None
         else do {
           Pload \<leftarrow> get_uart_Pload uartbuf (nat PLen) Cmd;
           let SendPack = Add_W2PHead ULen Cmd @ Pload;
           case mem_malloc (e_mem e 1) (int (length SendPack)) of
             None \<Rightarrow> Some []
           | Some blk \<Rightarrow>
               if blk < length SendPack then None
               else Some (if 0 < fd then (if fd \<in> set (g_SocketLogin g) then [Send fd SendPack] else [])
                          else Socket_SendData2Client SendPack Cmd g)
         }
   }"

section \<open>To the cloud\<close>

definition PubMsg :: "env \<Rightarrow> bytes \<Rightarrow> bytes \<Rightarrow> nat \<Rightarrow> int \<Rightarrow> gw \<Rightarrow> (int \<times> gw \<times> effect list) option" where
  "PubMsg e topic Payload PayLen flag g =
     (if flag = 0 \<or> flag = 1 then do {
        (r, b, id, packets) \<leftarrow> (if flag = 0
          then XPGmqtt_publish (e_mem e) (e_send e) (g_stMQTTBroker g) topic Payload PayLen 0
          else XPGmqtt_publish_with_qos (e_mem e) (e_send e) (g_stMQTTBroker g) topic Payload PayLen 0 1 True);
        Some (r, g\<lparr>g_stMQTTBroker := b\<rparr>, map (Send (mb_socketid (g_stMQTTBroker g))) packets)
      } else Some (1, g, []))"

definition dev2app :: bytes where
  "dev2app = ascii ''dev2app/''"

text \<open>The packet to the cloud: protocol version, length, flag, command 0x91, P0.\<close>

definition cloud_packet :: "bytes \<Rightarrow> bytes" where
  "cloud_packet p0 = [0x00, 0x00, 0x00, 0x03] @ Tran2varc (of_nat (3 + length p0)) @ [0x00, 0x00, 0x91] @ p0"

definition MCU_SendPublishPacket :: "env \<Rightarrow> bytes \<Rightarrow> nat \<Rightarrow> gw \<Rightarrow> (int \<times> gw \<times> effect list) option" where
  "MCU_SendPublishPacket e uartbuf uartbufLen g = do {
     if g_MQTTStatus g \<noteq> MQTT_STATUS_RUNNING then Some (1, g, [])
     else do {
       u0 \<leftarrow> rd uartbuf 0;
       u1 \<leftarrow> (if u0 = 0xff then rd uartbuf 1 else Some 0);
       if \<not> (u0 = 0xff \<and> u1 = 0xff) then Some (1, g, [])
       else do {
         did \<leftarrow> cstr (DID g);
         t1 \<leftarrow> wr_seg (zeros 200) 0 dev2app;
         t2 \<leftarrow> wr_seg t1 8 did;
         topic \<leftarrow> wr t2 (8 + length did) 0;
         if uartbufLen < 8 then None
         else if \<not> e_mem e 0 then Some (1, g, [])
         else do {
           p0 \<leftarrow> rd_seg uartbuf 8 (uartbufLen - 8);
           (r, g', eff) \<leftarrow> PubMsg (later_mem 1 e) topic (cloud_packet p0) (length (cloud_packet p0)) 0 g;
           Some (0, g', eff)
         }
       }
     }
   }"

definition MCU_SendPacket2Cloud :: "env \<Rightarrow> bytes \<Rightarrow> nat \<Rightarrow> gw \<Rightarrow> (gw \<times> effect list) option" where
  "MCU_SendPacket2Cloud e uartbuf uartbufLen g = do {
     h \<leftarrow> rd uartbuf 8;
     l \<leftarrow> rd uartbuf 9;
     let ClientIdLen = unat h * 256 + unat l;
     if mem_malloc (e_mem e 0) (int ClientIdLen) = None then Some (g, [])
     else do {
       ClientId \<leftarrow> rd_seg uartbuf 10 ClientIdLen;
       did \<leftarrow> cstr (DID g);
       t1 \<leftarrow> wr_seg (zeros 200) 0 dev2app;
       t2 \<leftarrow> wr_seg t1 8 did;
       t3 \<leftarrow> wr t2 (8 + length did) 0x2f;
       topic \<leftarrow> wr_seg t3 (8 + length did + 1) ClientId;
       if uartbufLen < 10 + ClientIdLen then None
       else if \<not> e_mem e 1 then Some (g, [])
       else do {
         p0 \<leftarrow> rd_seg uartbuf (10 + ClientIdLen) (uartbufLen - 10 - ClientIdLen);
         map_option snd (PubMsg (later_mem 2 e) topic (cloud_packet p0) (length (cloud_packet p0)) 0 g)
       }
     }
   }"

section \<open>Commands and reports\<close>

text \<open>
  The acknowledgement frame, cleared, filled, and sent to the logged-in phones. Its length field is
  read from the addresses 5 and 6 of the memory: \<open>decodeInt16((const char *)5, ...)\<close>.
\<close>

definition SendCtlAckCmd :: "env \<Rightarrow> u8 \<Rightarrow> u8 \<Rightarrow> gw \<Rightarrow> effect list option" where
  "SendCtlAckCmd e cmd sn g = do {
     let data_len = mk16 (e_addr5 e) (e_addr6 e);
     let frame = [0xFF, 0xFF] @ le16 data_len @ [cmd, sn, 0, 0, 0];
     sum \<leftarrow> GAgent_SetCheckSum frame 9;
     frame \<leftarrow> wr frame 8 sum;
     Dev_SendPacket2Phone e frame 10 0x91 0 g
   }"

text \<open>
  \<open>m_m2w_mcuStatus\<close>, 20 bytes. Every byte is set on each report except the checksum, which still
  holds the previous one when it is summed.
\<close>

definition status_bytes :: "bool \<Rightarrow> socket_status_t \<Rightarrow> bytes" where
  "status_bytes swapped st =
     (let enc = (if swapped then be16 else le16)
      in [onoff st, week_repeat st] @ enc (time_on_minute st) @ enc (time_off_minute st) @ enc (countdown_minute st)
         @ le16 (power_consumption st))"

datatype report_tag = REPORT_STATUS | REQUEST_STATUS

definition ReportStatus :: "report_tag \<Rightarrow> u8 \<Rightarrow> gw \<Rightarrow> (bytes \<times> gw) option" where
  "ReportStatus tag SN g = do {
     let st = socket_status (device g);
     let body = (case tag of
         REPORT_STATUS \<Rightarrow> [0xff, 0xff] @ be16 16 @ [0x05, SN + 1, 0, 0, 0x04] @ status_bytes True st
       | REQUEST_STATUS \<Rightarrow> [0xff, 0xff] @ be16 11 @ [0x04, SN + 1, 0, 0, 0x03] @ status_bytes False st);
     sum \<leftarrow> GAgent_SetCheckSum (body @ [mcuStatus_sum g]) 20;
     Some (body @ [sum], g\<lparr>mcuStatus_sum := sum\<rparr>)
   }"

definition ResponseDevStatus :: "env \<Rightarrow> int \<Rightarrow> gw \<Rightarrow> (gw \<times> effect list) option" where
  "ResponseDevStatus e fd g = do {
     (frame, g) \<leftarrow> ReportStatus REPORT_STATUS 0 g;
     phone \<leftarrow> Dev_SendPacket2Phone e frame 21 0x91 0 g;
     (r, g, cloud) \<leftarrow> MCU_SendPublishPacket (later_mem 2 e) frame 20 g;
     Some (g, phone @ cloud)
   }"

definition GAgentV4_CtlDev_with_p0 :: "env \<Rightarrow> bytes \<Rightarrow> u16 \<Rightarrow> gw \<Rightarrow> (int \<times> gw) option" where
  "GAgentV4_CtlDev_with_p0 e data data_len g =
     (if 4096 < data_len then Some (-1, g)
      else do {
        flags \<leftarrow> rd data 1;
        if flags \<noteq> 0 then do {
          action \<leftarrow> rd data 0;
          dev \<leftarrow> device_control (e_ticks e) action flags (drop 2 data) (device g);
          Some (0, g\<lparr>device := dev\<rparr>)
        } else Some (0, g)
      })"

text \<open>The identity the device reports, as far as it is constant in the code.\<close>

definition GAgent_GetMCUInfo :: "gw \<Rightarrow> gw" where
  "GAgent_GetMCUInfo g = g\<lparr>protocol_ver := ascii ''00000001'' @ [0], p0_ver := ascii ''00000004'' @ [0],
     hard_ver := ascii ''00000001'' @ [0], soft_ver := ascii ''00000001'' @ [0],
     product_key := ascii ''9877965c9cf04dff9a585e5f8d77dedb'' @ [0], g_productKeyLen := 32\<rparr>"

definition MCU_PasscodeTimer :: "gw \<Rightarrow> gw" where
  "MCU_PasscodeTimer g = g\<lparr>g_passcodeEnable := 0\<rparr>"

text \<open>
  \<open>prodKey\<close> is a buffer of the caller. The old version buffer is freed whether or not the new one is got.
\<close>

definition MUC_DoProductKeyPacket :: "env \<Rightarrow> bytes \<Rightarrow> bytes \<Rightarrow> gw \<Rightarrow> (int \<times> bytes \<times> gw) option" where
  "MUC_DoProductKeyPacket e buf prodKey g = do {
     k \<leftarrow> rd buf 9;
     h \<leftarrow> rd buf (9 + unat k + 1);
     l \<leftarrow> rd buf (9 + unat k + 2);
     let len = mk16 h l;
     key \<leftarrow> rd_seg buf 10 (unat k);
     prodKey \<leftarrow> wr_seg prodKey 0 key;
     if mem_malloc (e_mem e 0) (uint len) = None then Some (0, prodKey, g\<lparr>g_busiProtocolVerLen := len, g_busiProtocolVer := []\<rparr>)
     else do {
       ver \<leftarrow> rd_seg buf (9 + unat k + 2 + 1) (unat len);
       Some (int (unat k), prodKey, g\<lparr>g_busiProtocolVerLen := len, g_busiProtocolVer := ver\<rparr>)
     }
   }"

text \<open>
  \<open>make_rand\<close> draws ten letters A to Y with \<open>rand\<close>, whose values are an argument, and writes an
  eleventh byte, the terminator.
\<close>

definition make_rand :: "nat list \<Rightarrow> bytes \<Rightarrow> bytes option" where
  "make_rand draws a = do {
     if length draws \<noteq> 10 then None
     else do {
       a1 \<leftarrow> wr_seg a 0 (map (\<lambda>r. of_nat (65 + r mod 25)) draws);
       wr a1 10 0
     }
   }"

definition WiFiReset :: "nat list \<Rightarrow> gw \<Rightarrow> (gw \<times> effect list) option" where
  "WiFiReset draws g = do {
     let c = g_stGAgentConfigData g;
     pass \<leftarrow> make_rand draws (zeros 16);
     let c = c\<lparr>wifipasscode := pass, wifi_ssid := zeros 32, wifi_key := zeros 32, Cloud_DId := zeros 24,
       cfg_flag := cfg_flag c AND NOT 1\<rparr>;
     Some (g\<lparr>g_stGAgentConfigData := c, DIdLen := 0\<rparr>, [SaveConfig c, ResetSystem])
   }"

definition GAgent_SaveSSIDAndKey :: "bytes \<Rightarrow> bytes \<Rightarrow> gw \<Rightarrow> (gw \<times> effect list) option" where
  "GAgent_SaveSSIDAndKey pSSID pKey g = do {
     s \<leftarrow> rd_seg pSSID 0 32;
     k \<leftarrow> rd_seg pKey 0 32;
     let c = (g_stGAgentConfigData g)\<lparr>wifi_ssid := s, wifi_key := k, cfg_flag := cfg_flag (g_stGAgentConfigData g) OR 1\<rparr>;
     Some (g\<lparr>g_stGAgentConfigData := c\<rparr>, [SaveConfig c])
   }"


section \<open>The frames\<close>

lemma checksum_from_sum:
  "i + n \<le> length buf \<Longrightarrow> checksum_from buf i n s = Some (s + sum_list (take n (drop i buf)))"
proof (induction n arbitrary: i s)
  case 0
  show ?case by simp
next
  case (Suc n)
  have "take (Suc n) (drop i buf) = buf ! i # take n (drop (i + 1) buf)"
    using Suc.prems by (simp add: Cons_nth_drop_Suc [symmetric])
  then show ?case using Suc by (simp add: add.assoc)
qed

lemma checksum_exact:
  "2 \<le> n \<Longrightarrow> n \<le> length buf \<Longrightarrow> GAgent_SetCheckSum buf n = Some (sum_list (take (n - 2) (drop 2 buf)))"
  by (simp add: GAgent_SetCheckSum_def checksum_from_sum)

lemma length_status_bytes: "length (status_bytes swapped st) = 10"
  by (simp add: status_bytes_def)

definition report_body :: "socket_status_t \<Rightarrow> bytes" where
  "report_body st = [0xff, 0xff] @ be16 16 @ [0x05, 1, 0, 0, 0x04] @ status_bytes True st"

lemma report_exact:
  "ReportStatus REPORT_STATUS 0 g =
     (let sum = sum_list (drop 2 (report_body (socket_status (device g)))) + mcuStatus_sum g
      in Some (report_body (socket_status (device g)) @ [sum], g\<lparr>mcuStatus_sum := sum\<rparr>))"
proof -
  let ?b = "report_body (socket_status (device g))"
  have l: "length ?b = 19" by (simp add: report_body_def length_status_bytes)
  have "take 18 (drop 2 (?b @ [mcuStatus_sum g])) = drop 2 ?b @ [mcuStatus_sum g]" using l by simp
  then have "GAgent_SetCheckSum (?b @ [mcuStatus_sum g]) 20 = Some (sum_list (drop 2 ?b) + mcuStatus_sum g)"
    using checksum_exact[of 20 "?b @ [mcuStatus_sum g]"] l by simp
  moreover have "ReportStatus REPORT_STATUS 0 g = do {
      sum \<leftarrow> GAgent_SetCheckSum (?b @ [mcuStatus_sum g]) 20; Some (?b @ [sum], g\<lparr>mcuStatus_sum := sum\<rparr>) }"
    by (simp add: ReportStatus_def report_body_def Let_def)
  ultimately show ?thesis by (simp add: Let_def)
qed

text \<open>The packet with the status, as the phones get it.\<close>

definition status_packet :: "socket_status_t \<Rightarrow> bytes" where
  "status_packet st = [0, 0, 0, 3, 14, 0, 0, 0x91, 4] @ status_bytes True st"

lemma unat_size:
  assumes "0 < n" and "n \<le> 8192"
  shows "unat (word_of_int n :: u16) = nat n"
  using assms by (simp add: unat_eq_nat_uint uint_word_of_int_eq take_bit_int_eq_self)

lemma align4:
  assumes "unat (w :: u16) \<le> 8192"
  shows "unat w \<le> unat ((w + 3) AND NOT 3)" "unat ((w + 3) AND NOT 3) \<le> 8192"
proof -
  have u: "unat (w + 3) = unat w + 3" using assms by (simp add: unat_word_ariths)
  have "unat ((w + 3) AND NOT 3) = unat (w + 3) - unat (w + 3) mod 4"
  proof -
    have "(w + 3) AND NOT (mask 2) = push_bit 2 (drop_bit 2 (w + 3))"  by (rule bit_word_eqI) (auto simp: bit_simps not_less dest!: le_Suc_ex)
    then have "unat ((w + 3) AND NOT 3) = unat (push_bit 2 (drop_bit 2 (w + 3)))" by (simp add: mask_eq_exp_minus_1)
    also have "\<dots> = 4 * (unat (w + 3) div 4)"
    proof -
      have v: "unat (drop_bit 2 (w + 3)) = unat (w + 3) div 4" unfolding unat_drop_bit_eq by (simp add: drop_bit_eq_div)
      then have "unat (drop_bit 2 (w + 3)) \<le> 2049" using u assms by simp
      then have "unat (drop_bit 2 (w + 3) * 4) = unat (drop_bit 2 (w + 3)) * 4" by (simp add: unat_word_ariths)
      then show ?thesis using v by (simp add: push_bit_eq_mult)
    qed
    finally show ?thesis by (simp add: minus_mod_eq_mult_div)
  qed
  then show "unat w \<le> unat ((w + 3) AND NOT 3)" "unat ((w + 3) AND NOT 3) \<le> 8192" unfolding u using assms by presburger+
qed

lemma mem_malloc_fits:
  assumes "room" and "0 < n" and "n \<le> 8192"
  shows "\<exists>k. mem_malloc room n = Some k \<and> n \<le> int k"
proof -
  define w where "w = (word_of_int n :: u16)"
  define a where "a = (w + 3) AND NOT 3"
  have w: "unat w = nat n" "unat w \<noteq> 0" using unat_size[OF assms(2,3)] assms(2) by (simp_all add: w_def)
  have a: "unat w \<le> unat a" "unat a \<le> 8192" using align4[of w] w(1) assms(3) by (simp_all add: a_def)
  have z: "w \<noteq> 0" using w(2) by auto
  have l: "\<not> 8192 < a" using a(2) by (simp add: word_less_nat_alt)
  have "mem_malloc room n = Some (unat (if a < 12 then 12 else a))"
    unfolding mem_malloc_def w_def[symmetric] Let_def a_def[symmetric] using assms(1) z l by simp
  moreover have "n \<le> int (unat a)" using a(1) w(1) by (metis nat_le_iff)
  moreover have "unat a \<le> unat (if a < 12 then 12 else a)" by (simp add: word_less_nat_alt)
  ultimately show ?thesis by (intro exI[of _ "unat (if a < 12 then 12 else a)"] conjI) linarith+
qed

lemma report_to_phones:
  assumes "e_mem e 0" and "e_mem e 1"
  shows "Dev_SendPacket2Phone e (report_body st @ [x]) k 0x91 0 g = Some (Socket_SendData2Client (status_packet st) 0x91 g)"
proof -
  have b: "be16 16 = [0, 16]" by (simp add: be16_def hi8_def lo8_def)
  have t: "Tran2varc 14 = [14]" by (simp add: Tran2varc_def)
  have "rd_seg (report_body st @ [x]) 8 11 = Some (4 # status_bytes True st)"
    by (simp add: rd_seg_def report_body_def b length_status_bytes)
  moreover obtain k1 where "mem_malloc (e_mem e 0) 11 = Some k1" "11 \<le> int k1" using mem_malloc_fits[OF assms(1), of 11] by auto
  moreover obtain k2 where "mem_malloc (e_mem e 1) 19 = Some k2" "19 \<le> int k2" using mem_malloc_fits[OF assms(2), of 19] by auto
  ultimately show ?thesis
    by (simp add: Dev_SendPacket2Phone_def report_body_def b rd_def Let_def get_uart_Pload_def Add_W2PHead_def t status_packet_def length_status_bytes)
qed

text \<open>
  The acknowledgement takes its length from the memory at the addresses 5 and 6. It does no harm when the length
  is at most 6 and none of 2, 3 and 4, whose block would be overrun.
\<close>

definition ack_ok :: "env \<Rightarrow> bool" where
  "ack_ok e \<longleftrightarrow> e_addr6 e = 0 \<and> e_addr5 e \<in> {0, 1, 5, 6}"

lemma mem_malloc_negative: "mem_malloc room (-5) = None" "mem_malloc room (-4) = None" "mem_malloc room 0 = None"
  by (simp_all add: mem_malloc_def)

lemma mem_malloc_full [simp]: "mem_malloc False n = None"
  by (simp add: mem_malloc_def Let_def)

lemma mem_malloc_some: "0 < n \<Longrightarrow> n \<le> 8192 \<Longrightarrow> mem_malloc room n = Some k \<Longrightarrow> n \<le> int k"
  using mem_malloc_fits[of room n] by (cases room) (auto simp: mem_malloc_def Let_def split: if_splits)

lemma ack_defined:
  assumes "ack_ok e"
  shows "\<exists>eff. SendCtlAckCmd e cmd sn g = Some eff"
proof -
  define v where "v = e_addr5 e"
  have v: "v = 0 \<or> v = 1 \<or> v = 5 \<or> v = 6" using assms by (auto simp: ack_ok_def v_def)
  have l: "le16 (mk16 v 0) = [0, v]" by (simp add: le16_def)
  obtain s where s: "GAgent_SetCheckSum [0xFF, 0xFF, 0, v, cmd, sn, 0, 0, 0] 9 = Some s"
    by (simp add: checksum_exact)
  have "wr [0xFF, 0xFF, 0, v, cmd, sn, 0, 0, 0] 8 s = Some [0xFF, 0xFF, 0, v, cmd, sn, 0, 0, s]"
    by (simp add: wr_def)
  moreover have "\<exists>eff. Dev_SendPacket2Phone e [0xFF, 0xFF, 0, v, cmd, sn, 0, 0, s] 10 0x91 0 g = Some eff"
  proof (cases "v = 6")
    case False
    then show ?thesis using v by (auto simp: Dev_SendPacket2Phone_def rd_def Let_def mem_malloc_negative)
  next
    case True
    have h: "length (Add_W2PHead 4 0x91) = 8" by (simp add: Add_W2PHead_def Tran2varc_def)
    show ?thesis
      using mem_malloc_some[of 1 "e_mem e 0"] mem_malloc_some[of 9 "e_mem e 1"] h
      by (auto simp: Dev_SendPacket2Phone_def rd_def rd_seg_def Let_def get_uart_Pload_def True split: option.splits)
  qed
  ultimately show ?thesis using s assms by (simp add: SendCtlAckCmd_def v_def[symmetric] l Let_def ack_ok_def)
qed

definition report_topic :: "bytes \<Rightarrow> bytes" where
  "report_topic did = dev2app @ did"

lemma topic_built:
  assumes "length did < 192"
  shows "\<exists>t1 t2. wr_seg (zeros 200) 0 dev2app = Some t1 \<and> wr_seg t1 8 did = Some t2 \<and>
    wr t2 (8 + length did) 0 = Some (report_topic did @ 0 # zeros (191 - length did))"
proof -
  have l: "length dev2app = 8" by (simp add: dev2app_def)
  have "wr_seg (zeros 200) 0 dev2app = Some (dev2app @ zeros 192)"
    using wr_seg_end[of dev2app 200 0 "[]"] l by simp
  moreover have "wr_seg (dev2app @ zeros 192) 8 did = Some ((dev2app @ did) @ zeros (192 - length did))"
    using wr_seg_end[of did 192 8 dev2app] l assms by simp
  moreover have "wr ((dev2app @ did) @ zeros (192 - length did)) (8 + length did) 0 = Some ((dev2app @ did) @ 0 # zeros (191 - length did))"
  proof -
    have "zeros (192 - length did) = 0 # zeros (191 - length did)"
      using assms by (simp add: zeros_def flip: replicate_Suc)
    then show ?thesis using l by (simp add: wr_def list_update_append)
  qed
  ultimately show ?thesis by (simp add: report_topic_def)
qed

definition cloud_report :: "mqtt_broker_handle_t \<Rightarrow> bytes \<Rightarrow> bytes \<Rightarrow> bytes" where
  "cloud_report broker did p0 = publish_packet broker (report_topic did) (cloud_packet p0) 0 0"

lemma PubMsg_sends:
  assumes "no_nul t" and "length t < 65536" and "\<And>i. e_mem e i"
  shows "\<exists>q. PubMsg e (t @ 0 # r) (cloud_packet p0) (length (cloud_packet p0)) 0 g =
    Some (q, g, [Send (mb_socketid (g_stMQTTBroker g)) (publish_packet (g_stMQTTBroker g) t (cloud_packet p0) 0 0)])"
proof -
  have "0 \<in> set (cloud_packet p0)" by (simp add: cloud_packet_def)
  then show ?thesis
    using XPGmqtt_publish_packet[of t "cloud_packet p0" "length (cloud_packet p0)" "e_mem e" "e_send e" "g_stMQTTBroker g" r 0 0 False] assms
    by (simp add: PubMsg_def XPGmqtt_publish_def Let_def)
qed

lemma report_to_cloud:
  assumes "\<And>i. e_mem e i" and "g_MQTTStatus g = MQTT_STATUS_RUNNING" and "cstr (DID g) = Some did" and "length did < 192"
  shows "MCU_SendPublishPacket e (report_body st @ [x]) 20 g =
    Some (0, g, [Send (mb_socketid (g_stMQTTBroker g)) (cloud_report (g_stMQTTBroker g) did (4 # status_bytes True st @ [x]))])"
proof -
  have n: "no_nul (report_topic did)"
    using cstr_no_nul[OF assms(3)] by (simp add: report_topic_def no_nul_def dev2app_def ascii_def)
  have l: "length (report_topic did) < 65536" using assms(4) by (simp add: report_topic_def dev2app_def)
  have "rd_seg (report_body st @ [x]) 8 12 = Some (4 # status_bytes True st @ [x])"
    by (simp add: rd_seg_def report_body_def be16_def length_status_bytes)
  moreover have "rd (report_body st @ [x]) 0 = Some 0xff" "rd (report_body st @ [x]) 1 = Some 0xff"
    by (simp_all add: rd_def report_body_def)
  moreover have "e_mem (later_mem 1 e) i" for i using assms(1) by (simp add: later_mem_def)
  moreover obtain t1 t2 where "wr_seg (zeros 200) 0 dev2app = Some t1" "wr_seg t1 8 did = Some t2"
    "wr t2 (8 + length did) 0 = Some (report_topic did @ 0 # zeros (191 - length did))"
    using topic_built[OF assms(4)] by blast
  ultimately show ?thesis
    using assms PubMsg_sends[OF n l, of "later_mem 1 e" "zeros (191 - length did)" "4 # status_bytes True st @ [x]" g] by (auto simp: MCU_SendPublishPacket_def cloud_report_def)
qed

section \<open>An example\<close>

text \<open>A device with the passcode AAAAAAAAAA and no clients.\<close>

definition env0 :: env where
  "env0 = \<lparr>e_mem = (\<lambda>_. False), e_send = (\<lambda>fd b. int (length b)), e_ticks = 0, e_addr5 = 1, e_addr6 = 0\<rparr>"

definition config0 :: GAgent_CONFIG_S where
  "config0 = \<lparr>magicNumber = 0x12345678, cfg_flag = 0, wifipasscode = replicate 10 65 @ zeros 6, wifi_ssid = zeros 32, wifi_key = zeros 32,
     FirmwareId = zeros 8, Cloud_DId = zeros 24, FirmwareVerLen = [0, 4], FirmwareVer = ascii ''V1.0'' @ zeros 28\<rparr>"

definition no_client :: SOCKET_CLIENT_S where
  "no_client = \<lparr>SocketFD = -1, TCPClientAddr = (0, 0), TimeOut = 0\<rparr>"

definition gw0 :: gw where
  "gw0 = \<lparr>g_SocketLogin = replicate 8 0, g_stTCPSocketClients = replicate 8 no_client, g_passcodeEnable = 1,
     g_stGAgentConfigData = config0, DID = zeros 24, DIdLen = 0, product_key = zeros 33, g_productKeyLen = 32, hard_ver = zeros 9,
     soft_ver = zeros 9, p0_ver = zeros 9, protocol_ver = zeros 9, Service_mac = zeros 6, g_busiProtocolVer = [],
     g_busiProtocolVerLen = 0, g_Wifihotspots = zeros 1024, g_WifihotspotsLen = 0, sys_onboarding = 0, sys_wifi_status = 1,
     device = device_init True strip0,
     g_MQTTStatus = 0, g_stMQTTBroker = broker0, mcuStatus_sum = 0, g_UDPServerFd = 1, g_UDPBroadcastServerFd = 2,
     g_stUDPBroadcastAddr = (0xFFFFFFFF, 12414), g_stSocketRecBuffer = zeros 1024, g_TCPSocketMaxClientFd = 0, upgradeFlag = 0,
     fileSize = 0, recvFileSize = 0, WritePtr = 0, upgradeSector = 0, OtaDataBuf = zeros 4096, upgrade_socket_info = (0, 0, 0)\<rparr>"

lemma example_did: "cstr (ascii ''did1'' @ zeros 20) = Some (ascii ''did1'')"
  by (rule cstr_padded) (simp_all add: no_nul_def ascii_def)

section \<open>Properties\<close>

text \<open>What a report sends, and all it changes.\<close>

definition report_effects :: "bytes \<Rightarrow> u8 \<Rightarrow> gw \<Rightarrow> effect list" where
  "report_effects did x g =
     Socket_SendData2Client (status_packet (socket_status (device g))) 0x91 g
       @ [Send (mb_socketid (g_stMQTTBroker g)) (cloud_report (g_stMQTTBroker g) did (4 # status_bytes True (socket_status (device g)) @ [x]))]"

lemma ResponseDevStatus_exact:
  assumes "\<And>i. e_mem e i" and "g_MQTTStatus g = MQTT_STATUS_RUNNING" and "cstr (DID g) = Some did" and "length did < 192"
  defines "x \<equiv> sum_list (drop 2 (report_body (socket_status (device g)))) + mcuStatus_sum g"
  shows "ResponseDevStatus e fd g = Some (g\<lparr>mcuStatus_sum := x\<rparr>, report_effects did x g)"
proof -
  have "Socket_SendData2Client k 0x91 (g\<lparr>mcuStatus_sum := x\<rparr>) = Socket_SendData2Client k 0x91 g" for k
    by (simp add: Socket_SendData2Client_def cong: if_cong)
  then show ?thesis
    using assms(1-4) report_to_phones[of e] report_to_cloud[of "later_mem 2 e" "g\<lparr>mcuStatus_sum := x\<rparr>" did "socket_status (device g)" x]
    by (simp add: ResponseDevStatus_def report_exact Let_def x_def[symmetric] report_effects_def later_mem_def)
qed

lemma count_concat: "count_list (concat xss) x = sum_list (map (\<lambda>xs. count_list xs x) xss)"
  by (induction xss) (simp_all add: count_list_append)

text \<open>The phones that are sent a packet: a client once for each entry it has in the login table.\<close>

lemma Socket_SendData2Client_exact:
  "\<exists>fds. Socket_SendData2Client pdata 0x91 g = map (\<lambda>fd. Send fd pdata) fds \<and>
    (\<forall>fd. count_list fds fd = (if 0 < fd then count_list (map SocketFD (g_stTCPSocketClients g)) fd * count_list (g_SocketLogin g) fd else 0))"
proof -
  let ?f = "\<lambda>k. if 0 < k then filter (\<lambda>l. k = l) (g_SocketLogin g) else []"
  let ?fds = "\<lambda>cs. concat (map (\<lambda>c. ?f (SocketFD c)) cs)"
  have one: "map (\<lambda>_. Send k pdata) (filter (\<lambda>l. k = l) L) = map (\<lambda>fd. Send fd pdata) (filter (\<lambda>l. k = l) L)" for k L by simp
  have "Socket_SendData2Client pdata 0x91 g = map (\<lambda>fd. Send fd pdata) (?fds (g_stTCPSocketClients g))"
    by (simp add: Socket_SendData2Client_def map_concat comp_def if_distrib[of "map _"] one cong: if_cong)
  moreover have "count_list (filter (\<lambda>l. k = l) L) fd = (if k = fd then count_list L fd else 0)" for k fd and L :: "int list"
    by (induction L) auto
  then have f: "count_list (?f k) fd = (if 0 < fd \<and> k = fd then count_list (g_SocketLogin g) fd else 0)" for k fd by simp
  have "count_list (?fds cs) fd = (if 0 < fd then count_list (map SocketFD cs) fd * count_list (g_SocketLogin g) fd else 0)" for cs fd
    by (induction cs) (simp_all add: count_list_append f)
  ultimately show ?thesis by blast
qed

text \<open>C31 What a change of the device makes known, when there is memory and the cloud session runs: every
  phone in the table of clients is sent the status packet once for each entry it has in the login table, and nobody
  else is; the P0 of the packet holds the switch byte, the repeat days and the minutes in network order as the device
  has them. The cloud is sent one PUBLISH, from which the MQTT parsers read the topic \<open>dev2app/\<close> followed by the
  device id and the same P0 with the checksum byte of the frame behind it. The device does not change.\<close>

lemma ResponseDevStatus_effects:
  assumes "\<And>i. e_mem e i" and "g_MQTTStatus g = MQTT_STATUS_RUNNING" and "cstr (DID g) = Some did" and "length did < 192"
  shows "\<exists>g' fds packet x rest. ResponseDevStatus e fd g =
      Some (g', map (\<lambda>k. Send k (status_packet (socket_status (device g)))) fds @ [Send (mb_socketid (g_stMQTTBroker g)) packet]) \<and>
    (\<forall>k. count_list fds k =
      (if 0 < k then count_list (map SocketFD (g_stTCPSocketClients g)) k * count_list (g_SocketLogin g) k else 0)) \<and>
    device g' = device g \<and> g_SocketLogin g' = g_SocketLogin g \<and>
    mqtt_parse_pub_topic_ptr packet = Some (of_nat (8 + length did), Some (dev2app @ did @ rest)) \<and>
    mqtt_parse_pub_msg_ptr packet = Some (20, Some ([0, 0, 0, 3, 15, 0, 0, 0x91, 4] @ status_bytes True (socket_status (device g)) @ [x]))"
proof -
  let ?st = "socket_status (device g)" and ?t = "report_topic did"
  define x where "x = sum_list (drop 2 (report_body ?st)) + mcuStatus_sum g"
  define m where "m = cloud_packet (4 # status_bytes True ?st @ [x])"
  define p where "p = cloud_report (g_stMQTTBroker g) did (4 # status_bytes True ?st @ [x])"
  have m: "m = [0, 0, 0, 3, 15, 0, 0, 0x91, 4] @ status_bytes True ?st @ [x]" and lm: "length m = 20"
    by (simp_all add: m_def cloud_packet_def length_status_bytes Tran2varc_def)
  have r: "rem_total ?t m 0 < 16384" "header_len ?t m 0 < 256"
    using assms(4) lm by (simp_all add: rem_total_def header_len_def rlb_def qos_size_def report_topic_def dev2app_def)
  have "ResponseDevStatus e fd g = Some (g\<lparr>mcuStatus_sum := x\<rparr>, report_effects did x g)"
    unfolding x_def by (rule ResponseDevStatus_exact[OF assms])
  moreover have "\<exists>rest. mqtt_parse_pub_topic_ptr p = Some (of_nat (length ?t), Some (?t @ rest))"
    unfolding p_def cloud_report_def m_def[symmetric] by (subst parse_topic_exact[OF r(1)]) blast
  moreover have "mqtt_parse_pub_msg_ptr p = Some (20, Some m)"
    using publish_packet_msg[OF r, of "g_stMQTTBroker g" 0] lm by (simp add: p_def cloud_report_def m_def)
  moreover obtain fds where "Socket_SendData2Client (status_packet ?st) 0x91 g = map (\<lambda>k. Send k (status_packet ?st)) fds"
    "\<forall>k. count_list fds k = (if 0 < k then count_list (map SocketFD (g_stTCPSocketClients g)) k * count_list (g_SocketLogin g) k else 0)"
    using Socket_SendData2Client_exact by blast
  ultimately show ?thesis unfolding m p_def by (auto simp: report_topic_def dev2app_def report_effects_def intro!: exI[of _ x] exI[of _ fds])
qed

definition gw_two :: gw where
  "gw_two = gw0\<lparr>g_MQTTStatus := MQTT_STATUS_RUNNING, DID := ascii ''did1'' @ zeros 20, g_SocketLogin := [0, 6, 0, 0, 0, 0, 0, 0],
     g_stTCPSocketClients := [no_client\<lparr>SocketFD := 5\<rparr>, no_client\<lparr>SocketFD := 6\<rparr>] @ replicate 6 no_client\<rparr>"

lemma ResponseDevStatus_effects_witness:
  "\<exists>g' fds packet x rest. ResponseDevStatus (env0\<lparr>e_mem := \<lambda>_. True\<rparr>) 5 gw_two =
      Some (g', map (\<lambda>k. Send k (status_packet (socket_status (device gw_two)))) fds @ [Send (mb_socketid (g_stMQTTBroker gw_two)) packet]) \<and>
    (\<forall>k. count_list fds k =
      (if 0 < k then count_list (map SocketFD (g_stTCPSocketClients gw_two)) k * count_list (g_SocketLogin gw_two) k else 0)) \<and>
    device g' = device gw_two \<and> g_SocketLogin g' = g_SocketLogin gw_two \<and>
    mqtt_parse_pub_topic_ptr packet = Some (of_nat (8 + length (ascii ''did1'')), Some (dev2app @ ascii ''did1'' @ rest)) \<and>
    mqtt_parse_pub_msg_ptr packet = Some (20, Some ([0, 0, 0, 3, 15, 0, 0, 0x91, 4] @ status_bytes True (socket_status (device gw_two)) @ [x]))"
  by (rule ResponseDevStatus_effects) (simp_all add: env0_def gw_two_def example_did)

text \<open>The checksum of the status report is summed over the frame including its own field, which still
  holds the checksum of the previous report: the frame carries the sum of its bytes 2 to 18 plus the
  previous checksum, so it is right exactly when that was 0, as for the first report only.\<close>

lemma report_checksum:
  "\<exists>frame g'. ReportStatus REPORT_STATUS 0 g = Some (frame, g') \<and> length frame = 20 \<and>
    frame ! 19 = sum_list (take 17 (drop 2 frame)) + mcuStatus_sum g \<and> mcuStatus_sum g' = frame ! 19 \<and>
    (frame ! 19 = sum_list (take 17 (drop 2 frame)) \<longleftrightarrow> mcuStatus_sum g = 0)"
proof -
  let ?b = "report_body (socket_status (device g))"
  have l: "length ?b = 19" by (simp add: report_body_def length_status_bytes)
  then have "(?b @ [x]) ! 19 = x" "take 17 (drop 2 (?b @ [x])) = drop 2 ?b" "length (?b @ [x]) = 20" for x
    by (simp_all add: nth_append)
  then show ?thesis by (simp add: report_exact Let_def)
qed

end
