(* ===== verification/FlashDrv.thy ===== *)
theory FlashDrv
  imports Prelude
begin

text \<open>
  The serial flash: the QSPI page and sector routines (BSP/flash.c) and the driver of the
  configuration area on top of them (App/GizWitsWifi/system/nl6621_drv.c). The chip is not code of
  the repository: its commands are the record \<open>flash_chip\<close>, an argument of every routine, and the
  locale \<open>nor_flash\<close> states what its data sheet promises.
\<close>

section \<open>The chip\<close>

text \<open>
  A command carries the three address bytes that the driver shifts out. Write enable, the command
  and the polling of the busy bit are one operation.
\<close>

type_synonym flash_addr = "u8 \<times> u8 \<times> u8"

record 'c flash_chip =
  page_program :: "flash_addr \<Rightarrow> bytes \<Rightarrow> 'c \<Rightarrow> 'c"
  sector_erase :: "flash_addr \<Rightarrow> 'c \<Rightarrow> 'c"
  seq_read :: "flash_addr \<Rightarrow> nat \<Rightarrow> 'c \<Rightarrow> bytes"
  chip_erase :: "'c \<Rightarrow> 'c"

definition cmd_addr :: "u32 \<Rightarrow> flash_addr" where
  "cmd_addr FlashAdr = (ucast (drop_bit 16 FlashAdr AND 0xFF), ucast (drop_bit 8 FlashAdr AND 0xFF), ucast (FlashAdr AND 0xFF))"

fun addr24 :: "flash_addr \<Rightarrow> nat" where
  "addr24 (h, m, l) = unat h * 65536 + unat m * 256 + unat l"

section \<open>Page and sector routines\<close>

function QSpiFlashRead_loop :: "'c flash_chip \<Rightarrow> u32 \<Rightarrow> u32 \<Rightarrow> u32 \<Rightarrow> 'c \<Rightarrow> bytes" where
  "QSpiFlashRead_loop ch ReadAddr Len DnldByteCnt c =
     (if DnldByteCnt < Len
      then let RdCnt = (if 65536 < Len - DnldByteCnt then 65536 else Len - DnldByteCnt)
        in seq_read ch (cmd_addr ReadAddr) (unat RdCnt) c @
           QSpiFlashRead_loop ch (ReadAddr + RdCnt) Len (DnldByteCnt + RdCnt) c
      else [])"
  by auto

lemma rdcnt_less:
  fixes DnldByteCnt Len RdCnt :: u32
  assumes "DnldByteCnt < Len" and "RdCnt = (if 65536 < Len - DnldByteCnt then 65536 else Len - DnldByteCnt)"
  shows "unat (DnldByteCnt + RdCnt) = unat DnldByteCnt + unat RdCnt"
    and "unat DnldByteCnt + unat RdCnt \<le> unat Len" and "0 < unat RdCnt" and "unat RdCnt \<le> 65536"
proof -
  have lt: "unat DnldByteCnt < unat Len" using assms(1) by (simp add: word_less_nat_alt)
  have d: "unat (Len - DnldByteCnt) = unat Len - unat DnldByteCnt"
    using lt by (intro unat_sub) (simp add: word_le_nat_alt)
  have r: "unat RdCnt = min 65536 (unat Len - unat DnldByteCnt)"
    using assms(2) d by (auto simp: word_less_nat_alt)
  show "0 < unat RdCnt" and le: "unat DnldByteCnt + unat RdCnt \<le> unat Len" and "unat RdCnt \<le> 65536"
    using r lt by auto
  show "unat (DnldByteCnt + RdCnt) = unat DnldByteCnt + unat RdCnt"
    using le u32_less[of Len] by (simp add: unat_word_ariths)
qed

termination QSpiFlashRead_loop
proof (relation "measure (\<lambda>(ch, a, len, cnt, c). unat len - unat cnt)", goal_cases)
  case 1
  show ?case by simp
next
  case (2 ch a len cnt c r)
  from rdcnt_less[OF 2] 2(1) show ?case by (simp add: word_less_nat_alt)
qed

declare QSpiFlashRead_loop.simps [simp del]

text \<open>The caller's buffer receives the bytes; its size is the caller's concern.\<close>

definition QSpiFlashRead :: "'c flash_chip \<Rightarrow> u32 \<Rightarrow> u32 \<Rightarrow> 'c \<Rightarrow> bytes" where
  "QSpiFlashRead ch ReadStartPos Len c = QSpiFlashRead_loop ch ReadStartPos Len 0 c"

definition QSpiFlashEraseChip :: "'c flash_chip \<Rightarrow> 'c \<Rightarrow> 'c" where
  "QSpiFlashEraseChip ch c = chip_erase ch c"

definition QSpiFlashWriteOnePage :: "'c flash_chip \<Rightarrow> u32 \<Rightarrow> bytes \<Rightarrow> u16 \<Rightarrow> 'c \<Rightarrow> 'c option" where
  "QSpiFlashWriteOnePage ch Adr pBuf DataLen c =
     do { d \<leftarrow> rd_seg pBuf 0 (unat DataLen); Some (page_program ch (cmd_addr Adr) d c) }"

definition QSpiFlashEraseSector :: "'c flash_chip \<Rightarrow> u32 \<Rightarrow> 'c \<Rightarrow> 'c" where
  "QSpiFlashEraseSector ch SectorAddr c = sector_erase ch (cmd_addr SectorAddr) c"

text \<open>\<open>while (j--)\<close> around a page; the value of \<open>j\<close> when the loop is left.\<close>

fun write_page_tries :: "'c flash_chip \<Rightarrow> u32 \<Rightarrow> bytes \<Rightarrow> nat \<Rightarrow> 'c \<Rightarrow> (u32 \<times> 'c) option" where
  "write_page_tries ch WriteAddr pBuf 0 c = Some (- 1, c)"
| "write_page_tries ch WriteAddr pBuf (Suc j) c = do {
     c \<leftarrow> QSpiFlashWriteOnePage ch WriteAddr pBuf 256 c;
     if QSpiFlashRead ch WriteAddr 256 c = take 256 pBuf then Some (of_nat j, c)
     else write_page_tries ch WriteAddr pBuf j c
   }"

fun write_sector_pages :: "'c flash_chip \<Rightarrow> nat \<Rightarrow> u32 \<Rightarrow> bytes \<Rightarrow> 'c \<Rightarrow> (int \<times> 'c) option" where
  "write_sector_pages ch 0 WriteAddr pBuf c = Some (0, c)"
| "write_sector_pages ch (Suc n) WriteAddr pBuf c = do {
     (j, c) \<leftarrow> write_page_tries ch WriteAddr pBuf 10 c;
     if j = 0 then Some (-1, c)
     else write_sector_pages ch n (WriteAddr + 256) (drop 256 pBuf) c
   }"

definition QSpiWriteOneSector :: "'c flash_chip \<Rightarrow> u32 \<Rightarrow> bytes \<Rightarrow> 'c \<Rightarrow> (int \<times> 'c) option" where
  "QSpiWriteOneSector ch SectorAddr pBuf c =
     write_sector_pages ch 16 SectorAddr pBuf (QSpiFlashEraseSector ch SectorAddr c)"

partial_function (option) QSpiWriteAny_loop :: "'c flash_chip \<Rightarrow> u32 \<Rightarrow> bytes \<Rightarrow> u16 \<Rightarrow> u16 \<Rightarrow> 'c \<Rightarrow> (int \<times> 'c) option" where
  "QSpiWriteAny_loop ch WriteAddr pData DataLen pageremain c = do {
     c \<leftarrow> QSpiFlashWriteOnePage ch WriteAddr pData pageremain c;
     if DataLen = pageremain then Some (0, c)
     else let DataLen' = DataLen - pageremain
       in QSpiWriteAny_loop ch (WriteAddr + ucast pageremain) (drop (unat pageremain) pData) DataLen'
            (if 256 < DataLen' then 256 else DataLen') c
   }"

definition QSpiWriteAny :: "'c flash_chip \<Rightarrow> u32 \<Rightarrow> bytes \<Rightarrow> u16 \<Rightarrow> 'c \<Rightarrow> (int \<times> 'c) option" where
  "QSpiWriteAny ch WriteAddr pData DataLen c =
     (let pageremain = (ucast (256 - WriteAddr mod 256) :: u16)
      in QSpiWriteAny_loop ch WriteAddr pData DataLen (if DataLen \<le> pageremain then DataLen else pageremain) c)"

section \<open>The driver\<close>

text \<open>
  One round of \<open>WriteFlash\<close>: the sector is read; if a byte to be written is not erased, the sector
  is erased and written back with the new bytes, otherwise the new bytes alone are programmed.
\<close>

definition WriteFlash_sector :: "'c flash_chip \<Rightarrow> u8 \<Rightarrow> u16 \<Rightarrow> u16 \<Rightarrow> u32 \<Rightarrow> bytes \<Rightarrow> 'c \<Rightarrow> (int \<times> 'c) option" where
  "WriteFlash_sector ch sector_num sector_off secre_main WriteAddr pData c = do {
     let sector = (ucast sector_num * 4096 :: u32);
     let flash_buf = QSpiFlashRead ch sector 4096 c;
     old \<leftarrow> rd_seg flash_buf (unat sector_off) (unat secre_main);
     if list_ex (\<lambda>x. x \<noteq> 0xFF) old then do {
       let c = QSpiFlashEraseSector ch sector c;
       new \<leftarrow> rd_seg pData 0 (unat secre_main);
       flash_buf \<leftarrow> wr_seg flash_buf (unat sector_off) new;
       QSpiWriteAny ch sector flash_buf 4096 c
     } else QSpiWriteAny ch WriteAddr pData secre_main c
   }"

partial_function (option) WriteFlash_loop :: "'c flash_chip \<Rightarrow> u8 \<Rightarrow> u16 \<Rightarrow> u16 \<Rightarrow> u32 \<Rightarrow> bytes \<Rightarrow> u32 \<Rightarrow> 'c \<Rightarrow> 'c option" where
  "WriteFlash_loop ch sector_num sector_off secre_main WriteAddr pData DataLen c = do {
     (r, c) \<leftarrow> WriteFlash_sector ch sector_num sector_off secre_main WriteAddr pData c;
     if r \<noteq> 0 then Some c
     else if DataLen = ucast secre_main then Some c
     else let DataLen' = DataLen - ucast secre_main
       in WriteFlash_loop ch (sector_num + 1) 0 (if 4096 < DataLen' then 4096 else ucast DataLen')
            (WriteAddr + ucast secre_main) (drop (unat secre_main) pData) DataLen' c
   }"

text \<open>\<open>mem\<close>: the sector buffer is allocated. Without it the code goes on with a null pointer.\<close>

definition WriteFlash :: "'c flash_chip \<Rightarrow> bool \<Rightarrow> bytes \<Rightarrow> u32 \<Rightarrow> u32 \<Rightarrow> 'c \<Rightarrow> 'c option" where
  "WriteFlash ch mem pData DataLen BurnStartPos c =
     (let sector_num = ucast (BurnStartPos div 4096);
          sector_off = ucast (BurnStartPos mod 4096);
          secre_main = 4096 - sector_off;
          secre_main = (if DataLen \<le> ucast secre_main then ucast DataLen else secre_main)
      in if mem then WriteFlash_loop ch sector_num sector_off secre_main BurnStartPos pData DataLen c else None)"

definition ReadFlash :: "'c flash_chip \<Rightarrow> u32 \<Rightarrow> u32 \<Rightarrow> 'c \<Rightarrow> bytes" where
  "ReadFlash ch DataLen ReadStartPos c = QSpiFlashRead ch ReadStartPos DataLen c"

text \<open>The configuration area. \<open>pConfig\<close> is the image of a \<open>GAgent_CONFIG_S\<close>.\<close>

definition GAGENT_CONFIG_DATA_ADDR :: u32 where
  "GAGENT_CONFIG_DATA_ADDR = 0x64000"

definition nl6621_GetConfigData :: "'c flash_chip \<Rightarrow> u32 \<Rightarrow> 'c \<Rightarrow> bytes \<times> int" where
  "nl6621_GetConfigData ch n c = (ReadFlash ch n GAGENT_CONFIG_DATA_ADDR c, 0)"

definition nl6621_SaveConfigData :: "'c flash_chip \<Rightarrow> bool \<Rightarrow> bytes \<Rightarrow> 'c \<Rightarrow> (int \<times> 'c) option" where
  "nl6621_SaveConfigData ch mem pConfig c =
     do { c \<leftarrow> WriteFlash ch mem pConfig (of_nat (length pConfig)) GAGENT_CONFIG_DATA_ADDR c; Some (0, c) }"

text \<open>The clock.\<close>

definition nl6621_GetTime_MS :: "u32 \<Rightarrow> u32" where
  "nl6621_GetTime_MS ticks = (ticks mod 100) * 10"

definition nl6621_GetTime_S :: "u32 \<Rightarrow> u32" where
  "nl6621_GetTime_S ticks = ticks div 100"


section \<open>What the data sheet promises\<close>

definition overlay :: "(nat \<Rightarrow> u8) \<Rightarrow> nat \<Rightarrow> bytes \<Rightarrow> nat \<Rightarrow> u8" where
  "overlay f a d = (\<lambda>x. if a \<le> x \<and> x < a + length d then d ! (x - a) else f x)"

definition programmed :: "(nat \<Rightarrow> u8) \<Rightarrow> nat \<Rightarrow> bytes \<Rightarrow> nat \<Rightarrow> u8" where
  "programmed f a d = (\<lambda>x. if a \<le> x \<and> x < a + length d then f x AND d ! (x - a) else f x)"

definition erased :: "(nat \<Rightarrow> u8) \<Rightarrow> nat \<Rightarrow> nat \<Rightarrow> u8" where
  "erased f a = (\<lambda>x. if x div 4096 = a div 4096 then 0xFF else f x)"

lemma programmed_append: "programmed (programmed f a d) (a + length d) e = programmed f a (d @ e)"
  by (rule ext) (auto simp: programmed_def nth_append)

lemma and_255: "(0xFF :: u8) AND v = v"
proof -
  have "(0xFF :: u8) = - 1" by simp
  then show ?thesis by (metis and.left_neutral)
qed

lemma programmed_blank:
  assumes "\<And>i. i < length d \<Longrightarrow> f (a + i) = 0xFF"
  shows "programmed f a d = overlay f a d"
proof (rule ext)
  fix x
  have "f x = 0xFF" if "a \<le> x" "x < a + length d" using assms[of "x - a"] that by simp
  then have "f x AND d ! (x - a) = d ! (x - a)" if "a \<le> x" "x < a + length d" using that
    by (simp add: and_255)
  then show "programmed f a d x = overlay f a d x" by (simp add: programmed_def overlay_def)
qed

lemma overlay_append: "overlay (overlay f a d) (a + length d) e = overlay f a (d @ e)"
  by (rule ext) (auto simp: overlay_def nth_append)

lemma overlay_Nil: "overlay f a [] = f"
  by (rule ext) (auto simp: overlay_def)

locale nor_flash =
  fixes ch :: "'c flash_chip" and content :: "'c \<Rightarrow> nat \<Rightarrow> u8"
  assumes read: "seq_read ch t n c = map (\<lambda>i. content c ((addr24 t + i) mod 2 ^ 24)) [0..<n]"
    and program: "length d \<le> 256 - addr24 t mod 256 \<Longrightarrow> content (page_program ch t d c) = programmed (content c) (addr24 t) d"
    and erase: "content (sector_erase ch t c) = erased (content c) (addr24 t)"

lemma addr24_cmd_addr: "addr24 (cmd_addr a) = unat a mod 2 ^ 24"
proof -
  have m: "unat (ucast (w AND 0xFF) :: u8) = unat w mod 256" for w :: u32
  proof -
    have "(0xFF :: u32) = mask 8" by code_simp
    then have "w AND 0xFF = take_bit 8 w" by (simp only: take_bit_eq_mask)
    then show ?thesis by (simp add: unsigned_ucast_eq unat_mod take_bit_eq_mod)
  qed
  have "unat a mod 2 ^ 24 = unat a div 65536 mod 256 * 65536 + unat a div 256 mod 256 * 256 + unat a mod 256"
    using mod_mult2_eq[of "unat a" 65536 256] mod_mult2_eq[of "unat a" 256 256] by simp
  then show ?thesis
    by (simp add: cmd_addr_def m drop_bit_eq_div unat_div)
qed

text \<open>The chip as an array of bytes.\<close>

definition nor_chip :: "(nat \<Rightarrow> u8) flash_chip" where
  "nor_chip = \<lparr>page_program = (\<lambda>t d f. programmed f (addr24 t) d), sector_erase = (\<lambda>t f. erased f (addr24 t)),
     seq_read = (\<lambda>t n f. map (\<lambda>i. f ((addr24 t + i) mod 2 ^ 24)) [0..<n]), chip_erase = (\<lambda>f x. 0xFF)\<rparr>"

interpretation nor: nor_flash nor_chip id
  by unfold_locales (simp_all add: nor_chip_def)


section \<open>The routines on such a chip\<close>

lemma unat_ucast_16_32: "unat (ucast (x :: u16) :: u32) = unat x"
  using u16_less[of x] by (simp add: unsigned_ucast_eq take_bit_nat_eq_self)

lemma unat_ucast_32_16: "unat (ucast (x :: u32) :: u16) = unat x mod 65536"
  by (simp add: unsigned_ucast_eq take_bit_eq_mod)

lemma unat_plus32: "unat (a :: u32) + unat b < 4294967296 \<Longrightarrow> unat (a + b) = unat a + unat b"
  by (simp add: unat_word_ariths)

lemma unat_plus_mod24: "(unat (a + b :: u32) + i) mod 16777216 = (unat a + (unat b + i)) mod 16777216"
proof -
  have "unat (a + b) = (unat a + unat b) mod 4294967296" using unat_word_ariths(1)[of a b] by simp
  moreover have "(x mod 4294967296) mod 16777216 = x mod 16777216" for x :: nat
    by (rule mod_mod_cancel) simp
  ultimately have "unat (a + b) mod 16777216 = (unat a + unat b) mod 16777216" by simp
  then show ?thesis using mod_add_left_eq[of _ 16777216 i] by (metis add.assoc)
qed

lemma map_upt_split: "n \<le> m \<Longrightarrow> map f [0..<m] = map f [0..<n] @ map (\<lambda>i. f (n + i)) [0..<m - n]"
  by (rule nth_equalityI) (auto simp: nth_append)

text \<open>What \<open>WriteFlash\<close> hands to its loop.\<close>

lemma WriteFlash_start:
  fixes DataLen a :: u32
  defines "off \<equiv> (ucast (a mod 4096) :: u16)"
  defines "n \<equiv> (if DataLen \<le> ucast (4096 - off) then ucast DataLen else 4096 - off :: u16)"
  shows "unat off = unat a mod 4096" and "unat n = min (unat DataLen) (4096 - unat a mod 4096)"
    and "unat n \<le> unat DataLen" and "unat off + unat n \<le> 4096" and "n = 0 \<Longrightarrow> DataLen = 0"
proof -
  show off: "unat off = unat a mod 4096"
    by (simp add: off_def unat_ucast_32_16 unat_mod mod_mod_cancel)
  have o: "unat a mod 4096 < 4096" by simp
  then have rest: "unat (4096 - off) = 4096 - unat a mod 4096" by (subst unat_sub) (simp_all add: word_le_nat_alt off)
  show n: "unat n = min (unat DataLen) (4096 - unat a mod 4096)"
    unfolding n_def by (auto simp: word_le_nat_alt unat_ucast_16_32 unat_ucast_32_16 rest)
  show "unat n \<le> unat DataLen" "unat off + unat n \<le> 4096" using o by (auto simp: n off)
  show "DataLen = 0" if "n = 0"
  proof -
    have "min (unat DataLen) (4096 - unat a mod 4096) = 0" using n that by simp
    with o show ?thesis by (auto simp: word_unat_eq_iff min_def split: if_splits)
  qed
qed

context nor_flash
begin

lemma read_loop:
  "DnldByteCnt \<le> Len \<Longrightarrow> QSpiFlashRead_loop ch ReadAddr Len DnldByteCnt c =
     map (\<lambda>i. content c ((unat ReadAddr + i) mod 2 ^ 24)) [0..<unat Len - unat DnldByteCnt]"
proof (induction "unat Len - unat DnldByteCnt" arbitrary: ReadAddr DnldByteCnt rule: less_induct)
  case less
  show ?case
  proof (cases "DnldByteCnt < Len")
    case False
    then have "DnldByteCnt = Len" using less.prems by simp
    then show ?thesis by (subst QSpiFlashRead_loop.simps) simp
  next
    case True
    define r where "r = (if 65536 < Len - DnldByteCnt then 65536 else Len - DnldByteCnt)"
    note b = rdcnt_less[OF True r_def]
    have le: "DnldByteCnt + r \<le> Len" using b by (simp add: word_le_nat_alt)
    have d: "unat Len - unat (DnldByteCnt + r) = unat Len - unat DnldByteCnt - unat r" using b by simp
    have lt: "unat Len - unat (DnldByteCnt + r) < unat Len - unat DnldByteCnt" using b by simp
    have le2: "unat r \<le> unat Len - unat DnldByteCnt" using b by simp
    have "QSpiFlashRead_loop ch ReadAddr Len DnldByteCnt c =
      seq_read ch (cmd_addr ReadAddr) (unat r) c @ QSpiFlashRead_loop ch (ReadAddr + r) Len (DnldByteCnt + r) c"
      using True by (subst QSpiFlashRead_loop.simps) (simp add: r_def Let_def)
    also have "\<dots> = map (\<lambda>i. content c ((unat ReadAddr + i) mod 2 ^ 24)) [0..<unat r] @
      map (\<lambda>i. content c ((unat ReadAddr + (unat r + i)) mod 2 ^ 24)) [0..<unat Len - unat DnldByteCnt - unat r]"
      using less.hyps[OF lt le, of "ReadAddr + r"] unfolding d
      by (simp add: read addr24_cmd_addr mod_add_left_eq unat_plus_mod24)
    finally show ?thesis by (simp only: map_upt_split[OF le2])
  qed
qed

lemma read_eq: "QSpiFlashRead ch a n c = map (\<lambda>i. content c ((unat a + i) mod 2 ^ 24)) [0..<unat n]"
  by (simp add: QSpiFlashRead_def read_loop)

lemma read_in_range:
  "unat a + unat n \<le> 2 ^ 24 \<Longrightarrow> QSpiFlashRead ch a n c = map (\<lambda>i. content c (unat a + i)) [0..<unat n]"
  by (simp add: read_eq)

lemma write_page:
  assumes "unat n \<le> length pBuf" and "unat n \<le> 256 - unat a mod 256" and "unat a < 2 ^ 24"
  shows "\<exists>c'. QSpiFlashWriteOnePage ch a pBuf n c = Some c' \<and>
    content c' = programmed (content c) (unat a) (take (unat n) pBuf)"
  using assms by (simp add: QSpiFlashWriteOnePage_def rd_seg_def program addr24_cmd_addr mod_mod_cancel)

lemma erase_sector:
  "unat a < 2 ^ 24 \<Longrightarrow> content (QSpiFlashEraseSector ch a c) = erased (content c) (unat a)"
  by (simp add: QSpiFlashEraseSector_def erase addr24_cmd_addr)

lemma write_any_loop:
  "pageremain \<le> DataLen \<Longrightarrow> (pageremain = 0 \<Longrightarrow> DataLen = 0) \<Longrightarrow> unat DataLen \<le> length pData \<Longrightarrow>
   unat WriteAddr + unat DataLen \<le> 2 ^ 24 \<Longrightarrow> unat WriteAddr < 2 ^ 24 \<Longrightarrow>
   unat pageremain \<le> 256 - unat WriteAddr mod 256 \<Longrightarrow>
   (pageremain < DataLen \<Longrightarrow> (unat WriteAddr + unat pageremain) mod 256 = 0) \<Longrightarrow>
   \<exists>c'. QSpiWriteAny_loop ch WriteAddr pData DataLen pageremain c = Some (0, c') \<and>
     content c' = programmed (content c) (unat WriteAddr) (take (unat DataLen) pData)"
proof (induction "unat DataLen" arbitrary: WriteAddr pData DataLen pageremain c rule: less_induct)
  case less
  have le: "unat pageremain \<le> unat DataLen" using less.prems(1) by (simp add: word_le_nat_alt)
  obtain c1 where c1: "QSpiFlashWriteOnePage ch WriteAddr pData pageremain c = Some c1"
    "content c1 = programmed (content c) (unat WriteAddr) (take (unat pageremain) pData)"
    using write_page[of pageremain pData WriteAddr c] less.prems le by auto
  show ?case
  proof (cases "DataLen = pageremain")
    case True
    then show ?thesis using c1 by (subst QSpiWriteAny_loop.simps) simp
  next
    case False
    define D where "D = DataLen - pageremain"
    define p where "p = (if 256 < D then 256 else D)"
    have lt: "unat pageremain < unat DataLen" using False le by (metis le_neq_implies_less word_unat_eq_iff)
    have D: "unat D = unat DataLen - unat pageremain" unfolding D_def using less.prems(1) by (rule unat_sub)
    have pos: "0 < unat pageremain" using less.prems(2) False by (metis gr0I unat_eq_zero)
    have p: "unat p = min 256 (unat D)" by (auto simp: p_def word_less_nat_alt)
    have al: "(unat WriteAddr + unat pageremain) mod 256 = 0"
      using less.prems(7) lt by (simp add: word_less_nat_alt)
    have w: "unat (WriteAddr + ucast pageremain) = unat WriteAddr + unat pageremain"
      using less.prems(4) lt by (subst unat_plus32) (simp_all add: unat_ucast_16_32)
    have "\<exists>c'. QSpiWriteAny_loop ch (WriteAddr + ucast pageremain) (drop (unat pageremain) pData) D p c1 = Some (0, c') \<and>
      content c' = programmed (content c1) (unat (WriteAddr + ucast pageremain)) (take (unat D) (drop (unat pageremain) pData))"
    proof (rule less.hyps)
      show "unat D < unat DataLen" using D pos lt by simp
      show "p \<le> D" by (simp add: word_le_nat_alt p)
      show "p = 0 \<Longrightarrow> D = 0" using D lt p by (auto simp: word_unat_eq_iff)
      show "unat D \<le> length (drop (unat pageremain) pData)" using less.prems(3) D by simp
      show "unat (WriteAddr + ucast pageremain) + unat D \<le> 2 ^ 24" using w D less.prems(4) lt by simp
      show "unat (WriteAddr + ucast pageremain) < 2 ^ 24" using w less.prems(4) lt by simp
      show "unat p \<le> 256 - unat (WriteAddr + ucast pageremain) mod 256" unfolding w al p by simp
      show "(unat (WriteAddr + ucast pageremain) + unat p) mod 256 = 0" if "p < D"
      proof -
        have "unat p = 256" using that p by (simp add: word_less_nat_alt)
        then show ?thesis unfolding w using al by simp
      qed
    qed
    then obtain c2 where c2: "QSpiWriteAny_loop ch (WriteAddr + ucast pageremain) (drop (unat pageremain) pData) D p c1 = Some (0, c2)"
      "content c2 = programmed (content c1) (unat (WriteAddr + ucast pageremain)) (take (unat D) (drop (unat pageremain) pData))" by blast
    have "QSpiWriteAny_loop ch WriteAddr pData DataLen pageremain c = Some (0, c2)"
      using c1 c2(1)[unfolded p_def D_def] False
      by (subst QSpiWriteAny_loop.simps) (simp add: Let_def cong: if_cong)
    moreover have "take (unat pageremain) pData @ take (unat D) (drop (unat pageremain) pData) = take (unat DataLen) pData"
      using D lt by (metis le_add_diff_inverse less_imp_le take_add)
    moreover have "length (take (unat pageremain) pData) = unat pageremain" using less.prems(3) lt by simp
    ultimately show ?thesis
      using c1 c2 programmed_append[of "content c" "unat WriteAddr" "take (unat pageremain) pData"] w by metis
  qed
qed

lemma to_boundary: "((a :: nat) + (256 - a mod 256)) mod 256 = 0"
proof -
  obtain q r where "a = q * 256 + r" "r < 256" by (metis div_mult_mod_eq mod_less_divisor zero_less_numeral)
  then show ?thesis by simp
qed

lemma write_any:
  assumes "unat DataLen \<le> length pData" and "unat WriteAddr + unat DataLen \<le> 2 ^ 24" and "unat WriteAddr < 2 ^ 24"
  shows "\<exists>c'. QSpiWriteAny ch WriteAddr pData DataLen c = Some (0, c') \<and>
    content c' = programmed (content c) (unat WriteAddr) (take (unat DataLen) pData)"
proof -
  define p where "p = (ucast (256 - WriteAddr mod 256) :: u16)"
  have "unat (WriteAddr mod 256) = unat WriteAddr mod 256" by (simp add: unat_mod)
  moreover have "WriteAddr mod 256 \<le> 256" by (simp add: word_le_nat_alt unat_mod)
  ultimately have p: "unat p = 256 - unat WriteAddr mod 256"
    by (simp add: p_def unat_ucast_32_16 unat_sub)
  define q where "q = (if DataLen \<le> p then DataLen else p)"
  have q: "unat q = min (unat DataLen) (256 - unat WriteAddr mod 256)" by (auto simp: q_def word_le_nat_alt p)
  have m: "0 < 256 - unat WriteAddr mod 256" by simp
  have "\<exists>c'. QSpiWriteAny_loop ch WriteAddr pData DataLen q c = Some (0, c') \<and>
     content c' = programmed (content c) (unat WriteAddr) (take (unat DataLen) pData)"
  proof (rule write_any_loop)
    show "q \<le> DataLen" by (simp add: word_le_nat_alt q)
    show "q = 0 \<Longrightarrow> DataLen = 0" using q m by (auto simp: word_unat_eq_iff)
    show "unat q \<le> 256 - unat WriteAddr mod 256" by (simp add: q)
    show "(unat WriteAddr + unat q) mod 256 = 0" if "q < DataLen"
    proof -
      have "unat q = 256 - unat WriteAddr mod 256" using that q by (simp add: word_less_nat_alt)
      then show ?thesis by (simp only: to_boundary)
    qed
  qed (use assms in auto)
  then show ?thesis by (simp add: QSpiWriteAny_def p_def[symmetric] q_def[symmetric] Let_def)
qed

lemma rewrite_sector:
  assumes "S mod 4096 = 0" and "off + length new \<le> 4096"
  shows "programmed (erased f S) S (put (map (\<lambda>i. f (S + i)) [0..<4096]) off new) = overlay f (S + off) new"
proof -
  let ?b = "put (map (\<lambda>i. f (S + i)) [0..<4096]) off new"
  have l: "length ?b = 4096" using assms(2) by simp
  have "programmed (erased f S) S ?b = overlay (erased f S) S ?b"
    using l assms(1) by (intro programmed_blank) (auto simp: erased_def)
  also have "\<dots> = overlay f (S + off) new"
  proof (rule ext)
    fix x
    show "overlay (erased f S) S ?b x = overlay f (S + off) new x"
    proof (cases "S \<le> x \<and> x < S + 4096")
      case True
      then obtain i where "x = S + i" "i < 4096" by (metis le_Suc_ex nat_add_left_cancel_less)
      then show ?thesis using assms(2) by (simp add: overlay_def l nth_put)
    next
      case False
      have "x div 4096 \<noteq> S div 4096"
      proof
        assume e: "x div 4096 = S div 4096"
        have "S = S div 4096 * 4096" using assms(1) div_mult_mod_eq[of S 4096] by simp
        moreover have "x = S div 4096 * 4096 + x mod 4096" using e div_mult_mod_eq[of x 4096] by simp
        moreover have "x mod 4096 < 4096" by simp
        ultimately show False using False by linarith
      qed
      with False assms(2) show ?thesis by (auto simp: overlay_def l erased_def)
    qed
  qed
  finally show ?thesis .
qed

lemma write_sector:
  assumes "unat off + unat n \<le> 4096" and "unat WriteAddr = unat sector_num * 4096 + unat off" and "unat off < 4096"
    and "unat n \<le> length pData"
  shows "\<exists>c'. WriteFlash_sector ch sector_num off n WriteAddr pData c = Some (0, c') \<and>
    content c' = overlay (content c) (unat WriteAddr) (take (unat n) pData)"
proof -
  define S where "S = (ucast sector_num * 4096 :: u32)"
  have S: "unat S = unat sector_num * 4096"
    using u8_less[of sector_num] by (simp add: S_def unat_word_ariths unsigned_ucast_eq take_bit_nat_eq_self)
  let ?b = "QSpiFlashRead ch S 4096 c"
  have b: "?b = map (\<lambda>i. content c (unat S + i)) [0..<4096]"
    using u8_less[of sector_num] by (subst read_in_range) (simp_all add: S)
  define old where "old = map (\<lambda>i. content c (unat WriteAddr + i)) [0..<unat n]"
  have o: "rd_seg ?b (unat off) (unat n) = Some old"
    using assms(1,2) unfolding b old_def S
    by (auto simp: rd_seg_def intro!: nth_equalityI simp: add.assoc)
  have lt: "unat WriteAddr < 2 ^ 24" "unat WriteAddr + unat n \<le> 2 ^ 24" "unat S + 4096 \<le> 2 ^ 24"
    using assms(1,2,3) S u8_less[of sector_num] by simp_all
  show ?thesis
  proof (cases "list_ex (\<lambda>x. x \<noteq> 0xFF) old")
    case False
    then have "programmed (content c) (unat WriteAddr) (take (unat n) pData) = overlay (content c) (unat WriteAddr) (take (unat n) pData)"
      using assms(4) by (intro programmed_blank) (auto simp: old_def list_ex_iff)
    then show ?thesis using write_any[OF assms(4) lt(2,1), of c] False o
      by (simp add: WriteFlash_sector_def S_def[symmetric] Let_def)
  next
    case True
    define new where "new = take (unat n) pData"
    have w: "wr_seg ?b (unat off) new = Some (put ?b (unat off) new)" and l: "length (put ?b (unat off) new) = 4096"
      using assms(1,4) by (simp_all add: wr_seg_def b new_def)
    obtain c1 where c1: "QSpiWriteAny ch S (put ?b (unat off) new) 4096 (QSpiFlashEraseSector ch S c) = Some (0, c1)"
      "content c1 = programmed (content (QSpiFlashEraseSector ch S c)) (unat S) (put ?b (unat off) new)"
      using write_any[of 4096 "put ?b (unat off) new" S "QSpiFlashEraseSector ch S c"] l lt(3) by auto
    have "content c1 = overlay (content c) (unat WriteAddr) new"
      using c1(2) rewrite_sector[of "unat S" "unat off" new "content c"] assms(1,2,4) lt(3)
      by (simp add: erase_sector b S new_def)
    then show ?thesis using c1(1) True o w assms(4)
      by (simp add: WriteFlash_sector_def S_def[symmetric] Let_def new_def[symmetric]) (simp add: rd_seg_def new_def)
  qed
qed

lemma write_flash_loop:
  "unat n \<le> unat DataLen \<Longrightarrow> (n = 0 \<Longrightarrow> DataLen = 0) \<Longrightarrow> unat off + unat n \<le> 4096 \<Longrightarrow> unat off < 4096 \<Longrightarrow>
   unat WriteAddr = unat sector_num * 4096 + unat off \<Longrightarrow> unat WriteAddr + unat DataLen \<le> 2 ^ 20 \<Longrightarrow>
   unat DataLen \<le> length pData \<Longrightarrow> (unat n < unat DataLen \<Longrightarrow> unat off + unat n = 4096) \<Longrightarrow>
   \<exists>c'. WriteFlash_loop ch sector_num off n WriteAddr pData DataLen c = Some c' \<and>
     content c' = overlay (content c) (unat WriteAddr) (take (unat DataLen) pData)"
proof (induction "unat DataLen" arbitrary: sector_num off n WriteAddr pData DataLen c rule: less_induct)
  case less
  obtain c1 where c1: "WriteFlash_sector ch sector_num off n WriteAddr pData c = Some (0, c1)"
    "content c1 = overlay (content c) (unat WriteAddr) (take (unat n) pData)"
    using write_sector[of off n WriteAddr sector_num pData c] less.prems(1,3,4,5,7) by auto
  show ?case
  proof (cases "DataLen = ucast n")
    case True
    then have "unat DataLen = unat n" by (simp add: unat_ucast_16_32)
    with True show ?thesis using c1 by (subst WriteFlash_loop.simps) simp
  next
    case False
    define D where "D = DataLen - ucast n"
    define p where "p = (if 4096 < D then 4096 else ucast D :: u16)"
    have lt: "unat n < unat DataLen" using False less.prems(1) by (simp add: word_unat_eq_iff unat_ucast_16_32)
    have D: "unat D = unat DataLen - unat n"
      unfolding D_def using lt by (subst unat_sub) (simp_all add: word_le_nat_alt unat_ucast_16_32)
    have p: "unat p = min 4096 (unat D)" by (auto simp: p_def word_less_nat_alt unat_ucast_32_16)
    have pos: "0 < unat n" using less.prems(2) lt by (metis gr0I unat_eq_zero not_less0)
    have e: "unat off + unat n = 4096" using less.prems(8) lt by simp
    have w: "unat (WriteAddr + ucast n) = unat WriteAddr + unat n"
      using less.prems(6) lt by (subst unat_plus32) (simp_all add: unat_ucast_16_32)
    have "unat sector_num + 1 < 256" using less.prems(5,6) e lt by simp
    then have s: "unat (sector_num + 1) = unat sector_num + 1" by (simp add: unat_word_ariths)
    have "\<exists>c'. WriteFlash_loop ch (sector_num + 1) 0 p (WriteAddr + ucast n) (drop (unat n) pData) D c1 = Some c' \<and>
      content c' = overlay (content c1) (unat (WriteAddr + ucast n)) (take (unat D) (drop (unat n) pData))"
    proof (rule less.hyps)
      show "unat D < unat DataLen" using D pos lt by simp
      show "p = 0 \<Longrightarrow> D = 0" using p by (auto simp: word_unat_eq_iff)
      show "unat (WriteAddr + ucast n) = unat (sector_num + 1) * 4096 + unat (0 :: u16)"
        using w s e less.prems(5) by simp
    qed (use p D w lt less.prems(6,7) in auto)
    then obtain c2 where c2: "WriteFlash_loop ch (sector_num + 1) 0 p (WriteAddr + ucast n) (drop (unat n) pData) D c1 = Some c2"
      "content c2 = overlay (content c1) (unat (WriteAddr + ucast n)) (take (unat D) (drop (unat n) pData))" by blast
    have "WriteFlash_loop ch sector_num off n WriteAddr pData DataLen c = Some c2"
      using c1 c2(1)[unfolded p_def D_def] False by (subst WriteFlash_loop.simps) (simp add: Let_def cong: if_cong)
    moreover have "take (unat n) pData @ take (unat D) (drop (unat n) pData) = take (unat DataLen) pData"
      using D lt by (metis le_add_diff_inverse less_imp_le take_add)
    moreover have "length (take (unat n) pData) = unat n" using less.prems(7) lt by simp
    ultimately show ?thesis
      using c1 c2 overlay_append[of "content c" "unat WriteAddr" "take (unat n) pData"] w by metis
  qed
qed

lemma write_flash:
  assumes "unat DataLen \<le> length pData" and "unat a + unat DataLen \<le> 2 ^ 20" and "unat a < 2 ^ 20"
  shows "\<exists>c'. WriteFlash ch True pData DataLen a c = Some c' \<and>
    content c' = overlay (content c) (unat a) (take (unat DataLen) pData)"
proof -
  note s = WriteFlash_start(1)[of a] WriteFlash_start(2-)[of DataLen a]
  have num: "unat (ucast (a div 4096) :: u8) = unat a div 4096"
    using assms(3) by (simp add: unsigned_ucast_eq take_bit_eq_mod unat_div)
  show ?thesis unfolding WriteFlash_def Let_def if_True
  proof (rule write_flash_loop)
    show "unat a = unat (ucast (a div 4096) :: u8) * 4096 + unat (ucast (a mod 4096) :: u16)" by (simp add: num s(1))
  qed (use s assms in auto)
qed

lemma write_page_verified:
  assumes "256 \<le> length pBuf" and "unat a mod 256 = 0" and "unat a + 256 \<le> 2 ^ 24"
    and blank: "\<And>i. i < 256 \<Longrightarrow> content c (unat a + i) = 0xFF"
  shows "\<exists>c'. write_page_tries ch a pBuf 10 c = Some (9, c') \<and> content c' = overlay (content c) (unat a) (take 256 pBuf)"
proof -
  obtain c1 where c1: "QSpiFlashWriteOnePage ch a pBuf 256 c = Some c1"
    "content c1 = programmed (content c) (unat a) (take 256 pBuf)"
    using write_page[of 256 pBuf a c] assms(1-3) by auto
  have p: "content c1 = overlay (content c) (unat a) (take 256 pBuf)"
    unfolding c1(2) using assms(1) blank by (intro programmed_blank) simp
  have "QSpiFlashRead ch a 256 c1 = take 256 pBuf"
    using assms(1,3) by (subst read_in_range) (auto simp: p overlay_def intro: nth_equalityI)
  then show ?thesis using c1 p by (simp add: eval_nat_numeral)
qed

lemma write_pages:
  "256 * n \<le> length pBuf \<Longrightarrow> unat a mod 256 = 0 \<Longrightarrow> unat a + 256 * n \<le> 2 ^ 24 \<Longrightarrow>
   (\<And>i. i < 256 * n \<Longrightarrow> content c (unat a + i) = 0xFF) \<Longrightarrow>
   \<exists>c'. write_sector_pages ch n a pBuf c = Some (0, c') \<and> content c' = overlay (content c) (unat a) (take (256 * n) pBuf)"
proof (induction n arbitrary: a pBuf c)
  case 0
  then show ?case by (simp add: overlay_Nil)
next
  case (Suc n)
  obtain c1 where c1: "write_page_tries ch a pBuf 10 c = Some (9, c1)" "content c1 = overlay (content c) (unat a) (take 256 pBuf)"
    using write_page_verified[of pBuf a c] Suc.prems by fastforce
  have w: "unat (a + 256) = unat a + 256" using Suc.prems(3) by (subst unat_plus32) simp_all
  have "\<exists>c'. write_sector_pages ch n (a + 256) (drop 256 pBuf) c1 = Some (0, c') \<and>
    content c' = overlay (content c1) (unat (a + 256)) (take (256 * n) (drop 256 pBuf))"
  proof (rule Suc.IH)
    show "content c1 (unat (a + 256) + i) = 0xFF" if "i < 256 * n" for i
      using that Suc.prems(1) Suc.prems(4)[of "256 + i"] by (simp add: c1(2) overlay_def w add.assoc)
  qed (use Suc.prems w in auto)
  moreover have "take 256 pBuf @ take (256 * n) (drop 256 pBuf) = take (256 * Suc n) pBuf"
    by (simp add: take_add)
  moreover have "length (take 256 pBuf) = 256" using Suc.prems(1) by simp
  ultimately show ?case
    using c1 w overlay_append[of "content c" "unat a" "take 256 pBuf"] by fastforce
qed

lemma write_one_sector:
  assumes "4096 \<le> length pBuf" and "unat a mod 4096 = 0" and "unat a < 2 ^ 24"
  shows "\<exists>c'. QSpiWriteOneSector ch a pBuf c = Some (0, c') \<and> content c' = overlay (content c) (unat a) (take 4096 pBuf)"
proof -
  let ?e = "QSpiFlashEraseSector ch a c"
  have e: "content ?e = erased (content c) (unat a)" using assms(3) by (rule erase_sector)
  obtain k where k: "unat a = k * 4096" using assms(2) by (metis div_mult_mod_eq add.right_neutral)
  have r: "unat a + 4096 \<le> 2 ^ 24" using assms(3) unfolding k by simp
  obtain c1 where c1: "write_sector_pages ch 16 a pBuf ?e = Some (0, c1)"
    "content c1 = overlay (content ?e) (unat a) (take 4096 pBuf)"
    using write_pages[of 16 pBuf a ?e] assms r by (auto simp: e erased_def k)
  have "overlay (erased f (unat a)) (unat a) (take 4096 pBuf) = overlay f (unat a) (take 4096 pBuf)" for f
  proof (rule ext)
    fix x
    have "unat a \<le> x \<and> x < unat a + 4096" if "x div 4096 = unat a div 4096"
    proof -
      have "x = k * 4096 + x mod 4096" using that k div_mult_mod_eq[of x 4096] by simp
      moreover have "x mod 4096 < 4096" by simp
      ultimately show ?thesis using k by linarith
    qed
    then show "overlay (erased f (unat a)) (unat a) (take 4096 pBuf) x = overlay f (unat a) (take 4096 pBuf) x"
      using assms(1) by (auto simp: overlay_def erased_def)
  qed
  with c1 e show ?thesis by (simp add: QSpiWriteOneSector_def)
qed

end


section \<open>Termination without assumptions on the chip\<close>

lemma write_any_loop_returns:
  "pageremain \<le> DataLen \<Longrightarrow> (pageremain = 0 \<Longrightarrow> DataLen = 0) \<Longrightarrow> unat DataLen \<le> length pData \<Longrightarrow>
   \<exists>c'. QSpiWriteAny_loop ch WriteAddr pData DataLen pageremain c = Some (0, c')"
proof (induction "unat DataLen" arbitrary: WriteAddr pData DataLen pageremain c rule: less_induct)
  case less
  have le: "unat pageremain \<le> unat DataLen" using less.prems(1) by (simp add: word_le_nat_alt)
  have w: "QSpiFlashWriteOnePage ch WriteAddr pData pageremain c = Some (page_program ch (cmd_addr WriteAddr) (take (unat pageremain) pData) c)"
    using less.prems(3) le by (simp add: QSpiFlashWriteOnePage_def rd_seg_def)
  show ?case
  proof (cases "DataLen = pageremain")
    case True
    then show ?thesis using w by (subst QSpiWriteAny_loop.simps) simp
  next
    case False
    have D: "unat (DataLen - pageremain) = unat DataLen - unat pageremain" using less.prems(1) by (rule unat_sub)
    have pos: "0 < unat pageremain" using less.prems(2) False by (metis gr0I unat_eq_zero)
    have lt: "unat (DataLen - pageremain) < unat DataLen" using D pos le by simp
    have "\<exists>c'. QSpiWriteAny_loop ch (WriteAddr + ucast pageremain) (drop (unat pageremain) pData) (DataLen - pageremain)
        (if 256 < DataLen - pageremain then 256 else DataLen - pageremain)
        (page_program ch (cmd_addr WriteAddr) (take (unat pageremain) pData) c) = Some (0, c')"
      using less.prems(3) D by (intro less.hyps[OF lt]) (auto split: if_splits)
    then show ?thesis using w False by (subst QSpiWriteAny_loop.simps) (simp add: Let_def cong: if_cong)
  qed
qed

lemma write_any_returns:
  assumes "unat DataLen \<le> length pData"
  shows "\<exists>c'. QSpiWriteAny ch WriteAddr pData DataLen c = Some (0, c')"
proof -
  have "WriteAddr mod 256 < 256" by (simp add: word_less_nat_alt unat_mod)
  then have "unat (256 - WriteAddr mod 256) = 256 - unat WriteAddr mod 256" by (subst unat_sub) (simp_all add: unat_mod)
  then have "unat (ucast (256 - WriteAddr mod 256) :: u16) = 256 - unat WriteAddr mod 256"
    by (simp add: unat_ucast_32_16)
  moreover have "0 < 256 - unat WriteAddr mod 256" by simp
  ultimately have "(ucast (256 - WriteAddr mod 256) :: u16) \<noteq> 0" by (metis unsigned_0 less_numeral_extra(3))
  then show ?thesis unfolding QSpiWriteAny_def Let_def
    using assms by (intro write_any_loop_returns) (auto simp: not_le split: if_splits)
qed

lemma write_sector_returns:
  assumes "\<And>t n c. length (seq_read ch t n c) = n" and "unat off + unat n \<le> 4096" and "unat n \<le> length pData"
  shows "\<exists>c'. WriteFlash_sector ch sector_num off n WriteAddr pData c = Some (0, c')"
proof -
  let ?b = "QSpiFlashRead ch (ucast sector_num * 4096) 4096 c"
  have l: "length ?b = 4096"
    using assms(1) by (simp add: QSpiFlashRead_def QSpiFlashRead_loop.simps[of ch _ 4096 0] QSpiFlashRead_loop.simps[of ch _ 4096 4096])
  show ?thesis
  proof (cases "list_ex (\<lambda>x. x \<noteq> 0xFF) (take (unat n) (drop (unat off) ?b))")
    case False
    then show ?thesis using write_any_returns[OF assms(3)] assms(2) l
      by (simp add: WriteFlash_sector_def rd_seg_def Let_def)
  next
    case True
    have "\<exists>c'. QSpiWriteAny ch (ucast sector_num * 4096) (put ?b (unat off) (take (unat n) pData)) 4096
        (QSpiFlashEraseSector ch (ucast sector_num * 4096) c) = Some (0, c')"
      using assms(2,3) l by (intro write_any_returns) simp
    then show ?thesis using True assms(2,3) l
      by (simp add: WriteFlash_sector_def rd_seg_def wr_seg_def Let_def)
  qed
qed

lemma write_flash_loop_returns:
  assumes r: "\<And>t n c. length (seq_read ch t n c) = n"
  shows "unat n \<le> unat DataLen \<Longrightarrow> (n = 0 \<Longrightarrow> DataLen = 0) \<Longrightarrow> unat off + unat n \<le> 4096 \<Longrightarrow>
   unat DataLen \<le> length pData \<Longrightarrow> \<exists>c'. WriteFlash_loop ch sector_num off n WriteAddr pData DataLen c = Some c'"
proof (induction "unat DataLen" arbitrary: sector_num off n WriteAddr pData DataLen c rule: less_induct)
  case less
  obtain c1 where c1: "WriteFlash_sector ch sector_num off n WriteAddr pData c = Some (0, c1)"
    using write_sector_returns[OF r, of off n pData sector_num WriteAddr c] less.prems(1,3,4) by auto
  show ?case
  proof (cases "DataLen = ucast n")
    case True
    then show ?thesis using c1 by (subst WriteFlash_loop.simps) simp
  next
    case False
    define D where "D = DataLen - ucast n"
    define p where "p = (if 4096 < D then 4096 else ucast D :: u16)"
    have lt: "unat n < unat DataLen" using False less.prems(1) by (simp add: word_unat_eq_iff unat_ucast_16_32)
    have D: "unat D = unat DataLen - unat n"
      unfolding D_def using lt by (subst unat_sub) (simp_all add: word_le_nat_alt unat_ucast_16_32)
    have p: "unat p = min 4096 (unat D)" by (auto simp: p_def word_less_nat_alt unat_ucast_32_16)
    have pos: "0 < unat n" using less.prems(2) lt by (metis gr0I unat_eq_zero not_less0)
    have "\<exists>c'. WriteFlash_loop ch (sector_num + 1) 0 p (WriteAddr + ucast n) (drop (unat n) pData) D c1 = Some c'"
    proof (rule less.hyps)
      show "unat D < unat DataLen" using D pos lt by simp
      show "p = 0 \<Longrightarrow> D = 0" using p by (auto simp: word_unat_eq_iff)
    qed (use p D less.prems(4) in auto)
    then show ?thesis
      using c1 False by (subst WriteFlash_loop.simps) (simp add: Let_def p_def D_def cong: if_cong)
  qed
qed

section \<open>Properties\<close>

text \<open>C22 \<open>WriteFlash\<close> returns whatever the chip answers, as long as a read gives as many bytes as it was
  asked for: for every address, also past the end of the chip, and every length the buffer has.\<close>
lemma WriteFlash_returns:
  assumes "\<And>t n c. length (seq_read ch t n c) = n" and "unat DataLen \<le> length pData"
  shows "\<exists>c'. WriteFlash ch True pData DataLen a c = Some c'"
proof -
  note s = WriteFlash_start(1)[of a] WriteFlash_start(2-)[of DataLen a]
  show ?thesis unfolding WriteFlash_def Let_def if_True
    by (rule write_flash_loop_returns[OF assms(1)]) (use s assms(2) in auto)
qed

lemma WriteFlash_returns_witness:
  "\<exists>c'. WriteFlash (nor_chip\<lparr>seq_read := \<lambda>t n c. zeros n\<rparr>) True (zeros 10000) 10000 0xFFFFFFF0 (\<lambda>x. 0) = Some c'"
  by (rule WriteFlash_returns) simp_all

text \<open>C12 \<open>WriteFlash\<close>, for a request below 1 MB (its sector number is an 8 bit integer) and any earlier
  content of a chip that behaves as a serial NOR flash, returns; reading the range then gives the data,
  and the chip as a whole holds what it held before with the data laid over it.\<close>
lemma WriteFlash_roundtrip:
  assumes "nor_flash ch content" and "unat DataLen \<le> length pData" and "unat a + unat DataLen \<le> 2 ^ 20" and "unat a < 2 ^ 20"
  shows "\<exists>c'. WriteFlash ch True pData DataLen a c = Some c' \<and> ReadFlash ch DataLen a c' = take (unat DataLen) pData \<and>
    content c' = overlay (content c) (unat a) (take (unat DataLen) pData)"
proof -
  obtain c' where c': "WriteFlash ch True pData DataLen a c = Some c'" "content c' = overlay (content c) (unat a) (take (unat DataLen) pData)"
    using nor_flash.write_flash[OF assms] by blast
  have "ReadFlash ch DataLen a c' = take (unat DataLen) pData"
    using assms(2,3) by (auto simp: ReadFlash_def nor_flash.read_in_range[OF assms(1)] c'(2) overlay_def intro: nth_equalityI)
  with c' show ?thesis by blast
qed

lemma WriteFlash_roundtrip_witness:
  "\<exists>c'. WriteFlash nor_chip True (replicate 5000 7) 5000 0x64FF0 (\<lambda>x. 0x55) = Some c' \<and>
     ReadFlash nor_chip 5000 0x64FF0 c' = take 5000 (replicate 5000 7) \<and>
     id c' = overlay (id (\<lambda>x. 0x55)) (unat (0x64FF0 :: u32)) (take 5000 (replicate 5000 7))"
  using WriteFlash_roundtrip[OF nor.nor_flash_axioms, of 5000 "replicate 5000 7" "0x64FF0" "\<lambda>x. 0x55"] by simp

text \<open>Saving the configuration and reading it back gives the same configuration, whatever was in the
  area and around it, and nothing else on the chip changes.\<close>
lemma config_roundtrip:
  assumes "nor_flash ch content" and "length pConfig < 100000"
  shows "\<exists>c'. nl6621_SaveConfigData ch True pConfig c = Some (0, c') \<and>
    nl6621_GetConfigData ch (of_nat (length pConfig)) c' = (pConfig, 0) \<and>
    (\<forall>x. \<not> (0x64000 \<le> x \<and> x < 0x64000 + length pConfig) \<longrightarrow> content c' x = content c x)"
proof -
  have l: "unat (of_nat (length pConfig) :: u32) = length pConfig" using assms(2) by (intro unat_of_nat32) simp
  obtain c' where c': "WriteFlash ch True pConfig (of_nat (length pConfig)) GAGENT_CONFIG_DATA_ADDR c = Some c'"
    "content c' = overlay (content c) 0x64000 pConfig"
    using nor_flash.write_flash[OF assms(1), of "of_nat (length pConfig)" pConfig GAGENT_CONFIG_DATA_ADDR c] assms(2)
    by (auto simp: l GAGENT_CONFIG_DATA_ADDR_def)
  have "ReadFlash ch (of_nat (length pConfig)) GAGENT_CONFIG_DATA_ADDR c' = pConfig"
    using assms(2) by (auto simp: ReadFlash_def nor_flash.read_in_range[OF assms(1)] c'(2) overlay_def l GAGENT_CONFIG_DATA_ADDR_def intro: nth_equalityI)
  with c' show ?thesis by (auto simp: nl6621_SaveConfigData_def nl6621_GetConfigData_def overlay_def)
qed

lemma config_roundtrip_witness:
  "\<exists>c'. nl6621_SaveConfigData nor_chip True (replicate 300 1) (\<lambda>x. 0) = Some (0, c') \<and>
     nl6621_GetConfigData nor_chip (of_nat (length (replicate 300 (1 :: u8)))) c' = (replicate 300 1, 0) \<and>
     (\<forall>x. \<not> (0x64000 \<le> x \<and> x < 0x64000 + length (replicate 300 (1 :: u8))) \<longrightarrow> id c' x = id (\<lambda>x. 0) x)"
  by (rule config_roundtrip[OF nor.nor_flash_axioms]) simp

text \<open>\<open>QSpiWriteOneSector\<close> on a NOR chip: whatever the sector held, it returns 0 and the sector holds the
  buffer, everything else unchanged.\<close>
lemma QSpiWriteOneSector_correct:
  assumes "nor_flash ch content" and "4096 \<le> length pBuf" and "unat a mod 4096 = 0" and "unat a < 2 ^ 24"
  shows "\<exists>c'. QSpiWriteOneSector ch a pBuf c = Some (0, c') \<and> content c' = overlay (content c) (unat a) (take 4096 pBuf)"
  using nor_flash.write_one_sector[OF assms] .

lemma QSpiWriteOneSector_correct_witness:
  "\<exists>c'. QSpiWriteOneSector nor_chip 0x33000 (zeros 4096) (\<lambda>x. 0) = Some (0, c') \<and>
     id c' = overlay (id (\<lambda>x. 0)) (unat (0x33000 :: u32)) (take 4096 (zeros 4096))"
  by (rule QSpiWriteOneSector_correct[OF nor.nor_flash_axioms]) simp_all

lemma tries_never_verified:
  assumes "\<And>a c. QSpiFlashRead ch a 256 c \<noteq> take 256 pBuf" and "256 \<le> length pBuf"
  shows "\<exists>c'. write_page_tries ch a pBuf k c = Some (- 1, c')"
  using assms by (induction k arbitrary: c) (simp_all add: QSpiFlashWriteOnePage_def rd_seg_def)

lemma pages_never_verified:
  "(\<And>a c i. i < n \<Longrightarrow> QSpiFlashRead ch a 256 c \<noteq> take 256 (drop (256 * i) pBuf)) \<Longrightarrow> 256 * n \<le> length pBuf \<Longrightarrow>
   \<exists>c'. write_sector_pages ch n a pBuf c = Some (0, c')"
proof (induction n arbitrary: a pBuf c)
  case 0
  show ?case by simp
next
  case (Suc n)
  obtain c1 where c1: "write_page_tries ch a pBuf 10 c = Some (- 1, c1)"
    using tries_never_verified[of ch pBuf a 10 c] Suc.prems(1)[of 0] Suc.prems(2) by auto
  have "\<exists>c'. write_sector_pages ch n (a + 256) (drop 256 pBuf) c1 = Some (0, c')"
    using Suc.prems(2) by (intro Suc.IH) (use Suc.prems(1)[of "Suc _"] in \<open>auto simp: add.commute\<close>)
  then show ?case using c1 by simp
qed

text \<open>The verification of \<open>QSpiWriteOneSector\<close> is void: if no page ever reads back as written, ten attempts
  each, the routine still returns 0, success. (The counter has wrapped to \<open>0xFFFFFFFF\<close> when the loop gives
  up, and the test is for 0, which a page that verified on its tenth attempt leaves.)\<close>
lemma QSpiWriteOneSector_silent_failure:
  assumes "4096 \<le> length pBuf" and "\<And>a c i. i < 16 \<Longrightarrow> QSpiFlashRead ch a 256 c \<noteq> take 256 (drop (256 * i) pBuf)"
  shows "\<exists>c'. QSpiWriteOneSector ch SectorAddr pBuf c = Some (0, c')"
  unfolding QSpiWriteOneSector_def by (rule pages_never_verified) (use assms in auto)

lemma QSpiWriteOneSector_silent_failure_witness:
  "\<exists>c'. QSpiWriteOneSector (nor_chip\<lparr>seq_read := \<lambda>t n c. zeros n\<rparr>) 0x33000 (replicate 4096 1) (\<lambda>x. 0) = Some (0, c')"
proof (rule QSpiWriteOneSector_silent_failure)
  have "QSpiFlashRead (nor_chip\<lparr>seq_read := \<lambda>t n c. zeros n\<rparr>) a 256 c = zeros 256" for a c
    by (simp add: QSpiFlashRead_def QSpiFlashRead_loop.simps[of _ _ 256 0] QSpiFlashRead_loop.simps[of _ _ 256 256])
  then show "QSpiFlashRead (nor_chip\<lparr>seq_read := \<lambda>t n c. zeros n\<rparr>) a 256 c \<noteq> take 256 (drop (256 * i) (replicate 4096 1))"
    if "i < 16" for a c i
    by (simp only: drop_replicate take_replicate zeros_def replicate_eq_replicate) simp
qed simp

end
