(* ===== verification/LanServer.thy ===== *)
theory LanServer
  imports McuGateway FlashDrv
begin

text \<open>
  The server for the phones on the LAN (App/GizWitsWifi/lan/lan.c and lan/Socket.c): the tables of
  connected and of logged-in TCP clients, the command dispatcher with its handlers, the idle timer,
  discovery and onboarding over UDP, and the firmware update over the LAN. The handlers take the
  1024 byte receive buffer. What the sockets deliver is an argument of each step; what the code
  sends or closes is its list of effects.
\<close>

section \<open>Commands of the TCP clients\<close>

definition handlePasscode :: "int \<Rightarrow> gw \<Rightarrow> effect list option" where
  "handlePasscode tcpclient g = do {
     pass \<leftarrow> rd_seg (wifipasscode (g_stGAgentConfigData g)) 0 10;
     Some [Send tcpclient ([0x00, 0x00, 0x00, 0x03, 0x0F, 0x00, 0x00, 0x07, 0x00, 0x0a] @ pass)]
   }"

fun first_index :: "'a \<Rightarrow> 'a list \<Rightarrow> nat option" where
  "first_index x [] = None"
| "first_index x (y # ys) = (if y = x then Some 0 else map_option Suc (first_index x ys))"

definition login_ack :: "u8 \<Rightarrow> bytes" where
  "login_ack status = [0x00, 0x00, 0x00, 0x03, 0x04, 0x00, 0x00, 0x09, status]"

definition handleLogin :: "int \<Rightarrow> bytes \<Rightarrow> gw \<Rightarrow> (gw \<times> effect list) option" where
  "handleLogin tcpclient buf g = do {
     got \<leftarrow> rd_seg buf 10 10;
     pass \<leftarrow> rd_seg (wifipasscode (g_stGAgentConfigData g)) 0 10;
     if got = pass
     then Some (case first_index 0 (g_SocketLogin g) of
         None \<Rightarrow> (g, [])
       | Some i \<Rightarrow> (g\<lparr>g_SocketLogin := (g_SocketLogin g)[i := tcpclient]\<rparr>, [Send tcpclient (login_ack 0)]))
     else Some (g, [Send tcpclient (login_ack 1)])
   }"

abbreviation (input) "CMD_SEND_MCU_P0_ACK \<equiv> (0x04 :: u8)"

definition LAN_handleMCUData :: "env \<Rightarrow> int \<Rightarrow> bytes \<Rightarrow> u16 \<Rightarrow> gw \<Rightarrow> (gw \<times> effect list) option" where
  "LAN_handleMCUData e tcpclient P0data P0len g = do {
     (ret, g) \<leftarrow> GAgentV4_CtlDev_with_p0 e P0data P0len g;
     if ret = 0 then do {
       ack \<leftarrow> SendCtlAckCmd e CMD_SEND_MCU_P0_ACK 1 g;
       (g, status) \<leftarrow> ResponseDevStatus (later_mem 2 e) tcpclient g;
       Some (g, ack @ status)
     } else Some (g, [])
   }"

definition GetWifiHotspots :: "env \<Rightarrow> int \<Rightarrow> gw \<Rightarrow> effect list option" where
  "GetWifiHotspots e tcpclient g =
     (if g_WifihotspotsLen g = 0 \<or> \<not> e_mem e 0 then Some []
      else do {
        spots \<leftarrow> rd_seg (g_Wifihotspots g) 0 (unat (g_WifihotspotsLen g));
        let TempVarLen = 1 + 2 + g_WifihotspotsLen g;
        let packet = [0x00, 0x00, 0x00, 0x03] @ Tran2varc TempVarLen @ [0x00, 0x00, 0x0D] @ spots;
        WifiHotspots_Ack \<leftarrow> wr_seg (zeros 1024) 0 packet;
        out \<leftarrow> rd_seg WifiHotspots_Ack 0 (4 + unat TempVarLen + length (Tran2varc TempVarLen));
        Some [Send tcpclient out]
      })"

text \<open>\<open>WifiVersion\<close> has 100 bytes; the length of the version is split by 255.\<close>

definition GetWifiVersion :: "int \<Rightarrow> gw \<Rightarrow> effect list option" where
  "GetWifiVersion nSocket g = do {
     ver \<leftarrow> rd_seg (g_busiProtocolVer g) 0 (unat (g_busiProtocolVerLen g));
     let tempVarLen = 9 + g_busiProtocolVerLen g;
     let packet = [0x00, 0x00, 0x00, 0x03] @ Tran2varc tempVarLen @ [0x00, 0x00, 0x0b, 0x00, 0x00, 0x00, 0x03,
       ucast (g_busiProtocolVerLen g div 255), ucast (g_busiProtocolVerLen g mod 255)] @ ver;
     WifiVersion \<leftarrow> wr_seg (zeros 100) 0 packet;
     out \<leftarrow> rd_seg WifiVersion 0 (unat tempVarLen + length (Tran2varc tempVarLen) + 4);
     Some [Send nSocket out]
   }"

text \<open>A version length outside 1 to 32 is replaced by the version V1.0.\<close>

definition firmware_version :: "gw \<Rightarrow> (nat \<times> gw) option" where
  "firmware_version g = do {
     n \<leftarrow> rd (FirmwareVerLen (g_stGAgentConfigData g)) 1;
     if 32 < n \<or> n = 0 then do {
       ver \<leftarrow> wr_seg (FirmwareVer (g_stGAgentConfigData g)) 0 (ascii ''V1.0'');
       Some (4, g\<lparr>g_stGAgentConfigData := (g_stGAgentConfigData g)\<lparr>FirmwareVer := ver\<rparr>\<rparr>)
     } else Some (unat n, g)
   }"

definition GetWifiInfo :: "env \<Rightarrow> int \<Rightarrow> gw \<Rightarrow> (int \<times> gw \<times> effect list) option" where
  "GetWifiInfo e nSocket g = do {
     (n, g) \<leftarrow> firmware_version g;
     if \<not> e_mem e 0 then Some (1, g, [])
     else do {
       hard \<leftarrow> rd_seg (hard_ver g) 0 8;
       soft \<leftarrow> rd_seg (soft_ver g) 0 8;
       p0 \<leftarrow> rd_seg (p0_ver g) 0 8;
       fid \<leftarrow> rd_seg (FirmwareId (g_stGAgentConfigData g)) 0 8;
       fver \<leftarrow> rd_seg (FirmwareVer (g_stGAgentConfigData g)) 0 n;
       key \<leftarrow> rd_seg (product_key g) 0 32;
       Some (0, g, [Send nSocket ([0x00, 0x00, 0x00, 0x03, of_nat (92 + n - 5), 0x00, 0x00, 0x14] @ ascii ''06NL6621'' @
         ascii ''04000001'' @ hard @ soft @ p0 @ fid @ [0, of_nat n] @ fver @ [0, 32] @ key)])
     }
   }"

definition LanAppTick_Ack :: "int \<Rightarrow> effect list" where
  "LanAppTick_Ack nSocket = [Send nSocket [0x00, 0x00, 0x00, 0x03, 0x03, 0x00, 0x00, 0x16]]"

text \<open>The command byte, and where P0 starts. \<open>varlen\<close> is taken one byte too far.\<close>

definition lan_header :: "bytes \<Rightarrow> (u8 \<times> nat \<times> u16) option" where
  "lan_header pData = do {
     varlen \<leftarrow> mqtt_num_rem_len_bytes (drop 4 pData);
     datalen \<leftarrow> mqtt_parse_rem_len (drop 3 pData);
     cmd \<leftarrow> rd pData (7 + unat varlen - 1);
     Some (cmd, 7 + unat varlen, datalen)
   }"

definition DispatchTCPData :: "env \<Rightarrow> int \<Rightarrow> bytes \<Rightarrow> gw \<Rightarrow> (gw \<times> effect list) option" where
  "DispatchTCPData e nSocket pData g = do {
     version \<leftarrow> rd_seg pData 0 4;
     if version \<noteq> [0x00, 0x00, 0x00, 0x03] then Some (g, [])
     else do {
       (cmd, p0, datalen) \<leftarrow> lan_header pData;
       if cmd = 0x06 then
         (if g_passcodeEnable g = 1 then map_option (\<lambda>eff. (g, eff)) (handlePasscode nSocket g) else Some (g, []))
       else if cmd = 0x08 then handleLogin nSocket pData g
       else if cmd = 0x90 then
         (if nSocket \<in> set (g_SocketLogin g) then LAN_handleMCUData e nSocket (drop p0 pData) (datalen - 3) g
          else Some (g, []))
       else if cmd = 0x0A then map_option (\<lambda>eff. (g, eff)) (GetWifiVersion nSocket g)
       else if cmd = 0x0C then map_option (\<lambda>eff. (g, eff)) (GetWifiHotspots e nSocket g)
       else if cmd = 0x13 then map_option snd (GetWifiInfo e nSocket g)
       else if cmd = 0x15 then Some (g, LanAppTick_Ack nSocket)
       else Some (g, [])
     }
   }"

section \<open>The TCP clients\<close>

abbreviation (input) "LAN_CLIENT_MAXLIVETIME \<equiv> (12 :: int)"
abbreviation (input) "SOCKET_RECBUFFER_LEN \<equiv> (1024 :: nat)"

fun reset_timeout :: "int \<Rightarrow> SOCKET_CLIENT_S list \<Rightarrow> SOCKET_CLIENT_S list" where
  "reset_timeout socketfd [] = []"
| "reset_timeout socketfd (c # cs) =
     (if SocketFD c = socketfd then c\<lparr>TimeOut := LAN_CLIENT_MAXLIVETIME\<rparr> # cs else c # reset_timeout socketfd cs)"

definition Socket_ResetClientTimeout :: "int \<Rightarrow> gw \<Rightarrow> gw" where
  "Socket_ResetClientTimeout socketfd g = g\<lparr>g_stTCPSocketClients := reset_timeout socketfd (g_stTCPSocketClients g)\<rparr>"

definition logout :: "int \<Rightarrow> int list \<Rightarrow> int list" where
  "logout fd login = map (\<lambda>l. if l = fd then 0 else l) login"

text \<open>One client in the round of the timer: the client, the login table, and what is closed.\<close>

definition client_tick :: "SOCKET_CLIENT_S \<Rightarrow> int list \<Rightarrow> SOCKET_CLIENT_S \<times> int list \<times> effect list" where
  "client_tick c login =
     (if 0 < TimeOut c
      then let c = c\<lparr>TimeOut := TimeOut c - 1\<rparr>
        in if TimeOut c = 0 \<and> 0 < SocketFD c
           then (c\<lparr>SocketFD := -1\<rparr>, logout (SocketFD c) login, [CloseFd (SocketFD c)])
           else (c, login, [])
      else (c, login, []))"

fun clients_tick :: "SOCKET_CLIENT_S list \<Rightarrow> int list \<Rightarrow> SOCKET_CLIENT_S list \<times> int list \<times> effect list" where
  "clients_tick [] login = ([], login, [])"
| "clients_tick (c # cs) login =
     (let (c, login, eff) = client_tick c login; (cs, login, effs) = clients_tick cs login in (c # cs, login, eff @ effs))"

definition Socket_ClientTimeoutTimer :: "gw \<Rightarrow> gw \<times> effect list" where
  "Socket_ClientTimeoutTimer g =
     (let (cs, login, eff) = clients_tick (g_stTCPSocketClients g) (g_SocketLogin g)
      in (g\<lparr>g_stTCPSocketClients := cs, g_SocketLogin := login\<rparr>, eff))"

definition Init_Service :: "gw \<Rightarrow> gw" where
  "Init_Service g = g\<lparr>g_stTCPSocketClients := replicate 8 no_client\<rparr>"

text \<open>What \<open>recv\<close> delivers: data, the end of the stream, or an error.\<close>

datatype rx = Rx bytes | RxClosed | RxError

text \<open>One ready client in the round of the server.\<close>

definition serve_client :: "env \<Rightarrow> nat \<Rightarrow> rx \<Rightarrow> gw \<Rightarrow> (gw \<times> effect list) option" where
  "serve_client e i r g = do {
     c \<leftarrow> rd (g_stTCPSocketClients g) i;
     let fd = SocketFD c;
     if fd = -1 then Some (g, [])
     else case r of
       Rx data \<Rightarrow> do {
         buf \<leftarrow> wr_seg (zeros SOCKET_RECBUFFER_LEN) 0 data;
         let g = g\<lparr>g_stSocketRecBuffer := buf\<rparr>;
         if length data < SOCKET_RECBUFFER_LEN then DispatchTCPData e fd buf (Socket_ResetClientTimeout fd g)
         else Some (g, [])
       }
     | RxClosed \<Rightarrow>
         Some (g\<lparr>g_stSocketRecBuffer := zeros SOCKET_RECBUFFER_LEN, g_SocketLogin := logout fd (g_SocketLogin g),
                 g_stTCPSocketClients := (g_stTCPSocketClients g)[i := c\<lparr>SocketFD := -1\<rparr>]\<rparr>,
               if 0 < fd then [CloseFd fd] else [])
     | RxError \<Rightarrow> Some (g\<lparr>g_stSocketRecBuffer := zeros SOCKET_RECBUFFER_LEN\<rparr>, [])
   }"

text \<open>\<open>ready\<close> lists what \<open>select\<close> reports, slot by slot in order: the slot, its environment and its input.\<close>

fun Socket_DoTCPServer :: "(nat \<times> env \<times> rx) list \<Rightarrow> gw \<Rightarrow> (gw \<times> effect list) option" where
  "Socket_DoTCPServer [] g = Some (g, [])"
| "Socket_DoTCPServer ((i, e, r) # ready) g = do {
     (g, eff) \<leftarrow> serve_client e i r g;
     (g, effs) \<leftarrow> Socket_DoTCPServer ready g;
     Some (g, eff @ effs)
   }"


section \<open>Discovery and onboarding\<close>

definition Build_BroadCastPacket :: "int \<Rightarrow> bytes \<Rightarrow> gw \<Rightarrow> (bytes \<times> gw) option" where
  "Build_BroadCastPacket UdpFlag b g = do {
     v \<leftarrow> rd (FirmwareVerLen (g_stGAgentConfigData g)) 1;
     b \<leftarrow> (if 32 < v \<or> v = 0 then do { old \<leftarrow> rd b 9; wr b (9 + unat old + 2 + 8) 4 } else Some b);
     (n, g) \<leftarrow> firmware_version g;
     b \<leftarrow> wr_seg b 0 [0x00, 0x00, 0x00, 0x03,
       of_nat (1 + 2 + 2 + DIdLen g + 2 + 6 + 2 + n + 2 + g_productKeyLen g), 0x00];
     b \<leftarrow> (if UdpFlag = 1 then wr_seg b 6 [0x00, 0x05] else if UdpFlag = 0 then wr_seg b 6 [0x00, 0x04] else Some b);
     let d = (of_nat (DIdLen g) :: u8);
     b \<leftarrow> wr_seg b 8 [0x00, d];
     did \<leftarrow> rd_seg (DID g) 0 (DIdLen g);
     b \<leftarrow> wr_seg b 10 did;
     b \<leftarrow> wr_seg b (9 + unat d + 1) [0x00, 0x06];
     mac \<leftarrow> rd_seg (Service_mac g) 0 6;
     b \<leftarrow> wr_seg b (9 + unat d + 3) mac;
     b \<leftarrow> wr_seg b (9 + unat d + 2 + 7) [0x00, of_nat n];
     ver \<leftarrow> rd_seg (FirmwareVer (g_stGAgentConfigData g)) 0 n;
     b \<leftarrow> wr_seg b (9 + unat d + 2 + 9) ver;
     let len = 9 + unat d + 2 + 8 + n + 1;
     b \<leftarrow> wr_seg b len [0x00, of_nat (g_productKeyLen g)];
     key \<leftarrow> rd_seg (product_key g) 0 32;
     b \<leftarrow> wr_seg b (len + 2) key;
     Some (b, g)
   }"

text \<open>\<open>sendto\<close> takes the length from the packet's own length byte.\<close>

definition packet_out :: "bytes \<Rightarrow> bytes option" where
  "packet_out b = do { l \<leftarrow> rd b 4; rd_seg b 0 (unat l + 5) }"

text \<open>\<open>stack\<close> is the uninitialised array.\<close>

definition Socket_SendBroadCastPacket :: "bytes \<Rightarrow> nat \<Rightarrow> gw \<Rightarrow> (gw \<times> effect list) option" where
  "Socket_SendBroadCastPacket stack time g =
     (if g_UDPBroadcastServerFd g = -1 then Some (g, [])
      else do {
        (b, g) \<leftarrow> Build_BroadCastPacket 1 stack g;
        if 0 < time \<and> -1 < g_UDPBroadcastServerFd g
        then do {
          out \<leftarrow> packet_out b;
          Some (g, replicate time (SendTo (g_UDPBroadcastServerFd g) (g_stUDPBroadcastAddr g) out))
        } else Some (g, [])
      })"

text \<open>
  Both strings are copied to arrays of 32 bytes on the stack, with a zero written one place after
  the place that \<open>strncpy\<close> left zero.
\<close>

definition Udp_Onboarding :: "bytes \<Rightarrow> gw \<Rightarrow> (gw \<times> effect list) option" where
  "Udp_Onboarding buf g = do {
     n \<leftarrow> rd buf 9;
     k \<leftarrow> rd buf (10 + unat n + 1);
     StaSsid \<leftarrow> c_strncpy (zeros 32) (drop 10 buf) (unat n);
     StaSsid \<leftarrow> wr StaSsid (unat n + 1) 0;
     StaPass \<leftarrow> c_strncpy (zeros 32) (drop (10 + unat n + 2) buf) (unat k);
     StaPass \<leftarrow> wr StaPass (unat k + 1) 0;
     ssid \<leftarrow> rd_seg StaSsid 0 (unat n);
     ssid \<leftarrow> wr_seg (zeros 32) 0 ssid;
     key \<leftarrow> rd_seg StaPass 0 (unat k);
     key \<leftarrow> wr_seg (zeros 32) 0 key;
     let c = g_stGAgentConfigData g;
     Some (g\<lparr>g_stGAgentConfigData := c\<lparr>wifi_ssid := ssid, wifi_key := key, cfg_flag := cfg_flag c OR 1\<rparr>\<rparr>,
       [StationStart StaSsid StaPass])
   }"

definition Socket_DispatchUDPRecvData :: "bytes \<Rightarrow> u32 \<times> u16 \<Rightarrow> gw \<Rightarrow> (int \<times> gw \<times> effect list) option" where
  "Socket_DispatchUDPRecvData pData addr g = do {
     cmd \<leftarrow> rd pData 7;
     if cmd = 0x01 then
       (if sys_onboarding g = 0 \<and> sys_wifi_status g = 1
        then do {
          (g, eff) \<leftarrow> Udp_Onboarding pData g;
          Some (0, g\<lparr>sys_onboarding := 1\<rparr>, eff @ [SendTo (g_UDPServerFd g) addr [0x00, 0x00, 0x00, 0x03, 0x03, 0x00, 0x00, 0x02]])
        } else Some (0, g, []))
     else if cmd = 0x03 then do {
       (b, g) \<leftarrow> Build_BroadCastPacket 0 (zeros 200) g;
       out \<leftarrow> packet_out b;
       Some (0, g, [SendTo (g_UDPServerFd g) addr out])
     } else Some (-1, g, [])
   }"

section \<open>The firmware update\<close>

abbreviation (input) "UPGRADE_START \<equiv> (0x01 :: u32)"
abbreviation (input) "UPGRADE_DOING \<equiv> (0x04 :: u32)"
abbreviation (input) "UPGRADE_OKFILE \<equiv> (0x08 :: u32)"
abbreviation (input) "UPGRADE_DONE \<equiv> (0x10 :: u32)"
abbreviation (input) "OTA_FW_BAK_OFFSET \<equiv> (0x34000 :: u32)"
abbreviation (input) "NVM_FW_MAIN_OFFSET \<equiv> (0 :: u32)"

definition upgrade_resp :: bytes where
  "upgrade_resp = be16 6 @ [0x01, 0xA1, 0x20, 1, 0, 0]"

definition DevSendCtrlMsg :: "bytes \<Rightarrow> int \<times> u32 \<times> u16 \<Rightarrow> effect list" where
  "DevSendCtrlMsg buf sock_info = (case sock_info of (fd, ip, port) \<Rightarrow> [SendTo fd (ip, port) buf])"

text \<open>Four times: the counter is compared before it is counted up.\<close>

definition FwUpgradeFinishAck :: "gw \<Rightarrow> effect list" where
  "FwUpgradeFinishAck g = concat (replicate 4 (DevSendCtrlMsg upgrade_resp (upgrade_socket_info g)))"

text \<open>\<open>sent\<close> is the result of \<open>sendto\<close>.\<close>

definition FwUpgradeProcess :: "int \<Rightarrow> bytes \<Rightarrow> int \<times> u32 \<times> u16 \<Rightarrow> gw \<Rightarrow> (gw \<times> effect list) option" where
  "FwUpgradeProcess sent cmd_pkt sock_info g = do {
     sz \<leftarrow> rd_seg cmd_pkt 6 4;
     n \<leftarrow> of_le32 sz;
     let g = g\<lparr>upgradeFlag := upgradeFlag g OR UPGRADE_START, fileSize := bswap32 n\<rparr>;
     Some (if sent < 0 then g\<lparr>upgradeFlag := 0\<rparr> else g, DevSendCtrlMsg upgrade_resp sock_info)
   }"

text \<open>The copy of the saved sectors to the main area, through the data buffer: result, buffer, chip.\<close>

fun install_sectors :: "'c flash_chip \<Rightarrow> nat \<Rightarrow> u32 \<Rightarrow> bytes \<Rightarrow> 'c \<Rightarrow> (int \<times> bytes \<times> 'c) option" where
  "install_sectors ch 0 i buf c = Some (0, buf, c)"
| "install_sectors ch (Suc n) i buf c = do {
     let buf = QSpiFlashRead ch (OTA_FW_BAK_OFFSET + i * 4096) 4096 c;
     (r, c) \<leftarrow> QSpiWriteOneSector ch (NVM_FW_MAIN_OFFSET + i * 4096) buf c;
     if r \<noteq> 0 then Some (-1, buf, c) else install_sectors ch n (i + 1) buf c
   }"

definition close_clients :: "gw \<Rightarrow> effect list" where
  "close_clients g = map (\<lambda>c. CloseFd (SocketFD c)) (filter (\<lambda>c. 0 < SocketFD c) (g_stTCPSocketClients g))"

text \<open>
  How the receive loop is left: \<open>Returned\<close> is \<open>return -1\<close>; after \<open>Broke\<close> the code goes on to enter the
  connection into the client table.
\<close>

datatype ota_exit = Returned | Broke

definition start_doing :: "gw \<Rightarrow> gw" where
  "start_doing g = (if upgradeFlag g AND UPGRADE_DOING = 0
     then g\<lparr>WritePtr := 0, recvFileSize := 0, upgradeFlag := upgradeFlag g OR UPGRADE_DOING\<rparr> else g)"

text \<open>The file is complete: the last sector is saved as it stands, then all sectors are copied.\<close>

definition ota_finish :: "'c flash_chip \<Rightarrow> int \<Rightarrow> gw \<Rightarrow> 'c \<Rightarrow> (ota_exit \<times> gw \<times> 'c \<times> effect list) option" where
  "ota_finish ch newClientfd g c = do {
     let g = g\<lparr>upgradeFlag := upgradeFlag g OR UPGRADE_OKFILE\<rparr>;
     (r, c) \<leftarrow> QSpiWriteOneSector ch (OTA_FW_BAK_OFFSET + upgradeSector g * 4096) (OtaDataBuf g) c;
     if r \<noteq> 0 then Some (Broke, g\<lparr>upgradeFlag := 0\<rparr>, c, [CloseFd newClientfd])
     else do {
       let g = g\<lparr>upgradeSector := upgradeSector g + 1, WritePtr := 0\<rparr>;
       (r, buf, c) \<leftarrow> install_sectors ch (unat (upgradeSector g)) 0 (OtaDataBuf g) c;
       let g = g\<lparr>OtaDataBuf := buf\<rparr>;
       if r < 0 then Some (Broke, g\<lparr>upgradeFlag := 0\<rparr>, c, [CloseFd newClientfd])
       else Some (Broke, g\<lparr>upgradeFlag := 0, upgradeSector := 0, recvFileSize := 0\<rparr>, c,
         FwUpgradeFinishAck g @ [CloseFd newClientfd, ResetSystem])
     }
   }"

text \<open>
  The receive loop. An empty list: it waits in \<open>recv\<close>. \<open>recv\<close> is asked for the rest of the buffer and
  gives at least one byte of it.
\<close>

fun ota_loop :: "'c flash_chip \<Rightarrow> int \<Rightarrow> rx list \<Rightarrow> gw \<Rightarrow> 'c \<Rightarrow> (ota_exit \<times> gw \<times> 'c \<times> effect list) option" where
  "ota_loop ch newClientfd [] g c = None"
| "ota_loop ch newClientfd (r # rs) g c =
     (if upgradeFlag g AND UPGRADE_START = 0 then Some (Broke, g, c, [])
      else
        let g = start_doing g; closed = close_clients g
        in case r of
          Rx data \<Rightarrow>
            if data = [] \<or> unat (4096 - WritePtr g) < length data then None
            else do {
              buf \<leftarrow> wr_seg (OtaDataBuf g) (unat (WritePtr g)) data;
              let g = g\<lparr>OtaDataBuf := buf, recvFileSize := recvFileSize g + of_nat (length data),
                WritePtr := WritePtr g + of_nat (length data)\<rparr>;
              if recvFileSize g = fileSize g then do {
                (x, g, c, eff) \<leftarrow> ota_finish ch newClientfd g c;
                Some (x, g, c, closed @ eff)
              }
              else if WritePtr g = 4096 then do {
                (w, c) \<leftarrow> QSpiWriteOneSector ch (OTA_FW_BAK_OFFSET + upgradeSector g * 4096) buf c;
                if w \<noteq> 0 then Some (Broke, g\<lparr>upgradeFlag := 0\<rparr>, c, closed @ [CloseFd newClientfd])
                else do {
                  (x, g, c, eff) \<leftarrow> ota_loop ch newClientfd rs (g\<lparr>upgradeSector := upgradeSector g + 1, WritePtr := 0\<rparr>) c;
                  Some (x, g, c, closed @ eff)
                }
              }
              else do {
                (x, g, c, eff) \<leftarrow> ota_loop ch newClientfd rs g c;
                Some (x, g, c, closed @ eff)
              }
            }
        | _ \<Rightarrow> Some (Returned, g\<lparr>upgradeFlag := 0\<rparr>, c, closed @ [CloseFd newClientfd]))"

text \<open>The new connection gets the first free slot, or is closed.\<close>

definition enter_client :: "int \<Rightarrow> u32 \<times> u16 \<Rightarrow> gw \<Rightarrow> int \<times> gw \<times> effect list" where
  "enter_client fd addr g =
     (case first_index (-1) (map SocketFD (g_stTCPSocketClients g)) of
        Some i \<Rightarrow> (fd, g\<lparr>g_stTCPSocketClients := (g_stTCPSocketClients g)[i := \<lparr>SocketFD = fd, TCPClientAddr = addr,
          TimeOut = LAN_CLIENT_MAXLIVETIME\<rparr>]\<rparr>, [])
      | None \<Rightarrow> (-1, g, [CloseFd fd]))"

text \<open>\<open>accepted\<close> is what \<open>select\<close> and \<open>accept\<close> give; \<open>rs\<close> is what the new connection sends during an update.\<close>

definition Socket_CheckNewTCPClient ::
  "'c flash_chip \<Rightarrow> (int \<times> u32 \<times> u16) option \<Rightarrow> rx list \<Rightarrow> gw \<Rightarrow> 'c \<Rightarrow> (int \<times> gw \<times> 'c \<times> effect list) option" where
  "Socket_CheckNewTCPClient ch accepted rs g c =
     (case accepted of
        None \<Rightarrow> Some (-1, g, c, [])
      | Some (newClientfd, addr) \<Rightarrow>
          if newClientfd \<le> 0 then Some (-1, g, c, [])
          else
            let g = (if g_TCPSocketMaxClientFd g < newClientfd then g\<lparr>g_TCPSocketMaxClientFd := newClientfd + 1\<rparr> else g)
            in if upgradeFlag g AND UPGRADE_START \<noteq> 0
               then do {
                 (x, g, c, eff) \<leftarrow> ota_loop ch newClientfd rs g c;
                 if x = Returned then Some (-1, g, c, eff)
                 else case enter_client newClientfd addr g of (ret, g, eff') \<Rightarrow> Some (ret, g, c, eff @ eff')
               }
               else case enter_client newClientfd addr g of (ret, g, eff) \<Rightarrow> Some (ret, g, c, eff))"

section \<open>The UDP server\<close>

text \<open>
  A datagram, with its sender and the result of the \<open>sendto\<close> that may answer it. The receive buffer is
  not cleared: a short datagram leaves the rest of an earlier one behind it.
\<close>

fun udp_receive :: "rx \<Rightarrow> bytes \<Rightarrow> (int \<times> bytes) option" where
  "udp_receive (Rx data) buf =
     (let d = take SOCKET_RECBUFFER_LEN data in map_option (\<lambda>b. (int (length d), b)) (wr_seg buf 0 d))"
| "udp_receive RxClosed buf = Some (0, buf)"
| "udp_receive RxError buf = Some (-1, buf)"

fun Socket_DoUDPServer :: "((u32 \<times> u16) \<times> rx \<times> int) list \<Rightarrow> gw \<Rightarrow> (gw \<times> effect list) option" where
  "Socket_DoUDPServer rs g =
     (if g_UDPServerFd g \<le> 0 then Some (g, [])
      else case rs of
        [] \<Rightarrow> None
      | (addr, r, sent) # rs \<Rightarrow> do {
          (readnum, buf) \<leftarrow> udp_receive r (g_stSocketRecBuffer g);
          let g = g\<lparr>g_stSocketRecBuffer := buf\<rparr>;
          h \<leftarrow> rd buf 0;
          l \<leftarrow> rd buf 1;
          if readnum = int (unat (mk16 h l)) + 2
          then do {
            cmd \<leftarrow> rd buf 3;
            (g, eff) \<leftarrow> (if cmd = 0x20
              then let s = (g_UDPServerFd g, addr) in FwUpgradeProcess sent buf s (g\<lparr>upgrade_socket_info := s\<rparr>)
              else Some (g, []));
            (g, effs) \<leftarrow> Socket_DoUDPServer rs g;
            Some (g, eff @ effs)
          }
          else do {
            varlen \<leftarrow> mqtt_num_rem_len_bytes (drop 4 buf);
            messagelen \<leftarrow> mqtt_parse_rem_len (drop 3 buf);
            if int (unat messagelen) + int (unat varlen) + 4 \<noteq> readnum then Some (g, [])
            else if readnum < int SOCKET_RECBUFFER_LEN
            then map_option (\<lambda>(ret, g, eff). (g, eff)) (Socket_DispatchUDPRecvData buf addr g)
            else Some (g, [])
          }
        })"

declare Socket_DoUDPServer.simps [simp del]

text \<open>The answer to a scan by name, to port 8787 of the sender, in network order.\<close>

definition DevDiscoverThread_step :: "int \<Rightarrow> u32 \<Rightarrow> bytes \<Rightarrow> gw \<Rightarrow> effect list" where
  "DevDiscoverThread_step udp_sock ip data g =
     (if upgradeFlag g \<noteq> 0 then []
      else if take 5 (take 10 data @ zeros 10) = ascii ''scan'' @ [0]
      then replicate 5 (SendTo udp_sock (ip, bswap16 8787) (ascii ''ok''))
      else [])"

definition DevDiscoverResponse :: "int \<Rightarrow> u32 \<Rightarrow> effect list" where
  "DevDiscoverResponse udp_sock ip =
     (if udp_sock = -1 then [] else replicate 6 (SendTo udp_sock (ip, bswap16 8787) (ascii ''ok'')) @ [CloseFd udp_sock])"


section \<open>What each operation leaves alone\<close>

named_theorems lan_frame \<open>the tables and the passcode are untouched\<close>

abbreviation passcode :: "gw \<Rightarrow> bytes" where
  "passcode g \<equiv> wifipasscode (g_stGAgentConfigData g)"

text \<open>The sizes of the objects, and the contents that other operations index with.\<close>

definition lan_shape :: "gw \<Rightarrow> nat list \<times> bytes \<times> u16 \<times> u16 \<times> bytes" where
  "lan_shape g = ([length (g_stTCPSocketClients g), length (g_SocketLogin g), length (passcode g),
     length (FirmwareVerLen (g_stGAgentConfigData g)), length (FirmwareVer (g_stGAgentConfigData g)),
     length (FirmwareId (g_stGAgentConfigData g)), length (hard_ver g), length (soft_ver g), length (p0_ver g),
     length (product_key g), length (g_Wifihotspots g)], g_busiProtocolVer g, g_busiProtocolVerLen g, g_WifihotspotsLen g, DID g)"

definition same_tables :: "gw \<Rightarrow> gw \<Rightarrow> bool" where
  "same_tables g g' \<longleftrightarrow> g_stTCPSocketClients g' = g_stTCPSocketClients g \<and> g_SocketLogin g' = g_SocketLogin g \<and>
     passcode g' = passcode g \<and> lan_shape g' = lan_shape g"

lemma same_tables_refl [lan_frame]: "same_tables g g"
  by (simp add: same_tables_def)

lemma same_tables_trans: "same_tables g g' \<Longrightarrow> same_tables g' g'' \<Longrightarrow> same_tables g g''"
  by (simp add: same_tables_def)

lemma firmware_version_tables [lan_frame]: "firmware_version g = Some (n, g') \<Longrightarrow> same_tables g g' \<and> device g' = device g"
  by (auto simp: firmware_version_def same_tables_def lan_shape_def split: bind_splits if_splits dest!: length_wr_seg)

lemma PubMsg_tables [lan_frame]: "PubMsg e t p n k g = Some (r, g', eff) \<Longrightarrow> same_tables g g' \<and> device g' = device g"
  by (cases "k = 0 \<or> k = 1") (auto simp: PubMsg_def same_tables_def lan_shape_def split: bind_splits)

lemma MCU_SendPublishPacket_tables [lan_frame]:
  "MCU_SendPublishPacket e b n g = Some (r, g', eff) \<Longrightarrow> same_tables g g' \<and> device g' = device g"
  by (auto simp: MCU_SendPublishPacket_def Let_def split: bind_splits if_splits dest: PubMsg_tables intro: same_tables_refl)

lemma ReportStatus_tables [lan_frame]: "ReportStatus tag sn g = Some (f, g') \<Longrightarrow> same_tables g g' \<and> device g' = device g"
  by (auto simp: ReportStatus_def same_tables_def lan_shape_def Let_def split: bind_splits)

lemma ResponseDevStatus_tables [lan_frame]:
  "ResponseDevStatus e fd g = Some (g', eff) \<Longrightarrow> same_tables g g' \<and> device g' = device g"
  by (auto simp: ResponseDevStatus_def split: bind_splits dest!: ReportStatus_tables MCU_SendPublishPacket_tables intro: same_tables_trans)

lemma CtlDev_tables [lan_frame]: "GAgentV4_CtlDev_with_p0 e d n g = Some (r, g') \<Longrightarrow> same_tables g g'"
  by (auto simp: GAgentV4_CtlDev_with_p0_def same_tables_def lan_shape_def split: bind_splits if_splits)

lemma LAN_handleMCUData_tables [lan_frame]: "LAN_handleMCUData e fd d n g = Some (g', eff) \<Longrightarrow> same_tables g g'"
  by (auto simp: LAN_handleMCUData_def split: bind_splits if_splits dest!: CtlDev_tables ResponseDevStatus_tables intro: same_tables_trans)

lemma GetWifiInfo_tables [lan_frame]: "GetWifiInfo e fd g = Some (r, g', eff) \<Longrightarrow> same_tables g g' \<and> device g' = device g"
  by (auto simp: GetWifiInfo_def split: bind_splits if_splits dest!: firmware_version_tables)

lemma first_index_Some: "first_index x ys = Some i \<Longrightarrow> i < length ys \<and> ys ! i = x"
  by (induction ys arbitrary: i) (auto split: if_splits)

lemma first_index_None: "first_index x ys = None \<longleftrightarrow> x \<notin> set ys"
  by (induction ys) auto

lemma handleLogin_cases:
  assumes "handleLogin fd buf g = Some (g', eff)"
  shows "(g' = g \<or> (\<exists>i < length (g_SocketLogin g). g_SocketLogin g ! i = 0 \<and>
      g' = g\<lparr>g_SocketLogin := (g_SocketLogin g)[i := fd]\<rparr> \<and> rd_seg buf 10 10 = rd_seg (passcode g) 0 10))"
  using assms by (auto simp: handleLogin_def split: bind_splits if_splits option.splits dest!: first_index_Some)

definition logs_in :: "gw \<Rightarrow> bytes \<Rightarrow> bool" where
  "logs_in g buf \<longleftrightarrow> map_option fst (lan_header buf) = Some 0x08 \<and> rd_seg buf 10 10 = rd_seg (passcode g) 0 10"

lemma dispatch_cases:
  assumes "DispatchTCPData e fd buf g = Some (g', eff)"
  shows "g_stTCPSocketClients g' = g_stTCPSocketClients g \<and> passcode g' = passcode g \<and> lan_shape g' = lan_shape g \<and>
    (g_SocketLogin g' = g_SocketLogin g \<or>
     (\<exists>i < length (g_SocketLogin g). g_SocketLogin g ! i = 0 \<and> g_SocketLogin g' = (g_SocketLogin g)[i := fd] \<and> logs_in g buf)) \<and>
    (device g' = device g \<or> fd \<in> set (g_SocketLogin g))"
  using assms
  by (auto simp: DispatchTCPData_def logs_in_def same_tables_def split: bind_splits if_splits
      dest!: handleLogin_cases LAN_handleMCUData_tables GetWifiInfo_tables) (simp_all add: lan_shape_def)

section \<open>The server as a machine\<close>

text \<open>
  A state of the server: its globals, the flash, and the set of the connections that have presented the
  passcode since they were accepted (what the access control is about; the code does not keep it).
  Whatever else changes the device, its timers and the cloud, is \<open>lan_device\<close>. A new connection gets a
  descriptor that no open connection has. A connection accepted during a firmware update carries the update: when
  the file has been installed, the chip resets and the server starts again. What the machine does not go on from is a
  transfer that breaks off, after which closed clients stand in both tables (\<open>LanUpdate.broken_update_leaves\<close>).
\<close>

definition client_fds :: "gw \<Rightarrow> int set" where
  "client_fds g = SocketFD ` set (g_stTCPSocketClients g)"

definition shown :: "gw \<Rightarrow> rx \<Rightarrow> bool" where
  "shown g r = (case r of Rx data \<Rightarrow> logs_in g (put (zeros 1024) 0 data) | _ \<Rightarrow> False)"

inductive lan_step :: "'c flash_chip \<Rightarrow> gw \<times> 'c \<times> int set \<Rightarrow> gw \<times> 'c \<times> int set \<Rightarrow> bool" for ch :: "'c flash_chip" where
  lan_accept: "Socket_CheckNewTCPClient ch (Some (fd, addr)) rs g c = Some (ret, g', c', eff) \<Longrightarrow>
    upgradeFlag g AND UPGRADE_START = 0 \<Longrightarrow> fd \<notin> client_fds g \<Longrightarrow> lan_step ch (g, c, C) (g', c', C - {fd})"
| lan_installed: "Socket_CheckNewTCPClient ch (Some (fd, addr)) rs g c = Some (ret, g', c', eff) \<Longrightarrow> ResetSystem \<in> set eff \<Longrightarrow>
    g_SocketLogin g0 = replicate 8 0 \<Longrightarrow> lan_step ch (g, c, C) (Init_Service g0, c', {})"
| lan_serve: "serve_client e i r g = Some (g', eff) \<Longrightarrow>
    lan_step ch (g, c, C) (g', c, if shown g r then insert (SocketFD (g_stTCPSocketClients g ! i)) C else C)"
| lan_tick: "Socket_ClientTimeoutTimer g = (g', eff) \<Longrightarrow> lan_step ch (g, c, C) (g', c, C)"
| lan_udp: "Socket_DoUDPServer ds g = Some (g', eff) \<Longrightarrow> lan_step ch (g, c, C) (g', c, C)"
| lan_broadcast: "Socket_SendBroadCastPacket stack n g = Some (g', eff) \<Longrightarrow> lan_step ch (g, c, C) (g', c, C)"
| lan_passcode_off: "lan_step ch (g, c, C) (MCU_PasscodeTimer g, c, C)"
| lan_device: "lan_step ch (g, c, C) (g\<lparr>device := d\<rparr>, c, C)"

inductive lan_reach :: "'c flash_chip \<Rightarrow> gw \<times> 'c \<times> int set \<Rightarrow> bool" for ch :: "'c flash_chip" where
  lan_init: "g_SocketLogin g = replicate 8 0 \<Longrightarrow> lan_reach ch (Init_Service g, c, {})"
| lan_next: "lan_reach ch s \<Longrightarrow> lan_step ch s s' \<Longrightarrow> lan_reach ch s'"

inductive_cases lan_step_cases: "lan_step ch s s'"

text \<open>Every entry of the login table is a connected client that has shown the passcode.\<close>

definition login_ok :: "int set \<Rightarrow> int set \<Rightarrow> int list \<Rightarrow> bool" where
  "login_ok fds C login \<longleftrightarrow> set login \<subseteq> insert 0 {l. 0 < l \<and> l \<in> fds \<and> l \<in> C}"

definition lan_inv :: "gw \<times> 'c \<times> int set \<Rightarrow> bool" where
  "lan_inv s = (case s of (g, c, C) \<Rightarrow>
     length (g_stTCPSocketClients g) = 8 \<and> length (g_SocketLogin g) = 8 \<and>
     client_fds g \<subseteq> insert (-1) {l. 0 < l} \<and> login_ok (client_fds g) C (g_SocketLogin g))"

lemma client_fds_reset: "SocketFD ` set (reset_timeout fd cs) = SocketFD ` set cs"
  by (induction cs) auto

lemma length_reset: "length (reset_timeout fd cs) = length cs"
  by (induction cs) auto

lemma set_logout: "set (logout fd login) \<subseteq> insert 0 (set login - {fd})"
  by (auto simp: logout_def)

lemma client_tick_inv:
  assumes "client_tick c login = (c', login', eff)" and "login_ok (insert (SocketFD c) fds) C login"
  shows "login_ok (insert (SocketFD c') fds) C login'" and "length login' = length login" and "SocketFD c' \<in> {SocketFD c, -1}"
  using assms set_logout[of "SocketFD c" login]
  by (auto simp: client_tick_def login_ok_def logout_def Let_def split: if_splits)

lemma clients_tick_inv:
  "clients_tick cs login = (cs', login', eff) \<Longrightarrow> login_ok (SocketFD ` set cs \<union> fds) C login \<Longrightarrow>
   login_ok (SocketFD ` set cs' \<union> fds) C login' \<and> length login' = length login \<and> length cs' = length cs \<and>
   SocketFD ` set cs' \<subseteq> insert (-1) (SocketFD ` set cs)"
proof (induction cs arbitrary: login cs' login' eff fds)
  case Nil
  then show ?case by simp
next
  case (Cons c cs)
  obtain c1 l1 e1 where c1: "client_tick c login = (c1, l1, e1)" by (metis prod_cases3)
  obtain cs2 l2 e2 where cs2: "clients_tick cs l1 = (cs2, l2, e2)" by (metis prod_cases3)
  have "login_ok (insert (SocketFD c) (SocketFD ` set cs \<union> fds)) C login" using Cons.prems(2) by simp
  note t = client_tick_inv[OF c1 this]
  have "login_ok (SocketFD ` set cs \<union> insert (SocketFD c1) fds) C l1" using t(1) by simp
  note ih = Cons.IH[OF cs2 this]
  have r: "cs' = c1 # cs2" "login' = l2" using Cons.prems(1) c1 cs2 by simp_all
  have "SocketFD ` set cs2 \<subseteq> insert (-1) (SocketFD ` set cs)" using ih by blast
  then have "SocketFD ` set cs' \<subseteq> insert (-1) (SocketFD ` set (c # cs))" using t(3) unfolding r by auto
  then show ?case using ih t(2) by (simp add: r)
qed

lemma login_ok_mono: "login_ok fds C login \<Longrightarrow> fds \<subseteq> fds' \<Longrightarrow> C \<subseteq> C' \<Longrightarrow> login_ok fds' C' login"
  by (auto simp: login_ok_def)

lemma login_ok_update:
  "login_ok fds C login \<Longrightarrow> fd \<in> fds \<Longrightarrow> 0 < fd \<Longrightarrow> login_ok fds (insert fd C) (login[i := fd])"
  using set_update_subset_insert[of login i fd] by (auto simp: login_ok_def)

lemma client_fds_same: "g_stTCPSocketClients g' = g_stTCPSocketClients g \<Longrightarrow> client_fds g' = client_fds g"
  by (simp add: client_fds_def)

lemma lan_inv_same:
  assumes "lan_inv (g, c, C)" and "g_stTCPSocketClients g' = g_stTCPSocketClients g" and "g_SocketLogin g' = g_SocketLogin g"
  shows "lan_inv (g', c', C)"
  using assms by (simp add: lan_inv_def client_fds_def)

lemma other_client:
  assumes "l \<in> SocketFD ` set cs" and "SocketFD (cs ! i) \<noteq> l"
  shows "l \<in> SocketFD ` set (cs[i := c])"
proof -
  obtain j where j: "j < length cs" "SocketFD (cs ! j) = l" using assms(1) by (auto simp: in_set_conv_nth)
  then have "cs[i := c] ! j = cs ! j" using assms(2) by (intro nth_list_update_neq) auto
  then have "cs ! j \<in> set (cs[i := c])" using j(1) by (metis length_list_update nth_mem)
  then show ?thesis using j(2) by auto
qed

lemma serve_client_inv:
  assumes inv: "lan_inv (g, c, C)" and s: "serve_client e i r g = Some (g', eff)"
  shows "lan_inv (g', c, if shown g r then insert (SocketFD (g_stTCPSocketClients g ! i)) C else C)"
proof -
  define fd where "fd = SocketFD (g_stTCPSocketClients g ! i)"
  have i: "i < length (g_stTCPSocketClients g)" using s by (auto simp: serve_client_def rd_def split: bind_splits if_splits)
  then have fd: "fd \<in> client_fds g" by (simp add: fd_def client_fds_def)
  show ?thesis
  proof (cases "fd = -1")
    case True
    then have "g' = g" using s i by (simp add: serve_client_def fd_def)
    then show ?thesis using inv by (auto simp: lan_inv_def intro: login_ok_mono)
  next
    case nofd: False
    then have pos: "0 < fd" using fd inv by (auto simp: lan_inv_def)
    show ?thesis
    proof (cases r)
      case (Rx data)
      define b where "b = put (zeros 1024) 0 data"
      define h where "h = Socket_ResetClientTimeout fd (g\<lparr>g_stSocketRecBuffer := b\<rparr>)"
      have h: "client_fds h = client_fds g" "length (g_stTCPSocketClients h) = length (g_stTCPSocketClients g)"
        "g_SocketLogin h = g_SocketLogin g" "passcode h = passcode g"
        by (simp_all add: h_def client_fds_def Socket_ResetClientTimeout_def client_fds_reset length_reset)
      from s nofd i Rx consider "g' = g\<lparr>g_stSocketRecBuffer := b\<rparr>" | "DispatchTCPData e fd b h = Some (g', eff)"
        by (auto simp: serve_client_def fd_def b_def h_def wr_seg_def Let_def split: if_splits)
      then show ?thesis
      proof cases
        case 1
        then show ?thesis using inv by (auto simp: lan_inv_def client_fds_def intro: login_ok_mono)
      next
        case 2
        from dispatch_cases[OF this] have d: "g_stTCPSocketClients g' = g_stTCPSocketClients h"
          "g_SocketLogin g' = g_SocketLogin g \<or> (\<exists>i < length (g_SocketLogin g). g_SocketLogin g' = (g_SocketLogin g)[i := fd] \<and> shown g r)"
          by (auto simp: h shown_def Rx b_def logs_in_def)
        have "client_fds g' = client_fds g" using client_fds_same[OF d(1)] h by simp
        moreover have "login_ok (client_fds g) (if shown g r then insert fd C else C) (g_SocketLogin g')"
          using d(2) inv login_ok_update[OF _ fd pos, of C "g_SocketLogin g"] by (auto simp: lan_inv_def intro: login_ok_mono)
        ultimately show ?thesis using inv d h unfolding fd_def[symmetric] by (auto simp: lan_inv_def)
      qed
    next
      case RxClosed
      let ?c = "(g_stTCPSocketClients g ! i)\<lparr>SocketFD := -1\<rparr>"
      have g': "g_SocketLogin g' = logout fd (g_SocketLogin g)" "g_stTCPSocketClients g' = (g_stTCPSocketClients g)[i := ?c]"
        using s nofd i RxClosed by (auto simp: serve_client_def fd_def Let_def)
      have f: "client_fds g' \<subseteq> insert (-1) (client_fds g)"
        unfolding client_fds_def g' using set_update_subset_insert[of "g_stTCPSocketClients g" i ?c] by auto
      have k: "l \<in> client_fds g'" if "l \<in> client_fds g" "l \<noteq> fd" for l
        using that unfolding client_fds_def g' by (intro other_client) (auto simp: fd_def)
      have "login_ok (client_fds g') C (g_SocketLogin g')"
        using inv k set_logout[of fd "g_SocketLogin g"] by (auto simp: lan_inv_def login_ok_def g')
      then show ?thesis using inv f by (auto simp: lan_inv_def g' logout_def shown_def RxClosed)
    next
      case RxError
      then have "g' = g\<lparr>g_stSocketRecBuffer := zeros 1024\<rparr>" using s nofd i by (simp add: serve_client_def fd_def)
      then show ?thesis using RxError by (auto simp: shown_def intro: lan_inv_same[OF inv])
    qed
  qed
qed

definition same_clients :: "gw \<Rightarrow> gw \<Rightarrow> bool" where
  "same_clients g g' \<longleftrightarrow> g_stTCPSocketClients g' = g_stTCPSocketClients g \<and> g_SocketLogin g' = g_SocketLogin g \<and> device g' = device g"

lemma firmware_version_clients [lan_frame]: "firmware_version g = Some (n, g') \<Longrightarrow> same_clients g g'"
  by (auto simp: firmware_version_def same_clients_def split: bind_splits if_splits)

lemma broadcast_clients [lan_frame]: "Build_BroadCastPacket k b g = Some (b', g') \<Longrightarrow> same_clients g g'"
  unfolding Build_BroadCastPacket_def Let_def by (auto split: bind_splits dest!: firmware_version_clients)

lemma udp_dispatch_clients [lan_frame]: "Socket_DispatchUDPRecvData b a g = Some (r, g', eff) \<Longrightarrow> same_clients g g'"
  by (auto simp: Socket_DispatchUDPRecvData_def Udp_Onboarding_def same_clients_def Let_def
      split: bind_splits if_splits dest!: broadcast_clients)

lemma upgrade_clients [lan_frame]: "FwUpgradeProcess n b s g = Some (g', eff) \<Longrightarrow> same_clients g g'"
  by (auto simp: FwUpgradeProcess_def same_clients_def Let_def split: bind_splits if_splits)

lemma udp_server_clients [lan_frame]: "Socket_DoUDPServer ds g = Some (g', eff) \<Longrightarrow> same_clients g g'"
proof (induction ds arbitrary: g g' eff)
  case Nil
  then show ?case by (auto simp: same_clients_def Socket_DoUDPServer.simps[of "[]"] split: if_splits)
next
  case (Cons d ds)
  obtain a r n where d: "d = (a, r, n)" by (metis prod_cases3)
  show ?case
  proof (cases "g_UDPServerFd g \<le> 0")
    case True
    then show ?thesis using Cons.prems by (auto simp: same_clients_def Socket_DoUDPServer.simps[of "d # ds"])
  next
    case False
    then show ?thesis using Cons.prems unfolding d
      by (auto simp: Let_def same_clients_def Socket_DoUDPServer.simps[of "d # ds" for d] split: bind_splits if_splits
          dest!: Cons.IH upgrade_clients udp_dispatch_clients)
  qed
qed

lemma send_broadcast_clients [lan_frame]: "Socket_SendBroadCastPacket st n g = Some (g', eff) \<Longrightarrow> same_clients g g'"
  by (auto simp: Socket_SendBroadCastPacket_def same_clients_def split: bind_splits if_splits dest!: broadcast_clients)

lemma accept_inv:
  assumes inv: "lan_inv (g, c, C)" and a: "Socket_CheckNewTCPClient ch (Some (fd, addr)) rs g c = Some (ret, g', c', eff)"
    and f: "upgradeFlag g AND UPGRADE_START = 0" "fd \<notin> client_fds g"
  shows "lan_inv (g', c', C - {fd})"
proof -
  have old: "login_ok (client_fds g) (C - {fd}) (g_SocketLogin g)"
    using inv f(2) by (auto simp: lan_inv_def login_ok_def)
  show ?thesis
  proof (cases "fd \<le> 0 \<or> first_index (-1) (map SocketFD (g_stTCPSocketClients g)) = None")
    case True
    then have "g_stTCPSocketClients g' = g_stTCPSocketClients g" "g_SocketLogin g' = g_SocketLogin g"
      using a f(1) by (auto simp: Socket_CheckNewTCPClient_def enter_client_def Let_def split: if_splits)
    then show ?thesis using inv old by (simp add: lan_inv_def client_fds_def)
  next
    case False
    then obtain i where i: "first_index (-1) (map SocketFD (g_stTCPSocketClients g)) = Some i" by auto
    from first_index_Some[OF this] have i': "i < length (g_stTCPSocketClients g)" "SocketFD (g_stTCPSocketClients g ! i) = -1" by auto
    let ?c = "\<lparr>SocketFD = fd, TCPClientAddr = addr, TimeOut = 12\<rparr>"
    have g': "g_stTCPSocketClients g' = (g_stTCPSocketClients g)[i := ?c]" "g_SocketLogin g' = g_SocketLogin g"
      using a f(1) i False by (auto simp: Socket_CheckNewTCPClient_def enter_client_def Let_def split: if_splits)
    have up: "client_fds g' \<subseteq> insert fd (client_fds g)"
      unfolding client_fds_def g' using set_update_subset_insert[of "g_stTCPSocketClients g" i ?c] by auto
    have "l \<in> client_fds g'" if l: "l \<in> client_fds g" "0 < l" for l
      using l i' unfolding client_fds_def g' by (intro other_client) auto
    then have "login_ok (client_fds g') (C - {fd}) (g_SocketLogin g')"
      using old by (auto simp: login_ok_def g')
    then show ?thesis using inv up False by (auto simp: lan_inv_def g')
  qed
qed

lemma lan_inv_init: "g_SocketLogin g = replicate 8 0 \<Longrightarrow> lan_inv (Init_Service g, c, {})"
  by (simp add: lan_inv_def Init_Service_def client_fds_def no_client_def login_ok_def)

lemma lan_step_inv: "lan_step ch s s' \<Longrightarrow> lan_inv s \<Longrightarrow> lan_inv s'"
proof (induction rule: lan_step.induct)
  case (lan_tick g g' eff c C)
  obtain cs login where t: "clients_tick (g_stTCPSocketClients g) (g_SocketLogin g) = (cs, login, eff)"
    "g' = g\<lparr>g_stTCPSocketClients := cs, g_SocketLogin := login\<rparr>"
    using lan_tick(1) by (auto simp: Socket_ClientTimeoutTimer_def split: prod.splits)
  have "login_ok (SocketFD ` set (g_stTCPSocketClients g) \<union> {}) C (g_SocketLogin g)"
    using lan_tick(2) by (simp add: lan_inv_def client_fds_def)
  from clients_tick_inv[OF t(1) this] show ?case
    using lan_tick(2) by (auto simp: lan_inv_def client_fds_def t(2))
next
  case (lan_serve e i r g g' eff c C)
  then show ?case by (intro serve_client_inv)
qed (auto intro: accept_inv lan_inv_init dest!: udp_server_clients send_broadcast_clients
    simp: same_clients_def MCU_PasscodeTimer_def elim!: lan_inv_same)

lemma lan_reach_inv: "lan_reach ch s \<Longrightarrow> lan_inv s"
proof (induction rule: lan_reach.induct)
  case (lan_init g c)
  then show ?case by (rule lan_inv_init)
next
  case (lan_next s s')
  then show ?case using lan_step_inv by blast
qed

section \<open>Idle clients\<close>

definition tick :: "gw \<Rightarrow> gw" where
  "tick g = fst (Socket_ClientTimeoutTimer g)"

definition expiring :: "nat \<Rightarrow> SOCKET_CLIENT_S \<Rightarrow> bool" where
  "expiring n c \<longleftrightarrow> SocketFD c = -1 \<or> 0 < SocketFD c \<and> 0 < TimeOut c \<and> TimeOut c \<le> int n"

lemma client_tick_expiring: "expiring (Suc n) c \<Longrightarrow> client_tick c login = (c', login', eff) \<Longrightarrow> expiring n c'"
  by (auto simp: client_tick_def expiring_def Let_def split: if_splits)

lemma clients_tick_expiring:
  "list_all (expiring (Suc n)) cs \<Longrightarrow> clients_tick cs login = (cs', login', eff) \<Longrightarrow> list_all (expiring n) cs'"
proof (induction cs arbitrary: login cs' login' eff)
  case Nil
  then show ?case by simp
next
  case (Cons c cs)
  obtain c1 l1 e1 where c1: "client_tick c login = (c1, l1, e1)" by (metis prod_cases3)
  obtain cs2 l2 e2 where cs2: "clients_tick cs l1 = (cs2, l2, e2)" by (metis prod_cases3)
  have "cs' = c1 # cs2" using Cons.prems(2) c1 cs2 by simp
  then show ?case using Cons.IH[OF _ cs2] client_tick_expiring[OF _ c1] Cons.prems(1) by simp
qed

lemma tick_clients: "clients_tick (g_stTCPSocketClients g) (g_SocketLogin g) =
   (g_stTCPSocketClients (tick g), g_SocketLogin (tick g), snd (Socket_ClientTimeoutTimer g))"
  by (simp add: tick_def Socket_ClientTimeoutTimer_def split: prod.splits)

lemma ticks_expire:
  "list_all (expiring n) (g_stTCPSocketClients g) \<Longrightarrow> list_all (\<lambda>c. SocketFD c = -1) (g_stTCPSocketClients ((tick ^^ n) g))"
proof (induction n arbitrary: g)
  case 0
  then show ?case by (auto simp: list_all_iff expiring_def)
next
  case (Suc n)
  from clients_tick_expiring[OF Suc.prems tick_clients] have "list_all (expiring n) (g_stTCPSocketClients (tick g))" .
  from Suc.IH[OF this] show ?case by (simp add: funpow_swap1)
qed

lemma tick_reach: "lan_reach ch (g, c, C) \<Longrightarrow> lan_reach ch ((tick ^^ n) g, c, C)"
proof (induction n)
  case (Suc n)
  have "lan_step ch ((tick ^^ n) g, c, C) (tick ((tick ^^ n) g), c, C)"
    by (rule lan_tick[where eff = "snd (Socket_ClientTimeoutTimer ((tick ^^ n) g))"]) (simp add: tick_def)
  with Suc show ?case by (auto intro: lan_next)
qed simp

section \<open>An example\<close>

text \<open>A phone that connects to the example device, logs in and switches the socket on.\<close>

definition login_data :: bytes where
  "login_data = [0, 0, 0, 3, 15, 0, 0, 8, 0, 10] @ replicate 10 65"

definition switch_data :: bytes where
  "switch_data = [0, 0, 0, 3, 5, 0, 0, 0x90, 1, 1, 1]"

definition client5 :: SOCKET_CLIENT_S where
  "client5 = \<lparr>SocketFD = 5, TCPClientAddr = (0, 0), TimeOut = 12\<rparr>"

definition gw1 :: gw where
  "gw1 = gw0\<lparr>g_TCPSocketMaxClientFd := 6, g_stTCPSocketClients := client5 # replicate 7 no_client\<rparr>"

definition gw2 :: gw where
  "gw2 = gw1\<lparr>g_stSocketRecBuffer := login_data @ zeros 1004, g_SocketLogin := 5 # replicate 7 0\<rparr>"

lemma example_accept: "Socket_CheckNewTCPClient ch (Some (5, 0, 0)) [] (Init_Service gw0) c = Some (5, gw1, c, [])"
  by (simp add: Socket_CheckNewTCPClient_def enter_client_def Init_Service_def gw0_def gw1_def no_client_def client5_def
      eval_nat_numeral)

lemma example_header: "lan_header (login_data @ zeros 1004) = Some (8, 8, 15)"
  "lan_header (switch_data @ zeros 1013) = Some (0x90, 8, 5)"
  by (simp_all add: lan_header_def login_data_def switch_data_def num_bytes parse_one rd_def)

lemma example_login: "serve_client e 0 (Rx login_data) gw1 = Some (gw2, [Send 5 (login_ack 0)])"
proof -
  have b: "put (zeros 1024) 0 login_data = login_data @ zeros 1004" by (simp add: put_def login_data_def)
  have h: "rd_seg (login_data @ zeros 1004) 0 4 = Some [0, 0, 0, 3]" "rd_seg (login_data @ zeros 1004) 10 10 = Some (replicate 10 65)"
    by (simp_all add: login_data_def rd_seg_def eval_nat_numeral)
  have f: "first_index 0 (replicate 8 (0 :: int)) = Some 0" "(replicate 8 0)[0 := 5] = 5 # replicate 7 (0 :: int)"
    "(login_data @ zeros 1004 = []) = False" "rd_seg (replicate 10 65 @ zeros 6) 0 10 = Some (replicate 10 65)"
    "length login_data = 20"
    by (simp_all add: eval_nat_numeral login_data_def rd_seg_def)
  show ?thesis
    by (simp add: serve_client_def gw1_def client5_def wr_seg_def b Let_def DispatchTCPData_def h example_header f
        handleLogin_def gw2_def Socket_ResetClientTimeout_def gw0_def config0_def)
qed

text \<open>The acknowledgement finds no memory here; the report goes nowhere.\<close>

lemma no_memory:
  "SendCtlAckCmd env0 cmd sn g = Some []"
  "g_MQTTStatus g = 0 \<Longrightarrow> \<exists>g'. ResponseDevStatus (later_mem 2 env0) fd g = Some (g', []) \<and> device g' = device g"
proof -
  obtain eff where "SendCtlAckCmd env0 cmd sn g = Some eff" using ack_defined[of env0 cmd sn g] by (auto simp: env0_def ack_ok_def)
  moreover have "eff = []" if "SendCtlAckCmd env0 cmd sn g = Some eff" for eff
    using that by (auto simp: SendCtlAckCmd_def Dev_SendPacket2Phone_def env0_def Let_def split: bind_splits if_splits)
  ultimately show "SendCtlAckCmd env0 cmd sn g = Some []" by blast
  have "rd (report_body (socket_status (device g)) @ [x]) 2 = Some 0" "rd (report_body (socket_status (device g)) @ [x]) 3 = Some 16" for x
    by (simp_all add: rd_def report_body_def be16_def hi8_def lo8_def)
  then show "\<exists>g'. ResponseDevStatus (later_mem 2 env0) fd g = Some (g', []) \<and> device g' = device g" if "g_MQTTStatus g = 0"
    using that by (simp add: ResponseDevStatus_def report_exact Let_def Dev_SendPacket2Phone_def MCU_SendPublishPacket_def
        later_mem_def env0_def)
qed

lemma example_switch:
  "\<exists>g eff. serve_client env0 0 (Rx switch_data) gw2 = Some (g, eff) \<and> device g \<noteq> device gw2"
proof -
  have b: "put (zeros 1024) 0 switch_data = switch_data @ zeros 1013" by (simp add: put_def switch_data_def)
  have h: "rd_seg (switch_data @ zeros 1013) 0 4 = Some [0, 0, 0, 3]" "drop 8 (switch_data @ zeros 1013) = 1 # 1 # 1 # zeros 1013"
    "length switch_data = 11"
    by (simp_all add: switch_data_def rd_seg_def eval_nat_numeral)
  define g where "g = Socket_ResetClientTimeout 5 (gw2\<lparr>g_stSocketRecBuffer := switch_data @ zeros 1013\<rparr>)"
  have g: "device g = device gw2" "5 \<in> set (g_SocketLogin g)" "g_MQTTStatus g = 0"
    by (simp_all add: g_def Socket_ResetClientTimeout_def gw2_def gw1_def gw0_def)
  define d where "d = set_switch 1 (device gw2)\<lparr>status_flag := 1\<rparr>"
  have c: "GAgentV4_CtlDev_with_p0 env0 (1 # 1 # 1 # zeros 1013) 2 g = Some (0, g\<lparr>device := d\<rparr>)"
    by (simp add: GAgentV4_CtlDev_with_p0_def rd_def device_control_def strip_start_def strip_data_parse_def g(1) d_def Let_def)
  have o: "status_flag d = 1" "status_flag (device gw2) = 0"
    by (simp_all add: d_def gw2_def gw1_def gw0_def device_init_def strip_init_def timer_task_init_def BSP_GPIOSetValue_def)
  obtain g' where "ResponseDevStatus (later_mem 2 env0) 5 (g\<lparr>device := d\<rparr>) = Some (g', [])" "device g' = d"
    using no_memory(2)[of "g\<lparr>device := d\<rparr>" 5] g(3) by auto
  then have "DispatchTCPData env0 5 (switch_data @ zeros 1013) g = Some (g', [])"
    using g c by (simp add: DispatchTCPData_def h example_header LAN_handleMCUData_def no_memory(1) del: drop_append)
  moreover have "device g' \<noteq> device gw2" using o \<open>device g' = d\<close> by auto
  moreover have "g_stTCPSocketClients gw2 = client5 # replicate 7 no_client" by (simp add: gw2_def gw1_def)
  ultimately show ?thesis
    by (simp add: serve_client_def client5_def wr_seg_def b h g_def Let_def)
qed

lemma example_reach: "lan_reach ch (gw1, c, {})" "lan_reach ch (gw2, c, {5})"
proof -
  have l: "g_SocketLogin gw0 = replicate 8 0" by (simp add: gw0_def)
  have u: "upgradeFlag (Init_Service gw0) AND UPGRADE_START = 0" "5 \<notin> client_fds (Init_Service gw0)"
    by (simp_all add: Init_Service_def gw0_def client_fds_def no_client_def)
  have "lan_step ch (Init_Service gw0, c, {}) (gw1, c, {} - {5})"
    using lan_accept[OF example_accept u] .
  from lan_next[OF lan_init[OF l] this] show r: "lan_reach ch (gw1, c, {})" by simp
  have "put (zeros 1024) 0 login_data = login_data @ zeros 1004" by (simp add: put_def login_data_def)
  then have "shown gw1 (Rx login_data)"
    by (simp add: shown_def logs_in_def example_header) (simp add: login_data_def rd_seg_def gw1_def gw0_def config0_def)
  then have "lan_step ch (gw1, c, {}) (gw2, c, {5})"
    using lan_serve[OF example_login, of ch c "{}"] by (simp add: gw1_def client5_def)
  from lan_next[OF r this] show "lan_reach ch (gw2, c, {5})" .
qed

section \<open>Properties\<close>

text \<open>C13 The login table: in every state the server can reach from its start, whatever the clients send, each
  entry in use is a client that is connected now and has presented the passcode since its connection was accepted.
  The states are those before a firmware transfer breaks off: firmware updates that are installed are included, and the
  server starts again after them, but a transfer that breaks off leaves closed clients in the table.\<close>
lemma login_table_invariant:
  assumes "lan_reach ch (g, c, C)" and "l \<in> set (g_SocketLogin g)" and "l \<noteq> 0"
  shows "l \<in> client_fds g \<and> l \<in> C \<and> 0 < l"
  using lan_reach_inv[OF assms(1)] assms(2,3) by (auto simp: lan_inv_def login_ok_def)

lemma login_table_invariant_witness: "(5 :: int) \<in> client_fds gw2 \<and> (5 :: int) \<in> {5} \<and> (0 :: int) < 5"
  by (rule login_table_invariant[OF example_reach(2)[of nor_chip "\<lambda>x. 0"]]) (simp_all add: gw2_def)

text \<open>C2 Access control: in every state the server can reach from its start, data from a TCP client changes the
  state of the device only if this connection has presented the passcode since it was accepted. The states are
  those before a firmware transfer breaks off: firmware updates that are installed are included, but after a transfer
  that breaks off closed clients stay in both tables, and a new connection with the descriptor of one of them counts
  as logged in.\<close>
lemma lan_access_control:
  assumes "lan_reach ch (g, c, C)" and "serve_client e i r g = Some (g', eff)" and "device g' \<noteq> device g"
  shows "SocketFD (g_stTCPSocketClients g ! i) \<in> C"
proof -
  let ?fd = "SocketFD (g_stTCPSocketClients g ! i)"
  have i: "i < length (g_stTCPSocketClients g)" and fd: "?fd \<noteq> -1"
    using assms(2,3) by (auto simp: serve_client_def rd_def split: bind_splits if_splits)
  obtain data where "DispatchTCPData e ?fd (put (zeros 1024) 0 data)
      (Socket_ResetClientTimeout ?fd (g\<lparr>g_stSocketRecBuffer := put (zeros 1024) 0 data\<rparr>)) = Some (g', eff)"
    using assms(2,3) i fd by (auto simp: serve_client_def wr_seg_def Let_def split: rx.splits if_splits)
  from dispatch_cases[OF this] assms(3) have "?fd \<in> set (g_SocketLogin g)"
    by (simp add: Socket_ResetClientTimeout_def)
  moreover have "?fd \<noteq> 0"
  proof -
    have "?fd \<in> client_fds g" using i by (simp add: client_fds_def)
    then show ?thesis using lan_reach_inv[OF assms(1)] by (auto simp: lan_inv_def)
  qed
  ultimately show ?thesis using lan_reach_inv[OF assms(1)] by (auto simp: lan_inv_def login_ok_def)
qed

lemma lan_access_control_witness: "SocketFD (g_stTCPSocketClients gw2 ! 0) \<in> {5}"
proof -
  obtain g eff where "serve_client env0 0 (Rx switch_data) gw2 = Some (g, eff)" "device g \<noteq> device gw2"
    using example_switch by blast
  then show ?thesis using lan_access_control[OF example_reach(2)[of nor_chip "\<lambda>x. 0"]] by blast
qed

text \<open>Idle clients are closed: from every state the server can reach in which the clients' timers stand at
  12 or less, as every message sets them, twelve ticks without a message close every client and empty the
  login table.\<close>
lemma idle_clients_closed:
  assumes "lan_reach ch (g, c, C)" and "list_all (expiring 12) (g_stTCPSocketClients g)"
  shows "client_fds ((tick ^^ 12) g) = {-1} \<and> set (g_SocketLogin ((tick ^^ 12) g)) = {0}"
proof -
  have e: "list_all (\<lambda>c. SocketFD c = -1) (g_stTCPSocketClients ((tick ^^ 12) g))" using ticks_expire[OF assms(2)] .
  have inv: "lan_inv ((tick ^^ 12) g, c, C)" using tick_reach[OF assms(1)] by (rule lan_reach_inv)
  then have "g_stTCPSocketClients ((tick ^^ 12) g) \<noteq> []" "g_SocketLogin ((tick ^^ 12) g) \<noteq> []"
    by (auto simp: lan_inv_def)
  then have f: "client_fds ((tick ^^ 12) g) = {-1}" and n: "set (g_SocketLogin ((tick ^^ 12) g)) \<noteq> {}"
    using e by (auto simp: client_fds_def list_all_iff hd_in_set intro!: image_eqI[OF _ hd_in_set])
  have "set (g_SocketLogin ((tick ^^ 12) g)) \<subseteq> {0}"
    using inv f by (auto simp: lan_inv_def login_ok_def)
  with f n show ?thesis by (auto dest: subset_singletonD)
qed

lemma idle_clients_closed_witness: "client_fds ((tick ^^ 12) gw2) = {-1} \<and> set (g_SocketLogin ((tick ^^ 12) gw2)) = {0}"
  by (rule idle_clients_closed[OF example_reach(2)[of nor_chip "\<lambda>x. 0"]])
    (simp add: gw2_def gw1_def client5_def no_client_def expiring_def list_all_iff)


section \<open>The length of a command\<close>

lemma lan_header_frame:
  assumes "length p0 \<le> 1000"
  shows "lan_header ([0, 0, 0, 3] @ Tran2varc (of_nat (3 + length p0)) @ [0, 0, cmd] @ p0 @ rest) =
    Some (if length p0 \<le> 124 then cmd else 0, 8, of_nat (3 + length p0))"
proof -
  define w where "w = (of_nat (3 + length p0) :: u16)"
  have w: "unat w = 3 + length p0" unfolding w_def using assms by (intro unat_of_nat16) simp
  have T: "Tran2varc w = rem_len_field w" using w assms by (intro Tran2varc_field) simp
  have "mqtt_parse_rem_len (3 # rem_len_field w @ [0, 0, cmd] @ p0 @ rest) = Some w"
    using rem_len_dec_field[of w 3] w assms by simp
  then have p: "mqtt_parse_rem_len (drop 3 ([0, 0, 0, 3] @ Tran2varc w @ [0, 0, cmd] @ p0 @ rest)) = Some w" by (simp add: T)
  consider "unat w < 128" "rem_len_field w = [ucast w]"
    | x y where "128 \<le> unat w" "rem_len_field w = [x, y]" "unat x = unat w mod 128 + 128" "unat y = unat w div 128"
    using rem_len_field_bytes[of w] w assms by auto
  then have "lan_header ([0, 0, 0, 3] @ Tran2varc w @ [0, 0, cmd] @ p0 @ rest) = Some (if length p0 \<le> 124 then cmd else 0, 8, w)"
  proof cases
    case 1
    then show ?thesis using p w by (simp add: lan_header_def T num_bytes rd_def)
  next
    case 2
    have "unat y < 128" using 2 w assms by simp
    then show ?thesis using 2 p w by (simp add: lan_header_def T num_bytes rd_def)
  qed
  then show ?thesis by (simp only: w_def)
qed

text \<open>The LAN commands that are understood: for a frame that carries its length in the variable length
  format, the dispatcher sees the command exactly when the payload has at most 124 bytes. A longer frame,
  whose length takes two bytes, is read with the command 0 and ignored, whatever it holds: the number of
  length bytes is counted from the second of them.\<close>
lemma long_commands_ignored:
  assumes "length p0 \<le> 1000" and F: "F = [0, 0, 0, 3] @ Tran2varc (of_nat (3 + length p0)) @ [0, 0, cmd] @ p0 @ rest"
  shows "if length p0 \<le> 124 then lan_header F = Some (cmd, 8, of_nat (3 + length p0))
    else DispatchTCPData e fd F g = Some (g, [])"
proof -
  have "rd_seg ([0, 0, 0, 3] @ r) 0 4 = Some [0, 0, 0, 3]" for r :: bytes by (simp add: rd_seg_def)
  then show ?thesis using lan_header_frame[OF assms(1), of cmd rest]
    by (simp add: DispatchTCPData_def F del: append_Cons)
qed

lemma long_commands_ignored_witness:
  "lan_header ([0, 0, 0, 3] @ Tran2varc 7 @ [0, 0, 0x90] @ [1, 2, 3, 4] @ [0]) = Some (0x90, 8, 7) \<and>
   DispatchTCPData env0 5 ([0, 0, 0, 3] @ Tran2varc (of_nat (3 + length (zeros 200))) @ [0, 0, 0x90] @ zeros 200 @ [0]) gw2 = Some (gw2, [])"
  using long_commands_ignored[where ?p0.0 = "[1, 2, 3, 4]" and cmd = "0x90" and rest = "[0]" and e = env0 and fd = 5 and g = gw2, OF _ refl]
    long_commands_ignored[where ?p0.0 = "zeros 200" and cmd = "0x90" and rest = "[0]" and e = env0 and fd = 5 and g = gw2, OF _ refl]
  by (simp del: append_Cons append.append_Cons)

lemma c_strncpy_prefix:
  assumes "no_nul s"
  shows "c_strncpy (zeros m) (s @ r) (length s) = (if length s \<le> m then Some (s @ zeros (m - length s)) else None)"
proof -
  have "takeWhile (\<lambda>x. x \<noteq> 0) (s @ r) = s @ takeWhile (\<lambda>x. x \<noteq> 0) r"
    using assms by (intro takeWhile_append2) (auto simp: no_nul_def)
  then show ?thesis by (simp add: c_strncpy_def wr_seg_def put_def Let_def)
qed

text \<open>One string of the onboarding packet: copied, terminated one place late, and stored.\<close>

lemma onboarding_string:
  assumes "no_nul s"
  shows "(do { a \<leftarrow> c_strncpy (zeros 32) (s @ r) (length s); wr a (length s + 1) 0 }) =
    (if length s \<le> 30 then Some (s @ zeros (32 - length s)) else None)"
proof -
  have "(s @ zeros (32 - length s))[length s + 1 := 0] = s @ zeros (32 - length s)" if "length s \<le> 30"
    using that by (simp add: list_update_append zeros_def list_update_same_conv nth_append)
  then show ?thesis using assms by (auto simp: c_strncpy_prefix wr_def)
qed

lemma onboarding_exact:
  assumes "length h = 8" and "length ssid < 256" and "length key < 256" and "no_nul ssid" and "no_nul key"
  shows "Udp_Onboarding (h @ [x, of_nat (length ssid)] @ ssid @ [y, of_nat (length key)] @ key @ rest) g =
    (if length ssid \<le> 30 \<and> length key \<le> 30
     then let s = ssid @ zeros (32 - length ssid); k = key @ zeros (32 - length key); c = g_stGAgentConfigData g
       in Some (g\<lparr>g_stGAgentConfigData := c\<lparr>wifi_ssid := s, wifi_key := k, cfg_flag := cfg_flag c OR 1\<rparr>\<rparr>, [StationStart s k])
     else None)"
proof -
  let ?n = "length ssid" and ?k = "length key"
  define r where "r = [y, of_nat ?k] @ key @ rest"
  define buf where "buf = h @ [x, of_nat ?n] @ ssid @ r"
  have u: "unat (of_nat ?n :: u8) = ?n" "unat (of_nat ?k :: u8) = ?k" using assms(2,3) by (simp_all add: unat_of_nat8)
  have b: "rd buf 9 = Some (of_nat ?n)" "rd buf (10 + ?n + 1) = Some (of_nat ?k)" "drop 10 buf = ssid @ r"
    using assms(1) by (simp_all add: buf_def r_def rd_def nth_append)
  have "buf = (h @ [x, of_nat ?n] @ ssid @ [y, of_nat ?k]) @ key @ rest" by (simp add: buf_def r_def)
  moreover have "length (h @ [x, of_nat ?n] @ ssid @ [y, of_nat ?k]) = 10 + ?n + 2" using assms(1) by simp
  ultimately have b4: "drop (10 + ?n + 2) buf = key @ rest" by (metis append_eq_conv_conj)
  have st: "rd_seg (s @ zeros (32 - length s)) 0 (length s) = Some s \<and> wr_seg (zeros 32) 0 s = Some (s @ zeros (32 - length s))"
    if "length s \<le> 30" for s
    using that by (simp add: rd_seg_def wr_seg_def put_def)
  show ?thesis
  proof (cases "?n \<le> 30 \<and> ?k \<le> 30")
    case True
    obtain a1 a2 where a: "c_strncpy (zeros 32) (ssid @ r) ?n = Some a1" "wr a1 (?n + 1) 0 = Some (ssid @ zeros (32 - ?n))"
      "c_strncpy (zeros 32) (key @ rest) ?k = Some a2" "wr a2 (?k + 1) 0 = Some (key @ zeros (32 - ?k))"
      using onboarding_string[OF assms(4), of r] onboarding_string[OF assms(5), of rest] True by (auto split: bind_splits)
    show ?thesis unfolding buf_def[symmetric, unfolded r_def]
      using True st[of ssid] st[of key] by (simp add: Udp_Onboarding_def b[simplified] b4[simplified] u a[simplified] Let_def)
  next
    case False
    then have "do { a \<leftarrow> c_strncpy (zeros 32) (ssid @ r) ?n; wr a (?n + 1) 0 } = None \<or>
      do { a \<leftarrow> c_strncpy (zeros 32) (key @ rest) ?k; wr a (?k + 1) 0 } = None"
      using onboarding_string[OF assms(4), of r] onboarding_string[OF assms(5), of rest] by auto
    then show ?thesis unfolding buf_def[symmetric, unfolded r_def]
      using False by (auto simp: Udp_Onboarding_def b[simplified] b4[simplified] u Let_def split: bind_splits)
  qed
qed

text \<open>Onboarding by UDP stays inside its stack arrays exactly when the name and the key have at most 30
  bytes each (a Wi-Fi name may have 32, a key 63), and then it starts the station with the two strings
  of the packet, which become the stored configuration.\<close>
lemma onboarding_bounds:
  assumes "length h = 8" and "length ssid < 256" and "length key < 256" and "no_nul ssid" and "no_nul key"
  shows "Udp_Onboarding (h @ [x, of_nat (length ssid)] @ ssid @ [y, of_nat (length key)] @ key @ rest) g =
    (if length ssid \<le> 30 \<and> length key \<le> 30
     then let s = ssid @ zeros (32 - length ssid); k = key @ zeros (32 - length key); c = g_stGAgentConfigData g
       in Some (g\<lparr>g_stGAgentConfigData := c\<lparr>wifi_ssid := s, wifi_key := k, cfg_flag := cfg_flag c OR 1\<rparr>\<rparr>, [StationStart s k])
     else None)"
  by (rule onboarding_exact[OF assms])

lemma onboarding_bounds_witness:
  "Udp_Onboarding ([0, 0, 0, 3, 20, 0, 0, 1] @ [0, of_nat (length (ascii ''home''))] @ ascii ''home'' @
      [0, of_nat (length (replicate 31 (65 :: u8)))] @ replicate 31 65 @ []) gw0 =
    (if length (ascii ''home'') \<le> 30 \<and> length (replicate 31 (65 :: u8)) \<le> 30
     then let s = ascii ''home'' @ zeros (32 - length (ascii ''home'')); k = replicate 31 65 @ zeros (32 - length (replicate 31 (65 :: u8)));
         c = g_stGAgentConfigData gw0
       in Some (gw0\<lparr>g_stGAgentConfigData := c\<lparr>wifi_ssid := s, wifi_key := k, cfg_flag := cfg_flag c OR 1\<rparr>\<rparr>, [StationStart s k])
     else None)"
  by (rule onboarding_bounds) (simp_all add: no_nul_def ascii_def)


section \<open>Nothing is read or written outside its object\<close>

definition lan_wf :: "gw \<Rightarrow> bool" where
  "lan_wf g \<longleftrightarrow> (case lan_shape g of
     ([clients, login, pass, vlen, ver, fid, hard, soft, p0, key, spots], busi, busilen, spotslen, did) \<Rightarrow>
       clients = 8 \<and> login = 8 \<and> pass = 16 \<and> vlen = 2 \<and> ver = 32 \<and> fid = 8 \<and> 8 \<le> hard \<and> 8 \<le> soft \<and> 8 \<le> p0 \<and>
       32 \<le> key \<and> spots = 1024 \<and> length busi = unat busilen \<and> unat busilen \<le> 86 \<and> unat spotslen \<le> 1015 \<and>
       0 \<in> set did \<and> length did \<le> 24
   | _ \<Rightarrow> False)"

lemmas lan_wfD = lan_wf_def [THEN iffD1, unfolded lan_shape_def, simplified]

lemma rem_len_loop_defined: "0 \<in> set ds \<Longrightarrow> \<exists>v'. rem_len_loop ds m v = Some v'"
  by (induction ds m v rule: rem_len_loop.induct) (auto simp: Let_def)

lemma lan_header_defined:
  assumes "length data < 1024"
  shows "\<exists>cmd p0 n. lan_header (put (zeros 1024) 0 data) = Some (cmd, p0, n) \<and> p0 \<le> 11"
proof -
  let ?b = "put (zeros 1024) 0 data"
  have l: "length ?b = 1024" using assms by simp
  have "?b ! 1023 = 0" using assms by (simp add: nth_put zeros_def)
  then have "drop 4 ?b ! 1019 = 0" using l by simp
  moreover have "1019 < length (drop 4 ?b)" using l by simp
  ultimately have "0 \<in> set (drop 4 ?b)" by (metis nth_mem)
  then have "\<exists>v. mqtt_parse_rem_len (drop 3 ?b) = Some v"
    using rem_len_loop_defined[of "drop 4 ?b" 1 0] by (simp add: mqtt_parse_rem_len_def)
  moreover have "\<exists>v. mqtt_num_rem_len_bytes (drop 4 ?b) = Some v \<and> unat v \<le> 4"
    using l by (simp add: mqtt_num_rem_len_bytes_def)
  ultimately show ?thesis using l by (auto simp: lan_header_def)
qed

lemma firmware_version_defined:
  assumes "lan_wf g"
  shows "\<exists>n g'. firmware_version g = Some (n, g') \<and> n \<le> 32"
proof -
  have "unat v \<le> 32" if "v \<le> 32" for v :: u8 using that by (simp add: word_le_nat_alt)
  then show ?thesis using lan_wfD[OF assms] by (auto simp: firmware_version_def wr_seg_def not_less)
qed

lemma GetWifiInfo_defined: "lan_wf g \<Longrightarrow> \<exists>r g' eff. GetWifiInfo e fd g = Some (r, g', eff)"
proof -
  assume g: "lan_wf g"
  then obtain n h where h: "firmware_version g = Some (n, h)" "n \<le> 32" using firmware_version_defined by blast
  then have "lan_wf h" using g firmware_version_tables[OF h(1)] by (simp add: lan_wf_def same_tables_def)
  from lan_wfD[OF this] h show ?thesis by (simp add: GetWifiInfo_def rd_seg_def)
qed

lemma GetWifiVersion_defined: "lan_wf g \<Longrightarrow> \<exists>eff. GetWifiVersion fd g = Some eff"
proof -
  assume "lan_wf g"
  note g = lan_wfD[OF this]
  let ?n = "g_busiProtocolVerLen g"
  have u: "unat (9 + ?n) = 9 + unat ?n" using g by (simp add: unat_word_ariths)
  then have "Tran2varc (9 + ?n) = [ucast (9 + ?n)]"
    using g by (simp add: Tran2varc_field rem_len_field_def word_le_nat_alt)
  then show ?thesis using g u
    by (simp add: GetWifiVersion_def rd_seg_def wr_seg_def Let_def)
qed

lemma GetWifiHotspots_defined: "lan_wf g \<Longrightarrow> \<exists>eff. GetWifiHotspots e fd g = Some eff"
proof -
  assume "lan_wf g"
  note g = lan_wfD[OF this]
  let ?n = "g_WifihotspotsLen g"
  have u: "unat (3 + ?n) = 3 + unat ?n" using g by (simp add: unat_word_ariths)
  have "Tran2varc (3 + ?n) = rem_len_field (3 + ?n)" using g u by (simp add: Tran2varc_field)
  then have "length (Tran2varc (3 + ?n)) \<le> 2" using length_rem_len_field[of "3 + ?n"] g u by simp
  then show ?thesis using g u
    by (simp add: GetWifiHotspots_def rd_seg_def wr_seg_def Let_def)
qed

lemma publish_defined:
  assumes "no_nul t" and "length t < 65536" and "0 \<in> set msg" and "n \<le> length msg"
  shows "\<exists>r. XPGmqtt_publish mem mqttsend broker (t @ 0 # z) msg n retain = Some r"
  using assms by (simp add: XPGmqtt_publish_def XPGmqtt_publish_with_qos_def topic_arg_eq cstr_def publish_var_header_eq rd_seg_def
      Let_def assemble_exact)

lemma cloud_report_defined:
  assumes "lan_wf g"
  shows "\<exists>r. MCU_SendPublishPacket e (report_body st @ [x]) 20 g = Some r"
proof -
  obtain did where d: "cstr (DID g) = Some did" "length did < 192"
    using lan_wfD[OF assms] cstr_length[of "DID g"] by (auto simp: cstr_def)
  let ?p = "cloud_packet (4 # status_bytes True st @ [x])"
  have "no_nul (report_topic did)"
    using cstr_no_nul[OF d(1)] by (simp add: report_topic_def no_nul_def dev2app_def ascii_def)
  moreover have "length (report_topic did) < 65536" using d(2) by (simp add: report_topic_def dev2app_def)
  moreover have "0 \<in> set ?p" by (simp add: cloud_packet_def)
  ultimately obtain r where pub: "XPGmqtt_publish (e_mem (later_mem 1 e)) (e_send (later_mem 1 e)) (g_stMQTTBroker g)
      (report_topic did @ 0 # zeros (191 - length did)) ?p (length ?p) 0 = Some r"
    using publish_defined[of "report_topic did" ?p "length ?p"] by blast
  obtain t1 t2 where "wr_seg (zeros 200) 0 dev2app = Some t1" "wr_seg t1 8 did = Some t2"
    "wr t2 (8 + length did) 0 = Some (report_topic did @ 0 # zeros (191 - length did))"
    using topic_built[OF d(2)] by blast
  moreover have "rd_seg (report_body st @ [x]) 8 12 = Some (4 # status_bytes True st @ [x])"
    by (simp add: rd_seg_def report_body_def be16_def length_status_bytes)
  moreover have "rd (report_body st @ [x]) 0 = Some 0xff" "rd (report_body st @ [x]) 1 = Some 0xff"
    by (simp_all add: rd_def report_body_def)
  ultimately show ?thesis using d(1) pub
    by (cases r) (simp add: MCU_SendPublishPacket_def PubMsg_def)
qed

lemma phone_report_defined: "\<exists>eff. Dev_SendPacket2Phone e (report_body st @ [x]) 21 0x91 0 g = Some eff"
proof (cases "e_mem e 0 \<and> e_mem e 1")
  case True
  then show ?thesis using report_to_phones[of e st x 21 g] by blast
next
  case False
  have b: "be16 16 = [0, 16]" by (simp add: be16_def hi8_def lo8_def)
  have "rd_seg (report_body st @ [x]) 8 11 = Some (4 # status_bytes True st)"
    by (simp add: rd_seg_def report_body_def b length_status_bytes)
  then show ?thesis using False mem_malloc_some[of 11 "e_mem e 0"]
    by (auto simp: Dev_SendPacket2Phone_def report_body_def b rd_def Let_def get_uart_Pload_def split: option.splits)
qed

lemma ResponseDevStatus_defined: "lan_wf g \<Longrightarrow> \<exists>r. ResponseDevStatus e fd g = Some r"
proof -
  assume g: "lan_wf g"
  define x where "x = sum_list (drop 2 (report_body (socket_status (device g)))) + mcuStatus_sum g"
  define h where "h = g\<lparr>mcuStatus_sum := x\<rparr>"
  have "lan_wf h" using g by (simp add: lan_wf_def lan_shape_def h_def)
  with cloud_report_defined obtain r where "MCU_SendPublishPacket (later_mem 2 e) (report_body (socket_status (device g)) @ [x]) 20 h = Some r"
    by blast
  moreover obtain eff where "Dev_SendPacket2Phone e (report_body (socket_status (device g)) @ [x]) 21 0x91 0 h = Some eff"
    using phone_report_defined by blast
  ultimately show ?thesis
    by (cases r) (simp add: ResponseDevStatus_def report_exact Let_def x_def[symmetric] h_def[symmetric])
qed

lemma strip_data_parse_defined: "8 \<le> length c \<Longrightarrow> \<exists>s'. strip_data_parse t f c s = Some s'"
proof -
  assume c: "8 \<le> length c"
  then have "0 < length c" by linarith
  then show ?thesis using c by (simp add: strip_data_parse_def rd_def decodeInt16_eq Let_def del: length_greater_0_conv)
qed

lemma CtlDev_defined:
  assumes "10 \<le> length data"
  shows "\<exists>r g'. GAgentV4_CtlDev_with_p0 e data n g = Some (r, g')"
proof -
  have l: "8 \<le> length (drop 2 data)" using assms by simp
  have r: "rd data 0 = Some (data ! 0)" "rd data 1 = Some (data ! 1)" using assms by (auto simp: rd_def)
  obtain s' where "device_control (e_ticks e) (data ! 0) (data ! 1) (drop 2 data) (device g) = Some s'"
    using strip_data_parse_defined[OF l, of "e_ticks e" "data ! 1" "device g"]
    by (auto simp: device_control_def strip_start_def)
  then show ?thesis using r by (simp add: GAgentV4_CtlDev_with_p0_def)
qed

lemma LAN_handleMCUData_defined:
  assumes "lan_wf g" and "ack_ok e" and "10 \<le> length data"
  shows "\<exists>r. LAN_handleMCUData e fd data n g = Some r"
proof -
  obtain r h where h: "GAgentV4_CtlDev_with_p0 e data n g = Some (r, h)" using CtlDev_defined[OF assms(3)] by blast
  have "lan_wf h" using assms(1) CtlDev_tables[OF h] by (simp add: lan_wf_def same_tables_def)
  then obtain q where "ResponseDevStatus (later_mem 2 e) fd h = Some q" using ResponseDevStatus_defined by blast
  moreover obtain a where "SendCtlAckCmd e 4 1 h = Some a" using ack_defined[of e 4 1 h] assms(2) by auto
  ultimately show ?thesis using h by (cases q) (simp add: LAN_handleMCUData_def)
qed

lemma dispatch_defined:
  assumes "lan_wf g" and "ack_ok e" and "length data < 1024"
  shows "\<exists>r. DispatchTCPData e fd (put (zeros 1024) 0 data) g = Some r"
proof -
  let ?b = "put (zeros 1024) 0 data"
  have l: "length ?b = 1024" using assms(3) by simp
  obtain cmd p0 n where h: "lan_header ?b = Some (cmd, p0, n)" "p0 \<le> 11" using lan_header_defined[OF assms(3)] by blast
  have d: "10 \<le> length (drop p0 ?b)" using l h(2) by simp
  show ?thesis
    using lan_wfD[OF assms(1)] l h LAN_handleMCUData_defined[OF assms(1,2) d, of fd "n - 3"] GetWifiInfo_defined[OF assms(1), of e fd]
      GetWifiVersion_defined[OF assms(1), of fd] GetWifiHotspots_defined[OF assms(1), of e fd]
    by (auto simp: DispatchTCPData_def handlePasscode_def handleLogin_def rd_seg_def split: bind_splits option.splits)
qed

text \<open>C20 The TCP server reads and writes inside its objects: from every state in which the objects have
  their sizes, whatever a client sends, up to the full receive buffer, the handling is defined and
  leaves such a state. The acknowledgement of a command takes its length from the memory at the addresses 5 and 6;
  the property holds when this length is 0, 1, 5 or 6. With 2, 3 or 4 the payload length is -3 to -1, for which the heap
  gives a block of 12 bytes that is overrun, and longer ones read behind the frame.\<close>
lemma serve_client_type:
  assumes "lan_wf g" and "ack_ok e" and "i < 8" and "length data \<le> 1024"
  shows "\<exists>g' eff. serve_client e i (Rx data) g = Some (g', eff) \<and> lan_wf g'"
proof -
  let ?fd = "SocketFD (g_stTCPSocketClients g ! i)" and ?b = "put (zeros 1024) 0 data"
  define h where "h = Socket_ResetClientTimeout ?fd (g\<lparr>g_stSocketRecBuffer := ?b\<rparr>)"
  have i: "i < length (g_stTCPSocketClients g)" using lan_wfD[OF assms(1)] assms(3) by simp
  have h: "lan_wf h" using assms(1) by (simp add: lan_wf_def lan_shape_def h_def Socket_ResetClientTimeout_def length_reset)
  have b: "lan_wf (g\<lparr>g_stSocketRecBuffer := ?b\<rparr>)" using assms(1) by (simp add: lan_wf_def lan_shape_def)
  show ?thesis
  proof (cases "?fd = -1 \<or> length data = 1024")
    case True
    then show ?thesis using i b assms(1,4) by (auto simp: serve_client_def wr_seg_def Let_def)
  next
    case False
    then have "length data < 1024" using assms(4) by simp
    from dispatch_defined[OF h assms(2) this] obtain g' eff where d: "DispatchTCPData e ?fd ?b h = Some (g', eff)" by fastforce
    moreover have "lan_wf g'" using dispatch_cases[OF d] h by (simp add: lan_wf_def)
    ultimately show ?thesis using i False assms(4) by (simp add: serve_client_def wr_seg_def h_def Let_def)
  qed
qed

lemma serve_client_type_witness: "\<exists>g' eff. serve_client env0 0 (Rx (replicate 1000 0xFF)) gw2 = Some (g', eff) \<and> lan_wf g'"
  by (rule serve_client_type)
    (simp_all add: lan_wf_def lan_shape_def gw2_def gw1_def gw0_def config0_def client5_def zeros_def ack_ok_def env0_def)

end
