(* ===== verification/LanUpdate.thy ===== *)
theory LanUpdate
  imports LanServer
begin

text \<open>
  What the firmware update of lan/Socket.c does to the flash and to the tables of the server: the
  receive loop over any split of the file into what \<open>recv\<close> delivers, the copy to the main area, and
  what an update that breaks off leaves behind. The definitions are in LanServer.
\<close>

section \<open>Copying the sectors\<close>

lemma overlay_other: "x < a \<or> a + length d \<le> x \<Longrightarrow> overlay f a d x = f x"
  by (auto simp: overlay_def)

lemma upt_split: "i \<le> j \<Longrightarrow> j \<le> k \<Longrightarrow> [i..<j] @ [j..<k] = [i..<k]"
  by (metis le_Suc_ex upt_add_eq_append)

lemma map_content_overlay:
  assumes "a + length d \<le> i \<or> j \<le> a"
  shows "map (overlay f a d) [i..<j] = map f [i..<j]"
  using assms by (auto simp: overlay_def)

context nor_flash
begin

lemma read_sector:
  assumes "unat a + 4096 \<le> 2 ^ 24"
  shows "QSpiFlashRead ch a 4096 c = map (content c) [unat a..<unat a + 4096]"
  using assms by (subst read_in_range) (auto intro: nth_equalityI)

lemma install_exact:
  assumes "unat i + n \<le> 0x34"
  shows "\<exists>buf' c'. install_sectors ch n i buf c = Some (0, buf', c') \<and> (length buf = 4096 \<longrightarrow> length buf' = 4096) \<and>
    content c' = overlay (content c) (unat i * 4096) (map (content c) [0x34000 + unat i * 4096..<0x34000 + (unat i + n) * 4096])"
  using assms
proof (induction n arbitrary: i buf c)
  case 0
  then show ?case by (simp add: overlay_Nil)
next
  case (Suc n)
  define src where "src = [0x34000 + unat i * 4096..<0x34000 + unat i * 4096 + 4096]"
  have a: "unat (0x34000 + i * 4096) = 0x34000 + unat i * 4096" "unat (i * 4096) = unat i * 4096" "unat (i + 1) = unat i + 1"
    "unat (1 + i) = unat i + 1"
    using Suc.prems by (simp_all add: unat_word_ariths)
  let ?b = "QSpiFlashRead ch (0x34000 + i * 4096) 4096 c"
  have b: "?b = map (content c) src"
    using Suc.prems by (subst read_sector) (simp_all add: a src_def)
  then have lb: "length ?b = 4096" by (simp add: src_def)
  obtain c1 where c1: "QSpiWriteOneSector ch (0 + i * 4096) ?b c = Some (0, c1)"
    "content c1 = overlay (content c) (unat i * 4096) ?b"
    using write_one_sector[of ?b "i * 4096" c] Suc.prems lb by (auto simp: a)
  obtain buf2 c2 where c2: "install_sectors ch n (i + 1) ?b c1 = Some (0, buf2, c2)" "length buf2 = 4096"
    "content c2 = overlay (content c1) (unat (i + 1) * 4096) (map (content c1) [0x34000 + unat (i + 1) * 4096..<0x34000 + (unat (i + 1) + n) * 4096])"
    using Suc.IH[of "i + 1" ?b c1] Suc.prems lb by (auto simp: a)
  have "map (content c1) [0x34000 + unat (i + 1) * 4096..<0x34000 + (unat (i + 1) + n) * 4096] =
      map (content c) [0x34000 + unat i * 4096 + 4096..<0x34000 + (unat i + Suc n) * 4096]"
    unfolding c1(2) a using Suc.prems lb by (subst map_content_overlay) (simp_all add: algebra_simps)
  then have "content c2 = overlay (overlay (content c) (unat i * 4096) ?b) (unat i * 4096 + length ?b)
      (map (content c) [0x34000 + unat i * 4096 + 4096..<0x34000 + (unat i + Suc n) * 4096])"
    using c2(3) c1(2) lb by (simp add: a algebra_simps del: map_eq_conv)
  also have "\<dots> = overlay (content c) (unat i * 4096) (?b @ map (content c) [0x34000 + unat i * 4096 + 4096..<0x34000 + (unat i + Suc n) * 4096])"
    by (rule overlay_append)
  also have "?b @ map (content c) [0x34000 + unat i * 4096 + 4096..<0x34000 + (unat i + Suc n) * 4096] =
      map (content c) [0x34000 + unat i * 4096..<0x34000 + (unat i + Suc n) * 4096]"
    unfolding b src_def map_append[symmetric] by (subst upt_split) simp_all
  finally show ?case using c1(1) c2(1,2) by simp
qed

end


section \<open>Receiving the file\<close>

lemma of_nat32_inj:
  assumes "m < 4294967296" and "n < 4294967296"
  shows "(of_nat m :: u32) = of_nat n \<longleftrightarrow> m = n"
proof
  assume "(of_nat m :: u32) = of_nat n"
  then have "unat (of_nat m :: u32) = unat (of_nat n :: u32)" by (rule arg_cong)
  then show "m = n" unfolding unat_of_nat32[OF assms(1)] unat_of_nat32[OF assms(2)] .
qed simp

text \<open>
  What \<open>recv\<close> can deliver when it is asked for the rest of the sector buffer: at least one byte, and
  never beyond the buffer.
\<close>

fun chunks_ok :: "nat \<Rightarrow> bytes list \<Rightarrow> bool" where
  "chunks_ok w [] \<longleftrightarrow> True"
| "chunks_ok w (d # ds) \<longleftrightarrow> d \<noteq> [] \<and> length d \<le> 4096 - w \<and> chunks_ok ((w + length d) mod 4096) ds"

text \<open>The state of the loop after it has received \<open>P\<close>, when the first sector went to place \<open>s0\<close>.\<close>

definition ota_at :: "nat \<Rightarrow> bytes \<Rightarrow> gw \<Rightarrow> bool" where
  "ota_at s0 P g \<longleftrightarrow> recvFileSize g = of_nat (length P) \<and> WritePtr g = of_nat (length P mod 4096) \<and>
     upgradeSector g = of_nat (s0 + length P div 4096) \<and> length (OtaDataBuf g) = 4096 \<and>
     take (length P mod 4096) (OtaDataBuf g) = drop (length P div 4096 * 4096) P \<and>
     upgradeFlag g AND UPGRADE_START \<noteq> 0 \<and> upgradeFlag g AND UPGRADE_DOING \<noteq> 0"

definition received :: "bytes \<Rightarrow> bytes \<Rightarrow> gw \<Rightarrow> gw" where
  "received buf P g = g\<lparr>OtaDataBuf := buf, recvFileSize := of_nat (length P), WritePtr := of_nat ((length P - 1) mod 4096 + 1)\<rparr>"

lemma last_place:
  assumes "d \<noteq> []" and "length d \<le> 4096 - length P mod 4096"
  shows "(length (P @ d) - 1) mod 4096 + 1 = length P mod 4096 + length d" and "(length (P @ d) - 1) div 4096 = length P div 4096"
proof -
  obtain q w where q: "length P = q * 4096 + w" "w < 4096" by (metis div_mult_mod_eq mod_less_divisor zero_less_numeral)
  then have w: "length P mod 4096 = w" "length P div 4096 = q" by simp_all
  have d: "0 < length d" using assms(1) by simp
  then have e: "length (P @ d) - 1 = q * 4096 + (w + length d - 1)" using q d by (cases d) simp_all
  have l: "w + length d - 1 < 4096" using assms(2) d q(2) unfolding w by linarith
  have "(length (P @ d) - 1) mod 4096 = w + length d - 1" "(length (P @ d) - 1) div 4096 = q" unfolding e using l by simp_all
  then show "(length (P @ d) - 1) mod 4096 + 1 = length P mod 4096 + length d" "(length (P @ d) - 1) div 4096 = length P div 4096"
    unfolding w using d by simp_all
qed

lemma ota_loop_Rx:
  assumes at: "ota_at s0 P g" and d: "d \<noteq> []" "length d \<le> 4096 - length P mod 4096"
    and n: "length (P @ d) < 4294967296"
  obtains buf where "length buf = 4096"
    and "take (length P mod 4096 + length d) buf = drop (length P div 4096 * 4096) (P @ d)"
    and "ota_loop ch fd (Rx d # rs) g c =
      (let g1 = received buf (P @ d) g
       in if of_nat (length (P @ d)) = fileSize g then do {
            (x, g2, c2, eff) \<leftarrow> ota_finish ch fd g1 c; Some (x, g2, c2, close_clients g @ eff) }
          else if length P mod 4096 + length d = 4096 then do {
            (w, c1) \<leftarrow> QSpiWriteOneSector ch (OTA_FW_BAK_OFFSET + upgradeSector g * 4096) buf c;
            if w \<noteq> 0 then Some (Broke, g1\<lparr>upgradeFlag := 0\<rparr>, c1, close_clients g @ [CloseFd fd])
            else do { (x, g2, c2, eff) \<leftarrow> ota_loop ch fd rs (g1\<lparr>upgradeSector := upgradeSector g + 1, WritePtr := 0\<rparr>) c1;
              Some (x, g2, c2, close_clients g @ eff) } }
          else do { (x, g2, c2, eff) \<leftarrow> ota_loop ch fd rs g1 c; Some (x, g2, c2, close_clients g @ eff) })"
proof -
  define w where "w = length P mod 4096"
  have w: "w < 4096" by (simp add: w_def)
  have l: "w + length d \<le> 4096" using d(2) w by (simp add: w_def)
  have sd: "start_doing g = g" using at by (simp add: start_doing_def ota_at_def)
  have wp: "WritePtr g = of_nat w" "length (OtaDataBuf g) = 4096" "upgradeFlag g AND UPGRADE_START \<noteq> 0"
    "recvFileSize g = of_nat (length P)"
    using at by (simp_all add: ota_at_def w_def)
  have uw: "unat (of_nat w :: u32) = w" using w by (intro unat_of_nat32) simp
  then have room: "unat (4096 - WritePtr g) = 4096 - w" using w wp by (subst unat_sub) (simp_all add: word_le_nat_alt)
  define buf where "buf = put (OtaDataBuf g) w d"
  have b: "wr_seg (OtaDataBuf g) (unat (WritePtr g)) d = Some buf"
    using wp uw l by (simp add: wr_seg_def buf_def)
  have lb: "length buf = 4096" using wp l by (simp add: buf_def)
  have "take (w + length d) buf = take w (OtaDataBuf g) @ d" using wp l by (simp add: buf_def put_def)
  also have "\<dots> = drop (length P div 4096 * 4096) (P @ d)" using at by (simp add: ota_at_def w_def)
  finally have tb: "take (length P mod 4096 + length d) buf = drop (length P div 4096 * 4096) (P @ d)" by (simp only: w_def)
  have r: "received buf (P @ d) g = g\<lparr>OtaDataBuf := buf, recvFileSize := recvFileSize g + of_nat (length d),
      WritePtr := WritePtr g + of_nat (length d)\<rparr>"
    unfolding received_def last_place[OF d] wp by (simp add: w_def)
  have full: "WritePtr g + of_nat (length d) = 4096 \<longleftrightarrow> length P mod 4096 + length d = 4096"
  proof -
    have "WritePtr g + of_nat (length d) = (of_nat (w + length d) :: u32)" by (simp add: wp)
    moreover have "unat (of_nat (w + length d) :: u32) = w + length d" using l by (intro unat_of_nat32) simp
    ultimately show ?thesis by (simp add: word_unat_eq_iff w_def)
  qed
  have "WritePtr (received buf (P @ d) g) = WritePtr g + of_nat (length d)" by (subst r) simp
  then have f: "recvFileSize (received buf (P @ d) g) = of_nat (length (P @ d))" "fileSize (received buf (P @ d) g) = fileSize g"
    "upgradeSector (received buf (P @ d) g) = upgradeSector g"
    "WritePtr (received buf (P @ d) g) = 4096 \<longleftrightarrow> length P mod 4096 + length d = 4096"
    using full by (simp_all only:) (simp_all add: received_def)
  have c: "(d = [] \<or> unat (4096 - WritePtr g) < length d) = False" "(upgradeFlag g AND UPGRADE_START = 0) = False"
    using d l room wp(3) by auto
  show thesis
    by (rule that[OF lb tb])
      (simp only: ota_loop.simps c if_False sd Let_def rx.case b bind.bind_lunit r[symmetric] f)
qed

section \<open>A complete update\<close>

text \<open>
  What the flash holds afterwards: the image of \<open>k\<close> sectors is saved from place \<open>s0\<close> on, and then the first
  \<open>s0 + k\<close> saved sectors are copied to the main area.
\<close>

definition saved_image :: "(nat \<Rightarrow> u8) \<Rightarrow> nat \<Rightarrow> bytes \<Rightarrow> nat \<Rightarrow> u8" where
  "saved_image f s0 im = overlay f (0x34000 + s0 * 4096) im"

definition installed :: "(nat \<Rightarrow> u8) \<Rightarrow> nat \<Rightarrow> bytes \<Rightarrow> nat \<Rightarrow> u8" where
  "installed f s0 im =
     overlay (saved_image f s0 im) 0 (map (saved_image f s0 im) [0x34000..<0x34000 + s0 * 4096 + length im])"

definition sectors :: "bytes \<Rightarrow> nat" where
  "sectors F = (length F - 1) div 4096 + 1"

text \<open>The update ended well: everything but the flash, the update variables and the buffer is as before.\<close>

definition update_done :: "(nat \<Rightarrow> u8) \<Rightarrow> nat \<Rightarrow> bytes \<Rightarrow> (nat \<Rightarrow> u8) \<Rightarrow> gw \<Rightarrow> effect list \<Rightarrow> bool" where
  "update_done f s0 F f' g' eff \<longleftrightarrow> (\<exists>tail. length (F @ tail) = sectors F * 4096 \<and> f' = installed f s0 (F @ tail)) \<and>
     upgradeFlag g' = 0 \<and> upgradeSector g' = 0 \<and> ResetSystem \<in> set eff"

text \<open>An update that breaks off: the connection closes before the file is complete.\<close>

definition broken_off :: "nat \<Rightarrow> bytes \<Rightarrow> gw \<Rightarrow> gw \<Rightarrow> effect list \<Rightarrow> bool" where
  "broken_off s0 P g g' eff \<longleftrightarrow> upgradeFlag g' = 0 \<and> upgradeSector g' = of_nat (s0 + length P div 4096) \<and>
     g_SocketLogin g' = g_SocketLogin g \<and> g_stTCPSocketClients g' = g_stTCPSocketClients g \<and> set (close_clients g) \<subseteq> set eff"

context nor_flash
begin

lemma finish_exact:
  assumes F: "F \<noteq> []" "s0 + sectors F \<le> 0x34" and s: "upgradeSector g = of_nat (s0 + (length F - 1) div 4096)"
    and b: "length buf = 4096" "take ((length F - 1) mod 4096 + 1) buf = drop ((length F - 1) div 4096 * 4096) F"
    and c: "content c = saved_image f s0 (take ((length F - 1) div 4096 * 4096) F)"
  shows "\<exists>g' c' eff. ota_finish ch fd (received buf F g) c = Some (Broke, g', c', eff) \<and>
    update_done f s0 F (content c') g' eff"
proof -
  define q where "q = (length F - 1) div 4096"
  define w where "w = (length F - 1) mod 4096 + 1"
  have lf: "length F = q * 4096 + w" using F(1) by (simp add: q_def w_def flip: length_greater_0_conv) 
  have w: "w \<le> 4096" by (simp add: w_def Suc_leI)
  have N: "s0 + q + 1 \<le> 0x34" using F(2) by (simp add: sectors_def q_def)
  have u: "unat (of_nat (s0 + q) :: u32) = s0 + q" using N by (intro unat_of_nat32) simp
  have a: "unat (0x34000 + of_nat (s0 + q) * 4096 :: u32) = 0x34000 + (s0 + q) * 4096"
    using N by (simp only: unat_word_ariths u) simp
  have u1: "unat (of_nat (s0 + q) + 1 :: u32) = s0 + q + 1" using N by (simp only: unat_word_ariths u) simp
  define tail where "tail = drop w buf"
  have img: "take (q * 4096) F @ buf = F @ tail"
  proof -
    have "buf = drop (q * 4096) F @ tail" using b(2) by (metis append_take_drop_id q_def tail_def w_def)
    then show ?thesis by (metis append.assoc append_take_drop_id)
  qed
  have lq: "length (take (q * 4096) F) = q * 4096" using lf by simp
  have lt: "length (F @ tail) = sectors F * 4096"
    using arg_cong[OF img, of length] lq b(1) by (simp add: sectors_def q_def)
  obtain c1 where c1: "QSpiWriteOneSector ch (0x34000 + of_nat (s0 + q) * 4096) buf c = Some (0, c1)"
    "content c1 = overlay (content c) (0x34000 + (s0 + q) * 4096) buf"
    using write_one_sector[of buf "0x34000 + of_nat (s0 + q) * 4096" c] b(1) N unfolding a by auto
  have sv: "content c1 = saved_image f s0 (F @ tail)"
    using c1(2) c[folded q_def] overlay_append[of f "0x34000 + s0 * 4096" "take (q * 4096) F" buf] lq img
    by (simp add: saved_image_def algebra_simps)
  obtain buf2 c2 where c2: "install_sectors ch (s0 + q + 1) 0 buf c1 = Some (0, buf2, c2)"
    "content c2 = overlay (content c1) 0 (map (content c1) [0x34000..<0x34000 + (s0 + q + 1) * 4096])"
    using install_exact[of 0 "s0 + q + 1" buf c1] N by auto
  have e: "0x34000 + s0 * 4096 + length (F @ tail) = 0x34000 + (s0 + q + 1) * 4096"
    using lt by (simp add: sectors_def q_def algebra_simps)
  have "content c2 = installed f s0 (F @ tail)"
    unfolding c2(2) sv installed_def e ..
  moreover have "OtaDataBuf (received buf F g) = buf" "upgradeSector (received buf F g) = of_nat (s0 + q)"
    using s by (simp_all add: received_def q_def)
  ultimately show ?thesis using c1(1) c2(1) lt u1
    by (auto simp: ota_finish_def Let_def update_done_def simp del: of_nat_add install_sectors.simps)
qed

lemma next_sector:
  assumes at: "ota_at s0 P g" and d: "d \<noteq> []" "length P mod 4096 + length d = 4096"
    and b: "length buf = 4096" "take (length P mod 4096 + length d) buf = drop (length P div 4096 * 4096) (P @ d)"
    and s: "s0 + length P div 4096 + 1 \<le> 0x34"
    and c: "content c = saved_image f s0 (take (length P div 4096 * 4096) P)"
  shows "\<exists>c1. QSpiWriteOneSector ch (OTA_FW_BAK_OFFSET + upgradeSector g * 4096) buf c = Some (0, c1) \<and>
    content c1 = saved_image f s0 (P @ d) \<and>
    ota_at s0 (P @ d) (received buf (P @ d) g\<lparr>upgradeSector := upgradeSector g + 1, WritePtr := 0\<rparr>) \<and>
    length (P @ d) mod 4096 = 0"
proof -
  define q where "q = length P div 4096"
  have u: "unat (of_nat (s0 + q) :: u32) = s0 + q" using s by (intro unat_of_nat32) (simp add: q_def)
  have us: "upgradeSector g = of_nat (s0 + q)" using at by (simp add: ota_at_def q_def)
  have a: "unat (0x34000 + of_nat (s0 + q) * 4096 :: u32) = 0x34000 + (s0 + q) * 4096"
    using s by (simp only: unat_word_ariths u) (simp add: q_def)
  obtain c1 where c1: "QSpiWriteOneSector ch (0x34000 + of_nat (s0 + q) * 4096) buf c = Some (0, c1)"
    "content c1 = overlay (content c) (0x34000 + (s0 + q) * 4096) buf"
    using write_one_sector[of buf "0x34000 + of_nat (s0 + q) * 4096" c] b(1) s unfolding a by (auto simp: q_def)
  have lP: "length P = q * 4096 + length P mod 4096" by (simp add: q_def)
  have bd: "buf = drop (q * 4096) (P @ d)" using b d(2) by (simp add: q_def)
  have lt: "length (take (q * 4096) P) = q * 4096" using lP by simp
  have "take (q * 4096) P @ buf = P @ d" unfolding bd using lP by simp
  then have "content c1 = saved_image f s0 (P @ d)"
    using c1(2) c[folded q_def] overlay_append[of f "0x34000 + s0 * 4096" "take (q * 4096) P" buf] lt
    by (simp add: saved_image_def algebra_simps)
  moreover have l: "length (P @ d) = Suc q * 4096" using lP d(2) by simp
  then have m: "length (P @ d) mod 4096 = 0" "length (P @ d) div 4096 = q + 1" by simp_all
  have "ota_at s0 (P @ d) (received buf (P @ d) g\<lparr>upgradeSector := upgradeSector g + 1, WritePtr := 0\<rparr>)"
    unfolding ota_at_def m using at b(1) us l by (simp add: received_def ota_at_def)
  ultimately show ?thesis using c1(1) m us by auto
qed

lemma same_sector:
  assumes at: "ota_at s0 P g" and d: "d \<noteq> []" "length P mod 4096 + length d < 4096"
    and b: "length buf = 4096" "take (length P mod 4096 + length d) buf = drop (length P div 4096 * 4096) (P @ d)"
  shows "ota_at s0 (P @ d) (received buf (P @ d) g)" and "length (P @ d) div 4096 = length P div 4096"
    and "length (P @ d) mod 4096 = length P mod 4096 + length d"
proof -
  obtain q w where q: "length P = q * 4096 + w" "w < 4096" by (metis div_mult_mod_eq mod_less_divisor zero_less_numeral)
  then have w: "length P mod 4096 = w" "length P div 4096 = q" by simp_all
  have l: "length (P @ d) = q * 4096 + (w + length d)" by (simp add: q)
  show m: "length (P @ d) div 4096 = length P div 4096" "length (P @ d) mod 4096 = length P mod 4096 + length d"
    unfolding l w using d(2)[unfolded w] by simp_all
  have "(length (P @ d) - 1) mod 4096 + 1 = length P mod 4096 + length d" using d by (intro last_place) simp_all
  then show "ota_at s0 (P @ d) (received buf (P @ d) g)"
    using at b unfolding ota_at_def m by (simp add: received_def)
qed

lemma sectors_mono: "length P < length F \<Longrightarrow> length P div 4096 + 1 \<le> sectors F"
  by (simp add: sectors_def div_le_mono)

lemma ota_run:
  "chunks_ok (length P mod 4096) ds \<Longrightarrow> ds \<noteq> [] \<Longrightarrow> ota_at s0 P g \<Longrightarrow> fileSize g = of_nat (length (P @ concat ds)) \<Longrightarrow>
   s0 + sectors (P @ concat ds) \<le> 0x34 \<Longrightarrow> content c = saved_image f s0 (take (length P div 4096 * 4096) P) \<Longrightarrow>
   \<exists>g' c' eff. ota_loop ch fd (map Rx ds @ rs) g c = Some (Broke, g', c', eff) \<and>
     update_done f s0 (P @ concat ds) (content c') g' eff"
proof (induction ds arbitrary: P g c)
  case Nil
  then show ?case by simp
next
  case (Cons d ds)
  define F where "F = P @ d @ concat ds"
  have d: "d \<noteq> []" "length d \<le> 4096 - length P mod 4096" and ok: "chunks_ok ((length P mod 4096 + length d) mod 4096) ds"
    using Cons.prems(1) by simp_all
  have F: "F \<noteq> []" "length P < length F" using d(1) by (auto simp: F_def)
  have n: "length F \<le> 0x34000"
  proof -
    have "length F \<le> sectors F * 4096" by (simp add: sectors_def)
    then show ?thesis using Cons.prems(5) by (simp add: F_def)
  qed
  have n2: "length (P @ d) < 4294967296" using n by (simp add: F_def)
  obtain buf where b: "length buf = 4096" "take (length P mod 4096 + length d) buf = drop (length P div 4096 * 4096) (P @ d)"
    and step: "ota_loop ch fd (Rx d # map Rx ds @ rs) g c =
      (let g1 = received buf (P @ d) g
       in if of_nat (length (P @ d)) = fileSize g then do {
            (x, g2, c2, eff) \<leftarrow> ota_finish ch fd g1 c; Some (x, g2, c2, close_clients g @ eff) }
          else if length P mod 4096 + length d = 4096 then do {
            (w, c1) \<leftarrow> QSpiWriteOneSector ch (OTA_FW_BAK_OFFSET + upgradeSector g * 4096) buf c;
            if w \<noteq> 0 then Some (Broke, g1\<lparr>upgradeFlag := 0\<rparr>, c1, close_clients g @ [CloseFd fd])
            else do { (x, g2, c2, eff) \<leftarrow> ota_loop ch fd (map Rx ds @ rs) (g1\<lparr>upgradeSector := upgradeSector g + 1, WritePtr := 0\<rparr>) c1;
              Some (x, g2, c2, close_clients g @ eff) } }
          else do { (x, g2, c2, eff) \<leftarrow> ota_loop ch fd (map Rx ds @ rs) g1 c; Some (x, g2, c2, close_clients g @ eff) })"
    by (rule ota_loop_Rx[OF Cons.prems(3) d n2, where ch = ch and fd = fd and rs = "map Rx ds @ rs" and c = c])
  have up: "upgradeSector g = of_nat (s0 + length P div 4096)" using Cons.prems(3) by (simp add: ota_at_def)
  have last: "of_nat (length (P @ d)) = fileSize g \<longleftrightarrow> ds = []"
  proof -
    have "of_nat (length (P @ d)) = (of_nat (length F) :: u32) \<longleftrightarrow> length (P @ d) = length F"
      using n n2 by (intro of_nat32_inj) simp_all
    moreover have "concat ds = [] \<longleftrightarrow> ds = []" using ok by (cases ds) auto
    ultimately show ?thesis using Cons.prems(4) by (simp add: F_def)
  qed
  have sec: "s0 + length P div 4096 + 1 \<le> 0x34" using sectors_mono[OF F(2)] Cons.prems(5) by (simp add: F_def)
  have done_app: "update_done f s0 G f' g' (e @ eff)" if "update_done f s0 G f' g' eff" for G f' g' e eff
    using that by (simp add: update_done_def)
  consider "ds = []" | "ds \<noteq> []" "length P mod 4096 + length d = 4096" | "ds \<noteq> []" "length P mod 4096 + length d < 4096"
    using d(2) by fastforce
  then show ?case
  proof cases
    case 1
    then have F': "F = P @ d" by (simp add: F_def)
    note lp = last_place[OF d]
    have "take (length P div 4096 * 4096) (P @ d) = take (length P div 4096 * 4096) P" by simp
    then obtain g' c' eff where "ota_finish ch fd (received buf F g) c = Some (Broke, g', c', eff)" "update_done f s0 F (content c') g' eff"
      using finish_exact[of F s0 g buf c f fd] F Cons.prems(5,6) up b lp 1 unfolding F' by auto
    then show ?thesis using step last 1 done_app by (auto simp: F' Let_def)
  next
    case 2
    obtain c1 where c1: "QSpiWriteOneSector ch (OTA_FW_BAK_OFFSET + upgradeSector g * 4096) buf c = Some (0, c1)"
      "content c1 = saved_image f s0 (P @ d)"
      "ota_at s0 (P @ d) (received buf (P @ d) g\<lparr>upgradeSector := upgradeSector g + 1, WritePtr := 0\<rparr>)"
      "length (P @ d) mod 4096 = 0"
      using next_sector[OF Cons.prems(3) d(1) 2(2) b sec Cons.prems(6)] by (elim exE conjE) (rule that)
    have "length (P @ d) div 4096 * 4096 = length (P @ d)" using c1(4) div_mult_mod_eq[of "length (P @ d)" 4096] by simp
    then have "take (length (P @ d) div 4096 * 4096) (P @ d) = P @ d" by (simp only: take_all order_refl)
    have "\<exists>g' c' eff. ota_loop ch fd (map Rx ds @ rs) (received buf (P @ d) g\<lparr>upgradeSector := upgradeSector g + 1, WritePtr := 0\<rparr>) c1 =
        Some (Broke, g', c', eff) \<and> update_done f s0 ((P @ d) @ concat ds) (content c') g' eff"
    proof (rule Cons.IH)
      show "chunks_ok (length (P @ d) mod 4096) ds" using ok 2(2) unfolding c1(4) by simp
      show "fileSize (received buf (P @ d) g\<lparr>upgradeSector := upgradeSector g + 1, WritePtr := 0\<rparr>) = of_nat (length ((P @ d) @ concat ds))"
        using Cons.prems(4) by (simp add: received_def)
      show "s0 + sectors ((P @ d) @ concat ds) \<le> 52" using Cons.prems(5) by simp
      show "content c1 = saved_image f s0 (take (length (P @ d) div 4096 * 4096) (P @ d))"
        unfolding \<open>take (length (P @ d) div 4096 * 4096) (P @ d) = P @ d\<close> by (rule c1(2))
    qed (use 2(1) c1(3) in auto)
    then show ?thesis using step last 2 c1(1) done_app by (auto simp: Let_def)
  next
    case 3
    note s = same_sector[OF Cons.prems(3) d(1) 3(2) b]
    have "take (length (P @ d) div 4096 * 4096) (P @ d) = take (length P div 4096 * 4096) P" unfolding s(2) by simp
    have "\<exists>g' c' eff. ota_loop ch fd (map Rx ds @ rs) (received buf (P @ d) g) c =
        Some (Broke, g', c', eff) \<and> update_done f s0 ((P @ d) @ concat ds) (content c') g' eff"
    proof (rule Cons.IH)
      have "(length P mod 4096 + length d) mod 4096 = length P mod 4096 + length d" using 3(2) by simp
      then show "chunks_ok (length (P @ d) mod 4096) ds" using ok unfolding s(3) by simp
      show "fileSize (received buf (P @ d) g) = of_nat (length ((P @ d) @ concat ds))"
        using Cons.prems(4) by (simp add: received_def)
      show "s0 + sectors ((P @ d) @ concat ds) \<le> 52" using Cons.prems(5) by simp
      show "content c = saved_image f s0 (take (length (P @ d) div 4096 * 4096) (P @ d))"
        unfolding \<open>take (length (P @ d) div 4096 * 4096) (P @ d) = take (length P div 4096 * 4096) P\<close> by (rule Cons.prems(6))
    qed (use 3(1) s(1) in auto)
    then show ?thesis using step last 3 done_app by (auto simp: Let_def)
  qed
qed

lemma broken_off_run:
  "chunks_ok (length P mod 4096) ds \<Longrightarrow> ota_at s0 P g \<Longrightarrow> fileSize g = of_nat n \<Longrightarrow> length (P @ concat ds) < n \<Longrightarrow>
   s0 * 4096 + n \<le> 0x34000 \<Longrightarrow> content c = saved_image f s0 (take (length P div 4096 * 4096) P) \<Longrightarrow>
   \<exists>g' c' eff. ota_loop ch fd (map Rx ds @ RxClosed # rs) g c = Some (Returned, g', c', eff) \<and>
     broken_off s0 (P @ concat ds) g g' eff"
proof (induction ds arbitrary: P g c)
  case Nil
  have "start_doing g = g" "upgradeFlag g AND UPGRADE_START \<noteq> 0" using Nil.prems(2) by (simp_all add: start_doing_def ota_at_def)
  then show ?case using Nil.prems(2) by (auto simp: broken_off_def ota_at_def Let_def)
next
  case (Cons d ds)
  have d: "d \<noteq> []" "length d \<le> 4096 - length P mod 4096" and ok: "chunks_ok ((length P mod 4096 + length d) mod 4096) ds"
    using Cons.prems(1) by simp_all
  have n: "length (P @ d) < n" "n < 4294967296" using Cons.prems(4,5) by simp_all
  then have n2: "length (P @ d) < 4294967296" by simp
  obtain buf where b: "length buf = 4096" "take (length P mod 4096 + length d) buf = drop (length P div 4096 * 4096) (P @ d)"
    and step: "ota_loop ch fd (Rx d # map Rx ds @ RxClosed # rs) g c =
      (let g1 = received buf (P @ d) g
       in if of_nat (length (P @ d)) = fileSize g then do {
            (x, g2, c2, eff) \<leftarrow> ota_finish ch fd g1 c; Some (x, g2, c2, close_clients g @ eff) }
          else if length P mod 4096 + length d = 4096 then do {
            (w, c1) \<leftarrow> QSpiWriteOneSector ch (OTA_FW_BAK_OFFSET + upgradeSector g * 4096) buf c;
            if w \<noteq> 0 then Some (Broke, g1\<lparr>upgradeFlag := 0\<rparr>, c1, close_clients g @ [CloseFd fd])
            else do { (x, g2, c2, eff) \<leftarrow> ota_loop ch fd (map Rx ds @ RxClosed # rs) (g1\<lparr>upgradeSector := upgradeSector g + 1, WritePtr := 0\<rparr>) c1;
              Some (x, g2, c2, close_clients g @ eff) } }
          else do { (x, g2, c2, eff) \<leftarrow> ota_loop ch fd (map Rx ds @ RxClosed # rs) g1 c; Some (x, g2, c2, close_clients g @ eff) })"
    by (rule ota_loop_Rx[OF Cons.prems(2) d n2, where ch = ch and fd = fd and rs = "map Rx ds @ RxClosed # rs" and c = c])
  have more: "(of_nat (length (P @ d)) = fileSize g) = False"
    using n of_nat32_inj[OF n2 n(2)] Cons.prems(3) by simp
  have sec: "s0 + length P div 4096 + 1 \<le> 0x34"
  proof -
    have "length P div 4096 * 4096 \<le> length P" by simp
    moreover have "length P < n" using n by simp
    ultimately have "(s0 + length P div 4096) * 4096 < 0x34 * 4096" using Cons.prems(5) by (simp add: algebra_simps)
    then show ?thesis by simp
  qed
  have more_eff: "broken_off s0 Q g g' (close_clients g @ eff)"
    if "broken_off s0 Q h g' eff" "g_SocketLogin h = g_SocketLogin g" "g_stTCPSocketClients h = g_stTCPSocketClients g" for Q h g' eff
    using that by (auto simp: broken_off_def)
  have same: "g_SocketLogin (received buf Q g) = g_SocketLogin g" "g_stTCPSocketClients (received buf Q g) = g_stTCPSocketClients g"
    "fileSize (received buf Q g) = fileSize g" for Q by (simp_all add: received_def)
  consider "length P mod 4096 + length d = 4096" | "length P mod 4096 + length d < 4096" using d(2) by fastforce
  then show ?case
  proof cases
    case 1
    let ?h = "received buf (P @ d) g\<lparr>upgradeSector := upgradeSector g + 1, WritePtr := 0\<rparr>"
    obtain c1 where c1: "QSpiWriteOneSector ch (OTA_FW_BAK_OFFSET + upgradeSector g * 4096) buf c = Some (0, c1)"
      "content c1 = saved_image f s0 (P @ d)" "ota_at s0 (P @ d) ?h" "length (P @ d) mod 4096 = 0"
      using next_sector[OF Cons.prems(2) d(1) 1 b sec Cons.prems(6)] by (elim exE conjE) (rule that)
    have "length (P @ d) div 4096 * 4096 = length (P @ d)" using c1(4) div_mult_mod_eq[of "length (P @ d)" 4096] by simp
    then have t: "take (length (P @ d) div 4096 * 4096) (P @ d) = P @ d" by (simp only: take_all order_refl)
    have "\<exists>g' c' eff. ota_loop ch fd (map Rx ds @ RxClosed # rs) ?h c1 = Some (Returned, g', c', eff) \<and>
        broken_off s0 ((P @ d) @ concat ds) ?h g' eff"
    proof (rule Cons.IH)
      show "chunks_ok (length (P @ d) mod 4096) ds" using ok 1 unfolding c1(4) by simp
      show "content c1 = saved_image f s0 (take (length (P @ d) div 4096 * 4096) (P @ d))" unfolding t by (rule c1(2))
    qed (use c1(3) Cons.prems(3,4,5) same in auto)
    then obtain g' c' eff where r: "ota_loop ch fd (map Rx ds @ RxClosed # rs) ?h c1 = Some (Returned, g', c', eff)"
      "broken_off s0 ((P @ d) @ concat ds) ?h g' eff" by blast
    then show ?thesis using step 1 c1(1) more more_eff[OF r(2)] same by (simp add: Let_def)
  next
    case 2
    note s = same_sector[OF Cons.prems(2) d(1) 2 b]
    have t: "take (length (P @ d) div 4096 * 4096) (P @ d) = take (length P div 4096 * 4096) P" unfolding s(2) by simp
    have "\<exists>g' c' eff. ota_loop ch fd (map Rx ds @ RxClosed # rs) (received buf (P @ d) g) c = Some (Returned, g', c', eff) \<and>
        broken_off s0 ((P @ d) @ concat ds) (received buf (P @ d) g) g' eff"
    proof (rule Cons.IH)
      have "(length P mod 4096 + length d) mod 4096 = length P mod 4096 + length d" using 2 by simp
      then show "chunks_ok (length (P @ d) mod 4096) ds" using ok unfolding s(3) by simp
      show "content c = saved_image f s0 (take (length (P @ d) div 4096 * 4096) (P @ d))" unfolding t by (rule Cons.prems(6))
    qed (use s(1) Cons.prems(3,4,5) same in auto)
    then obtain g' c' eff where r: "ota_loop ch fd (map Rx ds @ RxClosed # rs) (received buf (P @ d) g) c = Some (Returned, g', c', eff)"
      "broken_off s0 ((P @ d) @ concat ds) (received buf (P @ d) g) g' eff" by blast
    then show ?thesis using step 2 more more_eff[OF r(2)] same by (simp add: Let_def)
  qed
qed

end

lemma start_doing_twice: "start_doing (start_doing g) = start_doing g"
  by (simp add: start_doing_def bit.conj_disj_distrib2)

lemma start_keeps: "upgradeFlag (start_doing g) AND UPGRADE_START = upgradeFlag g AND UPGRADE_START"
  by (simp add: start_doing_def bit.conj_disj_distrib2)

lemma ota_loop_start: "ota_loop ch fd (r # rs) g c = (if upgradeFlag g AND UPGRADE_START = 0 then Some (Broke, g, c, [])
   else ota_loop ch fd (r # rs) (start_doing g) c)"
proof -
  have "close_clients (start_doing g) = close_clients g" by (simp add: close_clients_def start_doing_def)
  then show ?thesis by (simp only: ota_loop.simps start_doing_twice start_keeps if_False split: if_split) simp
qed

lemma ota_at_start:
  assumes "upgradeFlag g = UPGRADE_START" and "upgradeSector g = of_nat s0" and "length (OtaDataBuf g) = 4096"
  shows "ota_at s0 [] (start_doing g)"
  using assms by (simp add: ota_at_def start_doing_def)

lemma installed_at:
  assumes "s0 * 4096 + length im \<le> 0x34000"
  shows "i < length im \<Longrightarrow> installed f s0 im (s0 * 4096 + i) = im ! i"
    and "x < s0 * 4096 \<Longrightarrow> installed f s0 im x = f (0x34000 + x)"
    and "s0 * 4096 + length im \<le> x \<Longrightarrow> x < 0x34000 \<or> 0x34000 + s0 * 4096 + length im \<le> x \<Longrightarrow> installed f s0 im x = f x"
  using assms by (auto simp: installed_def saved_image_def overlay_def)

lemma sectors_bound: "F \<noteq> [] \<Longrightarrow> length F \<le> k * 4096 \<Longrightarrow> sectors F \<le> k"
proof -
  assume "F \<noteq> []" "length F \<le> k * 4096"
  then have "length F - 1 < k * 4096" by (cases F) simp_all
  then have "(length F - 1) div 4096 < k" by (simp add: less_mult_imp_div_less)
  then show ?thesis by (simp add: sectors_def)
qed

lemma concat_chunks: "chunks_ok w ds \<Longrightarrow> ds \<noteq> [] \<Longrightarrow> concat ds \<noteq> []"
  by (cases ds) auto

context nor_flash
begin

lemma update_run:
  assumes "chunks_ok 0 ds" and "ds \<noteq> []" and "s0 + sectors (concat ds) \<le> 0x34"
    and "upgradeFlag g = UPGRADE_START" and "upgradeSector g = of_nat s0" and "length (OtaDataBuf g) = 4096"
    and "fileSize g = of_nat (length (concat ds))"
  shows "\<exists>g' c' eff. ota_loop ch fd (map Rx ds @ rs) g c = Some (Broke, g', c', eff) \<and>
    update_done (content c) s0 (concat ds) (content c') g' eff"
proof -
  have "\<exists>g' c' eff. ota_loop ch fd (map Rx ds @ rs) (start_doing g) c = Some (Broke, g', c', eff) \<and>
    update_done (content c) s0 ([] @ concat ds) (content c') g' eff"
    by (rule ota_run) (use assms ota_at_start[OF assms(4,5,6)] in \<open>simp_all add: start_doing_def saved_image_def overlay_Nil\<close>)
  moreover have "ota_loop ch fd (map Rx ds @ rs) g c = ota_loop ch fd (map Rx ds @ rs) (start_doing g) c"
    using assms(2,4) by (cases ds) (simp_all only: list.map append_Cons ota_loop_start[of ch fd _ _ g c], simp_all)
  ultimately show ?thesis by simp
qed

end

section \<open>An example\<close>

definition chunks0 :: "bytes list" where
  "chunks0 = [replicate 1000 1, replicate 3096 2, replicate 10 3]"

definition update0 :: "u32 \<Rightarrow> gw" where
  "update0 n = gw2\<lparr>upgradeFlag := 1, fileSize := 4106, upgradeSector := n\<rparr>"

lemma example_update:
  "chunks_ok 0 chunks0" "chunks0 \<noteq> []" "length (concat chunks0) = 4106" "upgradeFlag (update0 n) = 1" "upgradeSector (update0 n) = n"
  "length (OtaDataBuf (update0 n)) = 4096" "fileSize (update0 n) = 4106"
  by (simp_all add: chunks0_def update0_def gw2_def gw1_def gw0_def)

section \<open>Properties\<close>

text \<open>C6 The firmware update, when no earlier one broke off: for every split of a file of at most 192 KB into
  what \<open>recv\<close> delivers, on a chip that behaves as a NOR flash, the receive loop ends, the main area
  starts with exactly the file, everything between the file's last sector and the backup area and
  everything from the configuration area on is untouched, and the system is reset.\<close>
lemma firmware_update_installs:
  assumes "nor_flash ch content" and "chunks_ok 0 ds" and "ds \<noteq> []" and "length (concat ds) \<le> 0x30000"
    and "upgradeFlag g = UPGRADE_START" and "upgradeSector g = 0" and "length (OtaDataBuf g) = 4096"
    and "fileSize g = of_nat (length (concat ds))"
  shows "\<exists>g' c' eff. ota_loop ch fd (map Rx ds @ rs) g c = Some (Broke, g', c', eff) \<and>
    map (content c') [0..<length (concat ds)] = concat ds \<and>
    (\<forall>x. sectors (concat ds) * 4096 \<le> x \<and> x < 0x34000 \<or> 0x64000 \<le> x \<longrightarrow> content c' x = content c x) \<and>
    ResetSystem \<in> set eff \<and> upgradeFlag g' = 0 \<and> upgradeSector g' = 0"
proof -
  have k: "sectors (concat ds) \<le> 0x30" using assms(4) concat_chunks[OF assms(2,3)] by (intro sectors_bound) simp_all
  then obtain g' c' eff where r: "ota_loop ch fd (map Rx ds @ rs) g c = Some (Broke, g', c', eff)"
    "update_done (content c) 0 (concat ds) (content c') g' eff"
    using nor_flash.update_run[OF assms(1-3), of 0 g fd rs c] assms(5-8) by auto
  then obtain tail where t: "length (concat ds @ tail) = sectors (concat ds) * 4096" "content c' = installed (content c) 0 (concat ds @ tail)"
    by (auto simp: update_done_def)
  have l: "0 * 4096 + length (concat ds @ tail) \<le> 0x34000" using k t(1) by simp
  have "map (content c') [0..<length (concat ds)] = concat ds"
    using installed_at(1)[OF l, of _ "content c"] unfolding t(2) by (auto simp: nth_append intro!: nth_equalityI)
  moreover have "content c' x = content c x" if "sectors (concat ds) * 4096 \<le> x \<and> x < 0x34000 \<or> 0x64000 \<le> x" for x
    unfolding t(2) by (rule installed_at(3)[OF l]) (use that t(1) k in auto)
  ultimately show ?thesis using r by (auto simp: update_done_def)
qed

lemma firmware_update_installs_witness:
  "\<exists>g' c' eff. ota_loop nor_chip 6 (map Rx chunks0 @ []) (update0 0) (\<lambda>x. 0) = Some (Broke, g', c', eff) \<and>
    map (id c') [0..<length (concat chunks0)] = concat chunks0 \<and>
    (\<forall>x. sectors (concat chunks0) * 4096 \<le> x \<and> x < 0x34000 \<or> 0x64000 \<le> x \<longrightarrow> id c' x = id (\<lambda>x. 0) x) \<and>
    ResetSystem \<in> set eff \<and> upgradeFlag g' = 0 \<and> upgradeSector g' = 0"
  by (rule firmware_update_installs[OF nor.nor_flash_axioms]) (simp_all add: example_update)

text \<open>C37 A broken-off update leaves more than a chip with part of a file: for every part of the file received
  before the connection closes, the clients have been closed but stay in the client and in the login
  table, so that a later connection with the same descriptor counts as logged in, and the number of the
  sectors written stays in \<open>upgradeSector\<close>, where the next update goes on counting.\<close>
lemma broken_update_leaves:
  assumes "nor_flash ch content" and "chunks_ok 0 ds" and "length (concat ds) < n" and "n \<le> 0x34000"
    and "upgradeFlag g = UPGRADE_START" and "upgradeSector g = 0" and "length (OtaDataBuf g) = 4096" and "fileSize g = of_nat n"
  shows "\<exists>g' c' eff. ota_loop ch fd (map Rx ds @ RxClosed # rs) g c = Some (Returned, g', c', eff) \<and>
    set (close_clients g) \<subseteq> set eff \<and> g_SocketLogin g' = g_SocketLogin g \<and> g_stTCPSocketClients g' = g_stTCPSocketClients g \<and>
    upgradeSector g' = of_nat (length (concat ds) div 4096) \<and> upgradeFlag g' = 0"
proof -
  have "\<exists>g' c' eff. ota_loop ch fd (map Rx ds @ RxClosed # rs) (start_doing g) c = Some (Returned, g', c', eff) \<and>
      broken_off 0 ([] @ concat ds) (start_doing g) g' eff"
    by (rule nor_flash.broken_off_run[OF assms(1), where n = n and f = "content c"])
      (use assms ota_at_start[of g 0] in \<open>simp_all add: start_doing_def saved_image_def overlay_Nil\<close>)
  moreover have "ota_loop ch fd (map Rx ds @ RxClosed # rs) g c = ota_loop ch fd (map Rx ds @ RxClosed # rs) (start_doing g) c"
    using assms(5) by (cases ds) (simp_all only: list.map append_Cons append_Nil ota_loop_start[of ch fd _ _ g c], simp_all)
  moreover have "close_clients (start_doing g) = close_clients g" "g_SocketLogin (start_doing g) = g_SocketLogin g"
    "g_stTCPSocketClients (start_doing g) = g_stTCPSocketClients g"
    by (simp_all add: close_clients_def start_doing_def)
  ultimately show ?thesis by (auto simp: broken_off_def)
qed

lemma broken_update_leaves_witness:
  "\<exists>g' c' eff. ota_loop nor_chip 6 (map Rx chunks0 @ RxClosed # []) (update0 0\<lparr>fileSize := 10000\<rparr>) (\<lambda>x. 0) = Some (Returned, g', c', eff) \<and>
    set (close_clients (update0 0\<lparr>fileSize := 10000\<rparr>)) \<subseteq> set eff \<and> g_SocketLogin g' = g_SocketLogin (update0 0\<lparr>fileSize := 10000\<rparr>) \<and>
    g_stTCPSocketClients g' = g_stTCPSocketClients (update0 0\<lparr>fileSize := 10000\<rparr>) \<and>
    upgradeSector g' = of_nat (length (concat chunks0) div 4096) \<and> upgradeFlag g' = 0"
  by (rule broken_update_leaves[OF nor.nor_flash_axioms, where n = 10000]) (simp_all add: example_update)

text \<open>The update after a broken-off one: with \<open>s0\<close> sectors left over, a complete transfer of a file ends
  with success and a reset, but the main area then starts with the first \<open>s0\<close> sectors of what was in the
  backup area before, and the file comes after them.\<close>
lemma update_after_broken_update:
  assumes "nor_flash ch content" and "chunks_ok 0 ds" and "ds \<noteq> []" and "s0 * 4096 + length (concat ds) \<le> 0x30000"
    and "upgradeFlag g = UPGRADE_START" and "upgradeSector g = of_nat s0" and "length (OtaDataBuf g) = 4096"
    and "fileSize g = of_nat (length (concat ds))"
  shows "\<exists>g' c' eff. ota_loop ch fd (map Rx ds @ rs) g c = Some (Broke, g', c', eff) \<and> ResetSystem \<in> set eff \<and>
    map (content c') [0..<s0 * 4096] = map (content c) [0x34000..<0x34000 + s0 * 4096] \<and>
    map (\<lambda>i. content c' (s0 * 4096 + i)) [0..<length (concat ds)] = concat ds"
proof -
  have "length (concat ds) \<le> (0x30 - s0) * 4096" using assms(4) by (simp add: diff_mult_distrib)
  then have k: "sectors (concat ds) \<le> 0x30 - s0" using concat_chunks[OF assms(2,3)] by (intro sectors_bound) simp_all
  moreover have s0: "s0 \<le> 0x30" using assms(4) by simp
  ultimately have k2: "s0 + sectors (concat ds) \<le> 0x30" by simp
  then obtain g' c' eff where r: "ota_loop ch fd (map Rx ds @ rs) g c = Some (Broke, g', c', eff)"
    "update_done (content c) s0 (concat ds) (content c') g' eff"
    using nor_flash.update_run[OF assms(1-3), of s0 g fd rs c] assms(5-8) by auto
  then obtain tail where t: "length (concat ds @ tail) = sectors (concat ds) * 4096" "content c' = installed (content c) s0 (concat ds @ tail)"
    by (auto simp: update_done_def)
  have l: "s0 * 4096 + length (concat ds @ tail) \<le> 0x34000" using k2 unfolding t(1) by simp
  have "map (\<lambda>i. content c' (s0 * 4096 + i)) [0..<length (concat ds)] = concat ds"
    using installed_at(1)[OF l, of _ "content c"] unfolding t(2) by (auto simp: nth_append intro!: nth_equalityI)
  moreover have "map (content c') [0..<s0 * 4096] = map (content c) [0x34000..<0x34000 + s0 * 4096]"
    using installed_at(2)[OF l, of _ "content c"] unfolding t(2) by (auto intro!: nth_equalityI)
  ultimately show ?thesis using r by (auto simp: update_done_def)
qed

lemma update_after_broken_update_witness:
  "\<exists>g' c' eff. ota_loop nor_chip 6 (map Rx chunks0 @ []) (update0 2) (\<lambda>x. 0) = Some (Broke, g', c', eff) \<and> ResetSystem \<in> set eff \<and>
    map (id c') [0..<2 * 4096] = map (id (\<lambda>x. 0)) [0x34000..<0x34000 + 2 * 4096] \<and>
    map (\<lambda>i. id c' (2 * 4096 + i)) [0..<length (concat chunks0)] = concat chunks0"
  by (rule update_after_broken_update[OF nor.nor_flash_axioms]) (simp_all add: example_update)

end
