(* ===== verification/NtpClient.thy ===== *)
theory NtpClient
  imports McuGateway
begin

text \<open>
  The NTP client (App/GizWitsWifi/lib/ntp_client.c): the query packet, the time taken from an answer, and
  the system clock it sets, from which the timers of the device compute the local time. The tick counter
  (\<open>OSTimeGet\<close>) is part of each event; what is on the stack below a short answer is an argument.
\<close>

section \<open>Packets\<close>

abbreviation (input) "OS_TICKS_PER_SEC \<equiv> (100 :: u32)"

definition JAN_1970 :: u32 where "JAN_1970 = 0x83aa7e80"

text \<open>\<open>int\<close> arithmetic, taken to wrap around; the shift is that of a signed number.\<close>

definition NTPFRAC :: "u32 \<Rightarrow> u32" where
  "NTPFRAC x = 4294 * x + signed_drop_bit 11 (1981 * x)"

definition USEC :: "u32 \<Rightarrow> u32" where
  "USEC x = drop_bit 12 x - 759 * drop_bit 16 (drop_bit 10 x + 32768)"

text \<open>
  \<open>SendQueryTimePacked\<close>: the bit-fields of the header word are the bytes -6, 4, 0 and 3 + (3 << 3),
  and \<open>htonl\<close> reverses them.
\<close>

definition header_word :: u32 where
  "header_word = mk32 (3 OR push_bit 3 3 OR push_bit 6 0) 0 4 (- 6)"

definition query_packet :: "u32 \<Rightarrow> bytes" where
  "query_packet ticks =
     (let timer = ticks div OS_TICKS_PER_SEC; root_delay = (push_bit 16 1 :: u32); root_dispersion = (push_bit 16 1 :: u32);
          root_delay = bswap32 root_dispersion; root_dispersion = bswap32 root_dispersion
      in le32 (bswap32 header_word) @ le32 root_delay @ le32 root_dispersion @ zeros 28
         @ le32 (bswap32 (timer + JAN_1970)) @ le32 (bswap32 (NTPFRAC timer)))"

text \<open>The answer as \<open>recvfrom\<close> leaves it in the packet: at most 48 bytes, over what was there.\<close>

definition RecvNtpPacked :: "bytes \<Rightarrow> bytes \<Rightarrow> bytes" where
  "RecvNtpPacked stack d = put stack 0 (take 48 d)"

definition GetSynTimeFromNtpPacked :: "bytes \<Rightarrow> (u32 \<times> u32) option" where
  "GetSynTimeFromNtpPacked p = do {
     c \<leftarrow> rd_seg p 40 4;
     f \<leftarrow> rd_seg p 44 4;
     coarse \<leftarrow> of_le32 c;
     fine \<leftarrow> of_le32 f;
     Some (bswap32 coarse - JAN_1970, USEC (bswap32 fine))
   }"

section \<open>The clock\<close>

definition GetLocalTime :: "u32 \<Rightarrow> u32 \<times> u32" where
  "GetLocalTime ticks =
     (ticks div OS_TICKS_PER_SEC + 1417305600 + 28800, ticks mod OS_TICKS_PER_SEC div OS_TICKS_PER_SEC * 1000)"

definition ModifyLocalTime :: "u32 \<times> u32 \<Rightarrow> u32" where
  "ModifyLocalTime tv = (let time = fst tv - 1417305600 in time * OS_TICKS_PER_SEC)"

text \<open>
  One round of \<open>start_ntp\<close> for each return of \<open>select\<close>: nothing to read, with the ticks at which the
  query is built; or an answer, or a failed \<open>recvfrom\<close> (which closes the socket, and the loop goes on).
  The result is the new tick counter, \<open>None\<close> inside \<open>Some\<close> as long as no answer came.
\<close>

datatype ntp_event = NotReady u32 | Ready "bytes option"

abbreviation (input) "NTP_SERVER \<equiv> (0xCA701D52 :: u32, 123 :: u16)"

fun ntp_loop :: "int \<Rightarrow> bytes \<Rightarrow> ntp_event list \<Rightarrow> (u32 option \<times> effect list) option" where
  "ntp_loop fd stack [] = Some (None, [])"
| "ntp_loop fd stack (NotReady ticks # es) =
     map_option (\<lambda>(r, eff). (r, SendTo fd NTP_SERVER (query_packet ticks) # eff)) (ntp_loop fd stack es)"
| "ntp_loop fd stack (Ready None # es) = map_option (\<lambda>(r, eff). (r, CloseFd fd # eff)) (ntp_loop fd stack es)"
| "ntp_loop fd stack (Ready (Some d) # es) = do {
     new_time \<leftarrow> GetSynTimeFromNtpPacked (RecvNtpPacked stack d);
     Some (Some (ModifyLocalTime new_time), [CloseFd fd])
   }"

definition start_ntp :: "int \<Rightarrow> bytes \<Rightarrow> ntp_event list \<Rightarrow> (u32 option \<times> effect list) option" where
  "start_ntp sockfd stack es = (if sockfd = -1 then Some (None, []) else ntp_loop sockfd stack es)"

section \<open>Properties\<close>

lemma query_packet_bytes:
  "query_packet ticks = [0x1B, 0, 4, 0xFA, 0, 1, 0, 0, 0, 1, 0, 0] @ zeros 28 @
     rev (le32 (ticks div 100 + JAN_1970)) @ rev (le32 (NTPFRAC (ticks div 100)))"
proof -
  have "le32 (bswap32 w) = rev (le32 w)" for w by (simp add: le32_def bswap32_def)
  moreover have "le32 header_word = [0xFA, 4, 0, 0x1B]" "le32 (push_bit 16 1) = [0, 0, 1, 0]" "le32 (0x10000) = [0, 0, 1, 0]" by code_simp+
  ultimately show ?thesis by (simp add: query_packet_def Let_def)
qed

text \<open>An answer that carries the Unix time \<open>u\<close>.\<close>

definition ntp_answer :: "bytes \<Rightarrow> u32 \<Rightarrow> u32 \<Rightarrow> bytes" where
  "ntp_answer pre u fine = pre @ rev (le32 (u + JAN_1970)) @ rev (le32 fine)"

lemma answer_time:
  assumes "length pre = 40" and "length stack = 48"
  shows "GetSynTimeFromNtpPacked (RecvNtpPacked stack (ntp_answer pre u fine @ rest)) = Some (u, USEC fine)"
proof -
  have "of_le32 (rev (le32 w)) = Some (bswap32 w)" for w by (simp add: le32_def bswap32_def)
  moreover have "RecvNtpPacked stack (ntp_answer pre u fine @ rest) = pre @ rev (le32 (u + JAN_1970)) @ rev (le32 fine)"
    using assms by (simp add: RecvNtpPacked_def ntp_answer_def put_def)
  ultimately show ?thesis using assms by (simp add: GetSynTimeFromNtpPacked_def rd_seg_def)
qed

lemma ntp_quiet: "ntp_loop fd stack (map NotReady ts @ es) =
    map_option (\<lambda>(r, eff). (r, map (\<lambda>t. SendTo fd NTP_SERVER (query_packet t)) ts @ eff)) (ntp_loop fd stack es)"
  by (induction ts) (simp_all add: option.map_comp comp_def case_prod_beta option.map_ident)

lemma clock_exact: "system_sec (ModifyLocalTime (u, us)) = u + 28800 \<longleftrightarrow> unat (u - 1417305600) < 42949673"
proof -
  define n where "n = unat (u - 1417305600)"
  have u: "u - 1417305600 = of_nat n" by (simp add: n_def)
  have n: "n < 4294967296" using u32_less[of "u - 1417305600"] by (simp add: n_def)
  define t where "t = unat (ModifyLocalTime (u, us) div 100)"
  have t: "t = (n * 100) mod 4294967296 div 100"
    unfolding t_def ModifyLocalTime_def Let_def fst_conv u by (simp add: unat_div unat_word_ariths unsigned_of_nat take_bit_eq_mod mod_mult_left_eq mod_mod_trivial)
  have "system_sec (ModifyLocalTime (u, us)) = u + 28800 \<longleftrightarrow> ModifyLocalTime (u, us) div 100 = u - 1417305600"
    by (simp add: system_sec_def algebra_simps)
  also have "\<dots> \<longleftrightarrow> t = n" by (simp add: t_def n_def word_unat_eq_iff)
  also have "\<dots> \<longleftrightarrow> n < 42949673"
  proof
    assume "t = n"
    moreover have "t \<le> 4294967295 div 100" unfolding t by (intro div_le_mono) simp
    ultimately show "n < 42949673" by simp
  next
    assume "n < 42949673"
    then show "t = n" unfolding t by simp
  qed
  finally show ?thesis by (simp add: n_def)
qed

text \<open>C18 Setting the clock: the client asks every time \<open>select\<close> gives up and takes the first packet that
  comes. The clock of the device is then eight hours ahead of that time, as it must be, exactly for the
  times within 42949672 seconds of 30 November 2014: since 10 April 2016 the product by 100 wraps around.\<close>

theorem ntp_sets_clock:
  assumes "fd \<noteq> -1" and "length pre = 40" and "length stack = 48"
  shows "\<exists>ticks. start_ntp fd stack (map NotReady ts @ Ready (Some (ntp_answer pre u fine @ rest)) # es) =
      Some (Some ticks, map (\<lambda>t. SendTo fd NTP_SERVER (query_packet t)) ts @ [CloseFd fd]) \<and>
    (system_sec ticks = u + 28800 \<longleftrightarrow> unat (u - 1417305600) < 42949673)"
  using answer_time[OF assms(2,3), of u fine rest] assms(1) clock_exact[of u "USEC fine"]
  by (intro exI[of _ "ModifyLocalTime (u, USEC fine)"]) (simp add: start_ntp_def ntp_quiet)

theorem ntp_sets_clock_witness:
  "\<exists>ticks. start_ntp 3 (zeros 48) (map NotReady [1000, 2000] @ Ready (Some (ntp_answer (zeros 40) 1425427200 0 @ [])) # []) =
      Some (Some ticks, map (\<lambda>t. SendTo 3 NTP_SERVER (query_packet t)) [1000, 2000] @ [CloseFd 3]) \<and>
    (system_sec ticks = 1425427200 + 28800 \<longleftrightarrow> unat (1425427200 - 1417305600 :: u32) < 42949673)"
  by (rule ntp_sets_clock) simp_all

text \<open>Days of the week, Monday the first, of a count of seconds since 1 January 1970, a Thursday.\<close>

definition weekday :: "nat \<Rightarrow> nat" where
  "weekday s = (s div 86400 + 3) mod 7 + 1"

lemma timing_week_exact: "unat (timing_week ticks) = weekday (unat (system_sec ticks))"
proof -
  define d where "d = system_sec ticks div 60 div 60 div 24"
  have d: "unat d = unat (system_sec ticks) div 86400" by (simp add: d_def unat_div div_mult2_eq)
  have w: "unat ((4 + d) mod 7) = (4 + unat d) mod 7"
  proof -
    have "unat d < 4294967296 div 86400 + 1" unfolding d using u32_less[of "system_sec ticks"] by (simp add: less_mult_imp_div_less)
    then have "unat (4 + d) = 4 + unat d" by (simp add: unat_word_ariths)
    then show ?thesis by (simp add: unat_mod)
  qed
  have "(4 + d) mod 7 = 0 \<longleftrightarrow> (4 + unat d) mod 7 = 0" using w by (simp add: word_unat_eq_iff)
  then have "unat (timing_week ticks) = (if (4 + unat d) mod 7 = 0 then 7 else (4 + unat d) mod 7)"
    using w by (simp add: timing_week_def Let_def d_def)
  also have "\<dots> = (unat d + 3) mod 7 + 1" using mod_Suc[of "unat d + 3" 7] by (simp add: add.commute split: if_splits)
  finally show ?thesis by (simp add: weekday_def d)
qed

text \<open>While the clock is right, the device counts its daily timers by the time of day in Beijing and its
  repeat days by the weekday there.\<close>

theorem ntp_local_time:
  assumes "1417305600 \<le> unat u" and "unat u < 1460255273"
  shows "day_sec (ModifyLocalTime (u, us)) = (unat u + 28800) mod 86400 \<and>
    unat (timing_week (ModifyLocalTime (u, us))) = weekday (unat u + 28800)"
proof -
  have "1417305600 \<le> u" using assms(1) by (simp add: word_le_nat_alt)
  then have "unat (u - 1417305600) = unat u - 1417305600" by (simp add: unat_sub)
  then have "system_sec (ModifyLocalTime (u, us)) = u + 28800" using assms unfolding clock_exact by simp
  moreover have "unat (u + 28800) = unat u + 28800" using assms(2) by (simp add: unat_word_ariths)
  ultimately have s: "unat (system_sec (ModifyLocalTime (u, us))) = unat u + 28800" by simp
  then have "unat (ModifyLocalTime (u, us)) div 100 + 1417334400 = unat u + 28800" by (simp only: unat_system_sec)
  then show ?thesis unfolding day_sec_def timing_week_exact s by (simp only: refl simp_thms)
qed

theorem ntp_local_time_witness:
  "day_sec (ModifyLocalTime (1425427200, 0)) = (unat (1425427200 :: u32) + 28800) mod 86400 \<and>
    unat (timing_week (ModifyLocalTime (1425427200, 0))) = weekday (unat (1425427200 :: u32) + 28800)"
  by (rule ntp_local_time) simp_all

end
