(* ===== verification/DhcpServer.thy ===== *)
theory DhcpServer
  imports Prelude
begin

text \<open>
  The DHCP server of the access-point mode, \<^verbatim>\<open>Source/App/DhcpServer/dhcp_server.c\<close>: a table of
  eight address entries, the parser of the options of a request, the lookup that chooses the
  entry a client gets, the per-entry state machine, the replies, and the one-second tick.

  IP addresses are \<open>u32\<close> values as the code stores them (network order, little-endian memory).
  \<open>DhcpMsg\<close> is the static buffer both the received message and the replies live in. The option
  parser reads past its end; the bytes that follow it in memory are the parameter \<open>past\<close>.
  \<open>pbuf_alloc\<close> succeeding is the parameter \<open>alloc\<close>; the datagrams sent are returned.
\<close>

section \<open>State\<close>

datatype DHCP_CLIENT_STATE = DHCP_CLIENT_STATE_IDLE | DHCP_CLIENT_STATE_SELECT
  | DHCP_CLIENT_STATE_REQUEST | DHCP_CLIENT_STATE_BIND

record DHCP_CLIENT =
  State :: DHCP_CLIENT_STATE
  Timeout :: u32
  IpAddr :: u32
  MacAddr :: bytes
  Lease :: u32

record DHCP_SERVER =
  Enable :: u8
  Socket :: bool
  ServerIpAddr :: u32
  StartIpAddr :: u32
  SubnetMask :: u32
  GateWay :: u32
  Dns1 :: u32
  Dns2 :: u32
  LeaseTime :: u32
  Clients :: "DHCP_CLIENT list"
  DhcpMsg :: bytes

definition DHCPS_HISTORY_CLIENT_NUM :: nat where "DHCPS_HISTORY_CLIENT_NUM = 8"
definition DHCP_DEFAULT_LEASE_TIME :: u32 where "DHCP_DEFAULT_LEASE_TIME = 3600 * 24 * 365 * 10"
definition DHCP_DEFFAULT_TIMEOUT :: u32 where "DHCP_DEFFAULT_TIMEOUT = 10"
definition DHCP_MAGIC :: u32 where "DHCP_MAGIC = 0x63825363"
definition SIZEOF_DHCP_MSG :: nat where "SIZEOF_DHCP_MSG = 548"

abbreviation (input) DHCP_MSG_DISCOVER :: u8 where "DHCP_MSG_DISCOVER \<equiv> 1"
abbreviation (input) DHCP_MSG_OFFER :: u8 where "DHCP_MSG_OFFER \<equiv> 2"
abbreviation (input) DHCP_MSG_REQUEST :: u8 where "DHCP_MSG_REQUEST \<equiv> 3"
abbreviation (input) DHCP_MSG_DECLINE :: u8 where "DHCP_MSG_DECLINE \<equiv> 4"
abbreviation (input) DHCP_MSG_ACK :: u8 where "DHCP_MSG_ACK \<equiv> 5"
abbreviation (input) DHCP_MSG_NAK :: u8 where "DHCP_MSG_NAK \<equiv> 6"
abbreviation (input) DHCP_MSG_RELEASE :: u8 where "DHCP_MSG_RELEASE \<equiv> 7"

definition mac0 :: bytes where "mac0 = [0, 0, 0, 0, 0, 0]"

definition upd_client :: "nat \<Rightarrow> (DHCP_CLIENT \<Rightarrow> DHCP_CLIENT) \<Rightarrow> DHCP_SERVER \<Rightarrow> DHCP_SERVER" where
  "upd_client i f s = s\<lparr>Clients := (Clients s)[i := f (Clients s ! i)]\<rparr>"

section \<open>Option encoding and parsing\<close>

text \<open>
  A reply under construction: the message, the write position \<open>buffer\<close> and the length so far.
  Each macro appends one option.
\<close>

type_synonym body = "bytes \<times> nat \<times> nat"

definition put_option :: "u8 \<Rightarrow> bytes \<Rightarrow> body \<Rightarrow> body option" where
  "put_option code val b =
     (case b of (msg, buffer, len) \<Rightarrow>
        do {
          msg' \<leftarrow> wr_seg msg buffer (code # of_nat (length val) # val);
          Some (msg', buffer + 2 + length val, len + 2 + length val)
        })"

definition DHCP_SET_OPTION_SUBNET_MASK :: "u32 \<Rightarrow> body \<Rightarrow> body option" where
  "DHCP_SET_OPTION_SUBNET_MASK netmask = put_option 1 (le32 netmask)"
definition DHCP_SET_OPTION_GW :: "u32 \<Rightarrow> body \<Rightarrow> body option" where
  "DHCP_SET_OPTION_GW gw = put_option 3 (le32 gw)"
definition DHCP_SET_OPTION_DNS :: "u32 \<Rightarrow> body \<Rightarrow> body option" where
  "DHCP_SET_OPTION_DNS dns = put_option 6 (le32 dns)"
definition DHCP_SET_OPTION_SERVER_ID :: "u32 \<Rightarrow> body \<Rightarrow> body option" where
  "DHCP_SET_OPTION_SERVER_ID ip = put_option 54 (le32 ip)"
definition DHCP_SET_OPTION_MSG_TYPE :: "u8 \<Rightarrow> body \<Rightarrow> body option" where
  "DHCP_SET_OPTION_MSG_TYPE type = put_option 53 [type]"
definition DHCP_SET_OPTION_LEASE_TIME :: "u32 \<Rightarrow> body \<Rightarrow> body option" where
  "DHCP_SET_OPTION_LEASE_TIME time = put_option 51 (le32 (bswap32 time))"

definition DHCP_SET_OPTION_END :: "body \<Rightarrow> body option" where
  "DHCP_SET_OPTION_END b =
     (case b of (msg, buffer, len) \<Rightarrow>
        do { msg' \<leftarrow> wr_seg msg buffer [255]; Some (msg', buffer + 1, len + 1) })"

text \<open>What the parser has found: its return flags, the type, the requested address, the server.\<close>

record dhcp_opts =
  Ret :: u8
  pMsgType :: u8
  pReqIpAddr :: u32
  pServerId :: u32

definition peek :: "bytes \<Rightarrow> (nat \<Rightarrow> u8) \<Rightarrow> nat \<Rightarrow> u8" where
  "peek msg past i = (if i < length msg then msg ! i else past (i - length msg))"

definition peek32 :: "bytes \<Rightarrow> (nat \<Rightarrow> u8) \<Rightarrow> nat \<Rightarrow> u32" where
  "peek32 msg past i =
     mk32 (peek msg past (i + 3)) (peek msg past (i + 2)) (peek msg past (i + 1)) (peek msg past i)"

function parse_options :: "bytes \<Rightarrow> (nat \<Rightarrow> u8) \<Rightarrow> nat \<Rightarrow> dhcp_opts \<Rightarrow> dhcp_opts" where
  "parse_options msg past p r =
     (if peek msg past p \<noteq> 255 \<and> p < SIZEOF_DHCP_MSG then
        if peek msg past p = 0 then parse_options msg past (p + 1) r
        else
          let len = unat (peek msg past (p + 1));
              r' = (if peek msg past p = 53
                    then r\<lparr>pMsgType := peek msg past (p + 2), Ret := Ret r OR 0x01\<rparr>
                    else if peek msg past p = 50
                    then r\<lparr>pReqIpAddr := peek32 msg past (p + 2), Ret := Ret r OR 0x02\<rparr>
                    else if peek msg past p = 54
                    then r\<lparr>pServerId := peek32 msg past (p + 2), Ret := Ret r OR 0x04\<rparr>
                    else r)
          in parse_options msg past (p + 2 + len) r'
      else r)"
  by pat_completeness auto
termination
  by (relation "measure (\<lambda>(msg, past, p, r). SIZEOF_DHCP_MSG - p)") (auto simp: SIZEOF_DHCP_MSG_def)

declare parse_options.simps [simp del]

definition ParseDhcpOptions :: "bytes \<Rightarrow> (nat \<Rightarrow> u8) \<Rightarrow> u8 \<Rightarrow> u32 \<Rightarrow> u32 \<Rightarrow> dhcp_opts" where
  "ParseDhcpOptions msg past MsgType ReqIpAddr ServerId =
     parse_options msg past 240
       \<lparr>Ret = 0, pMsgType = MsgType, pReqIpAddr = ReqIpAddr, pServerId = ServerId\<rparr>"

section \<open>The tick\<close>

definition tick_client :: "(bytes \<Rightarrow> bool) \<Rightarrow> DHCP_CLIENT \<Rightarrow> DHCP_CLIENT" where
  "tick_client associated c =
     (if State c = DHCP_CLIENT_STATE_REQUEST then
        if Timeout c \<noteq> 0 then
          if Timeout c - 1 = 0
          then c\<lparr>Timeout := Timeout c - 1, MacAddr := mac0, State := DHCP_CLIENT_STATE_IDLE\<rparr>
          else c\<lparr>Timeout := Timeout c - 1\<rparr>
        else c
      else if State c = DHCP_CLIENT_STATE_BIND then
        let c' = (if Lease c \<noteq> 0 then c\<lparr>Lease := Lease c - 1\<rparr> else c)
        in if Lease c \<noteq> 0 \<and> Lease c' = 0 then c'\<lparr>State := DHCP_CLIENT_STATE_IDLE\<rparr>
           else if \<not> associated (MacAddr c') then c'\<lparr>State := DHCP_CLIENT_STATE_IDLE\<rparr>
           else c'
      else c)"

text \<open>\<open>associated\<close> is \<open>APGetStationStatus\<close>. The result says whether the timer is armed again.\<close>

definition DhcpTickHandle :: "(bytes \<Rightarrow> bool) \<Rightarrow> DHCP_SERVER \<Rightarrow> DHCP_SERVER \<times> bool" where
  "DhcpTickHandle associated s =
     (if Enable s = 0 then (s, False)
      else (s\<lparr>Clients := map (tick_client associated) (Clients s)\<rparr>, Enable s \<noteq> 0))"

section \<open>Choosing an entry\<close>

record lookup =
  pFreeClient :: "nat option"
  pReqClient :: "nat option"
  pMyHistoryClient :: "nat option"
  pHistoryClient :: "nat option"
  pMyClient :: "nat option"
  IpUnavailable :: bool

definition first_set :: "nat option \<Rightarrow> bool \<Rightarrow> nat \<Rightarrow> nat option" where
  "first_set cur cond i = (if cur = None \<and> cond then Some i else cur)"

definition lookup_step :: "bytes \<Rightarrow> u32 \<Rightarrow> nat \<times> DHCP_CLIENT \<Rightarrow> lookup \<Rightarrow> lookup" where
  "lookup_step Mac ReqIpAddr ic l =
     (case ic of (i, c) \<Rightarrow>
        if State c = DHCP_CLIENT_STATE_IDLE then
          l\<lparr>pMyHistoryClient := first_set (pMyHistoryClient l) (MacAddr c = Mac) i,
            pReqClient := first_set (pReqClient l) (IpAddr c = ReqIpAddr) i,
            pFreeClient := first_set (pFreeClient l) (MacAddr c = mac0) i,
            pHistoryClient := first_set (pHistoryClient l) (MacAddr c \<noteq> mac0) i\<rparr>
        else if MacAddr c = Mac then l\<lparr>pMyClient := Some i\<rparr>
        else if IpAddr c = ReqIpAddr then l\<lparr>IpUnavailable := True\<rparr>
        else l)"

definition lookup_scan :: "bytes \<Rightarrow> u32 \<Rightarrow> DHCP_CLIENT list \<Rightarrow> lookup" where
  "lookup_scan Mac ReqIpAddr cs =
     fold (lookup_step Mac ReqIpAddr) (zip [0..<length cs] cs)
       \<lparr>pFreeClient = None, pReqClient = None, pMyHistoryClient = None, pHistoryClient = None,
        pMyClient = None, IpUnavailable = False\<rparr>"

definition set_state :: "nat \<Rightarrow> DHCP_CLIENT_STATE \<Rightarrow> DHCP_SERVER \<Rightarrow> DHCP_SERVER" where
  "set_state i st = upd_client i (\<lambda>c. c\<lparr>State := st\<rparr>)"

definition set_mac :: "nat \<Rightarrow> bytes \<Rightarrow> DHCP_SERVER \<Rightarrow> DHCP_SERVER" where
  "set_mac i m = upd_client i (\<lambda>c. c\<lparr>MacAddr := m\<rparr>)"

text \<open>Forget the negotiation of entry \<open>i\<close>: its MAC address is kept as history only if it was bound.\<close>

definition drop_client :: "nat \<Rightarrow> DHCP_SERVER \<Rightarrow> DHCP_SERVER" where
  "drop_client i s =
     set_state i DHCP_CLIENT_STATE_IDLE
       (if State (Clients s ! i) \<noteq> DHCP_CLIENT_STATE_BIND then set_mac i mac0 s else s)"

definition lookup_discover :: "lookup \<Rightarrow> DHCP_SERVER \<Rightarrow> nat option \<times> DHCP_SERVER" where
  "lookup_discover l s =
     (case pMyClient l of
        Some my \<Rightarrow>
          (let s1 = set_state my DHCP_CLIENT_STATE_IDLE s
           in case pReqClient l of
                Some req \<Rightarrow>
                  (Some req, if State (Clients s1 ! my) \<noteq> DHCP_CLIENT_STATE_BIND then set_mac my mac0 s1 else s1)
              | None \<Rightarrow> (Some my, s1))
      | None \<Rightarrow>
          (if pReqClient l \<noteq> None then pReqClient l
           else if pMyHistoryClient l \<noteq> None then pMyHistoryClient l
           else if pFreeClient l \<noteq> None then pFreeClient l
           else if pHistoryClient l \<noteq> None then pHistoryClient l
           else None, s))"

definition for_me :: "DHCP_SERVER \<Rightarrow> u32 \<Rightarrow> bool" where
  "for_me s ServerId \<longleftrightarrow> ServerId = 0 \<or> ServerIpAddr s = ServerId"

definition lookup_request :: "lookup \<Rightarrow> u32 \<Rightarrow> DHCP_SERVER \<Rightarrow> nat option \<times> DHCP_SERVER" where
  "lookup_request l ServerId s =
     (case pMyClient l of
        Some my \<Rightarrow>
          if IpUnavailable l then (None, drop_client my s)
          else (case pReqClient l of
                  Some req \<Rightarrow> (if for_me s ServerId then Some req else None, drop_client my s)
                | None \<Rightarrow> (if for_me s ServerId then Some my else None, s))
      | None \<Rightarrow>
          (if IpUnavailable l then None
           else if for_me s ServerId then pReqClient l
           else None, s))"

definition lookup_give_up :: "lookup \<Rightarrow> DHCP_SERVER \<Rightarrow> nat option \<times> DHCP_SERVER" where
  "lookup_give_up l s = (None, case pMyClient l of Some my \<Rightarrow> drop_client my s | None \<Rightarrow> s)"

definition ClientTableLookup ::
  "bytes \<Rightarrow> u8 \<Rightarrow> u32 \<Rightarrow> u32 \<Rightarrow> DHCP_SERVER \<Rightarrow> nat option \<times> DHCP_SERVER" where
  "ClientTableLookup Mac MsgType ReqIpAddr ServerId s =
     (let l = lookup_scan Mac ReqIpAddr (Clients s);
          (ret, s') = (if MsgType = DHCP_MSG_DISCOVER then lookup_discover l s
                       else if MsgType = DHCP_MSG_REQUEST then lookup_request l ServerId s
                       else if MsgType = DHCP_MSG_RELEASE then lookup_give_up l s
                       else if MsgType = DHCP_MSG_DECLINE then lookup_give_up l s
                       else (None, s))
      in case ret of Some i \<Rightarrow> (Some i, set_mac i Mac s') | None \<Rightarrow> (None, s'))"

section \<open>Replies\<close>

text \<open>The header every reply starts with; \<open>htonl\<close> of the transaction number and the magic.\<close>

definition reply_header :: "u32 \<Rightarrow> u32 \<Rightarrow> u32 \<Rightarrow> bytes \<Rightarrow> bytes option" where
  "reply_header Xid Yiaddr Siaddr ClientMac =
     do {
       b1 \<leftarrow> wr_seg (zeros SIZEOF_DHCP_MSG) 0 [2, 1, 6];
       b2 \<leftarrow> wr_seg b1 4 (le32 (bswap32 Xid));
       b3 \<leftarrow> wr_seg b2 16 (le32 Yiaddr);
       b4 \<leftarrow> wr_seg b3 20 (le32 Siaddr);
       b5 \<leftarrow> wr_seg b4 28 (take 6 ClientMac);
       wr_seg b5 236 (le32 (bswap32 DHCP_MAGIC))
     }"

definition nak_msg :: "DHCP_SERVER \<Rightarrow> bytes \<Rightarrow> u32 \<Rightarrow> (bytes \<times> nat) option" where
  "nak_msg s ClientMac Xid =
     do {
       msg \<leftarrow> reply_header Xid 0 (ServerIpAddr s) ClientMac;
       b \<leftarrow> DHCP_SET_OPTION_MSG_TYPE DHCP_MSG_NAK (msg, 240, 240);
       (msg', _, len) \<leftarrow> DHCP_SET_OPTION_END b;
       Some (msg', len)
     }"

definition lease_msg :: "u8 \<Rightarrow> DHCP_SERVER \<Rightarrow> DHCP_CLIENT \<Rightarrow> bytes \<Rightarrow> u32 \<Rightarrow> (bytes \<times> nat) option" where
  "lease_msg type s c ClientMac Xid =
     do {
       msg \<leftarrow> reply_header Xid (IpAddr c) 0 ClientMac;
       b1 \<leftarrow> DHCP_SET_OPTION_MSG_TYPE type (msg, 240, 240);
       b2 \<leftarrow> DHCP_SET_OPTION_LEASE_TIME DHCP_DEFAULT_LEASE_TIME b1;
       b3 \<leftarrow> DHCP_SET_OPTION_SERVER_ID (ServerIpAddr s) b2;
       b4 \<leftarrow> DHCP_SET_OPTION_SUBNET_MASK (SubnetMask s) b3;
       b5 \<leftarrow> DHCP_SET_OPTION_GW (GateWay s) b4;
       b6 \<leftarrow> DHCP_SET_OPTION_DNS (Dns1 s) b5;
       (msg', _, len) \<leftarrow> DHCP_SET_OPTION_END b6;
       Some (msg', len)
     }"

text \<open>
  Sending: nothing if \<open>pbuf_alloc\<close> fails; else the first \<open>len\<close> bytes are broadcast and the static
  buffer keeps the reply. \<open>None\<close> is a write outside the buffer.
\<close>

definition send_reply :: "bool \<Rightarrow> (bytes \<times> nat) option \<Rightarrow> DHCP_SERVER \<Rightarrow> (DHCP_SERVER \<times> bytes list) option" where
  "send_reply alloc m s =
     (if alloc then map_option (\<lambda>(msg, len). (s\<lparr>DhcpMsg := msg\<rparr>, [take len msg])) m
      else Some (s, []))"

definition DHCPNakGenAndSend :: "bool \<Rightarrow> bytes \<Rightarrow> u32 \<Rightarrow> DHCP_SERVER \<Rightarrow> (DHCP_SERVER \<times> bytes list) option" where
  "DHCPNakGenAndSend alloc ClientMac Xid s = send_reply alloc (nak_msg s ClientMac Xid) s"

definition DHCPAckGenAndSend :: "bool \<Rightarrow> nat \<Rightarrow> u32 \<Rightarrow> DHCP_SERVER \<Rightarrow> (DHCP_SERVER \<times> bytes list) option" where
  "DHCPAckGenAndSend alloc i Xid s =
     send_reply alloc (lease_msg DHCP_MSG_ACK s (Clients s ! i) (MacAddr (Clients s ! i)) Xid) s"

definition DHCPOfferGenAndSend :: "bool \<Rightarrow> nat \<Rightarrow> u32 \<Rightarrow> DHCP_SERVER \<Rightarrow> (DHCP_SERVER \<times> bytes list) option" where
  "DHCPOfferGenAndSend alloc i Xid s =
     send_reply alloc (lease_msg DHCP_MSG_OFFER s (Clients s ! i) (MacAddr (Clients s ! i)) Xid) s"

definition CleanClientHistory :: "bytes \<Rightarrow> DHCP_SERVER \<Rightarrow> DHCP_SERVER" where
  "CleanClientHistory ClientMac s =
     s\<lparr>Clients := map (\<lambda>c. if State c = DHCP_CLIENT_STATE_IDLE \<and> MacAddr c = ClientMac
                            then c\<lparr>MacAddr := mac0\<rparr> else c) (Clients s)\<rparr>"

section \<open>The state machine of an entry\<close>

definition sme_bind :: "bool \<Rightarrow> nat \<Rightarrow> u32 \<Rightarrow> DHCP_SERVER \<Rightarrow> (DHCP_SERVER \<times> bytes list) option" where
  "sme_bind alloc i Xid s =
     do {
       (s1, out) \<leftarrow> DHCPAckGenAndSend alloc i Xid s;
       let s2 = upd_client i (\<lambda>c. c\<lparr>Lease := DHCP_DEFAULT_LEASE_TIME, State := DHCP_CLIENT_STATE_BIND\<rparr>) s1;
       Some (CleanClientHistory (MacAddr (Clients s2 ! i)) s2, out)
     }"

definition sme_offer :: "bool \<Rightarrow> nat \<Rightarrow> u32 \<Rightarrow> DHCP_SERVER \<Rightarrow> (DHCP_SERVER \<times> bytes list) option" where
  "sme_offer alloc i Xid s =
     do {
       (s1, out) \<leftarrow> DHCPOfferGenAndSend alloc i Xid s;
       Some (upd_client i (\<lambda>c. c\<lparr>Timeout := DHCP_DEFFAULT_TIMEOUT, State := DHCP_CLIENT_STATE_REQUEST\<rparr>) s1, out)
     }"

definition DhcpClientSMEHandle ::
  "bool \<Rightarrow> nat \<Rightarrow> u8 \<Rightarrow> u32 \<Rightarrow> DHCP_SERVER \<Rightarrow> (DHCP_SERVER \<times> bytes list) option" where
  "DhcpClientSMEHandle alloc i MsgType Xid s =
     (case State (Clients s ! i) of
        DHCP_CLIENT_STATE_IDLE \<Rightarrow>
          if MsgType = DHCP_MSG_DISCOVER then sme_offer alloc i Xid (set_state i DHCP_CLIENT_STATE_SELECT s)
          else if MsgType = DHCP_MSG_REQUEST then sme_bind alloc i Xid s
          else sme_offer alloc i Xid s
      | DHCP_CLIENT_STATE_SELECT \<Rightarrow> sme_offer alloc i Xid s
      | DHCP_CLIENT_STATE_REQUEST \<Rightarrow> sme_bind alloc i Xid s
      | DHCP_CLIENT_STATE_BIND \<Rightarrow> sme_bind alloc i Xid s)"

section \<open>Receiving, managing, starting and stopping\<close>

definition DHCPS_RecvCb ::
  "bool \<Rightarrow> (nat \<Rightarrow> u8) \<Rightarrow> bytes \<Rightarrow> DHCP_SERVER \<Rightarrow> (DHCP_SERVER \<times> bytes list) option" where
  "DHCPS_RecvCb alloc past P s0 =
     (let data = take SIZEOF_DHCP_MSG P;
          msg = put (DhcpMsg s0) 0 data;
          s = s0\<lparr>DhcpMsg := msg\<rparr>
      in if length data = 0 \<or> msg ! 0 \<noteq> 1 \<or> bswap32 (peek32 msg past 236) \<noteq> DHCP_MAGIC \<or> msg ! 1 \<noteq> 1
         then Some (s, [])
         else
           let opts = ParseDhcpOptions msg past 0xff 0 0
           in if Ret opts AND 0x01 = 0 then Some (s, [])
              else
                let Xid = bswap32 (peek32 msg past 4);
                    ClientMac = take 6 (drop 28 msg)
                in (case ClientTableLookup ClientMac (pMsgType opts) (pReqIpAddr opts) (pServerId opts) s of
                      (None, s') \<Rightarrow>
                        if pMsgType opts \<noteq> DHCP_MSG_RELEASE \<and> pMsgType opts \<noteq> DHCP_MSG_DECLINE
                        then DHCPNakGenAndSend alloc ClientMac Xid s' else Some (s', [])
                    | (Some i, s') \<Rightarrow> DhcpClientSMEHandle alloc i (pMsgType opts) Xid s'))"

datatype dhcps_err = DHCPS_ERR_SUCCESS | DHCPS_ERR_LINKDOWN | DHCPS_ERR_PARAM | DHCPS_ERR_MEM
  | DHCPS_ERR_NOT_BIND | DHCPS_ERR_NOT_FOUND | DHCPS_ERR_INACTIVE

fun delete_scan :: "bytes \<Rightarrow> DHCP_CLIENT list \<Rightarrow> dhcps_err \<times> DHCP_CLIENT list" where
  "delete_scan Mac [] = (DHCPS_ERR_NOT_FOUND, [])"
| "delete_scan Mac (c # cs) =
     (if State c \<noteq> DHCP_CLIENT_STATE_IDLE \<and> MacAddr c = Mac then
        if State c \<noteq> DHCP_CLIENT_STATE_BIND then (DHCPS_ERR_NOT_BIND, c # cs)
        else (DHCPS_ERR_SUCCESS, c\<lparr>State := DHCP_CLIENT_STATE_IDLE\<rparr> # cs)
      else (case delete_scan Mac cs of (r, cs') \<Rightarrow> (r, c # cs')))"

definition DHCPS_ClientDelete :: "bytes option \<Rightarrow> DHCP_SERVER \<Rightarrow> dhcps_err \<times> DHCP_SERVER" where
  "DHCPS_ClientDelete Mac s =
     (if Enable s = 0 then (DHCPS_ERR_INACTIVE, s)
      else case Mac of None \<Rightarrow> (DHCPS_ERR_PARAM, s)
           | Some m \<Rightarrow> (case delete_scan m (Clients s) of (r, cs) \<Rightarrow> (r, s\<lparr>Clients := cs\<rparr>)))"

text \<open>Host part of the \<open>i\<close>-th pool address: it wraps modulo the size of the subnet, and 0 becomes 1.\<close>

definition pool_host :: "u32 \<Rightarrow> u32 \<Rightarrow> u32 \<Rightarrow> u32" where
  "pool_host Val Mask i =
     (let tmp = Val AND NOT Mask in if (tmp + i) mod (NOT Mask) \<noteq> 0 then (tmp + i) mod (NOT Mask) else 1)"

definition pool_ip :: "u32 \<Rightarrow> u32 \<Rightarrow> u32 \<Rightarrow> u32" where
  "pool_ip start Mask i = bswap32 ((bswap32 start AND Mask) OR pool_host (bswap32 start) Mask i)"

definition dhcps_zero :: "bytes \<Rightarrow> DHCP_SERVER" where
  "dhcps_zero msg = \<lparr>Enable = 0, Socket = False, ServerIpAddr = 0, StartIpAddr = 0, SubnetMask = 0,
     GateWay = 0, Dns1 = 0, Dns2 = 0, LeaseTime = 0,
     Clients = replicate DHCPS_HISTORY_CLIENT_NUM
       \<lparr>State = DHCP_CLIENT_STATE_IDLE, Timeout = 0, IpAddr = 0, MacAddr = mac0, Lease = 0\<rparr>,
     DhcpMsg = msg\<rparr>"

text \<open>
  \<open>up\<close> is \<open>netif_is_up\<close>, \<open>ip\<close> and \<open>netmask\<close> are the interface's, \<open>pcb\<close> is \<open>udp_new\<close> succeeding. A mask of
  all ones divides by zero: \<open>None\<close>.
\<close>

definition DHCPS_Start :: "bool \<Rightarrow> u32 \<Rightarrow> u32 \<Rightarrow> bool \<Rightarrow> DHCP_SERVER \<Rightarrow> (dhcps_err \<times> DHCP_SERVER) option" where
  "DHCPS_Start up ip netmask pcb s0 =
     (if \<not> up then Some (DHCPS_ERR_LINKDOWN, s0)
      else if NOT (bswap32 netmask) = 0 then None
      else
        let Mask = bswap32 netmask;
            start = pool_ip ip Mask 1;
            cl = (\<lambda>i. \<lparr>State = DHCP_CLIENT_STATE_IDLE, Timeout = 0, IpAddr = pool_ip start Mask (of_nat i),
                       MacAddr = mac0, Lease = DHCP_DEFAULT_LEASE_TIME\<rparr>);
            s = (dhcps_zero (DhcpMsg s0))\<lparr>ServerIpAddr := ip, StartIpAddr := start, SubnetMask := netmask,
                   GateWay := ip, Dns1 := ip, LeaseTime := DHCP_DEFAULT_LEASE_TIME,
                   Clients := map cl [0..<DHCPS_HISTORY_CLIENT_NUM]\<rparr>
        in if \<not> pcb then Some (DHCPS_ERR_MEM, s)
           else Some (DHCPS_ERR_SUCCESS, s\<lparr>Socket := True, Enable := 1\<rparr>))"

definition DHCPS_Stop :: "DHCP_SERVER \<Rightarrow> DHCP_SERVER" where
  "DHCPS_Stop s = dhcps_zero (DhcpMsg s)"

section \<open>Lemmas\<close>

subsection \<open>Construction of the replies\<close>

lemma put_option_Some:
  "buffer + 2 + length val \<le> length msg \<Longrightarrow> put_option code val (msg, buffer, len) =
     Some (put msg buffer (code # of_nat (length val) # val), buffer + 2 + length val, len + 2 + length val)"
  by (simp add: put_option_def wr_seg_def)

lemma put_append: "length pre = off \<Longrightarrow> length src \<le> length rest \<Longrightarrow>
    put (pre @ rest) off src = pre @ src @ drop (length src) rest"
  by (simp add: put_def)

lemma zeros_split: "n \<le> m \<Longrightarrow> zeros m = zeros n @ zeros (m - n)"
  by (simp add: zeros_def flip: replicate_add)

definition header_bytes :: "u32 \<Rightarrow> u32 \<Rightarrow> u32 \<Rightarrow> bytes \<Rightarrow> bytes" where
  "header_bytes Xid Yiaddr Siaddr ClientMac =
     [2, 1, 6] @ zeros 1 @ le32 (bswap32 Xid) @ zeros 8 @ le32 Yiaddr @ le32 Siaddr @ zeros 4 @
     take 6 ClientMac @ zeros (208 - length (take 6 ClientMac)) @ le32 (bswap32 DHCP_MAGIC)"

lemma length_header_bytes [simp]: "length (header_bytes x y z m) = 240"
  by (simp add: header_bytes_def)

lemma reply_header_eq:
  "reply_header Xid Yiaddr Siaddr ClientMac = Some (header_bytes Xid Yiaddr Siaddr ClientMac @ zeros 308)"
proof -
  let ?m = "take 6 ClientMac" and ?k = "length (take 6 ClientMac)"
  have k: "?k \<le> 6" by simp
  have 1: "wr_seg (zeros SIZEOF_DHCP_MSG) 0 [2, 1, 6] = Some ([2, 1, 6] @ zeros 545)"
    by (simp add: wr_seg_def put_def SIZEOF_DHCP_MSG_def)
  have 2: "wr_seg ([2, 1, 6] @ zeros 545) 4 (le32 (bswap32 Xid)) =
      Some (([2, 1, 6] @ zeros 1 @ le32 (bswap32 Xid)) @ zeros 540)"
    using k wr_seg_zeros[of "[2, 1, 6]" 4 "le32 (bswap32 Xid)" "545"] by (simp del: length_take)
  have 3: "wr_seg (([2, 1, 6] @ zeros 1 @ le32 (bswap32 Xid)) @ zeros 540) 16 (le32 Yiaddr) =
      Some ((([2, 1, 6] @ zeros 1 @ le32 (bswap32 Xid)) @ zeros 8 @ le32 Yiaddr) @ zeros 528)"
    using k wr_seg_zeros[of "([2, 1, 6] @ zeros 1 @ le32 (bswap32 Xid))" 16 "le32 Yiaddr" "540"] by (simp del: length_take)
  have 4: "wr_seg ((([2, 1, 6] @ zeros 1 @ le32 (bswap32 Xid)) @ zeros 8 @ le32 Yiaddr) @ zeros 528) 20 (le32 Siaddr) =
      Some (((([2, 1, 6] @ zeros 1 @ le32 (bswap32 Xid)) @ zeros 8 @ le32 Yiaddr) @ zeros 0 @ le32 Siaddr) @ zeros 524)"
    using k wr_seg_zeros[of "(([2, 1, 6] @ zeros 1 @ le32 (bswap32 Xid)) @ zeros 8 @ le32 Yiaddr)" 20 "le32 Siaddr" "528"] by (simp del: length_take)
  have 5: "wr_seg (((([2, 1, 6] @ zeros 1 @ le32 (bswap32 Xid)) @ zeros 8 @ le32 Yiaddr) @ zeros 0 @ le32 Siaddr) @ zeros 524) 28 (?m) =
      Some ((((([2, 1, 6] @ zeros 1 @ le32 (bswap32 Xid)) @ zeros 8 @ le32 Yiaddr) @ zeros 0 @ le32 Siaddr) @ zeros 4 @ ?m) @ zeros (520 - ?k))"
    using k wr_seg_zeros[of "((([2, 1, 6] @ zeros 1 @ le32 (bswap32 Xid)) @ zeros 8 @ le32 Yiaddr) @ zeros 0 @ le32 Siaddr)" 28 "?m" "524"] by (simp del: length_take)
  have 6: "wr_seg ((((([2, 1, 6] @ zeros 1 @ le32 (bswap32 Xid)) @ zeros 8 @ le32 Yiaddr) @ zeros 0 @ le32 Siaddr) @ zeros 4 @ ?m) @ zeros (520 - ?k)) 236 (le32 (bswap32 DHCP_MAGIC)) =
      Some (((((([2, 1, 6] @ zeros 1 @ le32 (bswap32 Xid)) @ zeros 8 @ le32 Yiaddr) @ zeros 0 @ le32 Siaddr) @ zeros 4 @ ?m) @ zeros (208 - ?k) @ le32 (bswap32 DHCP_MAGIC)) @ zeros 308)"
    using k wr_seg_zeros[of "(((([2, 1, 6] @ zeros 1 @ le32 (bswap32 Xid)) @ zeros 8 @ le32 Yiaddr) @ zeros 0 @ le32 Siaddr) @ zeros 4 @ ?m)" 236 "le32 (bswap32 DHCP_MAGIC)" "(520 - ?k)"] by (simp del: length_take)
  show ?thesis unfolding reply_header_def 1 2 3 4 5 bind.bind_lunit 6 header_bytes_def by simp
qed

lemma nak_msg_eq:
  "nak_msg s ClientMac Xid =
     Some (header_bytes Xid 0 (ServerIpAddr s) ClientMac @ [53, 1, 6, 255] @ zeros 304, 244)"
  by (simp add: nak_msg_def reply_header_eq DHCP_SET_OPTION_MSG_TYPE_def put_option_Some
      DHCP_SET_OPTION_END_def wr_seg_def put_def)

definition lease_options :: "u8 \<Rightarrow> DHCP_SERVER \<Rightarrow> (u8 \<times> bytes) list" where
  "lease_options type s =
     [(53, [type]), (51, le32 (bswap32 DHCP_DEFAULT_LEASE_TIME)), (54, le32 (ServerIpAddr s)),
      (1, le32 (SubnetMask s)), (3, le32 (GateWay s)), (6, le32 (Dns1 s))]"

definition enc_option :: "u8 \<times> bytes \<Rightarrow> bytes" where
  "enc_option o' = fst o' # of_nat (length (snd o')) # snd o'"

lemma lease_msg_eq:
  "lease_msg type s c ClientMac Xid =
     Some (header_bytes Xid (IpAddr c) 0 ClientMac @ concat (map enc_option (lease_options type s)) @ 255 # zeros 274, 274)"
  by (simp add: lease_msg_def reply_header_eq DHCP_SET_OPTION_MSG_TYPE_def DHCP_SET_OPTION_LEASE_TIME_def
      DHCP_SET_OPTION_SERVER_ID_def DHCP_SET_OPTION_SUBNET_MASK_def DHCP_SET_OPTION_GW_def
      DHCP_SET_OPTION_DNS_def put_option_Some DHCP_SET_OPTION_END_def wr_seg_def put_def lease_options_def enc_option_def)

lemma send_reply_lease:
  "\<exists>s' out. send_reply alloc (lease_msg type s c m Xid) s = Some (s', out) \<and> Clients s' = Clients s \<and>
     length (DhcpMsg s') = (if alloc then 548 else length (DhcpMsg s)) \<and> s' = s\<lparr>DhcpMsg := DhcpMsg s'\<rparr>"
  by (simp add: send_reply_def lease_msg_eq lease_options_def enc_option_def)

subsection \<open>The option parser on encoded options\<close>

definition apply_option :: "u8 \<times> bytes \<Rightarrow> dhcp_opts \<Rightarrow> dhcp_opts" where
  "apply_option o' r =
     (let v = snd o' in
      if fst o' = 53 then r\<lparr>pMsgType := v ! 0, Ret := Ret r OR 0x01\<rparr>
      else if fst o' = 50 then r\<lparr>pReqIpAddr := mk32 (v ! 3) (v ! 2) (v ! 1) (v ! 0), Ret := Ret r OR 0x02\<rparr>
      else if fst o' = 54 then r\<lparr>pServerId := mk32 (v ! 3) (v ! 2) (v ! 1) (v ! 0), Ret := Ret r OR 0x04\<rparr>
      else r)"

definition option_ok :: "u8 \<times> bytes \<Rightarrow> bool" where
  "option_ok o' \<longleftrightarrow> fst o' \<noteq> 0 \<and> fst o' \<noteq> 255 \<and> length (snd o') < 256 \<and>
     (fst o' = 53 \<longrightarrow> 1 \<le> length (snd o')) \<and> (fst o' = 50 \<or> fst o' = 54 \<longrightarrow> 4 \<le> length (snd o'))"

lemma length_enc_option [simp]: "length (enc_option o') = Suc (Suc (length (snd o')))"
  by (simp add: enc_option_def)

lemma peek_mid: "p = length pre + k \<Longrightarrow> k < length xs \<Longrightarrow> peek (pre @ xs @ ys) past p = xs ! k"
  by (simp add: peek_def nth_append)

lemma parse_options_step:
  assumes ok: "option_ok o'" and p: "length pre < SIZEOF_DHCP_MSG"
  shows "parse_options (pre @ enc_option o' @ rest) past (length pre) r =
    parse_options (pre @ enc_option o' @ rest) past (length pre + length (enc_option o')) (apply_option o' r)"
proof -
  obtain c v where o': "o' = (c, v)" by (cases o')
  let ?m = "pre @ enc_option o' @ rest"
  have e: "enc_option o' = c # of_nat (length v) # v" by (simp add: enc_option_def o')
  have k: "peek ?m past (length pre + k) = enc_option o' ! k" if "k < length (enc_option o')" for k
    using peek_mid[OF refl that] .
  have len: "unat (of_nat (length v) :: u8) = length v"
    using ok by (simp add: option_ok_def o' unat_of_nat8)
  have 0: "peek ?m past (length pre) = c" "peek ?m past (length pre + 1) = of_nat (length v)"
    using k[of 0] k[of 1] by (simp_all add: e)
  have v: "peek ?m past (length pre + 2 + j) = v ! j" if "j < length v" for j
    using k[of "2 + j"] that by (simp add: e)
  have v0: "c = 53 \<Longrightarrow> peek ?m past (length pre + 2) = v ! 0"
    using v[of 0] ok by (cases v) (auto simp: option_ok_def o')
  have v4: "c = 50 \<or> c = 54 \<Longrightarrow> peek32 ?m past (length pre + 2) = mk32 (v ! 3) (v ! 2) (v ! 1) (v ! 0)"
  proof -
    assume "c = 50 \<or> c = 54"
    then have "4 \<le> length v" using ok by (auto simp: option_ok_def o')
    moreover from this have "v \<noteq> []" by auto
    ultimately show ?thesis using v[of 0] v[of 1] v[of 2] v[of 3] by (simp add: peek32_def)
  qed
  have c: "c \<noteq> 255" "c \<noteq> 0" using ok by (auto simp: option_ok_def o')
  have j: "length pre + 2 + length v = length pre + length (enc_option o')" by (simp add: e)
  show ?thesis
    apply (subst parse_options.simps)
    using c p v0 v4 unfolding 0 len j
    by (auto simp: apply_option_def o' Let_def)
qed

theorem parse_options_encoded:
  assumes "list_all option_ok os" and "length pre + length (concat (map enc_option os)) < SIZEOF_DHCP_MSG"
  shows "parse_options (pre @ concat (map enc_option os) @ 255 # rest) past (length pre) r = fold apply_option os r"
  using assms
proof (induction os arbitrary: pre r)
  case Nil
  have "peek (pre @ [255] @ rest) past (length pre) = 255" by (rule peek_mid[where k = 0, THEN trans]) simp_all
  then show ?case by (subst parse_options.simps) simp
next
  case (Cons o' os)
  let ?tl = "concat (map enc_option os) @ 255 # rest"
  have "parse_options (pre @ enc_option o' @ ?tl) past (length pre) r =
      parse_options (pre @ enc_option o' @ ?tl) past (length pre + length (enc_option o')) (apply_option o' r)"
    using Cons.prems by (intro parse_options_step) auto
  also have "\<dots> = fold apply_option os (apply_option o' r)"
    using Cons.IH[of "pre @ enc_option o'" "apply_option o' r"] Cons.prems by simp
  finally show ?case by simp
qed

subsection \<open>The lookup\<close>

abbreviation active :: "DHCP_CLIENT \<Rightarrow> bool" where
  "active c \<equiv> State c \<noteq> DHCP_CLIENT_STATE_IDLE"

lemma lookup_scan_snoc:
  "lookup_scan M r (cs @ [c]) = lookup_step M r (length cs, c) (lookup_scan M r cs)"
  by (simp add: lookup_scan_def)

lemma lookup_scan_Nil [simp]: "lookup_scan M r [] =
  \<lparr>pFreeClient = None, pReqClient = None, pMyHistoryClient = None, pHistoryClient = None,
        pMyClient = None, IpUnavailable = False\<rparr>"
  by (simp add: lookup_scan_def)

lemma lookup_my:
  "case pMyClient (lookup_scan M r cs) of
     Some i \<Rightarrow> i < length cs \<and> active (cs ! i) \<and> MacAddr (cs ! i) = M
   | None \<Rightarrow> \<forall>c \<in> set cs. active c \<longrightarrow> MacAddr c \<noteq> M"
proof (induction cs rule: rev_induct)
  case (snoc c cs)
  then show ?case
    by (auto simp: lookup_scan_snoc lookup_step_def nth_append split: option.splits)
qed simp

lemma lookup_idle:
  "pReqClient (lookup_scan M r cs) = Some i \<Longrightarrow> i < length cs \<and> \<not> active (cs ! i) \<and> IpAddr (cs ! i) = r"
  "pMyHistoryClient (lookup_scan M r cs) = Some i \<Longrightarrow> i < length cs \<and> \<not> active (cs ! i) \<and> MacAddr (cs ! i) = M"
  "pFreeClient (lookup_scan M r cs) = Some i \<Longrightarrow> i < length cs \<and> \<not> active (cs ! i) \<and> MacAddr (cs ! i) = mac0"
  "pHistoryClient (lookup_scan M r cs) = Some i \<Longrightarrow> i < length cs \<and> \<not> active (cs ! i) \<and> MacAddr (cs ! i) \<noteq> mac0"
proof (induction cs rule: rev_induct)
  case (snoc c cs)
  { case 1 then show ?case using snoc by (auto simp: lookup_scan_snoc lookup_step_def first_set_def nth_append split: if_splits) }
  { case 2 then show ?case using snoc by (auto simp: lookup_scan_snoc lookup_step_def first_set_def nth_append split: if_splits) }
  { case 3 then show ?case using snoc by (auto simp: lookup_scan_snoc lookup_step_def first_set_def nth_append split: if_splits) }
  { case 4 then show ?case using snoc by (auto simp: lookup_scan_snoc lookup_step_def first_set_def nth_append split: if_splits) }
qed simp_all

lemma lookup_full:
  assumes "pFreeClient (lookup_scan M r cs) = None" and "pHistoryClient (lookup_scan M r cs) = None"
  shows "\<forall>c \<in> set cs. active c"
  using assms
proof (induction cs rule: rev_induct)
  case (snoc c cs)
  then show ?case
    by (auto simp: lookup_scan_snoc lookup_step_def first_set_def split: if_splits)
qed simp

lemma lookup_unavailable:
  "IpUnavailable (lookup_scan M r cs) \<longleftrightarrow> (\<exists>c \<in> set cs. active c \<and> MacAddr c \<noteq> M \<and> IpAddr c = r)"
proof (induction cs rule: rev_induct)
  case (snoc c cs)
  then show ?case by (auto simp: lookup_scan_snoc lookup_step_def)
qed simp

subsection \<open>Uniqueness of the active entries\<close>

definition uniq :: "DHCP_CLIENT list \<Rightarrow> bool" where
  "uniq cs \<longleftrightarrow> (\<forall>i < length cs. \<forall>j < length cs. i \<noteq> j \<and> active (cs ! i) \<and> active (cs ! j)
     \<longrightarrow> MacAddr (cs ! i) \<noteq> MacAddr (cs ! j))"

text \<open>Entry \<open>i\<close> belongs to \<open>M\<close> and no other active entry does.\<close>

definition uniq_for :: "bytes \<Rightarrow> nat \<Rightarrow> DHCP_CLIENT list \<Rightarrow> bool" where
  "uniq_for M i cs \<longleftrightarrow> uniq cs \<and> i < length cs \<and> MacAddr (cs ! i) = M \<and>
     (\<forall>j < length cs. j \<noteq> i \<and> active (cs ! j) \<longrightarrow> MacAddr (cs ! j) \<noteq> M)"

text \<open>Updates that can only free entries keep uniqueness.\<close>

definition weaker :: "DHCP_CLIENT list \<Rightarrow> DHCP_CLIENT list \<Rightarrow> bool" where
  "weaker cs cs' \<longleftrightarrow> length cs' = length cs \<and>
     (\<forall>i < length cs. active (cs' ! i) \<longrightarrow> active (cs ! i) \<and> MacAddr (cs' ! i) = MacAddr (cs ! i))"

lemma weaker_refl [simp]: "weaker cs cs"
  by (simp add: weaker_def)

lemma weaker_trans: "weaker a b \<Longrightarrow> weaker b c \<Longrightarrow> weaker a c"
  by (simp add: weaker_def)

lemma weaker_uniq: "uniq cs \<Longrightarrow> weaker cs cs' \<Longrightarrow> uniq cs'"
  by (simp add: uniq_def weaker_def)

lemma weaker_list_update:
  "(active c' \<longrightarrow> active (cs ! i) \<and> MacAddr c' = MacAddr (cs ! i)) \<Longrightarrow> weaker cs (cs[i := c'])"
  by (auto simp: weaker_def nth_update)

lemma weaker_map:
  "(\<And>c. active (f c) \<longrightarrow> active c \<and> MacAddr (f c) = MacAddr c) \<Longrightarrow> weaker cs (map f cs)"
  by (simp add: weaker_def)

lemma uniq_set_active:
  assumes "uniq_for M i cs" and "MacAddr c' = M"
  shows "uniq_for M i (cs[i := c'])"
  using assms by (auto simp: uniq_for_def uniq_def nth_update)

lemma set_state_idle_weaker: "weaker (Clients s) (Clients (set_state i DHCP_CLIENT_STATE_IDLE s))"
  by (auto simp: set_state_def upd_client_def intro: weaker_list_update)

lemma drop_client_weaker: "weaker (Clients s) (Clients (drop_client i s))"
  by (auto simp: drop_client_def set_state_def set_mac_def upd_client_def weaker_def nth_update)

lemma nth_drop_client:
  "Clients (drop_client i s) ! j =
     (if i = j \<and> i < length (Clients s)
      then (Clients s ! i)\<lparr>State := DHCP_CLIENT_STATE_IDLE,
              MacAddr := (if State (Clients s ! i) \<noteq> DHCP_CLIENT_STATE_BIND then mac0 else MacAddr (Clients s ! i))\<rparr>
      else Clients s ! j)"
  by (auto simp: drop_client_def set_state_def set_mac_def upd_client_def nth_update)

text \<open>What every branch of the lookup guarantees: the entry it returns is not held by another client.\<close>

definition choice_ok :: "bytes \<Rightarrow> DHCP_SERVER \<Rightarrow> nat option \<times> DHCP_SERVER \<Rightarrow> bool" where
  "choice_ok M s r \<longleftrightarrow> weaker (Clients s) (Clients (snd r)) \<and>
     (\<forall>i. fst r = Some i \<longrightarrow> i < length (Clients s) \<and>
        (\<forall>j < length (Clients s). j \<noteq> i \<and> active (Clients (snd r) ! j) \<longrightarrow> MacAddr (Clients (snd r) ! j) \<noteq> M))"

lemma choice_none: "weaker (Clients s) (Clients s') \<Longrightarrow> choice_ok M s (None, s')"
  by (simp add: choice_ok_def)

lemma mac_only_my:
  assumes "uniq (Clients s)" and "pMyClient (lookup_scan M r (Clients s)) = Some my"
    and "j < length (Clients s)" and "j \<noteq> my" and "active (Clients s ! j)"
  shows "MacAddr (Clients s ! j) \<noteq> M"
  using assms lookup_my[where M = M and r = r and cs = "Clients s"] by (auto simp: uniq_def)

lemma mac_none:
  assumes "pMyClient (lookup_scan M r (Clients s)) = None"
    and "j < length (Clients s)" and "active (Clients s ! j)"
  shows "MacAddr (Clients s ! j) \<noteq> M"
  using assms lookup_my[where M = M and r = r and cs = "Clients s"] by auto

lemma lookup_discover_ok:
  assumes u: "uniq (Clients s)"
  shows "choice_ok M s (lookup_discover (lookup_scan M r (Clients s)) s)"
proof -
  let ?l = "lookup_scan M r (Clients s)"
  show ?thesis
  proof (cases "pMyClient ?l")
    case None
    have "choice_ok M s (p, s)" if "\<And>i. p = Some i \<Longrightarrow> i < length (Clients s)" for p
      using that mac_none[OF None] by (auto simp: choice_ok_def)
    with None lookup_idle[of M r "Clients s"] show ?thesis
      by (auto simp: lookup_discover_def)
  next
    case (Some my)
    have my: "my < length (Clients s)" using lookup_my[where M = M and r = r and cs = "Clients s"] Some by simp
    show ?thesis
      using Some my mac_only_my[OF u Some] lookup_idle(1)[of M r "Clients s"]
      by (auto simp: lookup_discover_def Let_def choice_ok_def set_state_def set_mac_def upd_client_def
          weaker_def nth_update split: option.splits)
  qed
qed

lemma lookup_request_ok:
  assumes u: "uniq (Clients s)"
  shows "choice_ok M s (lookup_request (lookup_scan M r (Clients s)) sid s)"
proof -
  let ?l = "lookup_scan M r (Clients s)"
  show ?thesis
  proof (cases "pMyClient ?l")
    case None
    then show ?thesis
      using mac_none[OF None] lookup_idle(1)[of M r "Clients s"]
      by (auto simp: lookup_request_def choice_ok_def)
  next
    case (Some my)
    have my: "my < length (Clients s)" using lookup_my[where M = M and r = r and cs = "Clients s"] Some by simp
    show ?thesis
      using Some my mac_only_my[OF u Some] lookup_idle(1)[of M r "Clients s"] drop_client_weaker[of s my]
      by (auto simp: lookup_request_def choice_ok_def nth_drop_client split: option.splits)
  qed
qed

lemma lookup_give_up_ok: "choice_ok M s (lookup_give_up l s)"
  by (auto simp: lookup_give_up_def choice_ok_def drop_client_weaker split: option.splits)

lemma ClientTableLookup_ok:
  assumes u: "uniq (Clients s)" and r: "ClientTableLookup M ty req sid s = (ret, s')"
  shows "case ret of Some i \<Rightarrow> uniq_for M i (Clients s') | None \<Rightarrow> uniq (Clients s')"
proof -
  let ?l = "lookup_scan M req (Clients s)"
  define c where "c = (if ty = DHCP_MSG_DISCOVER then lookup_discover ?l s
                       else if ty = DHCP_MSG_REQUEST then lookup_request ?l sid s
                       else if ty = DHCP_MSG_RELEASE then lookup_give_up ?l s
                       else if ty = DHCP_MSG_DECLINE then lookup_give_up ?l s
                       else (None, s))"
  have ok: "choice_ok M s c"
    using lookup_discover_ok[OF u, of M req] lookup_request_ok[OF u, of M req sid] lookup_give_up_ok[of M s ?l]
    by (auto simp: c_def choice_none)
  obtain p s1 where c: "c = (p, s1)" by (cases c)
  have r': "(ret, s') = (case p of Some i \<Rightarrow> (Some i, set_mac i M s1) | None \<Rightarrow> (None, s1))"
    using r c unfolding ClientTableLookup_def Let_def c_def[symmetric] by simp
  have u1: "uniq (Clients s1)" and len: "length (Clients s1) = length (Clients s)"
    using ok c weaker_uniq[OF u] by (auto simp: choice_ok_def weaker_def)
  show ?thesis
  proof (cases p)
    case None
    then show ?thesis using r' u1 by simp
  next
    case (Some i)
    have i: "i < length (Clients s1)"
      and o: "\<forall>j < length (Clients s1). j \<noteq> i \<and> active (Clients s1 ! j) \<longrightarrow> MacAddr (Clients s1 ! j) \<noteq> M"
      using ok c Some len by (auto simp: choice_ok_def)
    have "uniq_for M i ((Clients s1)[i := (Clients s1 ! i)\<lparr>MacAddr := M\<rparr>])"
      using u1 i o by (auto simp: uniq_for_def uniq_def nth_update)
    then show ?thesis using r' Some by (simp add: set_mac_def upd_client_def)
  qed
qed

subsection \<open>The invariant over histories\<close>

lemma ips_upd_client:
  "(\<And>c. IpAddr (f c) = IpAddr c) \<Longrightarrow> map IpAddr (Clients (upd_client i f s)) = map IpAddr (Clients s)"
  by (rule nth_equalityI) (auto simp: upd_client_def nth_update)

lemma ips_lookup: "map IpAddr (Clients (snd (ClientTableLookup M ty req sid s))) = map IpAddr (Clients s)"
  by (simp add: ClientTableLookup_def lookup_discover_def lookup_request_def lookup_give_up_def drop_client_def
      set_state_def set_mac_def ips_upd_client Let_def split: option.splits prod.splits)

lemma msg_lookup: "DhcpMsg (snd (ClientTableLookup M ty req sid s)) = DhcpMsg s"
  by (simp add: ClientTableLookup_def lookup_discover_def lookup_request_def lookup_give_up_def drop_client_def
      set_state_def set_mac_def upd_client_def Let_def split: option.splits prod.splits)

definition dhcp_inv :: "u32 list \<Rightarrow> DHCP_SERVER \<Rightarrow> bool" where
  "dhcp_inv ips s \<longleftrightarrow> uniq (Clients s) \<and> map IpAddr (Clients s) = ips \<and> length (DhcpMsg s) = SIZEOF_DHCP_MSG"

lemma send_lease_shape:
  assumes "length (DhcpMsg s) = SIZEOF_DHCP_MSG"
  shows "\<exists>s' out. send_reply alloc (lease_msg type s c m Xid) s = Some (s', out) \<and> Clients s' = Clients s \<and>
    length (DhcpMsg s') = SIZEOF_DHCP_MSG"
  using send_reply_lease[of alloc type s c m Xid] assms by (auto simp: SIZEOF_DHCP_MSG_def)

lemma CleanClientHistory_inv: "dhcp_inv ips s \<Longrightarrow> dhcp_inv ips (CleanClientHistory m s)"
proof -
  assume inv: "dhcp_inv ips s"
  have "weaker (Clients s) (Clients (CleanClientHistory m s))"
    unfolding CleanClientHistory_def by (simp, rule weaker_map) auto
  moreover have "map IpAddr (Clients (CleanClientHistory m s)) = map IpAddr (Clients s)"
    by (simp add: CleanClientHistory_def)
  moreover have "DhcpMsg (CleanClientHistory m s) = DhcpMsg s" by (simp add: CleanClientHistory_def)
  ultimately show ?thesis using inv weaker_uniq[of "Clients s"] by (simp add: dhcp_inv_def)
qed

lemma upd_active_inv:
  assumes "uniq_for M i (Clients s)" and "map IpAddr (Clients s) = ips" and "length (DhcpMsg s) = SIZEOF_DHCP_MSG"
    and "\<And>c. IpAddr (f c) = IpAddr c" and "\<And>c. MacAddr (f c) = MacAddr c"
  shows "dhcp_inv ips (upd_client i f s)"
proof -
  have "uniq_for M i ((Clients s)[i := f (Clients s ! i)])"
    using assms(1,5) by (intro uniq_set_active) (auto simp: uniq_for_def)
  then show ?thesis using assms ips_upd_client[of f i s] by (simp add: dhcp_inv_def uniq_for_def upd_client_def)
qed

lemma sme_bind_inv:
  assumes "uniq_for M i (Clients s)" and "map IpAddr (Clients s) = ips" and "length (DhcpMsg s) = SIZEOF_DHCP_MSG"
  shows "\<exists>s' out. sme_bind alloc i Xid s = Some (s', out) \<and> dhcp_inv ips s'"
proof -
  obtain s1 out where 1: "DHCPAckGenAndSend alloc i Xid s = Some (s1, out)" "Clients s1 = Clients s"
    "length (DhcpMsg s1) = SIZEOF_DHCP_MSG"
    using send_lease_shape[OF assms(3)] by (force simp: DHCPAckGenAndSend_def)
  have "dhcp_inv ips (upd_client i (\<lambda>c. c\<lparr>Lease := DHCP_DEFAULT_LEASE_TIME, State := DHCP_CLIENT_STATE_BIND\<rparr>) s1)"
    using assms 1 by (intro upd_active_inv[where M = M]) auto
  with 1 CleanClientHistory_inv show ?thesis by (simp add: sme_bind_def Let_def)
qed

lemma sme_offer_inv:
  assumes "uniq_for M i (Clients s)" and "map IpAddr (Clients s) = ips" and "length (DhcpMsg s) = SIZEOF_DHCP_MSG"
  shows "\<exists>s' out. sme_offer alloc i Xid s = Some (s', out) \<and> dhcp_inv ips s'"
proof -
  obtain s1 out where 1: "DHCPOfferGenAndSend alloc i Xid s = Some (s1, out)" "Clients s1 = Clients s"
    "length (DhcpMsg s1) = SIZEOF_DHCP_MSG"
    using send_lease_shape[OF assms(3)] by (force simp: DHCPOfferGenAndSend_def)
  have "dhcp_inv ips (upd_client i (\<lambda>c. c\<lparr>Timeout := DHCP_DEFFAULT_TIMEOUT, State := DHCP_CLIENT_STATE_REQUEST\<rparr>) s1)"
    using assms 1 by (intro upd_active_inv[where M = M]) auto
  with 1 show ?thesis by (simp add: sme_offer_def)
qed

lemma set_select_uniq:
  assumes "uniq_for M i (Clients s)"
  shows "uniq_for M i (Clients (set_state i DHCP_CLIENT_STATE_SELECT s))"
proof -
  have "MacAddr ((Clients s ! i)\<lparr>State := DHCP_CLIENT_STATE_SELECT\<rparr>) = M"
    using assms by (simp add: uniq_for_def)
  from uniq_set_active[OF assms this] show ?thesis by (simp add: set_state_def upd_client_def)
qed

lemma SME_inv:
  assumes "uniq_for M i (Clients s)" and "map IpAddr (Clients s) = ips" and "length (DhcpMsg s) = SIZEOF_DHCP_MSG"
  shows "\<exists>s' out. DhcpClientSMEHandle alloc i ty Xid s = Some (s', out) \<and> dhcp_inv ips s'"
proof -
  let ?s = "set_state i DHCP_CLIENT_STATE_SELECT s"
  have "map IpAddr (Clients ?s) = ips" "length (DhcpMsg ?s) = SIZEOF_DHCP_MSG"
    using assms(2,3) ips_upd_client[of "\<lambda>c. c\<lparr>State := DHCP_CLIENT_STATE_SELECT\<rparr>" i s]
    by (simp_all add: set_state_def upd_client_def)
  from sme_offer_inv[OF set_select_uniq[OF assms(1)] this] sme_offer_inv[OF assms] sme_bind_inv[OF assms]
  show ?thesis by (auto simp: DhcpClientSMEHandle_def split: DHCP_CLIENT_STATE.splits)
qed

lemma RecvCb_inv:
  assumes "dhcp_inv ips s"
  shows "\<exists>s' out. DHCPS_RecvCb alloc past P s = Some (s', out) \<and> dhcp_inv ips s'"
proof -
  define msg where "msg = put (DhcpMsg s) 0 (take SIZEOF_DHCP_MSG P)"
  let ?s = "s\<lparr>DhcpMsg := msg\<rparr>"
  have len: "length msg = SIZEOF_DHCP_MSG" using assms by (simp add: msg_def dhcp_inv_def)
  have inv: "dhcp_inv ips ?s" using assms len by (simp add: dhcp_inv_def)
  define opts where "opts = ParseDhcpOptions msg past 0xff 0 0"
  define M where "M = take 6 (drop 28 msg)"
  obtain r s1 where l: "ClientTableLookup M (pMsgType opts) (pReqIpAddr opts) (pServerId opts) ?s = (r, s1)"
    by (metis surj_pair)
  have ok: "case r of Some i \<Rightarrow> uniq_for M i (Clients s1) | None \<Rightarrow> uniq (Clients s1)"
    using ClientTableLookup_ok[OF _ l] inv by (simp add: dhcp_inv_def)
  have ips: "map IpAddr (Clients s1) = ips" and m: "length (DhcpMsg s1) = SIZEOF_DHCP_MSG"
    using ips_lookup[of M "pMsgType opts" "pReqIpAddr opts" "pServerId opts" ?s]
      msg_lookup[of M "pMsgType opts" "pReqIpAddr opts" "pServerId opts" ?s] l inv len
    by (auto simp: dhcp_inv_def)
  have branch: "\<exists>s' out. (case (r, s1) of
      (None, s') \<Rightarrow> if pMsgType opts \<noteq> DHCP_MSG_RELEASE \<and> pMsgType opts \<noteq> DHCP_MSG_DECLINE
                    then DHCPNakGenAndSend alloc M Xid s' else Some (s', [])
    | (Some i, s') \<Rightarrow> DhcpClientSMEHandle alloc i (pMsgType opts) Xid s') = Some (s', out) \<and> dhcp_inv ips s'" for Xid
  proof (cases r)
    case None
    then show ?thesis using ok ips m
      by (auto simp: DHCPNakGenAndSend_def send_reply_def nak_msg_eq dhcp_inv_def SIZEOF_DHCP_MSG_def)
  next
    case (Some i)
    with ok SME_inv[OF _ ips m] show ?thesis by simp
  qed
  show ?thesis
    using branch inv unfolding DHCPS_RecvCb_def Let_def msg_def[symmetric] opts_def[symmetric] M_def[symmetric] l
    by auto
qed

datatype dhcp_event =
    Recv bool "nat \<Rightarrow> u8" bytes
  | Tick "bytes \<Rightarrow> bool"
  | Delete "bytes option"

fun dhcp_step :: "dhcp_event \<Rightarrow> DHCP_SERVER option \<Rightarrow> DHCP_SERVER option" where
  "dhcp_step ev None = None"
| "dhcp_step (Recv alloc past P) (Some s) = map_option fst (DHCPS_RecvCb alloc past P s)"
| "dhcp_step (Tick associated) (Some s) = Some (fst (DhcpTickHandle associated s))"
| "dhcp_step (Delete m) (Some s) = Some (snd (DHCPS_ClientDelete m s))"

lemma delete_scan_weaker: "delete_scan m cs = (r, cs') \<Longrightarrow> weaker cs cs' \<and> map IpAddr cs' = map IpAddr cs"
proof (induction m cs arbitrary: r cs' rule: delete_scan.induct)
  case (2 m c cs)
  have cons: "weaker cs ds \<Longrightarrow> weaker (c # cs) (c # ds)" for ds
    by (auto simp: weaker_def nth_Cons split: nat.splits)
  have same: "weaker (c # cs) (c\<lparr>State := DHCP_CLIENT_STATE_IDLE\<rparr> # cs)"
    by (auto simp: weaker_def nth_Cons split: nat.splits)
  show ?case using 2 cons same by (auto split: if_splits prod.splits)
qed simp

interpretation dhcp: invariant_machine dhcp_step "\<lambda>_. True" "some_inv (dhcp_inv ips)" for ips
proof unfold_locales
  fix e s
  assume "some_inv (dhcp_inv ips) s"
  then obtain t where s: "s = Some t" and t: "dhcp_inv ips t" by (auto simp: some_inv_def)
  show "some_inv (dhcp_inv ips) (dhcp_step e s)"
  proof (cases e)
    case (Recv alloc past P)
    then show ?thesis using RecvCb_inv[OF t, of alloc past P] s by (auto simp: some_inv_def)
  next
    case (Tick a)
    have "weaker (Clients t) (map (tick_client a) (Clients t))"
      by (rule weaker_map) (auto simp: tick_client_def Let_def)
    moreover have "IpAddr (tick_client a c) = IpAddr c" for c by (auto simp: tick_client_def Let_def)
    ultimately show ?thesis using Tick s t weaker_uniq
      by (auto simp: some_inv_def dhcp_inv_def DhcpTickHandle_def comp_def)
  next
    case (Delete m)
    then show ?thesis using s t weaker_uniq
      by (auto simp: some_inv_def dhcp_inv_def DHCPS_ClientDelete_def
          dest!: delete_scan_weaker split: option.splits prod.splits)
  qed
qed

section \<open>Properties\<close>

text \<open>The addresses of the pool \<open>DHCPS_Start\<close> builds for an interface.\<close>

definition dhcp_pool :: "u32 \<Rightarrow> u32 \<Rightarrow> u32 list" where
  "dhcp_pool ip netmask =
     map (\<lambda>i. pool_ip (pool_ip ip (bswap32 netmask) 1) (bswap32 netmask) (of_nat i)) [0..<DHCPS_HISTORY_CLIENT_NUM]"

lemma DHCPS_Start_inv:
  assumes "length (DhcpMsg s0) = SIZEOF_DHCP_MSG"
    and "DHCPS_Start True ip netmask True s0 = Some (DHCPS_ERR_SUCCESS, s)"
  shows "dhcp_inv (dhcp_pool ip netmask) s"
  using assms
  by (auto simp: DHCPS_Start_def Let_def dhcp_inv_def dhcp_pool_def uniq_def dhcps_zero_def comp_def split: if_splits)

definition leases_disjoint :: "DHCP_CLIENT list \<Rightarrow> bool" where
  "leases_disjoint cs \<longleftrightarrow> (\<forall>i < length cs. \<forall>j < length cs.
     i \<noteq> j \<and> active (cs ! i) \<and> active (cs ! j) \<longrightarrow>
       MacAddr (cs ! i) \<noteq> MacAddr (cs ! j) \<and> IpAddr (cs ! i) \<noteq> IpAddr (cs ! j))"

lemma no_shared_lease:
  assumes "length (DhcpMsg s0) = SIZEOF_DHCP_MSG"
    and "DHCPS_Start True ip netmask True s0 = Some (DHCPS_ERR_SUCCESS, s)"
    and "distinct (dhcp_pool ip netmask)"
  shows "\<exists>s'. fold dhcp_step es (Some s) = Some s' \<and> length (Clients s') = DHCPS_HISTORY_CLIENT_NUM \<and>
    leases_disjoint (Clients s')"
proof -
  have "some_inv (dhcp_inv (dhcp_pool ip netmask)) (Some s)"
    using DHCPS_Start_inv[OF assms(1,2)] by (simp add: some_inv_def)
  from dhcp.run_inv[OF _ this, of es] obtain s' where s': "fold dhcp_step es (Some s) = Some s'"
    "uniq (Clients s')" "map IpAddr (Clients s') = dhcp_pool ip netmask"
    by (auto simp: some_inv_def dhcp_inv_def list_all_iff)
  then have "length (Clients s') = DHCPS_HISTORY_CLIENT_NUM"
    by (metis dhcp_pool_def length_map length_upt diff_zero)
  moreover have "leases_disjoint (Clients s')"
    using s'(2,3) assms(3) unfolding leases_disjoint_def uniq_def
    by (metis distinct_conv_nth length_map nth_map)
  ultimately show ?thesis using s'(1) by blast
qed

text \<open>C24 No address is leased twice. Whatever datagrams arrive, whatever stations leave and whenever the
  tick fires, the server never writes outside its message buffer, and in every state it
  reaches two entries that are being negotiated or are bound belong to different stations and, when
  the pool addresses are distinct, to different addresses.\<close>

theorem DHCP_no_shared_lease:
  assumes "length (DhcpMsg s0) = SIZEOF_DHCP_MSG"
    and "DHCPS_Start True ip netmask True s0 = Some (DHCPS_ERR_SUCCESS, s)"
    and "distinct (dhcp_pool ip netmask)"
  shows "\<exists>s'. fold dhcp_step es (Some s) = Some s' \<and> length (Clients s') = DHCPS_HISTORY_CLIENT_NUM \<and>
    leases_disjoint (Clients s')"
  by (rule no_shared_lease[OF assms])

text \<open>The default network of the access point, 10.10.100.254 in a /24, gives eight distinct pool
  addresses; with the server at host 250 the pool wraps and two entries get host 1.\<close>

theorem dhcp_pool_default:
  "distinct (dhcp_pool (bswap32 0x0A0A64FE) (bswap32 0xFFFFFF00)) \<and>
   \<not> distinct (dhcp_pool (bswap32 0x0A0A64FA) (bswap32 0xFFFFFF00))"
  by (simp add: dhcp_pool_def DHCPS_HISTORY_CLIENT_NUM_def pool_ip_def pool_host_def Let_def upt_0_8)

definition dhcps_off :: DHCP_SERVER where
  "dhcps_off = dhcps_zero (zeros SIZEOF_DHCP_MSG)"

theorem DHCP_no_shared_lease_witness:
  "\<exists>s s'. DHCPS_Start True (bswap32 0x0A0A64FE) (bswap32 0xFFFFFF00) True dhcps_off = Some (DHCPS_ERR_SUCCESS, s) \<and>
     fold dhcp_step [Recv True (\<lambda>_. 0) (zeros 548), Tick (\<lambda>_. True), Delete None] (Some s) = Some s' \<and>
     leases_disjoint (Clients s')"
proof -
  obtain s where s: "DHCPS_Start True (bswap32 0x0A0A64FE) (bswap32 0xFFFFFF00) True dhcps_off = Some (DHCPS_ERR_SUCCESS, s)"
    by (simp add: DHCPS_Start_def Let_def)
  have "length (DhcpMsg dhcps_off) = SIZEOF_DHCP_MSG" by (simp add: dhcps_off_def dhcps_zero_def)
  moreover have "distinct (dhcp_pool (bswap32 0x0A0A64FE) (bswap32 0xFFFFFF00))"
    by (simp add: dhcp_pool_def DHCPS_HISTORY_CLIENT_NUM_def pool_ip_def pool_host_def Let_def upt_0_8)
  ultimately show ?thesis
    using DHCP_no_shared_lease[OF _ s] s by blast
qed

text \<open>The option parser inverts the encoding of options: on any sequence of well-formed options
  followed by the end marker, inside the message, it returns exactly what the options say, the
  last one of each kind winning.\<close>

theorem ParseDhcpOptions_encoded:
  assumes "list_all option_ok os" and "length hdr = 240" and "240 + length (concat (map enc_option os)) < SIZEOF_DHCP_MSG"
  shows "ParseDhcpOptions (hdr @ concat (map enc_option os) @ 255 # rest) past ty ip sid =
    fold apply_option os \<lparr>Ret = 0, pMsgType = ty, pReqIpAddr = ip, pServerId = sid\<rparr>"
  unfolding ParseDhcpOptions_def using parse_options_encoded[OF assms(1), of hdr] assms(2,3) by simp

theorem ParseDhcpOptions_encoded_witness:
  "ParseDhcpOptions (zeros 240 @ concat (map enc_option [(53, [3]), (12, [65, 66]), (50, [10, 10, 100, 1])]) @ [255])
     (\<lambda>_. 0) 0xff 0 0 =
   \<lparr>Ret = 3, pMsgType = 3, pReqIpAddr = mk32 1 100 10 10, pServerId = 0\<rparr>"
proof -
  have "list_all option_ok [(53, [3]), (12, [65, 66]), (50, [10, 10, 100, 1])]" by (simp add: option_ok_def)
  from ParseDhcpOptions_encoded[OF this, of "zeros 240" "[]" "\<lambda>_. 0" "0xff" 0 0]
  show ?thesis by (simp add: apply_option_def Let_def SIZEOF_DHCP_MSG_def)
qed

text \<open>A datagram that offers or acknowledges the lease of entry \<open>i\<close>.\<close>

definition lease_reply_ok :: "u8 \<Rightarrow> DHCP_SERVER \<Rightarrow> nat \<Rightarrow> bytes \<Rightarrow> bool" where
  "lease_reply_ok type s i pkt \<longleftrightarrow>
     length pkt = 274 \<and> take 4 (drop 16 pkt) = le32 (IpAddr (Clients s ! i)) \<and>
     take 6 (drop 28 pkt) = take 6 (MacAddr (Clients s ! i) @ zeros 6) \<and>
     (\<forall>past. ParseDhcpOptions (pkt @ zeros 274) past 0xff 0 0 =
       \<lparr>Ret = 5, pMsgType = type, pReqIpAddr = 0, pServerId = ServerIpAddr s\<rparr>)"

lemma lease_msg_ok:
  "lease_msg type s (Clients s ! i) (MacAddr (Clients s ! i)) Xid = Some (msg, n) \<Longrightarrow> lease_reply_ok type s i (take n msg)"
proof -
  assume m: "lease_msg type s (Clients s ! i) (MacAddr (Clients s ! i)) Xid = Some (msg, n)"
  let ?c = "Clients s ! i" and ?pkt = "take n msg"
  let ?h = "header_bytes Xid (IpAddr ?c) 0 (MacAddr ?c)"
  have len: "length (concat (map enc_option (lease_options type s))) = 33" by (simp add: lease_options_def)
  have pkt: "?pkt = ?h @ concat (map enc_option (lease_options type s)) @ [255]"
    using m len by (auto simp: lease_msg_eq)
  have ok: "list_all option_ok (lease_options type s)" by (simp add: lease_options_def option_ok_def)
  have "ParseDhcpOptions (?pkt @ zeros 274) past 0xff 0 0 =
      fold apply_option (lease_options type s) \<lparr>Ret = 0, pMsgType = 0xff, pReqIpAddr = 0, pServerId = 0\<rparr>" for past
    using parse_options_encoded[OF ok, of ?h "zeros 274" past] len
    by (simp add: pkt SIZEOF_DHCP_MSG_def ParseDhcpOptions_def)
  moreover have "fold apply_option (lease_options type s) \<lparr>Ret = 0, pMsgType = 0xff, pReqIpAddr = 0, pServerId = 0\<rparr>
     = \<lparr>Ret = 5, pMsgType = type, pReqIpAddr = 0, pServerId = ServerIpAddr s\<rparr>"
    by (simp add: lease_options_def apply_option_def le32_def Let_def)
  moreover have "length ?pkt = 274" using len by (simp add: pkt)
  moreover have "take 4 (drop 16 ?pkt) = le32 (IpAddr ?c)" by (simp add: pkt header_bytes_def)
  moreover have "take 6 (drop 28 ?pkt) = take 6 (MacAddr ?c @ zeros 6)"
    by (simp add: pkt header_bytes_def min_def)
  ultimately show ?thesis by (simp add: lease_reply_ok_def)
qed

text \<open>Offers and acknowledgements are always built and well formed: one datagram of 274 bytes, carrying
  the address of the entry and the MAC address of the station, and the server's own parser reads
  its type and its server identifier back.\<close>

theorem lease_reply_roundtrip:
  "(\<exists>s' pkt. DHCPAckGenAndSend True i Xid s = Some (s', [pkt]) \<and> lease_reply_ok DHCP_MSG_ACK s i pkt) \<and>
   (\<exists>s' pkt. DHCPOfferGenAndSend True i Xid s = Some (s', [pkt]) \<and> lease_reply_ok DHCP_MSG_OFFER s i pkt)"
proof -
  obtain m1 n1 where 1: "lease_msg DHCP_MSG_ACK s (Clients s ! i) (MacAddr (Clients s ! i)) Xid = Some (m1, n1)"
    by (simp add: lease_msg_eq)
  obtain m2 n2 where 2: "lease_msg DHCP_MSG_OFFER s (Clients s ! i) (MacAddr (Clients s ! i)) Xid = Some (m2, n2)"
    by (simp add: lease_msg_eq)
  show ?thesis
    using lease_msg_ok[OF 1] lease_msg_ok[OF 2] 1 2
    by (simp add: DHCPAckGenAndSend_def DHCPOfferGenAndSend_def send_reply_def)
qed

text \<open>A request for an address that another active station holds never yields an entry, so it is
  answered with a NAK.\<close>

theorem request_taken_address:
  assumes "c \<in> set (Clients s)" and "active c" and "MacAddr c \<noteq> M" and "IpAddr c = req"
  shows "fst (ClientTableLookup M DHCP_MSG_REQUEST req sid s) = None"
proof -
  have "IpUnavailable (lookup_scan M req (Clients s))" using assms lookup_unavailable by blast
  then show ?thesis
    by (simp add: ClientTableLookup_def lookup_request_def Let_def split: option.splits)
qed

definition bound_client :: "bytes \<Rightarrow> u32 \<Rightarrow> DHCP_CLIENT" where
  "bound_client m ip = \<lparr>State = DHCP_CLIENT_STATE_BIND, Timeout = 0, IpAddr = ip, MacAddr = m, Lease = 100\<rparr>"

theorem request_taken_address_witness:
  "fst (ClientTableLookup [1, 1, 1, 1, 1, 1] DHCP_MSG_REQUEST 7 0
     (dhcps_off\<lparr>Clients := [bound_client [2, 2, 2, 2, 2, 2] 7]\<rparr>)) = None"
  by (rule request_taken_address[of "bound_client [2, 2, 2, 2, 2, 2] 7"]) (simp_all add: bound_client_def)

text \<open>The pool is used to the last entry: a DISCOVER gets no entry only if every entry is active and
  none of them belongs to the station.\<close>

theorem discover_complete:
  "fst (ClientTableLookup M DHCP_MSG_DISCOVER req sid s) = None \<longleftrightarrow>
     list_all (\<lambda>c. active c \<and> MacAddr c \<noteq> M) (Clients s)"
proof -
  let ?l = "lookup_scan M req (Clients s)"
  have my: "(pMyClient ?l = None) = (\<forall>c \<in> set (Clients s). active c \<longrightarrow> MacAddr c \<noteq> M)"
    using lookup_my[where M = M and r = req and cs = "Clients s"] by (auto split: option.splits)
  have none: "fst (lookup_discover ?l s) = None \<longleftrightarrow> pMyClient ?l = None \<and> pReqClient ?l = None \<and>
      pMyHistoryClient ?l = None \<and> pFreeClient ?l = None \<and> pHistoryClient ?l = None"
    by (auto simp: lookup_discover_def Let_def split: option.splits)
  have idle: "\<forall>c \<in> set (Clients s). active c \<Longrightarrow> pReqClient ?l = None \<and>
      pMyHistoryClient ?l = None \<and> pFreeClient ?l = None \<and> pHistoryClient ?l = None"
    using lookup_idle[of M req "Clients s"] by (metis not_Some_eq nth_mem)
  have "fst (lookup_discover ?l s) = None \<longleftrightarrow> (\<forall>c \<in> set (Clients s). active c \<and> MacAddr c \<noteq> M)"
    unfolding none my using lookup_full[of M req "Clients s"] idle by blast
  moreover have "fst (ClientTableLookup M DHCP_MSG_DISCOVER req sid s) = fst (lookup_discover ?l s)"
    by (simp add: ClientTableLookup_def Let_def split: option.splits prod.splits)
  ultimately show ?thesis by (simp add: list_all_iff)
qed

text \<open>An offer the station does not take up expires: with a timeout of \<open>n\<close> the entry is kept for
  \<open>n - 1\<close> ticks and is idle again, its MAC address cleared, after the \<open>n\<close>-th.\<close>

theorem offer_expires:
  assumes "State c = DHCP_CLIENT_STATE_REQUEST" and "Timeout c = of_nat n" and "0 < n" and "n < 2 ^ 32"
  shows "(\<forall>k < n. State ((tick_client associated ^^ k) c) = DHCP_CLIENT_STATE_REQUEST) \<and>
    State ((tick_client associated ^^ n) c) = DHCP_CLIENT_STATE_IDLE \<and> MacAddr ((tick_client associated ^^ n) c) = mac0"
proof -
  have k: "(tick_client associated ^^ k) c = c\<lparr>Timeout := of_nat (n - k)\<rparr>" if "k < n" for k
    using that
  proof (induction k)
    case 0
    then show ?case using assms(2) by simp
  next
    case (Suc k)
    have u: "unat (of_nat (n - k) :: u32) = n - k" using Suc.prems assms(4) by (intro unat_of_nat32) simp
    have e: "(of_nat (n - k) :: u32) - 1 = of_nat (n - Suc k)" using Suc.prems by (simp add: of_nat_diff)
    have u': "unat (of_nat (n - Suc k) :: u32) = n - Suc k" using Suc.prems assms(4) by (intro unat_of_nat32) simp
    have nz: "(of_nat (n - k) :: u32) \<noteq> 0" "(of_nat (n - Suc k) :: u32) \<noteq> 0"
      using u u' Suc.prems by (metis Suc_lessD unsigned_0 zero_less_diff less_numeral_extra(3))+
    have "tick_client associated (c\<lparr>Timeout := of_nat (n - k)\<rparr>) = c\<lparr>Timeout := of_nat (n - Suc k)\<rparr>"
      unfolding tick_client_def using nz assms(1) by (simp add: e)
    then show ?case using Suc by simp
  qed
  have "(tick_client associated ^^ n) c = tick_client associated ((tick_client associated ^^ (n - 1)) c)"
    using assms(3) by (metis Suc_diff_1 comp_apply funpow.simps(2))
  also have "(tick_client associated ^^ (n - 1)) c = c\<lparr>Timeout := 1\<rparr>" using k[of "n - 1"] assms(3) by simp
  also have "tick_client associated (c\<lparr>Timeout := 1\<rparr>) = c\<lparr>Timeout := 0, MacAddr := mac0, State := DHCP_CLIENT_STATE_IDLE\<rparr>"
    using assms(1) by (simp add: tick_client_def)
  finally have "(tick_client associated ^^ n) c = c\<lparr>Timeout := 0, MacAddr := mac0, State := DHCP_CLIENT_STATE_IDLE\<rparr>" .
  with k assms(1) show ?thesis by simp
qed

theorem offer_expires_witness:
  "State ((tick_client (\<lambda>_. True) ^^ 10)
     ((bound_client mac0 7)\<lparr>State := DHCP_CLIENT_STATE_REQUEST, Timeout := DHCP_DEFFAULT_TIMEOUT\<rparr>)) =
   DHCP_CLIENT_STATE_IDLE"
  using offer_expires[of "(bound_client mac0 7)\<lparr>State := DHCP_CLIENT_STATE_REQUEST, Timeout := DHCP_DEFFAULT_TIMEOUT\<rparr>"
      10 "\<lambda>_. True"]
  by (simp add: DHCP_DEFFAULT_TIMEOUT_def)

lemma parse_pads: "length pre + n \<le> SIZEOF_DHCP_MSG \<Longrightarrow>
  parse_options (pre @ zeros n @ rest) past (length pre) r = parse_options (pre @ zeros n @ rest) past (length pre + n) r"
proof (induction n arbitrary: pre)
  case (Suc n)
  have z: "zeros (Suc n) = 0 # zeros n" by (simp add: zeros_def)
  have "peek (pre @ zeros (Suc n) @ rest) past (length pre) = 0"
    by (simp add: peek_def nth_append z)
  then have "parse_options (pre @ zeros (Suc n) @ rest) past (length pre) r =
      parse_options ((pre @ [0]) @ zeros n @ rest) past (length (pre @ [0])) r"
    using Suc.prems by (subst parse_options.simps) (simp add: z)
  also have "\<dots> = parse_options ((pre @ [0]) @ zeros n @ rest) past (length (pre @ [0]) + n) r"
    using Suc.prems by (intro Suc.IH) simp
  finally show ?case by (simp add: z)
qed simp

text \<open>The parser reads past the message: if the last byte of the message is the code of the message
  type, the type it reports is the second byte that follows the static buffer in memory.\<close>

theorem parse_overread:
  assumes "length hdr = 240"
  shows "pMsgType (ParseDhcpOptions (hdr @ zeros 307 @ [53]) past ty ip sid) = past 1"
proof -
  let ?m = "hdr @ zeros 307 @ [53]"
  have p: "peek ?m past 547 = 53" using assms by (simp add: peek_def nth_append)
  have q: "peek ?m past (547 + 2) = past 1" using assms by (simp add: peek_def)
  have pads: "parse_options ?m past 240 r = parse_options ?m past 547 r" for r
    using parse_pads[of hdr 307 "[53]" past r] assms by (simp add: SIZEOF_DHCP_MSG_def)
  have stop: "parse_options ?m past (547 + 2 + k) r = r" for k r
    by (subst parse_options.simps) (simp add: SIZEOF_DHCP_MSG_def)
  have "parse_options ?m past 547 r = r\<lparr>pMsgType := past 1, Ret := Ret r OR 1\<rparr>" for r
    using parse_options.simps[of ?m past 547 r] p q stop by (simp add: SIZEOF_DHCP_MSG_def Let_def)
  then show ?thesis by (simp add: ParseDhcpOptions_def pads)
qed

theorem parse_overread_witness:
  "pMsgType (ParseDhcpOptions (zeros 240 @ zeros 307 @ [53]) (\<lambda>i. of_nat i + 2) 0xff 0 0) = 3"
  using parse_overread[of "zeros 240" "\<lambda>i. of_nat i + 2" "0xff" 0 0] by simp

end
