(* ===== verification/SysParam.thy ===== *)
theory SysParam
  imports Prelude
begin

text \<open>
  The configuration and control interface of the Wi-Fi system, \<^verbatim>\<open>Source/Sys/param.c\<close> with the types of
  \<^verbatim>\<open>Source/Include/param.h\<close>, and the dispatcher of system events, \<^verbatim>\<open>Source/Sys/sys_mgmt.c\<close>.

  The state is \<open>SysParam\<close>, \<open>PermanentAddress\<close> and whether a callback is installed; the control functions
  post messages to the MAC task, which are recorded in order. Each function returns the C
  result (0 or -1) and the new state; \<open>None\<close> is a read outside the caller's buffer. Enumeration
  arguments are the integers the caller passes, and the casts to \<open>UINT8\<close> are written out.
\<close>

section \<open>State\<close>

record WIFI_CFG =
  Ssid :: bytes
  SSIDBrdEnable :: u8
  PhyMode :: u8
  Channel :: u8
  Encry :: u8
  AuthMode :: u8
  Protocol :: u8
  KeyLength :: u8
  KeyIndex :: u8
  PSK :: bytes
  WscEn :: u8
  ConTryTimes :: u8
  WmmEn :: u8

record IP_CFG =
  Ip :: bytes
  Netmask :: bytes
  IpGateWay :: bytes
  Dns :: bytes
  bDhcp :: u8
  DhcpTryTimes :: u8

record CFG_PARAM =
  WiFiCfg :: WIFI_CFG
  IPCfg :: IP_CFG
  bDhcpServer :: u8
  bDnsServer :: u8
  DnsName :: bytes

datatype mlme_id = MLME_START_ID | MLME_STOP_ID | MLME_SCAN_REQUEST_ID | MLME_TX_RATE_SET_ID
  | MLME_TX_PWR_LEVEL_SET_ID | MLME_PS_MODE_SET_ID | MLME_DEEP_SLEEP_SET_ID | MLME_BCN_PRD_SET_ID
  | MLME_LISTEN_INTVL_SET_ID | MLME_DIRECT_CFG_ID | MLME_SNIFFER_START_ID | MLME_PEER_AGE_OUT_SET_ID
  | MLME_PEER_KICK_OUT_ID | MLME_PROTECT_MODE_SET_ID | MLME_VENDOR_IE_SET_ID

record sys =
  cfg :: CFG_PARAM
  PermanentAddress :: bytes
  SysEvtCB :: bool
  posted :: "(mlme_id \<times> bytes) list"

definition PostTaskMsg :: "mlme_id \<Rightarrow> bytes \<Rightarrow> sys \<Rightarrow> sys" where
  "PostTaskMsg mid body s = s\<lparr>posted := posted s @ [(mid, body)]\<rparr>"

definition upd_wifi :: "(WIFI_CFG \<Rightarrow> WIFI_CFG) \<Rightarrow> sys \<Rightarrow> sys" where
  "upd_wifi f s = s\<lparr>cfg := (cfg s)\<lparr>WiFiCfg := f (WiFiCfg (cfg s))\<rparr>\<rparr>"

definition PARAM_NET_MODE_MAX :: u8 where "PARAM_NET_MODE_MAX = 3"
definition PARAM_PHY_MODE_MAX :: u8 where "PARAM_PHY_MODE_MAX = 3"
definition PARAM_ENC_MODE_MAX :: u8 where "PARAM_ENC_MODE_MAX = 5"
definition PARAM_AUTH_MODE_MAX :: u8 where "PARAM_AUTH_MODE_MAX = 4"

section \<open>Configuration\<close>

definition hex_digit :: "u8 \<Rightarrow> u8" where
  "hex_digit d = (if d < 10 then 48 + d else 87 + d)"

definition hex02 :: "u8 \<Rightarrow> bytes" where
  "hex02 b = [hex_digit (drop_bit 4 b), hex_digit (b AND 15)]"

text \<open>\<open>sprintf\<close> into a zeroed array: the text and its terminator.\<close>

definition default_ssid :: "bytes \<Rightarrow> bytes" where
  "default_ssid mac =
     ascii ''XPG-GAgent-'' @ hex02 (mac ! 2) @ hex02 (mac ! 3) @ hex02 (mac ! 4) @ hex02 (mac ! 5)"

definition default_wifi :: "bytes \<Rightarrow> WIFI_CFG" where
  "default_wifi mac =
     \<lparr>Ssid = put (zeros 33) 0 (default_ssid mac @ [0]), SSIDBrdEnable = 1, PhyMode = 0, Channel = 11,
      Encry = 3, AuthMode = 3, Protocol = 2, KeyLength = of_nat (length ''123456789''), KeyIndex = 0,
      PSK = put (zeros 64) 0 (ascii ''123456789'' @ [0]), WscEn = 0, ConTryTimes = 0, WmmEn = 0\<rparr>"

definition default_ip :: IP_CFG where
  "default_ip = \<lparr>Ip = [10, 10, 100, 254], Netmask = [255, 255, 255, 0], IpGateWay = [10, 10, 100, 254],
     Dns = [10, 10, 100, 254], bDhcp = 1, DhcpTryTimes = 0\<rparr>"

definition InfLoadDefaultParam :: "sys \<Rightarrow> sys" where
  "InfLoadDefaultParam s =
     s\<lparr>cfg := \<lparr>WiFiCfg = default_wifi (PermanentAddress s), IPCfg = default_ip, bDhcpServer = 1, bDnsServer = 1,
               DnsName = put (zeros 33) 0 (ascii ''local.nufront'' @ [0])\<rparr>\<rparr>"

definition InfConfigQuery :: "bool \<Rightarrow> sys \<Rightarrow> int \<times> CFG_PARAM option" where
  "InfConfigQuery pParam s = (if \<not> pParam then (-1, None) else (0, Some (cfg s)))"

definition InfNetModeSet :: "u32 \<Rightarrow> sys \<Rightarrow> int \<times> sys" where
  "InfNetModeSet Mode s =
     (if PARAM_NET_MODE_MAX \<le> (ucast Mode :: u8) then (-1, s)
      else (0, upd_wifi (\<lambda>w. w\<lparr>Protocol := ucast Mode\<rparr>) s))"

definition InfPhyModeSet :: "u32 \<Rightarrow> sys \<Rightarrow> int \<times> sys" where
  "InfPhyModeSet Mode s =
     (if PARAM_PHY_MODE_MAX \<le> (ucast Mode :: u8) then (-1, s)
      else (0, upd_wifi (\<lambda>w. w\<lparr>PhyMode := ucast Mode\<rparr>) s))"

definition InfSsidSet :: "bytes option \<Rightarrow> u8 \<Rightarrow> sys \<Rightarrow> (int \<times> sys) option" where
  "InfSsidSet pSsid SsidLen s =
     (case pSsid of
        None \<Rightarrow> Some (-1, upd_wifi (\<lambda>w. w\<lparr>Ssid := (Ssid w)[0 := 0]\<rparr>) s)
      | Some b \<Rightarrow>
          if SsidLen > 32 \<or> SsidLen = 0 then Some (-1, upd_wifi (\<lambda>w. w\<lparr>Ssid := (Ssid w)[0 := 0]\<rparr>) s)
          else do {
            d \<leftarrow> rd_seg b 0 (unat SsidLen);
            Some (0, upd_wifi (\<lambda>w. w\<lparr>Ssid := (put (Ssid w) 0 d)[unat SsidLen := 0]\<rparr>) s)
          })"

definition InfSsidBrdcastSet :: "u8 \<Rightarrow> sys \<Rightarrow> int \<times> sys" where
  "InfSsidBrdcastSet En s = (0, upd_wifi (\<lambda>w. w\<lparr>SSIDBrdEnable := if En \<noteq> 0 then 1 else 0\<rparr>) s)"

definition InfChannelSet :: "u8 \<Rightarrow> sys \<Rightarrow> int \<times> sys" where
  "InfChannelSet Ch s = (if Ch < 1 \<or> Ch > 13 then (-1, s) else (0, upd_wifi (\<lambda>w. w\<lparr>Channel := Ch\<rparr>) s))"

definition InfEncModeSet :: "u32 \<Rightarrow> sys \<Rightarrow> int \<times> sys" where
  "InfEncModeSet EncMode s =
     (if PARAM_ENC_MODE_MAX \<le> (ucast EncMode :: u8) then (-1, s)
      else (0, upd_wifi (\<lambda>w. w\<lparr>Encry := ucast EncMode\<rparr>) s))"

definition InfAuthModeSet :: "u32 \<Rightarrow> sys \<Rightarrow> int \<times> sys" where
  "InfAuthModeSet Mode s =
     (if PARAM_AUTH_MODE_MAX \<le> (ucast Mode :: u8) then (-1, s)
      else (0, upd_wifi (\<lambda>w. w\<lparr>AuthMode := ucast Mode\<rparr>) s))"

definition InfKeySet :: "u8 \<Rightarrow> bytes option \<Rightarrow> u8 \<Rightarrow> sys \<Rightarrow> (int \<times> sys) option" where
  "InfKeySet Index KeyBuf KeyLen s =
     (case KeyBuf of
        None \<Rightarrow> Some (-1, s)
      | Some b \<Rightarrow>
          if Index > 3 \<or> KeyLen > 64 then Some (-1, s)
          else do {
            d \<leftarrow> rd_seg b 0 (unat KeyLen);
            Some (0, upd_wifi (\<lambda>w. w\<lparr>KeyIndex := Index, KeyLength := KeyLen,
                PSK := (let p = put (PSK w) 0 d in if KeyLen < 64 then p[unat KeyLen := 0] else p)\<rparr>) s)
          })"

definition InfConTryTimesSet :: "u8 \<Rightarrow> sys \<Rightarrow> int \<times> sys" where
  "InfConTryTimesSet TryTimes s = (0, upd_wifi (\<lambda>w. w\<lparr>ConTryTimes := TryTimes\<rparr>) s)"

definition InfWmmEnableSet :: "u8 \<Rightarrow> sys \<Rightarrow> int \<times> sys" where
  "InfWmmEnableSet En s = (0, upd_wifi (\<lambda>w. w\<lparr>WmmEn := En\<rparr>) s)"

definition InfIpSet :: "IP_CFG option \<Rightarrow> sys \<Rightarrow> int \<times> sys" where
  "InfIpSet IpParam s =
     (case IpParam of None \<Rightarrow> (-1, s) | Some p \<Rightarrow> (0, s\<lparr>cfg := (cfg s)\<lparr>IPCfg := p\<rparr>\<rparr>))"

definition InfDhcpSrvSet :: "u8 \<Rightarrow> sys \<Rightarrow> int \<times> sys" where
  "InfDhcpSrvSet En s = (0, s\<lparr>cfg := (cfg s)\<lparr>bDhcpServer := if En \<noteq> 0 then 1 else 0\<rparr>\<rparr>)"

definition InfDnsSrvSet :: "u8 \<Rightarrow> bytes option \<Rightarrow> u8 \<Rightarrow> sys \<Rightarrow> (int \<times> sys) option" where
  "InfDnsSrvSet En Name DnsNameLen s =
     (if En \<noteq> 0 then
        (case Name of
           None \<Rightarrow> Some (-1, s)
         | Some b \<Rightarrow>
             if DnsNameLen > 32 then Some (-1, s)
             else do {
               d \<leftarrow> rd_seg b 0 (unat DnsNameLen);
               Some (0, s\<lparr>cfg := (cfg s)\<lparr>bDnsServer := 1, DnsName := put (DnsName (cfg s)) 0 d\<rparr>\<rparr>)
             })
      else Some (0, s\<lparr>cfg := (cfg s)\<lparr>bDnsServer := 0\<rparr>\<rparr>))"

definition InfMacAddrSet :: "bytes option \<Rightarrow> sys \<Rightarrow> (int \<times> sys) option" where
  "InfMacAddrSet Addr s =
     (case Addr of
        None \<Rightarrow> Some (-1, s)
      | Some b \<Rightarrow> do { d \<leftarrow> rd_seg b 0 6; Some (0, s\<lparr>PermanentAddress := d\<rparr>) })"

definition InfSysEvtCBSet :: "bool \<Rightarrow> sys \<Rightarrow> int \<times> sys" where
  "InfSysEvtCBSet pFuncCb s = (if \<not> pFuncCb then (-1, s) else (0, s\<lparr>SysEvtCB := True\<rparr>))"

section \<open>Control\<close>

text \<open>Pointers put into a message are the \<open>u32\<close> addresses; 0 is \<open>NULL\<close>.\<close>

definition InfWiFiStart :: "sys \<Rightarrow> int \<times> sys" where
  "InfWiFiStart s = (0, PostTaskMsg MLME_START_ID [] s)"

definition InfWiFiStop :: "sys \<Rightarrow> int \<times> sys" where
  "InfWiFiStop s = (0, PostTaskMsg MLME_STOP_ID [] s)"

text \<open>\<open>InfoCount\<close> is the field the table at \<open>pScanTable\<close> holds.\<close>

definition InfScanStart :: "u32 \<Rightarrow> u8 \<Rightarrow> u8 \<Rightarrow> u8 \<Rightarrow> sys \<Rightarrow> int \<times> sys" where
  "InfScanStart pScanTable InfoCount MinRssiFilter ScanType s =
     (if pScanTable = 0 \<or> InfoCount = 0 then (-1, s)
      else (let r = (if sint MinRssiFilter > 0 then 0 else MinRssiFilter)
            in (0, PostTaskMsg MLME_SCAN_REQUEST_ID (le32 pScanTable @ [r, ScanType]) s)))"

definition InfTxRateSet :: "u32 \<Rightarrow> u32 \<Rightarrow> sys \<Rightarrow> int \<times> sys" where
  "InfTxRateSet RateMode RateIdx s =
     (let reject = (if RateMode = 0 then RateIdx > 4
                    else if RateMode = 1 \<or> RateMode = 2 then RateIdx > 8
                    else True)
      in if reject then (-1, s)
         else (0, PostTaskMsg MLME_TX_RATE_SET_ID [ucast RateMode, ucast RateIdx] s))"

definition InfTxPwrLevelSet :: "u32 \<Rightarrow> sys \<Rightarrow> int \<times> sys" where
  "InfTxPwrLevelSet TxPwrLevel s =
     (if TxPwrLevel > 9 then (-1, s) else (0, PostTaskMsg MLME_TX_PWR_LEVEL_SET_ID [ucast TxPwrLevel] s))"

definition InfPowerSaveSet :: "u8 \<Rightarrow> sys \<Rightarrow> int \<times> sys" where
  "InfPowerSaveSet PowerSaveMode s =
     (if PowerSaveMode > 3 then (-1, s) else (0, PostTaskMsg MLME_PS_MODE_SET_ID [PowerSaveMode] s))"

definition WAKEUP_MODE_32K_TIMER :: u32 where "WAKEUP_MODE_32K_TIMER = 0x80000000"

definition InfDeepSleepSet :: "u32 \<Rightarrow> sys \<Rightarrow> int \<times> sys" where
  "InfDeepSleepSet WakeUpMode s =
     (if WakeUpMode > 0 \<and> WakeUpMode AND WAKEUP_MODE_32K_TIMER = 0 then (-1, s)
      else (0, PostTaskMsg MLME_DEEP_SLEEP_SET_ID (le32 WakeUpMode) s))"

text \<open>\<open>MlmeGetRssi\<close> and \<open>MlmeGetCurCh\<close> are in the MAC library: parameters.\<close>

definition InfPeerRssiGet :: "(bytes \<Rightarrow> u8) \<Rightarrow> bytes option \<Rightarrow> u8" where
  "InfPeerRssiGet MlmeGetRssi pMacAddr = (case pMacAddr of None \<Rightarrow> 0 | Some m \<Rightarrow> MlmeGetRssi m)"

definition InfCurChGet :: "u8 \<Rightarrow> u8" where
  "InfCurChGet MlmeGetCurCh = MlmeGetCurCh"

definition InfEfuseInfoGet :: "(u8 \<Rightarrow> u8 \<Rightarrow> bytes) \<Rightarrow> u8 \<Rightarrow> u8 \<Rightarrow> bool \<Rightarrow> int \<times> bytes" where
  "InfEfuseInfoGet BSP_EfuseRead Offset Cnt pEfuseInfo =
     (if \<not> pEfuseInfo \<or> Offset > 7 then (-1, []) else (0, BSP_EfuseRead Offset Cnt))"

definition InfBeaconPeriodSet :: "u16 \<Rightarrow> u8 \<Rightarrow> sys \<Rightarrow> int \<times> sys" where
  "InfBeaconPeriodSet BcnPrd NotifyPeerEn s =
     (0, PostTaskMsg MLME_BCN_PRD_SET_ID (le16 BcnPrd @ [NotifyPeerEn]) s)"

definition InfListenIntervalSet :: "u8 \<Rightarrow> u8 \<Rightarrow> sys \<Rightarrow> int \<times> sys" where
  "InfListenIntervalSet ListenIntv ListenDtim s =
     (if ListenIntv = 0 then (-1, s)
      else (0, PostTaskMsg MLME_LISTEN_INTVL_SET_ID [ListenIntv, ListenDtim] s))"

definition InfDirectCfgStart :: "u8 \<Rightarrow> u8 \<Rightarrow> u32 \<Rightarrow> sys \<Rightarrow> int \<times> sys" where
  "InfDirectCfgStart MinRssiFilter TryPeerNum pCustomStr s =
     (0, PostTaskMsg MLME_DIRECT_CFG_ID
           ([MinRssiFilter, TryPeerNum] @ (if pCustomStr \<noteq> 0 then le32 pCustomStr else zeros 4)) s)"

definition InfSnifferStart :: "u32 \<Rightarrow> bytes \<Rightarrow> u8 \<Rightarrow> sys \<Rightarrow> (int \<times> sys) option" where
  "InfSnifferStart pFuncCb BindBssid Ch s =
     do {
       b \<leftarrow> rd_seg BindBssid 0 6;
       Some (0, PostTaskMsg MLME_SNIFFER_START_ID (le32 pFuncCb @ b @ [Ch]) s)
     }"

definition InfPeerAgeOutSet :: "u32 \<Rightarrow> sys \<Rightarrow> int \<times> sys" where
  "InfPeerAgeOutSet Tm s = (0, PostTaskMsg MLME_PEER_AGE_OUT_SET_ID (le32 Tm) s)"

definition InfPeerKickOut :: "bytes option \<Rightarrow> sys \<Rightarrow> (int \<times> sys) option" where
  "InfPeerKickOut pMacAddr s =
     (case pMacAddr of
        None \<Rightarrow> Some (-1, s)
      | Some m \<Rightarrow> do { b \<leftarrow> rd_seg m 0 6; Some (0, PostTaskMsg MLME_PEER_KICK_OUT_ID b s) })"

definition InfProtectModeSet :: "u32 \<Rightarrow> sys \<Rightarrow> int \<times> sys" where
  "InfProtectModeSet Mode s =
     (if Mode > 2 then (-1, s) else (0, PostTaskMsg MLME_PROTECT_MODE_SET_ID [ucast Mode] s))"

definition InfVendorIESet :: "u32 \<Rightarrow> u8 \<Rightarrow> sys \<Rightarrow> int \<times> sys" where
  "InfVendorIESet pIePtr IeLen s = (0, PostTaskMsg MLME_VENDOR_IE_SET_ID (le32 pIePtr @ [IeLen]) s)"

text \<open>Ticks of a 32768 Hz counter, converted to milliseconds without the wide product.\<close>

definition InfSysTimeGet :: "nat \<Rightarrow> nat" where
  "InfSysTimeGet Ticks = Ticks div 1024 * 125 + Ticks mod 1024 * 125 div 1024"

section \<open>System events\<close>

datatype sys_msg = SYS_LINK_UP_ID | SYS_LINK_DOWN_ID | SYS_STA_JOIN_FAIL_ID | SYS_DHCP_TIMEOUT_ID
  | SYS_SCAN_DONE_ID | SYS_DIRECT_CFG_DONE_ID | SYS_OTHER_ID

datatype SYS_EVT_ID = SYS_EVT_LINK_DOWN | SYS_EVT_LINK_UP | SYS_EVT_JOIN_FAIL | SYS_EVT_DHCP_FAIL
  | SYS_EVT_SCAN_DONE | SYS_EVT_DIRECT_CFG_DONE

datatype sys_action = L2LinkUp | L2LinkDown | Callback SYS_EVT_ID

definition call_back :: "sys \<Rightarrow> SYS_EVT_ID \<Rightarrow> sys_action list" where
  "call_back s ev = (if SysEvtCB s then [Callback ev] else [])"

text \<open>\<open>link_up\<close> is the result of \<open>L2LinkUp\<close>.\<close>

definition DefaultProc :: "sys \<Rightarrow> int \<Rightarrow> sys_msg option \<Rightarrow> sys_action list" where
  "DefaultProc s link_up msg =
     (case msg of
        None \<Rightarrow> []
      | Some SYS_LINK_UP_ID \<Rightarrow> [L2LinkUp] @ (if link_up \<noteq> 0 then [] else call_back s SYS_EVT_LINK_UP)
      | Some SYS_LINK_DOWN_ID \<Rightarrow> [L2LinkDown] @ call_back s SYS_EVT_LINK_DOWN
      | Some SYS_STA_JOIN_FAIL_ID \<Rightarrow> call_back s SYS_EVT_JOIN_FAIL
      | Some SYS_DHCP_TIMEOUT_ID \<Rightarrow> call_back s SYS_EVT_DHCP_FAIL
      | Some SYS_SCAN_DONE_ID \<Rightarrow> call_back s SYS_EVT_SCAN_DONE
      | Some SYS_DIRECT_CFG_DONE_ID \<Rightarrow> call_back s SYS_EVT_DIRECT_CFG_DONE
      | Some SYS_OTHER_ID \<Rightarrow> [])"

text \<open>
  The management task: each attempt to fetch a message gives nothing (an error, retried), or a
  message pointer, which is handled and, if it is not null, freed.
\<close>

fun SysMgmtMain :: "sys \<Rightarrow> (int \<times> sys_msg option) option list \<Rightarrow> sys_action list \<times> nat" where
  "SysMgmtMain s [] = ([], 0)"
| "SysMgmtMain s (None # ms) = SysMgmtMain s ms"
| "SysMgmtMain s (Some (link_up, None) # ms) = SysMgmtMain s ms"
| "SysMgmtMain s (Some (link_up, Some m) # ms) =
     (case SysMgmtMain s ms of (acts, freed) \<Rightarrow> (DefaultProc s link_up (Some m) @ acts, freed + 1))"

section \<open>Commands\<close>

datatype cmd = NetMode u32 | PhyModeC u32 | SsidC "bytes option" u8 | Brdcast u8 | ChannelC u8 | EncMode u32
  | AuthModeC u32 | KeyC u8 "bytes option" u8 | TryTimes u8 | Wmm u8 | IpC "IP_CFG option" | DhcpSrv u8
  | DnsSrv u8 "bytes option" u8 | MacAddrC "bytes option" | EvtCB bool | Start | Stop | Scan u32 u8 u8 u8
  | TxRate u32 u32 | TxPwr u32 | PowerSave u8 | DeepSleep u32 | BeaconPeriod u16 u8 | ListenInterval u8 u8
  | DirectCfg u8 u8 u32 | Sniffer u32 bytes u8 | AgeOut u32 | KickOut "bytes option" | Protect u32 | VendorIE u32 u8

fun run_cmd :: "cmd \<Rightarrow> sys \<Rightarrow> (int \<times> sys) option" where
  "run_cmd (NetMode m) s = Some (InfNetModeSet m s)"
| "run_cmd (PhyModeC m) s = Some (InfPhyModeSet m s)"
| "run_cmd (SsidC p n) s = InfSsidSet p n s"
| "run_cmd (Brdcast e) s = Some (InfSsidBrdcastSet e s)"
| "run_cmd (ChannelC c) s = Some (InfChannelSet c s)"
| "run_cmd (EncMode m) s = Some (InfEncModeSet m s)"
| "run_cmd (AuthModeC m) s = Some (InfAuthModeSet m s)"
| "run_cmd (KeyC i p n) s = InfKeySet i p n s"
| "run_cmd (TryTimes t) s = Some (InfConTryTimesSet t s)"
| "run_cmd (Wmm e) s = Some (InfWmmEnableSet e s)"
| "run_cmd (IpC p) s = Some (InfIpSet p s)"
| "run_cmd (DhcpSrv e) s = Some (InfDhcpSrvSet e s)"
| "run_cmd (DnsSrv e p n) s = InfDnsSrvSet e p n s"
| "run_cmd (MacAddrC p) s = InfMacAddrSet p s"
| "run_cmd (EvtCB p) s = Some (InfSysEvtCBSet p s)"
| "run_cmd Start s = Some (InfWiFiStart s)"
| "run_cmd Stop s = Some (InfWiFiStop s)"
| "run_cmd (Scan p n r t) s = Some (InfScanStart p n r t s)"
| "run_cmd (TxRate m i) s = Some (InfTxRateSet m i s)"
| "run_cmd (TxPwr l) s = Some (InfTxPwrLevelSet l s)"
| "run_cmd (PowerSave m) s = Some (InfPowerSaveSet m s)"
| "run_cmd (DeepSleep m) s = Some (InfDeepSleepSet m s)"
| "run_cmd (BeaconPeriod p n) s = Some (InfBeaconPeriodSet p n s)"
| "run_cmd (ListenInterval i d) s = Some (InfListenIntervalSet i d s)"
| "run_cmd (DirectCfg r n p) s = Some (InfDirectCfgStart r n p s)"
| "run_cmd (Sniffer f b c) s = InfSnifferStart f b c s"
| "run_cmd (AgeOut t) s = Some (InfPeerAgeOutSet t s)"
| "run_cmd (KickOut p) s = InfPeerKickOut p s"
| "run_cmd (Protect m) s = Some (InfProtectModeSet m s)"
| "run_cmd (VendorIE p n) s = Some (InfVendorIESet p n s)"

section \<open>The configuration invariant\<close>

definition wifi_ok :: "WIFI_CFG \<Rightarrow> bool" where
  "wifi_ok w \<longleftrightarrow> length (Ssid w) = 33 \<and> 0 \<in> set (Ssid w) \<and> length (PSK w) = 64 \<and> KeyLength w \<le> 64 \<and>
     KeyIndex w \<le> 3 \<and> 1 \<le> Channel w \<and> Channel w \<le> 13 \<and> Encry w < PARAM_ENC_MODE_MAX \<and>
     AuthMode w < PARAM_AUTH_MODE_MAX \<and> Protocol w < PARAM_NET_MODE_MAX \<and> PhyMode w < PARAM_PHY_MODE_MAX \<and>
     SSIDBrdEnable w \<le> 1"

definition cfg_ok :: "CFG_PARAM \<Rightarrow> bool" where
  "cfg_ok c \<longleftrightarrow> wifi_ok (WiFiCfg c) \<and> bDhcpServer c \<le> 1 \<and> bDnsServer c \<le> 1 \<and>
     length (DnsName c) = 33 \<and> DnsName c ! 32 = 0"

text \<open>The size and the ranges the MAC task expects of each message.\<close>

fun msg_ok :: "mlme_id \<times> bytes \<Rightarrow> bool" where
  "msg_ok (MLME_START_ID, b) = (b = [])"
| "msg_ok (MLME_STOP_ID, b) = (b = [])"
| "msg_ok (MLME_SCAN_REQUEST_ID, b) = (length b = 6 \<and> sint (b ! 4) \<le> 0)"
| "msg_ok (MLME_TX_RATE_SET_ID, b) = (length b = 2 \<and> b ! 0 \<le> 2 \<and> b ! 1 \<le> 8)"
| "msg_ok (MLME_TX_PWR_LEVEL_SET_ID, b) = (length b = 1 \<and> b ! 0 \<le> 9)"
| "msg_ok (MLME_PS_MODE_SET_ID, b) = (length b = 1 \<and> b ! 0 \<le> 3)"
| "msg_ok (MLME_DEEP_SLEEP_SET_ID, b) = (length b = 4)"
| "msg_ok (MLME_BCN_PRD_SET_ID, b) = (length b = 3)"
| "msg_ok (MLME_LISTEN_INTVL_SET_ID, b) = (length b = 2 \<and> b ! 0 \<noteq> 0)"
| "msg_ok (MLME_DIRECT_CFG_ID, b) = (length b = 6)"
| "msg_ok (MLME_SNIFFER_START_ID, b) = (length b = 11)"
| "msg_ok (MLME_PEER_AGE_OUT_SET_ID, b) = (length b = 4)"
| "msg_ok (MLME_PEER_KICK_OUT_ID, b) = (length b = 6)"
| "msg_ok (MLME_PROTECT_MODE_SET_ID, b) = (length b = 1 \<and> b ! 0 \<le> 2)"
| "msg_ok (MLME_VENDOR_IE_SET_ID, b) = (length b = 5)"

definition sys_ok :: "sys \<Rightarrow> bool" where
  "sys_ok s \<longleftrightarrow> cfg_ok (cfg s) \<and> length (PermanentAddress s) = 6 \<and> list_all msg_ok (posted s)"

text \<open>The caller's obligation: a buffer is at least as long as the length passed with it.\<close>

fun cmd_ok :: "cmd \<Rightarrow> bool" where
  "cmd_ok (SsidC (Some b) n) = (unat n \<le> length b)"
| "cmd_ok (KeyC i (Some b) n) = (unat n \<le> length b)"
| "cmd_ok (DnsSrv e (Some b) n) = (unat n \<le> length b)"
| "cmd_ok (MacAddrC (Some b)) = (6 \<le> length b)"
| "cmd_ok (Sniffer f b c) = (6 \<le> length b)"
| "cmd_ok (KickOut (Some b)) = (6 \<le> length b)"
| "cmd_ok _ = True"

definition cmd_step :: "cmd \<Rightarrow> sys option \<Rightarrow> sys option" where
  "cmd_step c so = Option.bind so (\<lambda>s. map_option snd (run_cmd c s))"

lemma sys_ok_upd_wifi: "sys_ok s \<Longrightarrow> wifi_ok (f (WiFiCfg (cfg s))) \<Longrightarrow> sys_ok (upd_wifi f s)"
  by (simp add: sys_ok_def upd_wifi_def cfg_ok_def)

lemma sys_ok_wifi: "sys_ok s \<Longrightarrow> wifi_ok (WiFiCfg (cfg s))"
  by (simp add: sys_ok_def cfg_ok_def)

lemma sys_ok_post: "sys_ok s \<Longrightarrow> msg_ok (i, b) \<Longrightarrow> sys_ok (PostTaskMsg i b s)"
  by (simp add: sys_ok_def PostTaskMsg_def)

lemma ucast_le_nat: "unat (ucast (x :: u32) :: u8) \<le> unat x"
  by (simp add: unsigned_ucast_eq take_bit_nat_less_eq_self)

lemma ucast_le: "x \<le> of_nat n \<Longrightarrow> n < 256 \<Longrightarrow> (ucast (x :: u32) :: u8) \<le> of_nat n"
proof -
  assume x: "x \<le> of_nat n" and n: "n < 256"
  have "unat x \<le> n" using x n unat_of_nat32[of n] by (simp add: word_le_nat_alt)
  then have "unat (ucast x :: u8) \<le> n" using ucast_le_nat[of x] by simp
  then show ?thesis using n unat_of_nat8[of n] by (simp add: word_le_nat_alt)
qed

lemma unat_le_of: "(k :: u8) \<le> of_nat n \<Longrightarrow> n < 256 \<Longrightarrow> unat k \<le> n"
  using unat_of_nat8[of n] by (simp add: word_le_nat_alt)

lemma one_le_u8: "(1 :: u8) \<le> e \<longleftrightarrow> e \<noteq> 0"
  by (simp add: word_le_nat_alt Suc_le_eq unat_gt_0)

lemma nul_at: "i < length b \<Longrightarrow> 0 \<in> set (b[i := 0])"
  by (rule set_update_memI)

lemma length_rd_segD: "rd_seg b 0 n = Some d \<Longrightarrow> d = take n b \<and> n \<le> length b"
  by (auto simp: rd_seg_def split: if_splits)

lemmas set_defs = InfNetModeSet_def InfPhyModeSet_def InfSsidBrdcastSet_def InfChannelSet_def InfEncModeSet_def
  InfAuthModeSet_def InfConTryTimesSet_def InfWmmEnableSet_def InfIpSet_def InfDhcpSrvSet_def InfSysEvtCBSet_def

lemmas post_defs = InfWiFiStart_def InfWiFiStop_def InfScanStart_def InfTxRateSet_def InfTxPwrLevelSet_def
  InfPowerSaveSet_def InfDeepSleepSet_def InfBeaconPeriodSet_def InfListenIntervalSet_def InfDirectCfgStart_def
  InfPeerAgeOutSet_def InfProtectModeSet_def InfVendorIESet_def

lemma InfSsidSet_ok:
  assumes "sys_ok s" and "cmd_ok (SsidC p n)"
  shows "\<exists>r s'. InfSsidSet p n s = Some (r, s') \<and> sys_ok s'"
proof -
  have w: "wifi_ok (WiFiCfg (cfg s))" using assms(1) by (rule sys_ok_wifi)
  have clr: "sys_ok (upd_wifi (\<lambda>w. w\<lparr>Ssid := (Ssid w)[0 := 0]\<rparr>) s)"
    using w nul_at[of 0 "Ssid (WiFiCfg (cfg s))"] by (intro sys_ok_upd_wifi assms) (auto simp: wifi_ok_def)
  show ?thesis
  proof (cases p)
    case None
    with clr show ?thesis by (auto simp: InfSsidSet_def)
  next
    case (Some b)
    show ?thesis
    proof (cases "n > 32 \<or> n = 0")
      case True
      with clr Some show ?thesis by (auto simp: InfSsidSet_def)
    next
      case False
      then have n: "unat n \<le> 32" using unat_le_of[of n 32] by (auto simp: not_less)
      have d: "rd_seg b 0 (unat n) = Some (take (unat n) b)" "unat n \<le> length b"
        using assms(2) Some by (auto simp: rd_seg_def)
      have "sys_ok (upd_wifi (\<lambda>w. w\<lparr>Ssid := (put (Ssid w) 0 (take (unat n) b))[unat n := 0]\<rparr>) s)"
        using w n d(2) nul_at[of "unat n" "put (Ssid (WiFiCfg (cfg s))) 0 (take (unat n) b)"]
        by (intro sys_ok_upd_wifi assms) (auto simp: wifi_ok_def)
      with False Some d show ?thesis by (simp add: InfSsidSet_def)
    qed
  qed
qed

lemma InfKeySet_ok:
  assumes "sys_ok s" and "cmd_ok (KeyC i p n)"
  shows "\<exists>r s'. InfKeySet i p n s = Some (r, s') \<and> sys_ok s'"
proof (cases "p = None \<or> i > 3 \<or> n > 64")
  case True
  with assms show ?thesis by (auto simp: InfKeySet_def split: option.splits)
next
  case False
  then obtain b where p: "p = Some b" by auto
  have n: "unat n \<le> 64" "n \<le> 64" "i \<le> 3" using False unat_le_of[of n 64] by auto
  have d: "rd_seg b 0 (unat n) = Some (take (unat n) b)" "unat n \<le> length b"
    using assms(2) p by (auto simp: rd_seg_def)
  have "wifi_ok (WiFiCfg (cfg s))" using assms(1) by (rule sys_ok_wifi)
  with n d(2) have "sys_ok (upd_wifi (\<lambda>w. w\<lparr>KeyIndex := i, KeyLength := n,
      PSK := (let q = put (PSK w) 0 (take (unat n) b) in if n < 64 then q[unat n := 0] else q)\<rparr>) s)"
    by (intro sys_ok_upd_wifi assms) (auto simp: wifi_ok_def Let_def)
  with False p d show ?thesis by (auto simp: InfKeySet_def)
qed

lemma InfDnsSrvSet_ok:
  assumes "sys_ok s" and "cmd_ok (DnsSrv e p n)"
  shows "\<exists>r s'. InfDnsSrvSet e p n s = Some (r, s') \<and> sys_ok s'"
proof (cases "e = 0 \<or> p = None \<or> n > 32")
  case True
  with assms show ?thesis by (auto simp: InfDnsSrvSet_def sys_ok_def cfg_ok_def split: option.splits)
next
  case False
  then obtain b where p: "p = Some b" by auto
  have n: "unat n \<le> 32" using False unat_le_of[of n 32] by auto
  have d: "rd_seg b 0 (unat n) = Some (take (unat n) b)" "unat n \<le> length b"
    using assms(2) p by (auto simp: rd_seg_def)
  have "length (DnsName (cfg s)) = 33" "DnsName (cfg s) ! 32 = 0" using assms(1) by (auto simp: sys_ok_def cfg_ok_def)
  then have "put (DnsName (cfg s)) 0 (take (unat n) b) ! 32 = 0" "length (put (DnsName (cfg s)) 0 (take (unat n) b)) = 33"
    using n d(2) by (auto simp: nth_put)
  with False p d assms(1) show ?thesis by (auto simp: InfDnsSrvSet_def sys_ok_def cfg_ok_def)
qed

lemma run_cmd_set_ok:
  assumes "sys_ok s"
  shows "sys_ok (snd (InfNetModeSet m s))" "sys_ok (snd (InfPhyModeSet m s))" "sys_ok (snd (InfSsidBrdcastSet e s))"
    "sys_ok (snd (InfChannelSet e s))" "sys_ok (snd (InfEncModeSet m s))" "sys_ok (snd (InfAuthModeSet m s))"
    "sys_ok (snd (InfConTryTimesSet e s))" "sys_ok (snd (InfWmmEnableSet e s))" "sys_ok (snd (InfIpSet p s))"
    "sys_ok (snd (InfDhcpSrvSet e s))" "sys_ok (snd (InfSysEvtCBSet q s))"
  using assms sys_ok_wifi[OF assms]
  by (auto simp: set_defs not_le not_less wifi_ok_def one_le_u8 intro!: sys_ok_upd_wifi split: option.splits)
    (auto simp: sys_ok_def cfg_ok_def)

lemma run_cmd_post_ok:
  assumes "sys_ok s"
  shows "sys_ok (snd (InfWiFiStart s))" "sys_ok (snd (InfWiFiStop s))" "sys_ok (snd (InfScanStart a n r t s))"
    "sys_ok (snd (InfTxRateSet m i s))" "sys_ok (snd (InfTxPwrLevelSet m s))" "sys_ok (snd (InfPowerSaveSet n s))"
    "sys_ok (snd (InfDeepSleepSet m s))" "sys_ok (snd (InfBeaconPeriodSet w n s))"
    "sys_ok (snd (InfListenIntervalSet n r s))" "sys_ok (snd (InfDirectCfgStart n r m s))"
    "sys_ok (snd (InfPeerAgeOutSet m s))" "sys_ok (snd (InfProtectModeSet m s))" "sys_ok (snd (InfVendorIESet m n s))"
  using assms ucast_le[of m 2] ucast_le[of i 4] ucast_le[of i 8] ucast_le[of m 9] order_trans[of i 4 8]
  by (auto simp: post_defs nth_append Let_def not_less intro!: sys_ok_post split: if_splits elim: order_trans)

lemma run_cmd_ptr_ok:
  assumes "sys_ok s"
  shows "cmd_ok (MacAddrC p) \<Longrightarrow> \<exists>r s'. InfMacAddrSet p s = Some (r, s') \<and> sys_ok s'"
    "cmd_ok (KickOut p) \<Longrightarrow> \<exists>r s'. InfPeerKickOut p s = Some (r, s') \<and> sys_ok s'"
    "cmd_ok (Sniffer f b c) \<Longrightarrow> \<exists>r s'. InfSnifferStart f b c s = Some (r, s') \<and> sys_ok s'"
proof -
  show "\<exists>r s'. InfMacAddrSet p s = Some (r, s') \<and> sys_ok s'" if "cmd_ok (MacAddrC p)"
    using that assms by (cases p) (auto simp: InfMacAddrSet_def rd_seg_def sys_ok_def)
  show "\<exists>r s'. InfPeerKickOut p s = Some (r, s') \<and> sys_ok s'" if "cmd_ok (KickOut p)"
    using that assms by (cases p) (auto simp: InfPeerKickOut_def rd_seg_def intro!: sys_ok_post)
  show "\<exists>r s'. InfSnifferStart f b c s = Some (r, s') \<and> sys_ok s'" if "cmd_ok (Sniffer f b c)"
    using that assms by (auto simp: InfSnifferStart_def rd_seg_def intro!: sys_ok_post)
qed

lemma run_cmd_ok:
  assumes s: "sys_ok s" and c: "cmd_ok c"
  shows "\<exists>r s'. run_cmd c s = Some (r, s') \<and> sys_ok s'"
proof -
  have pair: "\<exists>r s'. Some x = Some (r, s') \<and> sys_ok s'" if "sys_ok (snd x)" for x :: "int \<times> sys"
    using that by (cases x) simp
  show ?thesis
  proof (cases c)
    case (SsidC p n) then show ?thesis using InfSsidSet_ok[OF s] c by simp
  next
    case (KeyC i p n) then show ?thesis using InfKeySet_ok[OF s] c by simp
  next
    case (DnsSrv e p n) then show ?thesis using InfDnsSrvSet_ok[OF s] c by simp
  next
    case (MacAddrC p) then show ?thesis using run_cmd_ptr_ok(1)[OF s] c by simp
  next
    case (KickOut p) then show ?thesis using run_cmd_ptr_ok(2)[OF s] c by simp
  next
    case (Sniffer f b ch) then show ?thesis using run_cmd_ptr_ok(3)[OF s] c by simp
  qed (simp_all only: run_cmd.simps, (rule pair, simp only: run_cmd_set_ok[OF s] run_cmd_post_ok[OF s])+)
qed

interpretation sysparam: invariant_machine cmd_step cmd_ok "some_inv sys_ok"
proof unfold_locales
  fix e s
  assume "cmd_ok e" and "some_inv sys_ok s"
  then show "some_inv sys_ok (cmd_step e s)"
    using run_cmd_ok by (fastforce simp: some_inv_def cmd_step_def)
qed

section \<open>Properties\<close>

lemma default_ssid_length: "length (default_ssid mac) = 19"
  by (simp add: default_ssid_def hex02_def)

lemma default_ok:
  assumes "length (PermanentAddress s) = 6" and "list_all msg_ok (posted s)"
  shows "sys_ok (InfLoadDefaultParam s)"
proof -
  have "(put (zeros 33) 0 (ascii ''local.nufront'' @ [0])) ! 32 = 0"
    by (simp add: put_def zeros_def nth_append ascii_def)
  moreover have "0 \<in> set (put (zeros 33) 0 (default_ssid (PermanentAddress s) @ [0]))"
    by (simp add: put_def)
  ultimately show ?thesis
    using assms default_ssid_length[of "PermanentAddress s"]
    by (simp add: sys_ok_def InfLoadDefaultParam_def cfg_ok_def wifi_ok_def default_wifi_def PARAM_ENC_MODE_MAX_def
        PARAM_AUTH_MODE_MAX_def PARAM_NET_MODE_MAX_def PARAM_PHY_MODE_MAX_def)
qed

text \<open>C30 The system configuration is always valid. From the defaults on, whatever sequence of configuration
  and control calls the application makes, with whatever arguments, successful or not, as long as
  a buffer holds the bytes its length says: the arrays keep their sizes, the SSID and the DNS name
  stay terminated, every mode, channel, key index and length stays in its range, and every
  message posted to the MAC task has the size and the ranges that task expects.\<close>

theorem SysParam_always_valid:
  assumes "length (PermanentAddress s) = 6" and "list_all msg_ok (posted s)" and "list_all cmd_ok cs"
  shows "\<exists>s'. fold cmd_step cs (Some (InfLoadDefaultParam s)) = Some s' \<and> sys_ok s'"
proof -
  have "some_inv sys_ok (Some (InfLoadDefaultParam s))" using default_ok[OF assms(1,2)] by (simp add: some_inv_def)
  from sysparam.run_inv[OF assms(3) this] show ?thesis by (simp add: some_inv_def)
qed

definition sys_reset :: sys where
  "sys_reset = InfLoadDefaultParam \<lparr>cfg = \<lparr>WiFiCfg = default_wifi (zeros 6), IPCfg = default_ip, bDhcpServer = 0,
     bDnsServer = 0, DnsName = zeros 33\<rparr>, PermanentAddress = [0xC8, 0x93, 0x46, 1, 2, 0xAB], SysEvtCB = False, posted = []\<rparr>"

theorem SysParam_always_valid_witness:
  "\<exists>s'. fold cmd_step [SsidC (Some [65, 66, 67]) 3, ChannelC 20, KeyC 0 (Some (zeros 64)) 64, TxRate 0 4, SsidC None 0]
     (Some (InfLoadDefaultParam sys_reset)) = Some s' \<and> sys_ok s'"
  by (rule SysParam_always_valid) (simp_all add: sys_reset_def InfLoadDefaultParam_def)

text \<open>A call that is rejected returns -1, posts nothing and leaves the configuration as it was, with one
  exception: \<open>InfSsidSet\<close> then empties the SSID.\<close>

theorem rejected_call_no_effect:
  assumes "run_cmd c s = Some (r, s')" and "r \<noteq> 0"
  shows "r = -1 \<and> (s' = s \<or> (\<exists>p n. c = SsidC p n) \<and> s' = upd_wifi (\<lambda>w. w\<lparr>Ssid := (Ssid w)[0 := 0]\<rparr>) s)"
  using assms
  by (cases c) (auto simp: set_defs post_defs Let_def InfSsidSet_def InfKeySet_def InfDnsSrvSet_def InfMacAddrSet_def
      InfPeerKickOut_def InfSnifferStart_def bind_eq_Some_conv split: if_splits option.splits)

theorem rejected_call_no_effect_witness:
  "run_cmd (ChannelC 14) sys_reset = Some (-1, sys_reset)"
proof -
  obtain r s' where r: "run_cmd (ChannelC 14) sys_reset = Some (r, s')" "r \<noteq> 0" by (auto simp: InfChannelSet_def)
  with rejected_call_no_effect[OF r] show ?thesis by auto
qed

text \<open>What \<open>InfSsidSet\<close> accepts is what the system then uses: the terminated SSID is exactly the bytes
  given.\<close>

theorem InfSsidSet_roundtrip:
  assumes "length b = unat n" and "no_nul b" and "0 < n" and "n \<le> 32" and "length (Ssid (WiFiCfg (cfg s))) = 33"
  shows "\<exists>s'. InfSsidSet (Some b) n s = Some (0, s') \<and> cstr (Ssid (WiFiCfg (cfg s'))) = Some b"
proof -
  have n: "unat n \<le> 32" using assms(4) unat_le_of[of n 32] by simp
  let ?S = "Ssid (WiFiCfg (cfg s))"
  have "(put ?S 0 b)[unat n := 0] = b @ 0 # drop (Suc (unat n)) ?S"
    using assms(1,5) n by (simp add: put_def list_update_append upd_conv_take_nth_drop)
  then have "cstr ((put ?S 0 b)[unat n := 0]) = Some b" using assms(2) by simp
  moreover have "rd_seg b 0 (unat n) = Some b" using assms(1) by (simp add: rd_seg_def)
  ultimately show ?thesis using assms(3,4) by (auto simp: InfSsidSet_def upd_wifi_def not_less)
qed

theorem InfSsidSet_roundtrip_witness:
  "\<exists>s'. InfSsidSet (Some [104, 111, 109, 101]) 4 sys_reset = Some (0, s') \<and>
     cstr (Ssid (WiFiCfg (cfg s'))) = Some [104, 111, 109, 101]"
  by (rule InfSsidSet_roundtrip)
    (simp_all add: no_nul_def sys_reset_def InfLoadDefaultParam_def default_wifi_def default_ssid_def hex02_def)

text \<open>Setting a DNS name shorter than the one before leaves the tail of the old one: the name the server
  answers to is then neither.\<close>

theorem InfDnsSrvSet_stale_tail:
  "map_option (\<lambda>(r, s). (r, cstr (DnsName (cfg s)))) (InfDnsSrvSet 1 (Some (ascii ''ap'')) 2 (InfLoadDefaultParam s)) =
     Some (0, Some (ascii ''apcal.nufront''))"
  by (simp add: InfDnsSrvSet_def InfLoadDefaultParam_def rd_seg_def put_def zeros_def cstr_def ascii_def)

text \<open>The uptime conversion is exact, ticks * 125 / 1024 rounded down, and its intermediate values never
  exceed the tick count or 17 bits, so that it cannot overflow where the wide product would.\<close>

theorem InfSysTimeGet_exact:
  "InfSysTimeGet t = t * 125 div 1024 \<and> t div 1024 * 125 \<le> t \<and> t mod 1024 * 125 < 2 ^ 17"
proof -
  have eq: "t * 125 = t mod 1024 * 125 + t div 1024 * 125 * 1024"
    using mult_div_mod_eq[of 1024 t] by linarith
  have "(t mod 1024 * 125 + t div 1024 * 125 * 1024) div 1024 = t div 1024 * 125 + t mod 1024 * 125 div 1024"
    by (rule div_mult_self1) simp
  then have "InfSysTimeGet t = t * 125 div 1024" unfolding eq InfSysTimeGet_def by (rule sym)
  moreover have "t div 1024 * 125 \<le> t" using mult_div_mod_eq[of 1024 t] by linarith
  moreover have "t mod 1024 * 125 < 2 ^ 17"
    using mod_less_divisor[of 1024 t] by simp
  ultimately show ?thesis by simp
qed

end
