(* ===== verification/Coding.thy ===== *)
theory Coding
  imports StripDevice SysParam
begin

text \<open>
  The encoders of the Gizwits library: base64 (App/GizWitsWifi/lib/base64.c) and the integers, addresses
  and sequence numbers of lib/utilcoding.c. Output buffers are lists with a capacity: writing at the
  capacity is writing past the block that was allocated.
\<close>

section \<open>Base64\<close>

definition base64_table :: bytes where
  "base64_table = ascii ''ABCDEFGHIJKLMNOPQRSTUVWXYZabcdefghijklmnopqrstuvwxyz0123456789+/''"

text \<open>\<open>*pos++ = x\<close>, where \<open>out\<close> is what was written from the start of a block of \<open>cap\<close> bytes.\<close>

definition emit :: "nat \<Rightarrow> u8 \<Rightarrow> bytes \<Rightarrow> bytes option" where
  "emit cap x out = (if length out < cap then Some (out @ [x]) else None)"

fun emits :: "nat \<Rightarrow> bytes \<Rightarrow> bytes \<Rightarrow> bytes option" where
  "emits cap [] out = Some out"
| "emits cap (x # xs) out = do { out \<leftarrow> emit cap x out; emits cap xs out }"

definition sextet :: "u8 \<Rightarrow> u8" where
  "sextet x = base64_table ! unat x"

definition quad :: "u8 \<Rightarrow> u8 \<Rightarrow> u8 \<Rightarrow> bytes" where
  "quad a b c = [sextet (drop_bit 2 a), sextet (push_bit 4 (a AND 0x03) OR drop_bit 4 b),
     sextet (push_bit 2 (b AND 0x0f) OR drop_bit 6 c), sextet (c AND 0x3f)]"

text \<open>The loop over whole groups: rest of the input, length of the last line, output.\<close>

fun encode_groups :: "nat \<Rightarrow> bytes \<Rightarrow> nat \<Rightarrow> bytes \<Rightarrow> (bytes \<times> nat \<times> bytes) option" where
  "encode_groups cap (a # b # c # r) line_len out = do {
     out \<leftarrow> emits cap (quad a b c) out;
     (if 72 \<le> line_len + 4 then do { out \<leftarrow> emit cap 10 out; encode_groups cap r 0 out }
      else encode_groups cap r (line_len + 4) out)
   }"
| "encode_groups cap r line_len out = Some (r, line_len, out)"

definition last_group :: "bytes \<Rightarrow> bytes" where
  "last_group r = (case r of
     [a] \<Rightarrow> [sextet (drop_bit 2 a), sextet (push_bit 4 (a AND 0x03)), 61, 61]
   | [a, b] \<Rightarrow> [sextet (drop_bit 2 a), sextet (push_bit 4 (a AND 0x03) OR drop_bit 4 b), sextet (push_bit 2 (b AND 0x0f)), 61]
   | _ \<Rightarrow> [])"

text \<open>
  The result is \<open>None\<close> for \<open>NULL\<close>, or the string with its terminator and its length. The size is computed
  in \<open>int\<close>, whose overflow is undefined.
\<close>

definition encoded_size :: "nat \<Rightarrow> nat" where
  "encoded_size len = (let olen = len * 4 div 3 + 4 in olen + olen div 72 + 1)"

definition base64_encode :: "bool \<Rightarrow> bytes \<Rightarrow> (bytes \<times> nat) option option" where
  "base64_encode mem src =
     (let cap = encoded_size (length src)
      in if 2 ^ 31 \<le> length src * 4 then None
         else if \<not> mem then Some None
         else do {
           (r, line_len, out) \<leftarrow> encode_groups cap src 0 [];
           out \<leftarrow> emits cap (last_group r) out;
           let line_len = (if r = [] then line_len else line_len + 4);
           out \<leftarrow> (if line_len \<noteq> 0 then emit cap 10 out else Some out);
           z \<leftarrow> emit cap 0 out;
           Some (Some (z, length out))
         })"

definition dtable :: bytes where
  "dtable = (fold (\<lambda>i t. t[unat (base64_table ! i) := of_nat i]) [0..<64] (replicate 256 0x80))[61 := 0]"

text \<open>The decoder keeps the last characters and their values in two arrays of four.\<close>

definition decode_char :: "nat \<Rightarrow> u8 \<Rightarrow> bytes \<times> bytes \<times> nat \<times> bytes \<Rightarrow> (bytes \<times> bytes \<times> nat \<times> bytes) option" where
  "decode_char cap c = (\<lambda>(inp, block, count, out).
     let tmp = dtable ! unat c
     in if tmp = 0x80 then Some (inp, block, count, out)
        else let inp = inp[count := c]; block = block[count := tmp]; count = count + 1
          in if count = 4
             then do {
               out \<leftarrow> emits cap [push_bit 2 (block ! 0) OR drop_bit 4 (block ! 1), push_bit 4 (block ! 1) OR drop_bit 2 (block ! 2),
                 push_bit 6 (block ! 2) OR block ! 3] out;
               Some (inp, block, 0, out)
             }
             else Some (inp, block, count, out))"

fun decode_chars :: "nat \<Rightarrow> bytes \<Rightarrow> bytes \<times> bytes \<times> nat \<times> bytes \<Rightarrow> (bytes \<times> bytes \<times> nat \<times> bytes) option" where
  "decode_chars cap [] s = Some s"
| "decode_chars cap (c # cs) s = do { s \<leftarrow> decode_char cap c s; decode_chars cap cs s }"

definition coded :: "bytes \<Rightarrow> bytes" where
  "coded src = filter (\<lambda>c. dtable ! unat c \<noteq> 0x80) src"

definition base64_decode :: "bool \<Rightarrow> bytes \<Rightarrow> bytes option option" where
  "base64_decode mem src =
     (let count = length (coded src)
      in if count mod 4 \<noteq> 0 then Some None
         else if \<not> mem then Some None
         else do {
           (inp, block, k, out) \<leftarrow> decode_chars count src (zeros 4, zeros 4, 0, []);
           Some (Some (if out = [] then out
             else if inp ! 2 = 61 then take (length out - 2) out
             else if inp ! 3 = 61 then take (length out - 1) out
             else out))
         })"

subsection \<open>Round trip\<close>

lemma base64_table_eval: "base64_table =
    [65, 66, 67, 68, 69, 70, 71, 72, 73, 74, 75, 76, 77, 78, 79, 80, 81, 82, 83, 84, 85, 86, 87, 88, 89, 90, 97, 98, 99, 100,
    101, 102, 103, 104, 105, 106, 107, 108, 109, 110, 111, 112, 113, 114, 115, 116, 117, 118, 119, 120, 121, 122, 48, 49,
    50, 51, 52, 53, 54, 55, 56, 57, 43, 47]"
  by code_simp

lemma dtable_eval: "dtable = replicate 43 0x80 @
   [62, 128, 128, 128, 63, 52, 53, 54, 55, 56, 57, 58, 59, 60, 61, 128, 128, 128, 0, 128, 128, 128, 0, 1, 2, 3, 4, 5, 6, 7,
    8, 9, 10, 11, 12, 13, 14, 15, 16, 17, 18, 19, 20, 21, 22, 23, 24, 25, 128, 128, 128, 128, 128, 128, 26, 27, 28, 29, 30,
    31, 32, 33, 34, 35, 36, 37, 38, 39, 40, 41, 42, 43, 44, 45, 46, 47, 48, 49, 50, 51] @ replicate 133 0x80"
  unfolding dtable_def base64_table_eval by code_simp

lemma dtable_sextet: "n < 64 \<Longrightarrow> dtable ! unat (base64_table ! n) = of_nat n \<and> base64_table ! n \<noteq> 61"
proof -
  have "list_all (\<lambda>n. dtable ! unat (base64_table ! n) = of_nat n \<and> base64_table ! n \<noteq> 61) [0..<64]"
    unfolding dtable_eval base64_table_eval by code_simp
  then show "n < 64 \<Longrightarrow> ?thesis" by (simp add: list_all_iff)
qed

lemma dtable_values [simp]: "dtable ! 61 = 0" "dtable ! 10 = 0x80"
  unfolding dtable_eval by (simp_all add: nth_append)

lemma sextet_value:
  assumes "x < 64"
  shows "dtable ! unat (sextet x) = x" and "sextet x \<noteq> 61" and "dtable ! unat (sextet x) \<noteq> 0x80"
proof -
  have "unat x < 64" using assms by (simp add: word_less_nat_alt)
  from dtable_sextet[OF this] show v: "dtable ! unat (sextet x) = x" and "sextet x \<noteq> 61" by (simp_all add: sextet_def)
  have "x \<noteq> 0x80" using assms by auto
  then show "dtable ! unat (sextet x) \<noteq> 0x80" using v by simp
qed

text \<open>The four values of a group of three bytes are below 64, and the three bytes come back from them.\<close>

lemma below_64: "x AND 0x3f = x \<Longrightarrow> (x :: u8) < 64"
proof -
  assume "x AND 0x3f = x"
  moreover have "x AND 0x3f \<le> 0x3f" by (rule word_and_le1)
  ultimately show ?thesis by (simp add: word_le_nat_alt word_less_nat_alt)
qed

lemma masks: "(0x03 :: u8) = mask 2" "(0x0f :: u8) = mask 4" "(0x3f :: u8) = mask 6"
  by (simp_all add: mask_eq_exp_minus_1)

lemma byte_eqI: "(\<And>n. n < 8 \<Longrightarrow> bit (a :: u8) n = bit b n) \<Longrightarrow> a = b"
  by (rule bit_word_eqI) simp

lemma no_bit_8: "8 \<le> n \<Longrightarrow> \<not> bit (a :: u8) n"
  using bit_imp_le_length[of a n] by auto

lemma less_8: "n < 8 \<longleftrightarrow> n = 0 \<or> n = 1 \<or> n = 2 \<or> n = 3 \<or> n = 4 \<or> n = 5 \<or> n = 6 \<or> n = (7 :: nat)"
  by auto

lemma group_values:
  "drop_bit 2 (a :: u8) < 64" "push_bit 4 (a AND 0x03) OR drop_bit 4 (b :: u8) < 64"
  "push_bit 2 (b AND 0x0f) OR drop_bit 6 (c :: u8) < 64" "c AND 0x3f < 64"
  "push_bit 4 (a AND 0x03) < 64" "push_bit 2 (b AND 0x0f) < 64"
  unfolding masks
  by (rule below_64, unfold masks, rule byte_eqI, unfold less_8, (elim disjE; simp add: bit_simps no_bit_8))+

lemma group_bytes:
  "push_bit 2 (drop_bit 2 a) OR drop_bit 4 (push_bit 4 (a AND 0x03) OR drop_bit 4 b) = (a :: u8)"
  "push_bit 4 (push_bit 4 (a AND 0x03) OR drop_bit 4 b) OR drop_bit 2 (push_bit 2 (b AND 0x0f) OR drop_bit 6 c) = (b :: u8)"
  "push_bit 6 (push_bit 2 (b AND 0x0f) OR drop_bit 6 c) OR (c AND 0x3f) = (c :: u8)"
  unfolding masks
  by (rule byte_eqI, unfold less_8, (elim disjE; simp add: bit_simps no_bit_8))+

text \<open>The characters of a text, without its line feeds.\<close>

fun b64 :: "bytes \<Rightarrow> bytes" where
  "b64 (a # b # c # r) = quad a b c @ b64 r"
| "b64 r = last_group r"

fun whole_groups :: "bytes \<Rightarrow> bytes" where
  "whole_groups (a # b # c # r) = quad a b c @ whole_groups r"
| "whole_groups r = []"

lemma group_step: "length (a # b # c # r) div 3 = Suc (length r div 3)" "drop (3 * Suc n) (a # b # c # r) = drop (3 * n) r"
proof -
  show "length (a # b # c # r) div 3 = Suc (length r div 3)" by simp
  have "3 * Suc n = Suc (Suc (Suc (3 * n)))" by simp
  then show "drop (3 * Suc n) (a # b # c # r) = drop (3 * n) r" by (simp only: drop_Suc_Cons)
qed

lemma b64_split: "b64 s = whole_groups s @ last_group (drop (3 * (length s div 3)) s)"
proof (induction s rule: b64.induct)
  case (1 a b c r)
  show ?case unfolding group_step using 1 by simp
qed simp_all

lemma length_last_group: "length (last_group r) \<le> 4" "last_group [] = []"
  by (simp_all add: last_group_def split: list.splits)

lemma group_coded:
  "dtable ! unat (sextet (drop_bit 2 a)) \<noteq> 0x80" "dtable ! unat (sextet (push_bit 4 (a AND 0x03) OR drop_bit 4 b)) \<noteq> 0x80"
  "dtable ! unat (sextet (push_bit 2 (b AND 0x0f) OR drop_bit 6 c)) \<noteq> 0x80" "dtable ! unat (sextet (c AND 0x3f)) \<noteq> 0x80"
  "dtable ! unat (sextet (push_bit 4 (a AND 0x03))) \<noteq> 0x80" "dtable ! unat (sextet (push_bit 2 (b AND 0x0f))) \<noteq> 0x80"
  by (rule sextet_value(3)[OF group_values(1)], rule sextet_value(3)[OF group_values(2)], rule sextet_value(3)[OF group_values(3)],
      rule sextet_value(3)[OF group_values(4)], rule sextet_value(3)[OF group_values(5)], rule sextet_value(3)[OF group_values(6)])

lemma coded_groups [simp]:
  "coded (quad a b c) = quad a b c" "coded (x @ y) = coded x @ coded y" "coded (10 # x) = coded x" "coded [] = []"
  "coded (last_group r) = last_group r"
  using group_coded by (auto simp: coded_def quad_def last_group_def split: list.splits)

lemma emits_eq: "length out + length xs \<le> cap \<Longrightarrow> emits cap xs out = Some (out @ xs)"
  by (induction xs arbitrary: out) (simp_all add: emit_def)

lemma length_quad [simp]: "length (quad a b c) = 4"
  by (simp add: quad_def)

lemma encode_groups_ok:
  assumes "l < 72" and "4 dvd l" and "length out + 4 * (length s div 3) + (l + 4 * (length s div 3)) div 72 \<le> cap"
  shows "\<exists>w. encode_groups cap s l out =
      Some (drop (3 * (length s div 3)) s, (l + 4 * (length s div 3)) mod 72, out @ w) \<and>
    coded w = whole_groups s \<and> length w = 4 * (length s div 3) + (l + 4 * (length s div 3)) div 72"
  using assms
proof (induction s arbitrary: l out rule: whole_groups.induct)
  case (1 a b c r)
  let ?n = "length r div 3"
  note n = group_step(1) and d = group_step(2)
  show ?case
  proof (cases "72 \<le> l + 4")
    case True
    then have l: "l = 68" using 1(2,3) by (auto elim!: dvdE)
    have m: "(l + 4 * Suc ?n) div 72 = Suc ((4 * ?n) div 72)" "(l + 4 * Suc ?n) mod 72 = (4 * ?n) mod 72"
      using div_mult_self1[of 72 "4 * ?n" 1] mod_mult_self1[of "4 * ?n" 1 72] by (simp_all add: l add.commute)
    have q: "emits cap (quad a b c) out = Some (out @ quad a b c)" using 1(4) unfolding n m by (intro emits_eq) simp
    have e: "emit cap 10 (out @ quad a b c) = Some (out @ quad a b c @ [10])" using 1(4) unfolding n m by (simp add: emit_def)
    obtain w where w: "encode_groups cap r 0 (out @ quad a b c @ [10]) =
        Some (drop (3 * ?n) r, (0 + 4 * ?n) mod 72, (out @ quad a b c @ [10]) @ w)"
      "coded w = whole_groups r" "length w = 4 * ?n + (0 + 4 * ?n) div 72"
      using 1(1)[of 0 "out @ quad a b c @ [10]"] 1(4) unfolding n m by auto
    show ?thesis unfolding n d m using True w
      by (intro exI[of _ "quad a b c @ [10] @ w"]) (simp add: q e)
  next
    case False
    have m: "l + 4 * Suc ?n = (l + 4) + 4 * ?n" by simp
    have q: "emits cap (quad a b c) out = Some (out @ quad a b c)" using 1(4) unfolding n by (intro emits_eq) simp
    obtain w where w: "encode_groups cap r (l + 4) (out @ quad a b c) =
        Some (drop (3 * ?n) r, ((l + 4) + 4 * ?n) mod 72, (out @ quad a b c) @ w)"
      "coded w = whole_groups r" "length w = 4 * ?n + ((l + 4) + 4 * ?n) div 72"
      using 1(1)[of "l + 4" "out @ quad a b c"] 1(3,4) False unfolding n m by auto
    show ?thesis unfolding n d m using False w
      by (intro exI[of _ "quad a b c @ w"]) (simp add: q)
  qed
qed simp_all

lemma decode_coded: "decode_chars cap s st = decode_chars cap (coded s) st"
proof (induction s arbitrary: st)
  case (Cons c s)
  have "decode_char cap c st = Some st" if "dtable ! unat c = 0x80"
    using that by (cases st) (simp add: decode_char_def Let_def)
  then show ?case
    by (cases "dtable ! unat c = 0x80"; cases "decode_char cap c st") (simp_all add: coded_def Cons[unfolded coded_def])
qed (simp add: coded_def)

text \<open>A group of four characters.\<close>

lemma decode_four:
  assumes "length inp = 4" and "length block = 4" and "length out + 3 \<le> cap" and "\<forall>x \<in> {w, x, y, z}. dtable ! unat x \<noteq> 0x80"
  defines "v \<equiv> \<lambda>c. dtable ! unat c"
  shows "decode_chars cap (w # x # y # z # cs) (inp, block, 0, out) = decode_chars cap cs
    ([w, x, y, z], [v w, v x, v y, v z], 0,
      out @ [push_bit 2 (v w) OR drop_bit 4 (v x), push_bit 4 (v x) OR drop_bit 2 (v y), push_bit 6 (v y) OR v z])"
proof -
  obtain i0 i1 i2 i3 where i: "inp = [i0, i1, i2, i3]" using assms(1) by (auto simp: length_Suc_conv numeral_eq_Suc)
  obtain b0 b1 b2 b3 where b: "block = [b0, b1, b2, b3]" using assms(2) by (auto simp: length_Suc_conv numeral_eq_Suc)
  have e: "emits cap [p, q, r] out = Some (out @ [p, q, r])" for p q r using assms(3) by (intro emits_eq) simp
  have n: "[a, b, c, d][3 := t] = [a, b, c, t]" "[a, b, c, d][2 := t] = [a, b, t, d]" for a b c d t :: u8
    by (simp_all add: numeral_eq_Suc)
  have s: "decode_char cap w ([i0, i1, i2, i3], [b0, b1, b2, b3], 0, out) = Some ([w, i1, i2, i3], [v w, b1, b2, b3], 1, out)"
    "decode_char cap x ([w, i1, i2, i3], [v w, b1, b2, b3], 1, out) = Some ([w, x, i2, i3], [v w, v x, b2, b3], 2, out)"
    "decode_char cap y ([w, x, i2, i3], [v w, v x, b2, b3], 2, out) = Some ([w, x, y, i3], [v w, v x, v y, b3], 3, out)"
    using assms(4) by (simp_all add: decode_char_def Let_def v_def n)
  moreover have "decode_char cap z ([w, x, y, i3], [v w, v x, v y, b3], 3, out) = Some ([w, x, y, z], [v w, v x, v y, v z], 0,
      out @ [push_bit 2 (v w) OR drop_bit 4 (v x), push_bit 4 (v x) OR drop_bit 2 (v y), push_bit 6 (v y) OR v z])"
    using assms(4) by (simp add: decode_char_def Let_def v_def n e del: emits.simps)
  ultimately show ?thesis by (simp add: i b)
qed

lemma zero_group:
  "push_bit 4 (a AND 0x03) OR drop_bit 4 0 = push_bit 4 (a AND 0x03 :: u8)"
  "push_bit 2 (b AND 0x0f) OR drop_bit 6 0 = push_bit 2 (b AND 0x0f :: u8)"
  by simp_all

lemma decode_quad:
  assumes "length inp = 4" and "length block = 4" and "length out + 3 \<le> cap"
  shows "\<exists>block'. length block' = 4 \<and> decode_chars cap (quad a b c @ cs) (inp, block, 0, out) =
    decode_chars cap cs (quad a b c, block', 0, out @ [a, b, c])"
proof -
  have "decode_chars cap (quad a b c @ cs) (inp, block, 0, out) = decode_chars cap cs (quad a b c,
      [drop_bit 2 a, push_bit 4 (a AND 0x03) OR drop_bit 4 b, push_bit 2 (b AND 0x0f) OR drop_bit 6 c, c AND 0x3f], 0, out @ [a, b, c])"
    using group_coded(1)[of a] group_coded(2)[of a b] group_coded(3)[of b c] group_coded(4)[of c]
    unfolding quad_def append_Cons append_Nil
    by (subst decode_four[OF assms]) (simp_all only: ball_simps simp_thms insert_iff empty_iff sextet_value(1)[OF group_values(1)]
        sextet_value(1)[OF group_values(2)] sextet_value(1)[OF group_values(3)] sextet_value(1)[OF group_values(4)] group_bytes)
  then show ?thesis by (intro exI[of _ "[drop_bit 2 a, push_bit 4 (a AND 0x03) OR drop_bit 4 b,
      push_bit 2 (b AND 0x0f) OR drop_bit 6 c, c AND 0x3f]"]) simp
qed

lemma decode_last:
  assumes "length inp = 4" and "length block = 4" and "length out + 3 \<le> cap" and "r = [a] \<or> r = [a, b]"
  shows "\<exists>block'. length block' = 4 \<and> decode_chars cap (last_group r) (inp, block, 0, out) =
    Some (last_group r, block', 0, out @ r @ zeros (3 - length r))"
proof -
  have zg: "push_bit 4 (push_bit 4 (a AND 0x03)) OR drop_bit 2 0 = (0 :: u8)" "push_bit 6 (push_bit 2 (b AND 0x0f)) OR 0 = (0 :: u8)"
    "push_bit 6 0 OR 0 = (0 :: u8)" "push_bit 2 (drop_bit 2 a) OR drop_bit 4 (push_bit 4 (a AND 0x03)) = a"
    "push_bit 4 (push_bit 4 (a AND 0x03) OR drop_bit 4 b) OR drop_bit 2 (push_bit 2 (b AND 0x0f)) = b"
    using group_bytes(1)[of a 0] group_bytes(2)[of a 0 0] group_bytes(2)[of a b 0] group_bytes(3)[of b 0] unfolding zero_group by simp_all
  have d61: "dtable ! unat (61 :: u8) = 0" by simp
  from assms(4) show ?thesis
  proof
    assume r: "r = [a]"
    have "decode_chars cap (last_group r) (inp, block, 0, out) = decode_chars cap [] (last_group r,
        [drop_bit 2 a, push_bit 4 (a AND 0x03), 0, 0], 0, out @ [a, 0, 0])"
      using group_coded(1)[of a] group_coded(5)[of a] unfolding r last_group_def list.case
      by (subst decode_four[OF assms(1-3)]) (simp_all only: ball_simps simp_thms insert_iff empty_iff sextet_value(1)[OF group_values(1)]
          sextet_value(1)[OF group_values(5)] d61 zg, simp)
    then show ?thesis by (intro exI[of _ "[drop_bit 2 a, push_bit 4 (a AND 0x03), 0, 0]"]) (simp add: r zeros_def numeral_2_eq_2)
  next
    assume r: "r = [a, b]"
    have "decode_chars cap (last_group r) (inp, block, 0, out) = decode_chars cap [] (last_group r,
        [drop_bit 2 a, push_bit 4 (a AND 0x03) OR drop_bit 4 b, push_bit 2 (b AND 0x0f), 0], 0, out @ [a, b, 0])"
      using group_coded(1)[of a] group_coded(2)[of a b] group_coded(6)[of b] unfolding r last_group_def list.case
      by (subst decode_four[OF assms(1-3)]) (simp_all only: ball_simps simp_thms insert_iff empty_iff sextet_value(1)[OF group_values(1)]
          sextet_value(1)[OF group_values(2)] sextet_value(1)[OF group_values(6)] d61 zg group_bytes(1), simp)
    then show ?thesis
      by (intro exI[of _ "[drop_bit 2 a, push_bit 4 (a AND 0x03) OR drop_bit 4 b, push_bit 2 (b AND 0x0f), 0]"]) (simp add: r zeros_def)
  qed
qed

text \<open>The padding of the last group tells how many bytes to drop.\<close>

definition pad :: "bytes \<Rightarrow> nat" where
  "pad s = (3 - length s mod 3) mod 3"

lemmas b64_cases = b64.induct [case_names group none one two]

lemma decode_b64:
  assumes "length inp = 4" and "length block = 4" and "length out + 3 * (length (b64 s) div 4) \<le> cap"
  shows "\<exists>inp' block'. decode_chars cap (b64 s) (inp, block, 0, out) = Some (inp', block', 0, out @ s @ zeros (pad s)) \<and>
    (s = [] \<longrightarrow> inp' = inp) \<and> (s \<noteq> [] \<longrightarrow> (inp' ! 2 = 61 \<longleftrightarrow> pad s = 2) \<and> (inp' ! 3 = 61 \<longleftrightarrow> 0 < pad s))"
  using assms
proof (induction s arbitrary: inp block out rule: b64_cases)
  case (group a b c r)
  have p: "pad (a # b # c # r) = pad r" by (simp add: pad_def)
  have "length (b64 (a # b # c # r)) div 4 = Suc (length (b64 r) div 4)" by (simp add: div_add_self1)
  then have l: "length out + 3 \<le> cap" "length (out @ [a, b, c]) + 3 * (length (b64 r) div 4) \<le> cap" using group(4) by simp_all
  obtain bl where bl: "length bl = 4" "decode_chars cap (b64 (a # b # c # r)) (inp, block, 0, out) =
      decode_chars cap (b64 r) (quad a b c, bl, 0, out @ [a, b, c])"
    using decode_quad[OF group(2,3) l(1)] by (metis b64.simps(1))
  obtain inp' block' where d: "decode_chars cap (b64 r) (quad a b c, bl, 0, out @ [a, b, c]) =
      Some (inp', block', 0, (out @ [a, b, c]) @ r @ zeros (pad r))" "r = [] \<longrightarrow> inp' = quad a b c"
    "r \<noteq> [] \<longrightarrow> (inp' ! 2 = 61 \<longleftrightarrow> pad r = 2) \<and> (inp' ! 3 = 61 \<longleftrightarrow> 0 < pad r)"
    using group(1)[OF length_quad bl(1) l(2), of a b c] by auto
  have "quad a b c ! 2 \<noteq> 61" "quad a b c ! 3 \<noteq> 61"
    using sextet_value(2)[OF group_values(3), of b c] sextet_value(2)[OF group_values(4), of c] by (simp_all add: quad_def)
  then show ?case using bl(2) d p by (cases "r = []") (auto simp: pad_def)
next
  case (one a)
  note h = this
  then have l: "length out + 3 \<le> cap" by (simp add: last_group_def)
  show ?case using decode_last[OF h(1,2) l, of "[a]" a 0] by (auto simp: last_group_def pad_def numeral_2_eq_2)
next
  case (two a b)
  note h = this
  then have l: "length out + 3 \<le> cap" by (simp add: last_group_def)
  have "sextet (push_bit 2 (b AND 0x0f)) \<noteq> 61" by (rule sextet_value(2)[OF group_values(6)])
  then show ?case using decode_last[OF h(1,2) l, of "[a, b]" a b] by (auto simp: last_group_def pad_def)
qed (simp add: last_group_def pad_def)

lemma encoded_size_enough:
  "4 * (n div 3) + 4 * (n div 3) div 72 + (if n mod 3 = 0 then 0 else 4) + 2 \<le> encoded_size n"
proof -
  let ?k = "n div 3" and ?m = "n mod 3"
  have n: "n = 3 * ?k + ?m" by simp
  have m: "?m = 0 \<or> ?m = 1 \<or> ?m = 2" by auto
  have "n * 4 = ?m * 4 + 3 * (4 * ?k)" using n by linarith
  then have d: "n * 4 div 3 = 4 * ?k + ?m * 4 div 3" by (simp add: div_mult_self2)
  have "4 * ?k div 72 \<le> (n * 4 div 3 + 4) div 72" unfolding d by (intro div_le_mono) simp
  then show ?thesis using m unfolding encoded_size_def Let_def d by (elim disjE) simp_all
qed

lemma b64_length: "length (b64 s) = 4 * (length s div 3) + (if length s mod 3 = 0 then 0 else 4)"
proof (induction s rule: b64.induct)
  case (1 a b c r)
  then show ?case unfolding group_step by simp
qed (simp_all add: last_group_def)

lemma drop_groups_mod: "length (drop (3 * (length s div 3)) s) = length s mod 3"
  by (simp add: minus_mult_div_eq_mod)

lemma length_last_group_eq: "length r < 3 \<Longrightarrow> length (last_group r) = (if r = [] then 0 else 4)"
  by (auto simp: last_group_def numeral_eq_Suc less_Suc_eq length_Suc_conv split: list.splits)

lemma encode_exact:
  assumes "length src * 4 < 2 ^ 31"
  shows "\<exists>out. base64_encode True src = Some (Some (out @ [0], length out)) \<and> coded out = b64 src \<and>
    length out < encoded_size (length src)"
proof -
  let ?n = "length src" let ?k = "?n div 3" and ?cap = "encoded_size ?n" and ?r = "drop (3 * (?n div 3)) src"
  have size: "4 * ?k + 4 * ?k div 72 + (if ?n mod 3 = 0 then 0 else 4) + 2 \<le> ?cap" by (rule encoded_size_enough)
  obtain w where w: "encode_groups ?cap src 0 [] = Some (?r, (4 * ?k) mod 72, w)" "coded w = whole_groups src"
    "length w = 4 * ?k + 4 * ?k div 72"
    using encode_groups_ok[of 0 "[]" src ?cap] size by (auto split: if_splits)
  have r: "length ?r = ?n mod 3" by (rule drop_groups_mod)
  have "length ?r < 3" using r by simp
  then have lg: "length (last_group ?r) = (if ?n mod 3 = 0 then 0 else 4)" using length_last_group_eq[of ?r] r by (cases "?r = []") auto
  have e: "emits ?cap (last_group ?r) w = Some (w @ last_group ?r)"
    using size w(3) lg by (intro emits_eq) simp
  have c: "coded (w @ last_group ?r) = b64 src" using w(2) b64_split[of src] by simp
  define l where "l = (if ?r = [] then (4 * ?k) mod 72 else (4 * ?k) mod 72 + 4)"
  define out where "out = w @ last_group ?r @ (if l \<noteq> 0 then [10] else [])"
  have len: "length out + 1 \<le> ?cap" using size w(3) lg by (simp add: out_def split: if_splits)
  have "(if l \<noteq> 0 then emit ?cap 10 (w @ last_group ?r) else Some (w @ last_group ?r)) = Some out"
    using len by (auto simp: out_def emit_def split: if_splits)
  then have "base64_encode True src = Some (Some (out @ [0], length out))"
    using assms w(1) e len unfolding base64_encode_def Let_def l_def by (simp add: emit_def)
  moreover have "coded out = b64 src" using c by (simp add: out_def)
  ultimately show ?thesis using len by auto
qed

lemma decode_exact:
  assumes "coded t = b64 src"
  shows "base64_decode True t = Some (Some src)"
proof -
  have l4: "length (b64 src) mod 4 = 0" by (simp add: b64_length)
  have cap: "length [] + 3 * (length (b64 src) div 4) \<le> length (b64 src)" by (simp add: b64_length)
  obtain inp block where d: "decode_chars (length (b64 src)) (b64 src) (zeros 4, zeros 4, 0, []) = Some (inp, block, 0, src @ zeros (pad src))"
    "src \<noteq> [] \<longrightarrow> (inp ! 2 = 61 \<longleftrightarrow> pad src = 2) \<and> (inp ! 3 = 61 \<longleftrightarrow> 0 < pad src)"
    using decode_b64[OF length_zeros length_zeros cap] by auto
  have "pad src < 3" by (simp add: pad_def)
  then have p: "pad src = 0 \<or> pad src = 1 \<or> pad src = 2" by auto
  have "decode_chars (length (b64 src)) t (zeros 4, zeros 4, 0, []) = Some (inp, block, 0, src @ zeros (pad src))"
    using d(1) decode_coded[of _ t] assms by metis
  then show ?thesis
    using d(2) p l4 unfolding base64_decode_def assms Let_def
    by (cases "src = []"; elim disjE) (simp_all add: zeros_def pad_def[of "[]"])
qed

text \<open>Base64 round trip: the encoder stays inside the block it allocates, for every input whose size does
  not overflow, ends its output with a terminator, and the decoder gives exactly the input back.\<close>

theorem base64_roundtrip:
  assumes "length src * 4 < 2 ^ 31"
  shows "\<exists>z n. base64_encode True src = Some (Some (z, n)) \<and> length z = n + 1 \<and> n < encoded_size (length src) \<and> z ! n = 0 \<and>
    base64_decode True (take n z) = Some (Some src)"
proof -
  obtain out where o: "base64_encode True src = Some (Some (out @ [0], length out))" "coded out = b64 src"
    "length out < encoded_size (length src)"
    using encode_exact[OF assms] by auto
  from decode_exact[OF o(2)] show ?thesis
    by (intro exI[of _ "out @ [0]"] exI[of _ "length out"]) (simp add: o nth_append)
qed

theorem base64_roundtrip_witness:
  "\<exists>z n. base64_encode True (replicate 100 7) = Some (Some (z, n)) \<and> length z = n + 1 \<and> n < encoded_size (length (replicate 100 (7 :: u8))) \<and>
    z ! n = 0 \<and> base64_decode True (take n z) = Some (Some (replicate 100 7))"
  by (rule base64_roundtrip) simp

section \<open>Integers, addresses and sequence numbers\<close>

text \<open>
  Network byte order; plain \<open>char\<close> is unsigned on this processor. Each function returns the number of
  bytes, here the length of what it writes.
\<close>

definition encodeUInt8 :: "u8 \<Rightarrow> bytes" where
  "encodeUInt8 input = [input]"

definition encodeUInt16 :: "u16 \<Rightarrow> bytes" where
  "encodeUInt16 input = [ucast (drop_bit 8 input), ucast input]"

definition encodeInt32 :: "u32 \<Rightarrow> bytes" where
  "encodeInt32 input = [ucast (drop_bit 24 input), ucast (drop_bit 16 input), ucast (drop_bit 8 input), ucast input]"

definition decodeInt32 :: "bytes \<Rightarrow> (u32 \<times> nat) option" where
  "decodeInt32 b = do {
     b3 \<leftarrow> rd b 0;
     b2 \<leftarrow> rd b 1;
     b1 \<leftarrow> rd b 2;
     b0 \<leftarrow> rd b 3;
     Some (push_bit 24 (ucast b3) OR push_bit 16 (ucast b2) OR push_bit 8 (ucast b1) OR ucast b0, 4)
   }"

lemma decodeInt16_encodeUInt16:
  "map_option (\<lambda>v. (v, 2)) (decodeInt16 (encodeUInt16 x @ r) 0) = Some (x, length (encodeUInt16 x))"
  using mk16_hi8_lo8[of x] by (simp add: decodeInt16_def encodeUInt16_def rd_def hi8_def lo8_def)

lemma decodeInt32_encodeInt32: "decodeInt32 (encodeInt32 x @ r) = Some (x, length (encodeInt32 x))"
  using mk32_bytes[of x] by (simp add: decodeInt32_def encodeInt32_def rd_def mk32_def)

interpretation int16: prefix_code encodeUInt16 "\<lambda>b. map_option (\<lambda>v. (v, 2)) (decodeInt16 b 0)" "\<lambda>_. True"
  by unfold_locales (rule decodeInt16_encodeUInt16)

interpretation int32: prefix_code encodeInt32 decodeInt32 "\<lambda>_. True"
  by unfold_locales (rule decodeInt32_encodeInt32)

text \<open>Back from the address in text (\<open>hex02\<close>, \<open>%02x\<close> for each byte). The string is overwritten with the values.\<close>

definition hex_value :: "u8 \<Rightarrow> u8" where
  "hex_value c = (if 97 \<le> c then c - 87 else if 65 \<le> c then c - 55 else c - 48)"

fun mac_loop :: "nat \<Rightarrow> bytes \<Rightarrow> bytes \<Rightarrow> (bytes \<times> bytes) option" where
  "mac_loop 0 str mac = Some (str, mac)"
| "mac_loop (Suc k) str mac = do {
     let i = 12 - Suc k;
     c \<leftarrow> rd str i;
     str \<leftarrow> wr str i (hex_value c);
     mac \<leftarrow> (if i mod 2 = 1 then do {
         h \<leftarrow> rd str (i - 1);
         l \<leftarrow> rd str i;
         wr mac (i div 2) (push_bit 4 h OR l)
       } else Some mac);
     mac_loop k str mac
   }"

definition GAgent_String2MAC :: "bytes \<Rightarrow> bytes \<Rightarrow> (bytes \<times> bytes) option" where
  "GAgent_String2MAC str mac = mac_loop 12 str mac"

text \<open>The sequence number of a frame to the device.\<close>

definition GAgent_SetSN :: "bytes \<Rightarrow> u8 \<Rightarrow> (u8 \<times> bytes \<times> u8) option" where
  "GAgent_SetSN buf g_SN = do {
     let n = (if 255 \<le> g_SN then 1 else g_SN);
     buf \<leftarrow> wr buf 5 n;
     Some (n, buf, n + 1)
   }"

lemma hex_digit_value: "d < 16 \<Longrightarrow> hex_value (hex_digit d) = d"
proof -
  have "list_all (\<lambda>n. hex_value (hex_digit (of_nat n)) = of_nat n) [0..<16]" by code_simp
  then have v: "hex_value (hex_digit (of_nat n)) = of_nat n" if "n < 16" for n using that by (simp add: list_all_iff)
  assume "d < 16"
  then have "unat d < 16" by (simp add: word_less_nat_alt)
  from v[OF this] show ?thesis by simp
qed

lemma mask15: "(15 :: u8) = mask 4"
  by (simp add: mask_eq_exp_minus_1)

lemma hex02_value: "push_bit 4 (hex_value (hex_digit (drop_bit 4 x))) OR hex_value (hex_digit (x AND 15)) = x"
proof -
  have "drop_bit 4 x < 16" "x AND 15 < 16"
    using word_and_le1[of x "15"] unat_drop_bit_eq[of 4 x] u8_less[of x]
    by (auto simp: word_less_nat_alt word_le_nat_alt drop_bit_eq_div)
  then have "push_bit 4 (hex_value (hex_digit (drop_bit 4 x))) OR hex_value (hex_digit (x AND 15)) = push_bit 4 (drop_bit 4 x) OR x AND 15"
    using hex_digit_value by simp
  also have "\<dots> = x" unfolding masks mask15
    by (rule byte_eqI, unfold less_8, elim disjE; simp add: bit_simps no_bit_8)
  finally show ?thesis .
qed

lemma mac_pair:
  assumes "length pre = 12 - 2 * Suc n" and "length m1 = 6 - Suc n" and "n < 6"
  shows "\<exists>h l. mac_loop (2 * Suc n) (pre @ hex02 x @ post) (m1 @ y # m2) = mac_loop (2 * n) ((pre @ [h, l]) @ post) ((m1 @ [x]) @ m2)"
proof -
  let ?h = "hex_value (hex_digit (drop_bit 4 x))" and ?l = "hex_value (hex_digit (x AND 15))" and ?i = "10 - 2 * n"
  have i: "12 - Suc (Suc (2 * n)) = ?i" "12 - Suc (2 * n) = Suc ?i" "?i mod 2 = 0" "Suc ?i mod 2 = 1" "Suc ?i div 2 = 5 - n"
  proof -
    have "n = 0 \<or> n = 1 \<or> n = 2 \<or> n = 3 \<or> n = 4 \<or> n = 5" using assms(3) by auto
    then show "12 - Suc (Suc (2 * n)) = ?i" "12 - Suc (2 * n) = Suc ?i" "?i mod 2 = 0" "Suc ?i mod 2 = 1" "Suc ?i div 2 = 5 - n"
      by (elim disjE; simp)+
  qed
  have p: "length pre = ?i" "length m1 = 5 - n" using assms(1,2) by simp_all
  have s: "mac_loop (Suc (Suc (2 * n))) (pre @ hex02 x @ post) (m1 @ y # m2) =
      mac_loop (2 * n) (pre @ ?h # ?l # post) (m1 @ (push_bit 4 ?h OR ?l) # m2)"
    unfolding mac_loop.simps Let_def i using p
    by (simp add: hex02_def rd_def wr_def nth_append list_update_append)
  show ?thesis using s unfolding hex02_value by (intro exI[of _ ?h] exI[of _ ?l]) simp
qed

lemma mac_loop_hex:
  "length xs \<le> 6 \<Longrightarrow> length pre = 12 - 2 * length xs \<Longrightarrow> length m1 = 6 - length xs \<Longrightarrow> length ys = length xs \<Longrightarrow>
   \<exists>str. mac_loop (2 * length xs) (pre @ concat (map hex02 xs) @ post) (m1 @ ys) = Some (str, m1 @ xs)"
proof (induction xs arbitrary: pre m1 ys)
  case (Cons x xs)
  obtain y m2 where y: "ys = y # m2" "length m2 = length xs" using Cons.prems(4) by (cases ys) auto
  obtain h l where hl: "mac_loop (2 * Suc (length xs)) (pre @ hex02 x @ concat (map hex02 xs) @ post) (m1 @ y # m2) =
      mac_loop (2 * length xs) ((pre @ [h, l]) @ concat (map hex02 xs) @ post) ((m1 @ [x]) @ m2)"
    using mac_pair[of pre "length xs" m1 x "concat (map hex02 xs) @ post" y m2] Cons.prems by auto
  moreover have "\<exists>str. mac_loop (2 * length xs) ((pre @ [h, l]) @ concat (map hex02 xs) @ post) ((m1 @ [x]) @ m2) = Some (str, (m1 @ [x]) @ xs)"
    using Cons.prems y(2) by (intro Cons.IH) auto
  ultimately show ?case by (simp add: y(1))
qed simp

text \<open>The address that the device announces as text is the address of its radio: reading the twelve
  hexadecimal digits back gives the six bytes.\<close>

theorem String2MAC_roundtrip:
  assumes "length mac = 6" and "length old = 6"
  shows "\<exists>str. GAgent_String2MAC (concat (map hex02 mac) @ rest) old = Some (str, mac)"
  using mac_loop_hex[of mac "[]" "[]" old rest] assms by (simp add: GAgent_String2MAC_def)

theorem String2MAC_roundtrip_witness:
  "\<exists>str. GAgent_String2MAC (concat (map hex02 [0x00, 0x1b, 0xfe, 0x9a, 0x23, 0xc4]) @ [0]) (zeros 6) = Some (str, [0x00, 0x1b, 0xfe, 0x9a, 0x23, 0xc4])"
  by (rule String2MAC_roundtrip) simp_all
end
