(* ===== verification/DnsServer.thy ===== *)
theory DnsServer
  imports Coding
begin

text \<open>
  The DNS server of the access point mode (App/DnsServer/dns_server.c): it answers the queries for the
  device's own name with the device's address and all others with a name error. The message is the heap
  block the packet is copied to; reading behind it, behind the array of the own name or before it is
  outside every object.
\<close>

section \<open>State\<close>

record DNS_SERVER =
  dns_Socket :: nat
  dns_DnsName :: bytes
  dns_HostIp :: u32

datatype dnss_err = DNSS_ERR_SUCCESS | DNSS_ERR_LINKDOWN | DNSS_ERR_PARAM | DNSS_ERR_MEM

definition Nst_ToUpper :: "u8 \<Rightarrow> u8" where
  "Nst_ToUpper c = (if 97 \<le> c \<and> c \<le> 122 then c - 97 + 65 else c)"

section \<open>Names\<close>

text \<open>One label: \<open>n\<close> characters of the own name from \<open>m\<close> on against those of the query.\<close>

fun label_cmp :: "bytes \<Rightarrow> nat \<Rightarrow> nat \<Rightarrow> bytes \<Rightarrow> bool option" where
  "label_cmp MyDns m 0 Query = Some True"
| "label_cmp MyDns m (Suc n) Query = do {
     Src \<leftarrow> rd MyDns m;
     Dest \<leftarrow> rd Query 0;
     (if Nst_ToUpper Src \<noteq> Nst_ToUpper Dest then Some False else label_cmp MyDns (m + 1) n (drop 1 Query))
   }"

text \<open>
  The end of the comparison looks at the character before the position: the loop always steps over one
  character behind a label, whatever it is. The result is true for a match (0 in C).
\<close>

definition name_end :: "bytes \<Rightarrow> nat \<Rightarrow> bool option" where
  "name_end MyDns m = (if m = 0 then None else map_option (\<lambda>c. c = 0) (rd MyDns (m - 1)))"

function compare_loop :: "bytes \<Rightarrow> nat \<Rightarrow> bytes \<Rightarrow> bool option" where
  "compare_loop MyDns m [] = None"
| "compare_loop MyDns m (n # Query) =
     (if n AND 0xc0 = 0xc0 then name_end MyDns m
      else case label_cmp MyDns m (unat n) Query of
        None \<Rightarrow> None
      | Some False \<Rightarrow> Some False
      | Some True \<Rightarrow>
          (case drop (unat n) Query of
             [] \<Rightarrow> None
           | c # r \<Rightarrow> if c \<noteq> 0 then compare_loop MyDns (m + unat n + 1) (c # r) else name_end MyDns (m + unat n + 1)))"
  by pat_completeness auto
termination
proof (relation "measure (\<lambda>(_, _, q). length q)")
  fix n :: u8 and Query :: bytes and c r
  assume "drop (unat n) Query = c # r"
  then have "length (c # r) \<le> length Query" by (metis length_drop diff_le_self)
  then show "((MyDns, m + unat n + 1, c # r), MyDns, m, n # Query) \<in> measure (\<lambda>(_, _, q). length q)" for MyDns :: bytes and m
    by simp
qed simp

text \<open>\<open>strlen(Query) - 1\<close> is unsigned: the empty name counts as too long.\<close>

definition DnsCompareName :: "bytes \<Rightarrow> bytes \<Rightarrow> bool option" where
  "DnsCompareName MyDns Query = do {
     q \<leftarrow> cstr Query;
     (if length q = 0 \<or> 32 < length q - 1 then Some False else compare_loop MyDns 0 Query)
   }"

section \<open>Replies\<close>

definition be16n :: "u16 \<Rightarrow> bytes" where
  "be16n w = le16 (bswap16 w)"

definition dns_header :: "bytes \<Rightarrow> u8 \<Rightarrow> u16 \<Rightarrow> bytes" where
  "dns_header TansactionId flag2 AnswerRR = TansactionId @ [0x80, flag2] @ be16n 1 @ be16n AnswerRR @ [0, 0, 0, 0]"

definition round_up4 :: "nat \<Rightarrow> nat" where
  "round_up4 n = (n + 3) div 4 * 4"

text \<open>The reply is built in a heap block of the size computed first; both packets need memory.\<close>

definition DNSNameErrGenAndSend :: "bool \<Rightarrow> bool \<Rightarrow> bytes \<Rightarrow> bytes \<Rightarrow> bytes \<Rightarrow> bytes list option" where
  "DNSNameErrGenAndSend heap pbuf DnsQuery QueryName TansactionId = do {
     name \<leftarrow> cstr QueryName;
     let cap = round_up4 (12 + (length name + 1) + 4);
     (if \<not> heap then Some []
      else do {
        out \<leftarrow> emits cap (dns_header TansactionId 0x03 0) [];
        out \<leftarrow> emits cap (name @ [0]) out;
        out \<leftarrow> emits cap DnsQuery out;
        Some (if pbuf then [out] else [])
      })
   }"

definition DNSAnswerGenAndSend :: "bool \<Rightarrow> bool \<Rightarrow> bytes \<Rightarrow> bytes \<Rightarrow> bytes \<Rightarrow> DNS_SERVER \<Rightarrow> bytes list option" where
  "DNSAnswerGenAndSend heap pbuf DnsQuery QueryName TansactionId s = do {
     name \<leftarrow> cstr QueryName;
     let cap = round_up4 (12 + (length name + 1) + 4 + 2 + 8 + 2 + 4);
     (if \<not> heap then Some []
      else do {
        out \<leftarrow> emits cap (dns_header TansactionId 0x00 1) [];
        out \<leftarrow> emits cap (name @ [0]) out;
        out \<leftarrow> emits cap DnsQuery out;
        out \<leftarrow> emits cap (be16n (0xC000 OR 12)) out;
        out \<leftarrow> emits cap (be16n 1 @ be16n 1 @ le32 (bswap32 3600)) out;
        out \<leftarrow> emits cap (be16n 4) out;
        out \<leftarrow> emits cap (le32 (dns_HostIp s)) out;
        Some (if pbuf then [out] else [])
      })
   }"

text \<open>
  \<open>DNSS_RecvCb\<close>: \<open>heap i\<close> are the results of its two \<open>OSMMalloc\<close>. The two bytes of type and class stay as
  they are in the packet; the test lets a packet through if either of them fits.
\<close>

definition DNSS_RecvCb :: "(nat \<Rightarrow> bool) \<Rightarrow> bool \<Rightarrow> bytes \<Rightarrow> DNS_SERVER \<Rightarrow> bytes list option" where
  "DNSS_RecvCb heap pbuf pDnsMsg s =
     (if \<not> heap 0 then Some []
      else do {
        DnsFlag1 \<leftarrow> rd pDnsMsg 2;
        (if DnsFlag1 AND 0x80 \<noteq> 0 \<or> DnsFlag1 AND push_bit 3 0xf \<noteq> 0x00 then Some []
         else do {
           let pDnsName = drop 12 pDnsMsg;
           name \<leftarrow> cstr pDnsName;
           DnsQuery \<leftarrow> rd_seg pDnsName (length name + 1) 4;
           (if drop 2 DnsQuery \<noteq> be16n 1 \<and> take 2 DnsQuery \<noteq> be16n 1 then Some []
            else do {
              mine \<leftarrow> DnsCompareName (dns_DnsName s) pDnsName;
              (if \<not> mine then DNSNameErrGenAndSend (heap 1) pbuf DnsQuery pDnsName (take 2 pDnsMsg)
               else DNSAnswerGenAndSend (heap 1) pbuf DnsQuery pDnsName (take 2 pDnsMsg) s)
            })
         })
      })"

section \<open>Start and stop\<close>

definition DNSS_Config :: "bytes option \<Rightarrow> DNS_SERVER \<Rightarrow> (dnss_err \<times> DNS_SERVER) option" where
  "DNSS_Config Name s = (case Name of
     None \<Rightarrow> Some (DNSS_ERR_PARAM, s)
   | Some b \<Rightarrow> do {
       n \<leftarrow> cstr b;
       (if 32 < length n then Some (DNSS_ERR_PARAM, s)
        else Some (DNSS_ERR_SUCCESS, s\<lparr>dns_DnsName := put (zeros 32) 0 n\<rparr>))
     })"

text \<open>\<open>up\<close> and \<open>ip\<close> are the interface's, \<open>pcb\<close> is what \<open>udp_new\<close> returns (0 for failure).\<close>

definition DNSS_Start :: "bool \<Rightarrow> u32 \<Rightarrow> nat \<Rightarrow> bytes \<Rightarrow> DNS_SERVER \<Rightarrow> (dnss_err \<times> DNS_SERVER) option" where
  "DNSS_Start up ip pcb Name s0 = do {
     n \<leftarrow> cstr Name;
     (if 32 < length n then Some (DNSS_ERR_PARAM, s0)
      else if \<not> up then Some (DNSS_ERR_LINKDOWN, s0)
      else let s = \<lparr>dns_Socket = pcb, dns_DnsName = put (zeros 32) 0 n, dns_HostIp = ip\<rparr>
        in Some (if pcb = 0 then DNSS_ERR_MEM else DNSS_ERR_SUCCESS, s))
   }"

text \<open>\<open>udp_remove\<close> gives the control block back; the pointer to it is kept.\<close>

definition DNSS_Stop :: "DNS_SERVER \<Rightarrow> nat list \<times> DNS_SERVER" where
  "DNSS_Stop s = (if dns_Socket s \<noteq> 0 then [dns_Socket s] else [], s)"

section \<open>Names of a query\<close>

text \<open>A name on the wire is its labels, each behind its length, and a zero byte. The own name matches if it
  is those labels, up to case, with any one character between two of them.\<close>

fun wire_name :: "bytes list \<Rightarrow> bytes" where
  "wire_name [] = []"
| "wire_name (l # ls) = of_nat (length l) # l @ wire_name ls"

definition label_ok :: "bytes \<Rightarrow> bool" where
  "label_ok l \<longleftrightarrow> no_nul l \<and> l \<noteq> [] \<and> length l < 64"

abbreviation up :: "bytes \<Rightarrow> bytes" where "up \<equiv> map Nst_ToUpper"

fun name_match :: "bytes list \<Rightarrow> bytes \<Rightarrow> bool" where
  "name_match [] s = False"
| "name_match [l] s = (up s = up l)"
| "name_match (l # ls) s = (length l < length s \<and> up (take (length l) s) = up l \<and> name_match ls (drop (Suc (length l)) s))"

lemma up_nul: "Nst_ToUpper c = 0 \<longleftrightarrow> c = 0"
proof -
  have "c - 97 + 65 \<noteq> 0" if "97 \<le> c" "c \<le> 122"
  proof
    assume "c - 97 + 65 = 0"
    then have "c = 32" by (simp add: algebra_simps)
    then show False using that by (simp add: word_le_nat_alt)
  qed
  then show ?thesis by (auto simp: Nst_ToUpper_def)
qed

lemma label_cmp_exact:
  "m + length l \<le> length my \<Longrightarrow> label_cmp my m (length l) (l @ r) = Some (up (take (length l) (drop m my)) = up l)"
proof (induction l arbitrary: m)
  case (Cons c l)
  have "take (length (c # l)) (drop m my) = my ! m # take (length l) (drop (Suc m) my)"
    using Cons.prems by (simp flip: Cons_nth_drop_Suc)
  then show ?case using Cons by (auto simp: rd_def)
qed simp

lemma length_wire: "length (wire_name ls) = sum_list (map (\<lambda>l. length l + 1) ls)"
  by (induction ls) simp_all

lemma wire_no_nul: "list_all label_ok ls \<Longrightarrow> no_nul (wire_name ls)"
proof (induction ls)
  case (Cons l ls)
  have "length l \<noteq> 0" "length l < 256" using Cons.prems by (auto simp: label_ok_def)
  then have "(of_nat (length l) :: u8) \<noteq> 0" using unat_of_nat8[of "length l"] by (metis unsigned_0)
  then show ?case using Cons by (simp add: label_ok_def no_nul_def)
qed (simp add: no_nul_def)

text \<open>The padded array of the own name, and what is left of it.\<close>

lemma own_take:
  assumes "no_nul s" and "no_nul l" and "m + length l \<le> length s + k" and "l \<noteq> []"
  shows "up (take (length l) (drop m (s @ zeros k))) = up l \<longleftrightarrow> m + length l \<le> length s \<and> up (take (length l) (drop m s)) = up l"
proof (cases "m + length l \<le> length s")
  case True
  then show ?thesis by simp
next
  case False
  define i where "i = length l - 1"
  have i: "i < length l" "length s \<le> m + i" using False assms(4) by (cases l; simp add: i_def)+
  have z: "(s @ zeros k) ! (m + i) = 0" using i assms(3) by (simp add: nth_append zeros_def)
  have "up (take (length l) (drop m (s @ zeros k))) ! i = Nst_ToUpper ((s @ zeros k) ! (m + i))"
    using i assms(3) by (simp del: take_append drop_append)
  also have "\<dots> = 0" unfolding z by (simp add: up_nul)
  finally have "up (take (length l) (drop m (s @ zeros k))) ! i = 0" .
  moreover have "up l ! i \<noteq> 0" using i(1) assms(2) by (simp add: up_nul no_nul_def) (metis nth_mem)
  ultimately show ?thesis using False by auto
qed

lemma label_head:
  assumes "label_ok l"
  shows "unat (of_nat (length l) :: u8) = length l" and "(of_nat (length l) :: u8) AND 0xc0 \<noteq> 0xc0"
proof -
  have l: "length l < 64" using assms by (simp add: label_ok_def)
  then show u: "unat (of_nat (length l) :: u8) = length l" by (intro unat_of_nat8) simp
  have "list_all (\<lambda>n. (of_nat n :: u8) AND 0xc0 \<noteq> 0xc0) [0..<64]" by code_simp
  then show "(of_nat (length l) :: u8) AND 0xc0 \<noteq> 0xc0" using l by (simp add: list_all_iff)
qed

lemma compare_loop_exact:
  assumes "no_nul s" and "length s \<le> 31" and "list_all label_ok ls" and "ls \<noteq> []" and "m + length (wire_name ls) \<le> 33"
  shows "compare_loop (s @ zeros (32 - length s)) m (wire_name ls @ 0 # r) = Some (m \<le> length s \<and> name_match ls (drop m s))"
  using assms(3-5)
proof (induction ls arbitrary: m)
  case (Cons l ls)
  let ?my = "s @ zeros (32 - length s)"
  have l: "label_ok l" "no_nul l" "l \<noteq> []" using Cons.prems(1) by (simp_all add: label_ok_def)
  note h = label_head[OF l(1)]
  have lm: "m + length l \<le> length ?my" using Cons.prems(3) assms(2) by simp
  have my: "length ?my = 32" using assms(2) by simp
  define q where "q = wire_name ls @ 0 # r"
  have c: "label_cmp ?my m (length l) (l @ q) = Some (m + length l \<le> length s \<and> up (take (length l) (drop m s)) = up l)"
    using label_cmp_exact[OF lm, of q] own_take[OF assms(1) l(2) _ l(3), of m "32 - length s"] lm by simp
  have step: "compare_loop ?my m (wire_name (l # ls) @ 0 # r) =
      (if \<not> (m + length l \<le> length s \<and> up (take (length l) (drop m s)) = up l) then Some False
       else case q of [] \<Rightarrow> None | c # r \<Rightarrow> if c \<noteq> 0 then compare_loop ?my (m + length l + 1) q else name_end ?my (m + length l + 1))"
    using c h by (auto simp: q_def split: list.splits)
  show ?case
  proof (cases ls)
    case Nil
    have e: "name_end ?my (m + length l + 1) = Some (?my ! (m + length l) = 0)" if "m + length l \<le> length s"
      using that assms(2) by (simp add: name_end_def rd_def)
    have z: "?my ! (m + length l) = 0 \<longleftrightarrow> m + length l = length s" if "m + length l \<le> length s"
    proof (cases "m + length l = length s")
      case False
      then have "m + length l < length s" using that by simp
      then have "?my ! (m + length l) \<in> set s" by (simp add: nth_append)
      then have "?my ! (m + length l) \<noteq> 0" using assms(1) unfolding no_nul_def by metis
      then show ?thesis using False by simp
    qed (use assms(2) in \<open>simp add: nth_append zeros_def\<close>)
    have f: "up (drop m s) = up l \<longleftrightarrow> m + length l = length s \<and> up (take (length l) (drop m s)) = up l" if "m \<le> length s"
    proof
      assume u: "up (drop m s) = up l"
      then have "length (drop m s) = length l" by (rule map_eq_imp_length_eq)
      then show "m + length l = length s \<and> up (take (length l) (drop m s)) = up l" using u that l(3) by (cases l) auto
    qed auto
    show ?thesis
    proof (cases "m + length l \<le> length s \<and> up (take (length l) (drop m s)) = up l")
      case True
      then show ?thesis using step e z f by (simp add: Nil q_def)
    next
      case False
      have "\<not> (m \<le> length s \<and> up (drop m s) = up l)"
      proof
        assume "m \<le> length s \<and> up (drop m s) = up l"
        then have "m + length l = length s \<and> up (take (length l) (drop m s)) = up l" using f by blast
        then show False using False by simp
      qed
      then show ?thesis unfolding step if_P[OF False] by (simp add: Nil)
    qed
  next
    case (Cons l' ls')
    have ne: "ls \<noteq> []" "list_all label_ok ls" using Cons \<open>list_all label_ok (l # ls)\<close> by simp_all
    then obtain c r' where q: "q = c # r'" "c \<noteq> 0"
      using wire_no_nul[OF ne(2)] by (cases q) (auto simp: q_def Cons no_nul_def)
    have b: "m + length l + 1 + length (wire_name ls) \<le> 33" using \<open>m + length (wire_name (l # ls)) \<le> 33\<close> by simp
    note ih = Cons.IH[OF ne(2,1) b, folded q_def]
    have "name_match (l # ls) (drop m s) \<longleftrightarrow> length l < length (drop m s) \<and> up (take (length l) (drop m s)) = up l \<and>
        name_match ls (drop (Suc (length l)) (drop m s))"
      unfolding Cons by (rule name_match.simps)
    moreover have "drop (Suc (length l)) (drop m s) = drop (m + length l + 1) s" by (simp add: add.commute)
    ultimately have nm: "name_match (l # ls) (drop m s) \<longleftrightarrow> m + length l + 1 \<le> length s \<and> up (take (length l) (drop m s)) = up l \<and>
        name_match ls (drop (m + length l + 1) s)"
      by (simp only: length_drop less_diff_conv Suc_eq_plus1[symmetric] Suc_le_eq) (simp add: add.commute)
    show ?thesis
    proof (cases "m + length l \<le> length s \<and> up (take (length l) (drop m s)) = up l")
      case True
      then have "compare_loop ?my m (wire_name (l # ls) @ 0 # r) = compare_loop ?my (m + length l + 1) q"
        unfolding step q(1) list.case using q(2) by (simp only: not_True_eq_False if_False if_True simp_thms)
      then show ?thesis unfolding ih nm using True by simp
    next
      case False
      then have "\<not> name_match (l # ls) (drop m s)" using nm add_leD1[of "m + length l" 1 "length s"] by blast
      then show ?thesis unfolding step if_P[OF False] by simp
    qed
  qed
qed simp

lemma name_match_length: "name_match ls s \<Longrightarrow> length (wire_name ls) = length s + 1"
proof (induction ls s rule: name_match.induct)
  case (2 l s)
  then show ?case by (auto dest: map_eq_imp_length_eq)
qed auto

lemma DnsCompareName_exact:
  assumes "no_nul s" and "length s \<le> 31" and "list_all label_ok ls" and "ls \<noteq> []"
  shows "DnsCompareName (s @ zeros (32 - length s)) (wire_name ls @ 0 # r) = Some (name_match ls s)"
proof -
  have q: "cstr (wire_name ls @ 0 # r) = Some (wire_name ls)" using wire_no_nul[OF assms(3)] by simp
  have ne: "length (wire_name ls) \<noteq> 0" using assms(4) by (cases ls) simp_all
  show ?thesis
  proof (cases "length (wire_name ls) - 1 > 32")
    case True
    then have "\<not> name_match ls s" using name_match_length[of ls s] assms(2) by auto
    then show ?thesis using q True by (simp add: DnsCompareName_def)
  next
    case False
    then show ?thesis using compare_loop_exact[OF assms, of 0 r] q ne by (simp add: DnsCompareName_def)
  qed
qed

section \<open>Answers\<close>

definition dns_query :: "bytes \<Rightarrow> u8 \<Rightarrow> u8 \<Rightarrow> bytes \<Rightarrow> bytes list \<Rightarrow> bytes \<Rightarrow> bytes" where
  "dns_query tid flag1 flag2 counts ls question = tid @ [flag1, flag2] @ counts @ wire_name ls @ [0] @ question"

text \<open>What a client of RFC 1035 expects: its question with one address record, or with the error "no such name".\<close>

definition address_reply :: "bytes \<Rightarrow> bytes list \<Rightarrow> bytes \<Rightarrow> u32 \<Rightarrow> bytes" where
  "address_reply tid ls question ip = tid @ [0x80, 0, 0, 1, 0, 1, 0, 0, 0, 0] @ wire_name ls @ [0] @ question
     @ [0xC0, 12, 0, 1, 0, 1, 0, 0, 0x0E, 0x10, 0, 4] @ le32 ip"

definition error_reply :: "bytes \<Rightarrow> bytes list \<Rightarrow> bytes \<Rightarrow> bytes" where
  "error_reply tid ls question = tid @ [0x80, 3, 0, 1, 0, 0, 0, 0, 0, 0] @ wire_name ls @ [0] @ question"

lemma be16n_values: "be16n 1 = [0, 1]" "be16n 0 = [0, 0]" "be16n 4 = [0, 4]" "be16n (0xC000 OR 12) = [0xC0, 12]"
  "le32 (bswap32 3600) = [0, 0, 0x0E, 0x10]"
  by code_simp+

lemma round_up4_le: "n \<le> round_up4 n"
  using mult_div_mod_eq[of 4 "n + 3"] mod_less_divisor[of 4 "n + 3"] unfolding round_up4_def by linarith

lemma NameErr_exact:
  assumes "no_nul name" and "length tid = 2" and "length question = 4"
  shows "DNSNameErrGenAndSend True True question (name @ 0 # r) tid =
    Some [tid @ [0x80, 3, 0, 1, 0, 0, 0, 0, 0, 0] @ name @ [0] @ question]"
proof -
  let ?cap = "round_up4 (12 + (length name + 1) + 4)"
  have "12 + (length name + 1) + 4 \<le> ?cap" by (rule round_up4_le)
  then show ?thesis using assms
    by (simp add: DNSNameErrGenAndSend_def Let_def emits_eq dns_header_def be16n_values del: emits.simps)
qed

lemma Answer_exact:
  assumes "no_nul name" and "length tid = 2" and "length question = 4"
  shows "DNSAnswerGenAndSend True True question (name @ 0 # r) tid s =
    Some [tid @ [0x80, 0, 0, 1, 0, 1, 0, 0, 0, 0] @ name @ [0] @ question @ [0xC0, 12, 0, 1, 0, 1, 0, 0, 0x0E, 0x10, 0, 4] @ le32 (dns_HostIp s)]"
proof -
  let ?cap = "round_up4 (12 + (length name + 1) + 4 + 2 + 8 + 2 + 4)"
  have "12 + (length name + 1) + 4 + 2 + 8 + 2 + 4 \<le> ?cap" by (rule round_up4_le)
  then show ?thesis using assms
    by (simp only: DNSAnswerGenAndSend_def Let_def cstr_append bind.bind_lunit be16n_values dns_header_def if_True not_True_eq_False if_False)
      (simp add: emits_eq del: emits.simps)
qed

lemma RecvCb_exact:
  assumes "dns_DnsName srv = s @ zeros (32 - length s)" and "no_nul s" and "length s \<le> 31"
    and "list_all label_ok ls" and "ls \<noteq> []" and "length tid = 2" and "length counts = 8"
    and "flag1 AND 0x80 = 0" and "flag1 AND 0x78 = 0" and "length qtype = 2" and "length qclass = 2"
    and "qtype = [0, 1] \<or> qclass = [0, 1]" and "heap 0" and "heap 1"
  shows "DNSS_RecvCb heap True (dns_query tid flag1 flag2 counts ls (qtype @ qclass) @ rest) srv =
    Some [if name_match ls s then address_reply tid ls (qtype @ qclass) (dns_HostIp srv) else error_reply tid ls (qtype @ qclass)]"
proof -
  let ?q = "qtype @ qclass" and ?n = "wire_name ls"
  let ?msg = "dns_query tid flag1 flag2 counts ls ?q @ rest"
  obtain t0 t1 where t: "tid = [t0, t1]" using assms(6) by (auto simp: length_Suc_conv numeral_2_eq_2)
  have f: "rd ?msg 2 = Some flag1" by (simp add: rd_def dns_query_def t)
  have d: "drop 12 ?msg = ?n @ 0 # ?q @ rest" using assms(7) by (simp add: dns_query_def t)
  have nn: "no_nul ?n" by (rule wire_no_nul[OF assms(4)])
  then have c: "cstr (?n @ 0 # ?q @ rest) = Some ?n" by simp
  have g: "rd_seg (?n @ 0 # ?q @ rest) (length ?n + 1) 4 = Some ?q" using assms(10,11) by (simp add: rd_seg_def)
  have m: "DnsCompareName (dns_DnsName srv) (?n @ 0 # ?q @ rest) = Some (name_match ls s)"
    unfolding assms(1) by (rule DnsCompareName_exact[OF assms(2-5)])
  have p: "push_bit 3 (0xf :: u8) = 0x78" by code_simp
  have ql: "length ?q = 4" using assms(10,11) by simp
  have tt: "take 2 ?q = qtype" "drop 2 ?q = qclass" using assms(10) by simp_all
  have th: "take 2 ?msg = tid" by (simp add: dns_query_def t)
  have pass: "\<not> (drop 2 ?q \<noteq> be16n 1 \<and> take 2 ?q \<noteq> be16n 1)" unfolding tt be16n_values using assms(12) by auto
  have flags: "\<not> (flag1 AND 0x80 \<noteq> 0 \<or> flag1 AND push_bit 3 0xf \<noteq> 0x00)" unfolding p using assms(8,9) by simp
  show ?thesis
    using assms(13,14) NameErr_exact[OF nn assms(6) ql] Answer_exact[OF nn assms(6) ql]
    unfolding DNSS_RecvCb_def Let_def f d c g m th bind.bind_lunit if_not_P[OF flags] if_not_P[OF pass]
    by (simp add: address_reply_def error_reply_def)
qed

text \<open>C39 In access point mode every standard query for one name is answered: if the name is the own one (up
  to case, at most 31 characters), with one address record that carries the own address and lives an hour,
  otherwise with a name error; the transaction and the question are repeated. Type and class need not both
  be those of an address: a query for another type (say IPv6) is answered with an IPv4 address too.\<close>

theorem dns_query_answered:
  assumes "dns_DnsName srv = s @ zeros (32 - length s)" and "no_nul s" and "length s \<le> 31"
    and "list_all label_ok ls" and "ls \<noteq> []" and "length tid = 2" and "length counts = 8"
    and "flag1 AND 0x80 = 0" and "flag1 AND 0x78 = 0" and "length qtype = 2" and "length qclass = 2"
    and "qtype = [0, 1] \<or> qclass = [0, 1]" and "heap 0" and "heap 1"
  shows "DNSS_RecvCb heap True (dns_query tid flag1 flag2 counts ls (qtype @ qclass) @ rest) srv =
    Some [if name_match ls s then address_reply tid ls (qtype @ qclass) (dns_HostIp srv) else error_reply tid ls (qtype @ qclass)]"
  by (rule RecvCb_exact[OF assms])

theorem dns_query_answered_witness:
  "DNSS_RecvCb (\<lambda>_. True) True (dns_query [0x12, 0x34] 0x01 0 [0, 1, 0, 0, 0, 0, 0, 0] [ascii ''LOCAL'', ascii ''nufront''] ([0, 28] @ [0, 1]) @ [])
      \<lparr>dns_Socket = 1, dns_DnsName = ascii ''local.nufront'' @ zeros (32 - length (ascii ''local.nufront'')), dns_HostIp = 0xFE640A0A\<rparr> =
    Some [if name_match [ascii ''LOCAL'', ascii ''nufront''] (ascii ''local.nufront'')
      then address_reply [0x12, 0x34] [ascii ''LOCAL'', ascii ''nufront''] ([0, 28] @ [0, 1])
        (dns_HostIp \<lparr>dns_Socket = 1, dns_DnsName = ascii ''local.nufront'' @ zeros (32 - length (ascii ''local.nufront'')), dns_HostIp = 0xFE640A0A\<rparr>)
      else error_reply [0x12, 0x34] [ascii ''LOCAL'', ascii ''nufront''] ([0, 28] @ [0, 1])]"
  by (rule dns_query_answered) (simp_all add: label_ok_def no_nul_def ascii_def)
end
