(* ===== verification/L2Link.thy ===== *)
theory L2Link
  imports DhcpServer DnsServer
begin

text \<open>
  The network side of a link that goes up or down (LwIP/port/lwIP.c): the address of the interface and,
  for the access point, the two servers, from the Wi-Fi parameters. The DHCP client of LwIP is an argument:
  the address it gets, or that it gave up.
\<close>

section \<open>State and operations\<close>

record l2 =
  l2_cfg :: CFG_PARAM
  nif_ip :: u32
  nif_netmask :: u32
  nif_gw :: u32
  nif_up :: bool
  l2_dns0 :: u32
  l2_dhcps :: DHCP_SERVER
  l2_dnss :: DNS_SERVER

abbreviation (input) "PARAM_NET_MODE_STA_BSS \<equiv> (0 :: u8)"
abbreviation (input) "PARAM_NET_MODE_SOFTAP \<equiv> (2 :: u8)"

text \<open>\<open>IP4_ADDR\<close>: the four bytes in the order of the network, as the word they make in memory.\<close>

definition IP4_ADDR :: "bytes \<Rightarrow> u32" where
  "IP4_ADDR b = mk32 (b ! 3) (b ! 2) (b ! 1) (b ! 0)"

definition LoadStaticParam :: "l2 \<Rightarrow> l2" where
  "LoadStaticParam s =
     (let p = IPCfg (l2_cfg s)
      in s\<lparr>nif_ip := IP4_ADDR (Ip p), nif_netmask := IP4_ADDR (Netmask p), nif_gw := IP4_ADDR (IpGateWay p),
           l2_dns0 := IP4_ADDR (Dns p), nif_up := True\<rparr>)"

definition ifUpWhenDhcp :: "u32 option \<Rightarrow> l2 \<Rightarrow> int \<times> l2" where
  "ifUpWhenDhcp lease s = (case lease of None \<Rightarrow> (-1, s) | Some ip \<Rightarrow> (0, s\<lparr>nif_ip := ip, nif_up := True\<rparr>))"

text \<open>The result of the second server replaces that of the first.\<close>

definition L2LinkUp :: "u32 option \<Rightarrow> bool \<Rightarrow> nat \<Rightarrow> l2 \<Rightarrow> (int \<times> l2) option" where
  "L2LinkUp lease pcb_dhcp pcb_dns s0 =
     (let p = l2_cfg s0;
          (Ret, s) = (if Protocol (WiFiCfg p) = PARAM_NET_MODE_STA_BSS \<and> bDhcp (IPCfg p) \<noteq> 0
            then ifUpWhenDhcp lease s0 else (0, LoadStaticParam s0))
      in if Protocol (WiFiCfg p) = PARAM_NET_MODE_SOFTAP
         then do {
           (Ret, s) \<leftarrow> (if bDhcpServer p \<noteq> 0
             then map_option (\<lambda>(e, d). (if e = DHCPS_ERR_SUCCESS then 0 else -1, s\<lparr>l2_dhcps := d\<rparr>))
               (DHCPS_Start (nif_up s) (nif_ip s) (nif_netmask s) pcb_dhcp (l2_dhcps s))
             else Some (Ret, s));
           (Ret, s) \<leftarrow> (if bDnsServer p \<noteq> 0
             then map_option (\<lambda>(e, d). (if e = DNSS_ERR_SUCCESS then 0 else -1, s\<lparr>l2_dnss := d\<rparr>))
               (DNSS_Start (nif_up s) (nif_ip s) pcb_dns (DnsName p) (l2_dnss s))
             else Some (Ret, s));
           Some (if Ret = 0 then 0 else -1, s)
         }
         else Some (if Ret = 0 then 0 else -1, s))"

definition L2LinkDown :: "l2 \<Rightarrow> nat list \<times> l2" where
  "L2LinkDown s =
     (let p = l2_cfg s;
          s = s\<lparr>nif_up := False, nif_ip := 0, nif_netmask := bswap32 0xFFFFFF00, nif_gw := 0\<rparr>
      in if Protocol (WiFiCfg p) = PARAM_NET_MODE_SOFTAP
         then let s = (if bDhcpServer p \<noteq> 0 then s\<lparr>l2_dhcps := DHCPS_Stop (l2_dhcps s)\<rparr> else s);
                  (gone, d) = (if bDnsServer p \<noteq> 0 then DNSS_Stop (l2_dnss s) else ([], l2_dnss s))
           in (gone, s\<lparr>l2_dnss := d\<rparr>)
         else ([], s))"

section \<open>Properties\<close>

lemma cfg_ok_name:
  assumes "cfg_ok c"
  obtains s where "cstr (DnsName c) = Some s" and "length s \<le> 32"
proof -
  have "length (DnsName c) = 33" "DnsName c ! 32 = 0" using assms by (simp_all add: cfg_ok_def)
  then have "0 \<in> set (DnsName c)" using nth_mem[of 32 "DnsName c"] by simp
  then obtain s where "cstr (DnsName c) = Some s" by (simp add: cstr_def)
  moreover have "length s \<le> 32" using cstr_length[OF calculation] \<open>length (DnsName c) = 33\<close> by simp
  ultimately show ?thesis by (rule that)
qed

lemma start_dns:
  assumes "cstr Name = Some s" and "length s \<le> 32" and "pcb \<noteq> 0"
  shows "DNSS_Start True ip pcb Name d = Some (DNSS_ERR_SUCCESS, \<lparr>dns_Socket = pcb, dns_DnsName = s @ zeros (32 - length s), dns_HostIp = ip\<rparr>)"
  using assms by (simp add: DNSS_Start_def Let_def put_def)

text \<open>The state of an access point whose servers are both wanted.\<close>

definition both_servers :: "l2 \<Rightarrow> bool" where
  "both_servers l \<longleftrightarrow> cfg_ok (l2_cfg l) \<and> Protocol (WiFiCfg (l2_cfg l)) = PARAM_NET_MODE_SOFTAP \<and>
     bDhcpServer (l2_cfg l) \<noteq> 0 \<and> bDnsServer (l2_cfg l) \<noteq> 0 \<and> length (DhcpMsg (l2_dhcps l)) = SIZEOF_DHCP_MSG"

lemma link_up_both:
  assumes "both_servers l" and "cstr (DnsName (l2_cfg l)) = Some s" and "pcb \<noteq> 0"
    and "IP4_ADDR (Netmask (IPCfg (l2_cfg l))) \<noteq> bswap32 0xFFFFFFFF"
  defines "ip \<equiv> IP4_ADDR (Ip (IPCfg (l2_cfg l)))" and "nm \<equiv> IP4_ADDR (Netmask (IPCfg (l2_cfg l)))"
  shows "\<exists>e d l'. DHCPS_Start True ip nm pcb_dhcp (l2_dhcps l) = Some (e, d) \<and> (pcb_dhcp \<longleftrightarrow> e = DHCPS_ERR_SUCCESS) \<and>
    L2LinkUp lease pcb_dhcp pcb l = Some (0, l') \<and> l2_dhcps l' = d \<and>
    l2_dnss l' = \<lparr>dns_Socket = pcb, dns_DnsName = s @ zeros (32 - length s), dns_HostIp = ip\<rparr>"
proof -
  have c: "cfg_ok (l2_cfg l)" using assms(1) by (simp add: both_servers_def)
  have s: "length s \<le> 32" using cfg_ok_name[OF c] assms(2) by (metis option.inject)
  have "NOT (bswap32 nm) \<noteq> 0"
  proof
    assume "NOT (bswap32 nm) = 0"
    then have "NOT (NOT (bswap32 nm)) = NOT 0" by simp
    then have "bswap32 nm = 0xFFFFFFFF" by simp
    then show False using assms(4) bswap32_bswap32[of nm] by (simp add: nm_def)
  qed
  then obtain e d where d: "DHCPS_Start True ip nm pcb_dhcp (l2_dhcps l) = Some (e, d)" "pcb_dhcp \<longleftrightarrow> e = DHCPS_ERR_SUCCESS"
    by (cases pcb_dhcp) (auto simp: DHCPS_Start_def Let_def)
  then show ?thesis
    using assms(1) start_dns[OF assms(2) s assms(3)] unfolding both_servers_def
    by (auto simp: L2LinkUp_def LoadStaticParam_def Let_def ip_def nm_def)
qed

text \<open>The first DISCOVER of a station, and the offer it gets: an address of the pool, for this station, with the
  type and the server's identifier where the option parser finds them.\<close>

definition dhcp_discover :: "bytes \<Rightarrow> bytes \<Rightarrow> bytes \<Rightarrow> bytes" where
  "dhcp_discover xid m fill = [1, 1, 6, 0] @ xid @ zeros 20 @ m @ zeros 202 @ [0x63, 0x82, 0x53, 0x63] @ [53, 1, DHCP_MSG_DISCOVER] @ 255 # fill"

definition offer_of :: "u32 list \<Rightarrow> u32 \<Rightarrow> bytes \<Rightarrow> bytes \<Rightarrow> bool" where
  "offer_of pool server m pkt \<longleftrightarrow> length pkt = 274 \<and> (\<exists>ip \<in> set pool. take 4 (drop 16 pkt) = le32 ip) \<and> take 6 (drop 28 pkt) = m \<and>
     (\<forall>past. ParseDhcpOptions (pkt @ zeros 274) past 0xff 0 0 = \<lparr>Ret = 5, pMsgType = DHCP_MSG_OFFER, pReqIpAddr = 0, pServerId = server\<rparr>)"

lemma discover_parsed:
  assumes "length xid = 4" and "length m = 6"
  shows "ParseDhcpOptions (dhcp_discover xid m fill) past 0xff 0 0 = \<lparr>Ret = 1, pMsgType = DHCP_MSG_DISCOVER, pReqIpAddr = 0, pServerId = 0\<rparr>"
    and "dhcp_discover xid m fill ! 0 = 1" and "dhcp_discover xid m fill ! 1 = 1" and "take 6 (drop 28 (dhcp_discover xid m fill)) = m"
    and "bswap32 (peek32 (dhcp_discover xid m fill) past 236) = DHCP_MAGIC"
proof -
  let ?h = "[1, 1, 6, 0] @ xid @ zeros 20 @ m @ zeros 202 @ [0x63, 0x82, 0x53, 0x63]" and ?o = "[(53, [DHCP_MSG_DISCOVER])]"
  have h: "length ?h = 240" using assms by simp
  have o: "list_all option_ok ?o" by (simp add: option_ok_def)
  have e: "dhcp_discover xid m fill = ?h @ concat (map enc_option ?o) @ 255 # fill" by (simp add: dhcp_discover_def enc_option_def)
  show "ParseDhcpOptions (dhcp_discover xid m fill) past 0xff 0 0 = \<lparr>Ret = 1, pMsgType = DHCP_MSG_DISCOVER, pReqIpAddr = 0, pServerId = 0\<rparr>"
    using parse_options_encoded[OF o, of ?h fill past] h unfolding e ParseDhcpOptions_def
    by (simp add: SIZEOF_DHCP_MSG_def apply_option_def Let_def)
  show "dhcp_discover xid m fill ! 0 = 1" "dhcp_discover xid m fill ! 1 = 1" by (simp_all add: dhcp_discover_def)
  show "take 6 (drop 28 (dhcp_discover xid m fill)) = m" using assms by (simp add: dhcp_discover_def)
  have k: "peek (dhcp_discover xid m fill) past (236 + j) = [0x63, 0x82, 0x53, 0x63] ! j" if "j < 4" for j
    using that assms peek_mid[of "236 + j" "[1, 1, 6, 0] @ xid @ zeros 20 @ m @ zeros 202" j "[0x63, 0x82, 0x53, 0x63]"]
    by (simp add: dhcp_discover_def)
  have "peek32 (dhcp_discover xid m fill) past 236 = mk32 0x63 0x53 0x82 0x63"
    using k[of 0] k[of 1] k[of 2] k[of 3] by (simp add: peek32_def)
  then show "bswap32 (peek32 (dhcp_discover xid m fill) past 236) = DHCP_MAGIC" by (simp add: DHCP_MAGIC_def) code_simp
qed

lemma idle_choice:
  assumes "list_all (\<lambda>c. \<not> active c) (Clients s)" and "Clients s \<noteq> []"
  shows "\<exists>i < length (Clients s). ClientTableLookup m DHCP_MSG_DISCOVER ip sid s = (Some i, set_mac i m s)"
proof -
  let ?l = "lookup_scan m ip (Clients s)"
  have n: "pMyClient ?l = None"
    using lookup_my[where M = m and r = ip and cs = "Clients s"] assms(1) by (auto simp: list_all_length split: option.splits)
  have f: "pFreeClient ?l \<noteq> None \<or> pHistoryClient ?l \<noteq> None"
    using lookup_full[where M = m and r = ip and cs = "Clients s"] assms by (cases "Clients s") auto
  have "\<exists>i < length (Clients s). lookup_discover ?l s = (Some i, s)"
    using n f lookup_idle[where M = m and r = ip and cs = "Clients s"]
    by (cases "pReqClient ?l"; cases "pMyHistoryClient ?l"; cases "pFreeClient ?l"; cases "pHistoryClient ?l") (simp_all add: lookup_discover_def)
  then obtain i where i: "lookup_discover ?l s = (Some i, s)" "i < length (Clients s)" by blast
  then show ?thesis by (simp add: ClientTableLookup_def Let_def)
qed

lemma start_running: "DHCPS_Start True ip nm pcb s0 = Some (DHCPS_ERR_SUCCESS, s) \<Longrightarrow> Socket s \<and> Enable s = 1"
  by (auto simp: DHCPS_Start_def Let_def split: if_splits)

lemma first_offer:
  assumes "DHCPS_Start True ip nm True s0 = Some (DHCPS_ERR_SUCCESS, s)" and "length (DhcpMsg s0) = SIZEOF_DHCP_MSG"
    and "length xid = 4" and "length m = 6" and "length fill \<le> 304"
  shows "\<exists>d pkt. DHCPS_RecvCb True past (dhcp_discover xid m fill) s = Some (d, [pkt]) \<and> offer_of (dhcp_pool ip nm) ip m pkt"
proof -
  let ?P = "dhcp_discover xid m fill" and ?Q = "dhcp_discover xid m (fill @ drop (244 + length fill) (DhcpMsg s))"
  let ?s = "s\<lparr>DhcpMsg := ?Q\<rparr>"
  note p = discover_parsed[OF assms(3,4), of "fill @ drop (244 + length fill) (DhcpMsg s)"]
  have s: "map IpAddr (Clients s) = dhcp_pool ip nm" "list_all (\<lambda>c. \<not> active c) (Clients s)" "Clients s \<noteq> []" "ServerIpAddr s = ip"
    "length (DhcpMsg s) = 548"
    using assms(1,2) by (auto simp: DHCPS_Start_def Let_def dhcps_zero_def dhcp_pool_def list_all_iff SIZEOF_DHCP_MSG_def
      DHCPS_HISTORY_CLIENT_NUM_def upt_0_8 split: if_splits)
  have l: "length ?P = 244 + length fill" "length ?P \<le> 548" using assms(3-5) by (simp_all add: dhcp_discover_def)
  have "list_all (\<lambda>c. \<not> active c) (Clients ?s)" "Clients ?s \<noteq> []" using s(2,3) by simp_all
  from idle_choice[OF this, of m 0 0] obtain i where i: "i < length (Clients s)"
    "ClientTableLookup m DHCP_MSG_DISCOVER 0 0 ?s = (Some i, set_mac i m ?s)" by auto
  define s2 where "s2 = set_state i DHCP_CLIENT_STATE_SELECT (set_mac i m ?s)"
  have "put (DhcpMsg s) 0 ?P = ?P @ drop (244 + length fill) (DhcpMsg s)" by (simp add: put_def l(1))
  then have msg: "put (DhcpMsg s) 0 ?P = ?Q" by (simp add: dhcp_discover_def)
  have whole: "take SIZEOF_DHCP_MSG ?P = ?P" "length ?P \<noteq> 0" using l by (simp_all add: SIZEOF_DHCP_MSG_def)
  have c: "IpAddr (Clients s2 ! i) = dhcp_pool ip nm ! i" "MacAddr (Clients s2 ! i) = m" "ServerIpAddr s2 = ip"
    "dhcp_pool ip nm ! i \<in> set (dhcp_pool ip nm)"
    using i(1) s(1,4) by (auto simp: s2_def set_state_def set_mac_def upd_client_def s(1)[symmetric])
  have idle: "State (Clients (set_mac i m ?s) ! i) = DHCP_CLIENT_STATE_IDLE"
    using i(1) s(2) by (simp add: set_mac_def upd_client_def list_all_length)
  obtain x where x: "DHCPS_RecvCb True past ?P s = sme_offer True i x s2"
    using whole(2) i(2) idle unfolding DHCPS_RecvCb_def Let_def whole(1) msg p
    by (simp add: DhcpClientSMEHandle_def s2_def)
  obtain d pkt where o: "DHCPOfferGenAndSend True i x s2 = Some (d, [pkt])" "lease_reply_ok DHCP_MSG_OFFER s2 i pkt"
  proof -
    obtain msg n where m: "lease_msg DHCP_MSG_OFFER s2 (Clients s2 ! i) (MacAddr (Clients s2 ! i)) x = Some (msg, n)" by (simp add: lease_msg_eq)
    show ?thesis using that[of "s2\<lparr>DhcpMsg := msg\<rparr>" "take n msg"] lease_msg_ok[OF m] m by (simp add: DHCPOfferGenAndSend_def send_reply_def)
  qed
  have "offer_of (dhcp_pool ip nm) ip m pkt" using o(2) c assms(4) by (auto simp: lease_reply_ok_def offer_of_def)
  then show ?thesis using x o(1) by (simp add: sme_offer_def)
qed

text \<open>C8 The access point as a whole. For every valid configuration of the Wi-Fi parameters with both servers
  on, a name of at most 31 characters, a netmask that is not all ones, and an own address for which the eight
  addresses of the pool are distinct (in a /24 a server at host 248 to 253 repeats one), bringing the link up
  succeeds. From then on both servers run: a name query is answered as the name of the configuration says, with
  the address of the configuration; the first DISCOVER is answered by the offer of an address of the pool; and
  no history of the DHCP server leases an address of its pool twice.\<close>

theorem access_point_services:
  assumes "both_servers l" and "cstr (DnsName (l2_cfg l)) = Some s" and "length s \<le> 31" and "pcb \<noteq> 0"
    and "IP4_ADDR (Netmask (IPCfg (l2_cfg l))) \<noteq> bswap32 0xFFFFFFFF"
    and "distinct (dhcp_pool (IP4_ADDR (Ip (IPCfg (l2_cfg l)))) (IP4_ADDR (Netmask (IPCfg (l2_cfg l)))))"
    and "list_all label_ok ls" and "ls \<noteq> []" and "length tid = 2" and "length counts = 8"
    and "flag1 AND 0x80 = 0" and "flag1 AND 0x78 = 0" and "heap 0" and "heap 1"
    and "length xid = 4" and "length m = 6" and "length fill \<le> 304"
  shows "\<exists>l' d d1 pkt. L2LinkUp lease True pcb l = Some (0, l') \<and> Socket (l2_dhcps l') \<and> Enable (l2_dhcps l') = 1 \<and>
    DHCPS_RecvCb True past (dhcp_discover xid m fill) (l2_dhcps l') = Some (d1, [pkt]) \<and>
    offer_of (dhcp_pool (IP4_ADDR (Ip (IPCfg (l2_cfg l)))) (IP4_ADDR (Netmask (IPCfg (l2_cfg l))))) (IP4_ADDR (Ip (IPCfg (l2_cfg l)))) m pkt \<and>
    DNSS_RecvCb heap True (dns_query tid flag1 flag2 counts ls ([0, 1] @ [0, 1]) @ rest) (l2_dnss l') =
      Some [if name_match ls s then address_reply tid ls ([0, 1] @ [0, 1]) (IP4_ADDR (Ip (IPCfg (l2_cfg l))))
        else error_reply tid ls ([0, 1] @ [0, 1])] \<and>
    fold dhcp_step es (Some (l2_dhcps l')) = Some d \<and> leases_disjoint (Clients d)"
proof -
  let ?ip = "IP4_ADDR (Ip (IPCfg (l2_cfg l)))" and ?nm = "IP4_ADDR (Netmask (IPCfg (l2_cfg l)))"
  obtain d0 l' where l': "DHCPS_Start True ?ip ?nm True (l2_dhcps l) = Some (DHCPS_ERR_SUCCESS, d0)"
    "L2LinkUp lease True pcb l = Some (0, l')" "l2_dhcps l' = d0"
    "l2_dnss l' = \<lparr>dns_Socket = pcb, dns_DnsName = s @ zeros (32 - length s), dns_HostIp = ?ip\<rparr>"
    using link_up_both[OF assms(1,2,4,5), of True lease] by auto
  have len: "length (DhcpMsg (l2_dhcps l)) = SIZEOF_DHCP_MSG" using assms(1) by (simp add: both_servers_def)
  obtain d where d: "fold dhcp_step es (Some d0) = Some d" "leases_disjoint (Clients d)"
    using no_shared_lease[OF len l'(1) assms(6), of es] by blast
  have nn: "no_nul s" by (rule cstr_no_nul[OF assms(2)])
  have "DNSS_RecvCb heap True (dns_query tid flag1 flag2 counts ls ([0, 1] @ [0, 1]) @ rest) (l2_dnss l') =
      Some [if name_match ls s then address_reply tid ls ([0, 1] @ [0, 1]) (dns_HostIp (l2_dnss l')) else error_reply tid ls ([0, 1] @ [0, 1])]"
    by (rule RecvCb_exact) (use assms nn l'(4) in simp_all)
  moreover have "Socket d0" "Enable d0 = 1" using start_running[OF l'(1)] by simp_all
  ultimately show ?thesis using l' d first_offer[OF l'(1) len assms(15-17), of past] by auto
qed

definition default_l2 :: l2 where
  "default_l2 = \<lparr>l2_cfg = \<lparr>WiFiCfg = default_wifi [0, 1, 2, 3, 4, 5], IPCfg = default_ip, bDhcpServer = 1, bDnsServer = 1,
       DnsName = put (zeros 33) 0 (ascii ''local.nufront'' @ [0])\<rparr>,
     nif_ip = 0, nif_netmask = 0, nif_gw = 0, nif_up = False, l2_dns0 = 0, l2_dhcps = dhcps_off,
     l2_dnss = \<lparr>dns_Socket = 0, dns_DnsName = zeros 32, dns_HostIp = 0\<rparr>\<rparr>"

lemma default_l2_ok:
  "both_servers default_l2" "cstr (DnsName (l2_cfg default_l2)) = Some (ascii ''local.nufront'')"
  "IP4_ADDR (Netmask (IPCfg (l2_cfg default_l2))) = bswap32 0xFFFFFF00" "IP4_ADDR (Ip (IPCfg (l2_cfg default_l2))) = bswap32 0x0A0A64FE"
  "Protocol (WiFiCfg (l2_cfg default_l2)) = 2" "bDhcpServer (l2_cfg default_l2) = 1" "bDnsServer (l2_cfg default_l2) = 1"
proof -
  show "both_servers default_l2"
    by (simp add: both_servers_def default_l2_def cfg_ok_def wifi_ok_def default_wifi_def dhcps_off_def dhcps_zero_def) code_simp
  show "cstr (DnsName (l2_cfg default_l2)) = Some (ascii ''local.nufront'')" by (simp add: default_l2_def) code_simp
qed (simp_all add: default_l2_def default_ip_def IP4_ADDR_def default_wifi_def, code_simp+)

theorem access_point_services_witness:
  "\<exists>l' d d1 pkt. L2LinkUp None True 7 default_l2 = Some (0, l') \<and> Socket (l2_dhcps l') \<and> Enable (l2_dhcps l') = 1 \<and>
    DHCPS_RecvCb True (\<lambda>_. 0) (dhcp_discover [1, 2, 3, 4] [0, 1, 2, 3, 4, 5] (zeros 304)) (l2_dhcps l') = Some (d1, [pkt]) \<and>
    offer_of (dhcp_pool (IP4_ADDR (Ip (IPCfg (l2_cfg default_l2)))) (IP4_ADDR (Netmask (IPCfg (l2_cfg default_l2)))))
      (IP4_ADDR (Ip (IPCfg (l2_cfg default_l2)))) [0, 1, 2, 3, 4, 5] pkt \<and>
    DNSS_RecvCb (\<lambda>_. True) True (dns_query [1, 2] 1 0 [0, 1, 0, 0, 0, 0, 0, 0] [ascii ''local'', ascii ''nufront''] ([0, 1] @ [0, 1]) @ []) (l2_dnss l') =
      Some [if name_match [ascii ''local'', ascii ''nufront''] (ascii ''local.nufront'')
        then address_reply [1, 2] [ascii ''local'', ascii ''nufront''] ([0, 1] @ [0, 1]) (IP4_ADDR (Ip (IPCfg (l2_cfg default_l2))))
        else error_reply [1, 2] [ascii ''local'', ascii ''nufront''] ([0, 1] @ [0, 1])] \<and>
    fold dhcp_step [Recv True (\<lambda>_. 0) (zeros 548), Tick (\<lambda>_. True)] (Some (l2_dhcps l')) = Some d \<and> leases_disjoint (Clients d)"
proof (rule access_point_services[OF default_l2_ok(1,2)])
  show "IP4_ADDR (Netmask (IPCfg (l2_cfg default_l2))) \<noteq> bswap32 0xFFFFFFFF" unfolding default_l2_ok by simp
  show "distinct (dhcp_pool (IP4_ADDR (Ip (IPCfg (l2_cfg default_l2)))) (IP4_ADDR (Netmask (IPCfg (l2_cfg default_l2)))))"
    unfolding default_l2_ok by (simp add: dhcp_pool_def DHCPS_HISTORY_CLIENT_NUM_def pool_ip_def pool_host_def Let_def upt_0_8)
qed (simp_all add: label_ok_def no_nul_def ascii_def)

text \<open>What a link up does not report: if the DHCP server gets no control block, the result is still success,
  since the result of the DNS server replaces it; and a netmask of all ones, which the parameters accept,
  makes the DHCP server divide by zero.\<close>

theorem softap_failure_hidden:
  assumes "both_servers l" and "pcb \<noteq> 0"
  shows "(IP4_ADDR (Netmask (IPCfg (l2_cfg l))) \<noteq> bswap32 0xFFFFFFFF \<longrightarrow>
      (\<exists>l'. L2LinkUp lease False pcb l = Some (0, l') \<and> \<not> Socket (l2_dhcps l') \<and> Enable (l2_dhcps l') = 0)) \<and>
    (IP4_ADDR (Netmask (IPCfg (l2_cfg l))) = bswap32 0xFFFFFFFF \<longrightarrow> L2LinkUp lease pcb_dhcp pcb l = None)"
proof (intro conjI impI)
  have c: "cfg_ok (l2_cfg l)" using assms(1) by (simp add: both_servers_def)
  obtain s where s: "cstr (DnsName (l2_cfg l)) = Some s" by (rule cfg_ok_name[OF c])
  assume m: "IP4_ADDR (Netmask (IPCfg (l2_cfg l))) \<noteq> bswap32 0xFFFFFFFF"
  from link_up_both[OF assms(1) s assms(2) m, of False lease]
  show "\<exists>l'. L2LinkUp lease False pcb l = Some (0, l') \<and> \<not> Socket (l2_dhcps l') \<and> Enable (l2_dhcps l') = 0"
    by (auto simp: DHCPS_Start_def dhcps_zero_def Let_def split: if_splits)
next
  assume "IP4_ADDR (Netmask (IPCfg (l2_cfg l))) = bswap32 0xFFFFFFFF"
  moreover have "NOT (0xFFFFFFFF :: u32) = 0" by simp
  ultimately show "L2LinkUp lease pcb_dhcp pcb l = None"
    using assms(1) by (simp add: both_servers_def L2LinkUp_def LoadStaticParam_def Let_def DHCPS_Start_def)
qed

definition all_ones_l2 :: l2 where
  "all_ones_l2 = default_l2\<lparr>l2_cfg := (l2_cfg default_l2)\<lparr>IPCfg := (IPCfg (l2_cfg default_l2))\<lparr>Netmask := [255, 255, 255, 255]\<rparr>\<rparr>\<rparr>"

theorem softap_failure_hidden_witness:
  "(\<exists>l'. L2LinkUp None False 7 default_l2 = Some (0, l') \<and> \<not> Socket (l2_dhcps l') \<and> Enable (l2_dhcps l') = 0) \<and>
    both_servers all_ones_l2 \<and> L2LinkUp None True 7 all_ones_l2 = None"
proof (intro conjI)
  have b: "both_servers all_ones_l2"
    using default_l2_ok(1) by (simp add: both_servers_def all_ones_l2_def cfg_ok_def)
  show "both_servers all_ones_l2" by (rule b)
  have "IP4_ADDR (Netmask (IPCfg (l2_cfg all_ones_l2))) = bswap32 0xFFFFFFFF" by (simp add: all_ones_l2_def IP4_ADDR_def) code_simp
  then show "L2LinkUp None True 7 all_ones_l2 = None" using softap_failure_hidden[OF b, of 7 None True] by simp
  show "\<exists>l'. L2LinkUp None False 7 default_l2 = Some (0, l') \<and> \<not> Socket (l2_dhcps l') \<and> Enable (l2_dhcps l') = 0"
    using softap_failure_hidden[OF default_l2_ok(1), of 7 None True] unfolding default_l2_ok by simp
qed

text \<open>The control block of the DNS server is given back at every link down, also the second time.\<close>

lemma dns_pcb_freed_twice:
  assumes "both_servers l" and "dns_Socket (l2_dnss l) = pcb" and "pcb \<noteq> 0"
  shows "fst (L2LinkDown l) = [pcb] \<and> fst (L2LinkDown (snd (L2LinkDown l))) = [pcb]"
  using assms by (simp add: both_servers_def L2LinkDown_def DNSS_Stop_def Let_def)

end
