(* ===== verification/NetAdapter.thy ===== *)
theory NetAdapter
  imports McuGateway
begin

text \<open>
  What the cloud client keeps between its calls (the rest of \<open>g_Xpg_GlobalVar\<close> and the globals of
  system/gagent_login_cloud.c, cloud/mqttxpg.c, wifi/Wifi_mode.c), what it gets from the outside, and
  the adapter to the LwIP stack (App/GizWitsWifi/lib/adapter_ucos.c): host names, server sockets.
\<close>

section \<open>State\<close>

record cloud =
  gwst :: gw
  g_ConCloud_Status :: int
  connect2CloudLastTime :: u32
  send2HttpLastTime :: u32
  m2m_SERVER :: bytes
  m2m_Port :: int
  a_mac :: bytes
  http_socketid :: int
  phoneClientId :: bytes
  g_Msgsub_id :: u16
  Clientid :: bytes
  pingTime :: u32
  loseTime :: u32
  socket_flag :: int
  g_MQTTBuffer :: bytes
  wifiStatus :: u16
  domain_ipaddr :: u32
  domain_flag :: u32
  pdomainSem :: nat
  packet_copies :: nat

text \<open>
  \<open>packet_copies\<close> counts the heap blocks of \<open>Mqtt_DispatchPublishPacket\<close> that are allocated and not
  released.

  One pass of the cloud task asks the outside at most once for a host name, a socket and a connection,
  and receives at most once. A receive is what \<open>select\<close> and \<open>recv\<close> give: the bytes that wait in the
  socket, of which \<open>recv\<close> takes what fits. A lookup that \<open>dns_gethostbyname\<close> cannot answer at once
  calls \<open>Gagent_ServerFound\<close> later; \<open>DnsPending\<close> lists the addresses (0 for a failure) of the calls
  that happen while the task waits. \<open>ce_time i\<close> is the \<open>i\<close>th \<open>nl6621_GetTime_S\<close> of the pass,
  \<open>ce_stack\<close> what an uninitialised local array holds.
\<close>

datatype recv_result = SelectFailed | NothingReceived | RecvFailed | Received bytes

datatype dns_answer = DnsCached u32 | DnsPending "u32 list" | DnsError

record cloud_env =
  ce :: env
  ce_time :: "nat \<Rightarrow> u32"
  ce_dns :: dns_answer
  ce_socket :: int
  ce_connect :: int
  ce_recv :: recv_result
  ce_stack :: bytes
  ce_rand :: "nat list"

text \<open>A gateway operation inside the cloud client.\<close>

definition with_gw :: "(gw \<Rightarrow> gw) \<Rightarrow> cloud \<Rightarrow> cloud" where
  "with_gw f c = c\<lparr>gwst := f (gwst c)\<rparr>"

section \<open>Host names\<close>

definition InitDomainSem :: "cloud \<Rightarrow> cloud" where
  "InitDomainSem c = c\<lparr>pdomainSem := 0\<rparr>"

definition Gagent_ServerFound :: "u32 \<Rightarrow> cloud \<Rightarrow> cloud" where
  "Gagent_ServerFound ipaddr c =
     (let c = (if ipaddr \<noteq> 0 then c\<lparr>domain_ipaddr := ipaddr, domain_flag := 1\<rparr> else c\<lparr>domain_flag := 0\<rparr>)
      in c\<lparr>pdomainSem := pdomainSem c + 1\<rparr>)"

text \<open>\<open>OSSemPend\<close> with a time limit: takes the semaphore, or leaves it when the time is over.\<close>

definition sem_pend :: "cloud \<Rightarrow> cloud" where
  "sem_pend c = c\<lparr>pdomainSem := pdomainSem c - 1\<rparr>"

text \<open>The dotted string of \<open>inet_ntoa\<close>, read back by \<open>inet_addr\<close>, is the address.\<close>

definition GAgent_GetHostByName :: "dns_answer \<Rightarrow> cloud \<Rightarrow> u32 option \<times> cloud" where
  "GAgent_GetHostByName answer c = (case answer of
     DnsCached a \<Rightarrow> (Some a, c)
   | DnsPending calls \<Rightarrow>
       (let c = sem_pend (fold Gagent_ServerFound calls c)
        in (if domain_flag c = 1 then Some (domain_ipaddr c) else None, c))
   | DnsError \<Rightarrow> (None, c))"

section \<open>Sockets\<close>

definition connect_mqtt_socket :: "int \<Rightarrow> u16 \<Rightarrow> u32 \<Rightarrow> effect list" where
  "connect_mqtt_socket iSocketId port ip = [ConnectTo iSocketId ip port]"

text \<open>
  The server sockets: \<open>fd\<close> is the global (-1 for none), \<open>s\<close> what \<open>socket\<close> returns, \<open>bind_ok\<close> and
  \<open>listen_ok\<close> whether these succeed. The TCP server is not created twice, the UDP servers are left
  as they are.
\<close>

definition Socket_CreateTCPServer :: "int \<Rightarrow> bool \<Rightarrow> bool \<Rightarrow> u16 \<Rightarrow> int \<Rightarrow> int \<times> int \<times> effect list" where
  "Socket_CreateTCPServer s bind_ok listen_ok port fd =
     (if fd = -1 then
        if s < 0 then (-1, -1, [])
        else if \<not> bind_ok \<or> \<not> listen_ok then (-1, -1, [BindTo s port, CloseFd s])
        else (0, s, [BindTo s port])
      else (-1, fd, []))"

definition Socket_CreateUDPServer :: "int \<Rightarrow> bool \<Rightarrow> u16 \<Rightarrow> gw \<Rightarrow> int \<times> gw \<times> effect list" where
  "Socket_CreateUDPServer s bind_ok port g =
     (if g_UDPServerFd g = -1 then
        if s < 1 then (-1, g, [])
        else if \<not> bind_ok then (-1, g, [BindTo s port, CloseFd s])
        else (0, g\<lparr>g_UDPServerFd := s\<rparr>, [BindTo s port])
      else (0, g, []))"

definition Socket_CreateUDPBroadCastServer :: "int \<Rightarrow> bool \<Rightarrow> u16 \<Rightarrow> gw \<Rightarrow> int \<times> gw \<times> effect list" where
  "Socket_CreateUDPBroadCastServer s bind_ok port g =
     (if g_UDPBroadcastServerFd g = -1 then
        if s < 0 then (-1, g, [])
        else let g = g\<lparr>g_stUDPBroadcastAddr := (0xFFFFFFFF, port)\<rparr>
          in if \<not> bind_ok then (-1, g, [BindTo s port, CloseFd s])
             else (0, g\<lparr>g_UDPBroadcastServerFd := s\<rparr>, [BindTo s port])
      else (0, g, []))"

section \<open>The resolver\<close>

lemma ServerFound_sem [simp]: "pdomainSem (Gagent_ServerFound a c) = pdomainSem c + 1"
  by (simp add: Gagent_ServerFound_def Let_def)

lemma ServerFound_gwst [simp]: "gwst (Gagent_ServerFound a c) = gwst c"
  by (simp add: Gagent_ServerFound_def Let_def)

lemma fold_ServerFound_gwst [simp]: "gwst (fold Gagent_ServerFound calls c) = gwst c"
  by (induction calls arbitrary: c) simp_all

lemma fold_ServerFound_more [simp]:
  "g_ConCloud_Status (fold Gagent_ServerFound calls c) = g_ConCloud_Status c"
  "http_socketid (fold Gagent_ServerFound calls c) = http_socketid c"
  "packet_copies (fold Gagent_ServerFound calls c) = packet_copies c"
  by (induction calls arbitrary: c) (simp_all add: Gagent_ServerFound_def Let_def)

lemma GetHostByName_frame [simp]:
  "gwst (snd (GAgent_GetHostByName a c)) = gwst c"
  "g_ConCloud_Status (snd (GAgent_GetHostByName a c)) = g_ConCloud_Status c"
  "http_socketid (snd (GAgent_GetHostByName a c)) = http_socketid c"
  "packet_copies (snd (GAgent_GetHostByName a c)) = packet_copies c"
  by (simp_all add: GAgent_GetHostByName_def sem_pend_def Let_def split: dns_answer.split)

text \<open>C40 A lookup whose answer does not come in time returns, as the address of the host it was asked
  for, the address of the last host that was resolved by a callback; the late answer then leaves the
  semaphore signalled, so that the next lookup does not wait at all and again returns a previous answer.\<close>

theorem lookup_timeout_stale:
  assumes "a \<noteq> 0" and "b \<noteq> 0" and "pdomainSem c = 0"
  shows "let (r1, c1) = GAgent_GetHostByName (DnsPending [a]) c;
             (r2, c2) = GAgent_GetHostByName (DnsPending []) c1;
             (r3, c3) = GAgent_GetHostByName (DnsPending []) (Gagent_ServerFound b c2)
         in r1 = Some a \<and> r2 = Some a \<and> r3 = Some b \<and> pdomainSem c3 = 0"
  using assms by (simp add: GAgent_GetHostByName_def Gagent_ServerFound_def sem_pend_def Let_def)

text \<open>The state after power up, for examples: station mode, nothing resolved, no connection.\<close>

definition cloud0 :: cloud where
  "cloud0 = \<lparr>gwst = gw0\<lparr>g_stMQTTBroker := broker0\<lparr>mb_socketid := -1\<rparr>\<rparr>, g_ConCloud_Status = -1, connect2CloudLastTime = 0,
     send2HttpLastTime = 0, m2m_SERVER = zeros 100, m2m_Port = 0, a_mac = ascii ''0102030405ff'' @ zeros 4,
     http_socketid = 0, phoneClientId = zeros 32, g_Msgsub_id = 0, Clientid = zeros 24, pingTime = 0, loseTime = 0,
     socket_flag = 0, g_MQTTBuffer = zeros 2048, wifiStatus = 18, domain_ipaddr = 0, domain_flag = 0, pdomainSem = 0,
     packet_copies = 0\<rparr>"

theorem lookup_timeout_stale_witness:
  "let (r1, c1) = GAgent_GetHostByName (DnsPending [0x01020304]) cloud0;
             (r2, c2) = GAgent_GetHostByName (DnsPending []) c1;
             (r3, c3) = GAgent_GetHostByName (DnsPending []) (Gagent_ServerFound 0x05060708 c2)
         in r1 = Some 0x01020304 \<and> r2 = Some 0x01020304 \<and> r3 = Some 0x05060708 \<and> pdomainSem c3 = 0"
  by (rule lookup_timeout_stale) (simp_all add: cloud0_def)

end
