(* ===== verification/MqttSession.thy ===== *)
theory MqttSession
  imports NetAdapter
begin

text \<open>
  The MQTT session (App/GizWitsWifi/cloud/mqttxpg.c, the socket part of cloud/MqttSTM.c): connecting to
  the broker, subscribing to the three topics one after the other, running commands that arrive by
  PUBLISH, and the heart beat. The build without the update over MQTT (\<open>GAGENT_FEATURE_OTA\<close> is 0); the
  calls that switch the power saving of the radio on and off (\<open>InfPowerSaveSet\<close>) are left out.
\<close>

abbreviation (input) "CONCLOUD_INVALID \<equiv> (-1 :: int)"
abbreviation (input) "CONCLOUD_REQ_DID \<equiv> (1 :: int)"
abbreviation (input) "CONCLOUD_REQ_DID_ACK \<equiv> (2 :: int)"
abbreviation (input) "CONCLOUD_REQ_M2MINFO \<equiv> (3 :: int)"
abbreviation (input) "CONCLOUD_REQ_M2MINFO_ACK \<equiv> (4 :: int)"
abbreviation (input) "CONCLOUD_REQ_LOGIN \<equiv> (7 :: int)"
abbreviation (input) "CONCLOUD_RUNNING \<equiv> (8 :: int)"
abbreviation (input) "SYS_STATUS_WIFI_STA_LOGIN \<equiv> (4 :: u8)"

section \<open>Subscribing\<close>

definition init_subTopic :: "gw \<Rightarrow> bytes \<Rightarrow> nat \<Rightarrow> bytes option" where
  "init_subTopic g Sub_TopicBuf Mqtt_Subflag =
     (if Mqtt_Subflag = 1 then do {
        b \<leftarrow> wr_seg Sub_TopicBuf 0 (ascii ''ser2cli_noti/'');
        key \<leftarrow> rd_seg (product_key g) 0 32;
        b \<leftarrow> wr_seg b 13 key;
        wr b (13 + g_productKeyLen g) 0
      } else if Mqtt_Subflag = 2 then do {
        b \<leftarrow> wr_seg Sub_TopicBuf 0 (ascii ''ser2cli_res/'');
        did \<leftarrow> cstr (DID g);
        b \<leftarrow> wr_seg b 12 did;
        wr b (12 + length did) 0
      } else if Mqtt_Subflag = 3 then do {
        b \<leftarrow> wr_seg Sub_TopicBuf 0 (ascii ''app2dev/'');
        did \<leftarrow> cstr (DID g);
        b \<leftarrow> wr_seg b 8 did;
        b \<leftarrow> wr b (8 + length did) 0x2f;
        b \<leftarrow> wr b (8 + length did + 1) 0x23;
        wr b (8 + length did + 2) 0
      } else Some Sub_TopicBuf)"

text \<open>The socket of the broker, and what is sent on it.\<close>

definition broker_fd :: "cloud \<Rightarrow> int" where
  "broker_fd c = mb_socketid (g_stMQTTBroker (gwst c))"

definition set_mqtt_status :: "int \<Rightarrow> cloud \<Rightarrow> cloud" where
  "set_mqtt_status s = with_gw (\<lambda>g. g\<lparr>g_MQTTStatus := s\<rparr>)"

definition Mqtt_IntoRunning :: "env \<Rightarrow> cloud \<Rightarrow> cloud \<times> effect list" where
  "Mqtt_IntoRunning e c =
     (set_mqtt_status MQTT_STATUS_RUNNING c,
      map (Send (broker_fd c)) (snd (mqtt_ping (e_send e) (g_stMQTTBroker (gwst c)))))"

text \<open>
  One subscription: the topic is built in an array of 100 bytes, the id of the request kept, and, if
  the packet went out, the next status entered. The topic is printed with a prefix of \<open>k\<close> characters,
  a newline and the terminator into a second array of 100.
\<close>

definition subscribe_stage :: "env \<Rightarrow> nat \<Rightarrow> nat \<Rightarrow> int \<Rightarrow> cloud \<Rightarrow> (cloud \<times> effect list) option" where
  "subscribe_stage e n k next_status c = do {
     topic \<leftarrow> init_subTopic (gwst c) (zeros 100) n;
     (r, b, id, packets) \<leftarrow> mqtt_subscribe (e_mem e) (e_send e) (g_stMQTTBroker (gwst c)) topic True;
     let c' = (with_gw (\<lambda>g. g\<lparr>g_stMQTTBroker := b\<rparr>) c)\<lparr>g_Msgsub_id := (case id of Some i \<Rightarrow> i | None \<Rightarrow> g_Msgsub_id c)\<rparr>;
     t \<leftarrow> cstr topic;
     if r = 1 then
       if k + length t + 2 \<le> 100 then Some (set_mqtt_status next_status c', map (Send (broker_fd c)) packets) else None
     else Some (c', map (Send (broker_fd c)) packets)
   }"

definition Mqtt_SubLoginTopic :: "env \<Rightarrow> cloud \<Rightarrow> (cloud \<times> effect list) option" where
  "Mqtt_SubLoginTopic e c =
     (if g_MQTTStatus (gwst c) = MQTT_STATUS_LOGIN then subscribe_stage e 1 19 MQTT_STATUS_LOGINTOPIC1 c
      else if g_MQTTStatus (gwst c) = MQTT_STATUS_LOGINTOPIC1 then subscribe_stage e 2 22 MQTT_STATUS_LOGINTOPIC2 c
      else if g_MQTTStatus (gwst c) = MQTT_STATUS_LOGINTOPIC2 then subscribe_stage e 3 22 MQTT_STATUS_LOGINTOPIC3 c
      else if g_MQTTStatus (gwst c) = MQTT_STATUS_LOGINTOPIC3 then Some (Mqtt_IntoRunning e c)
      else Some (c, []))"

section \<open>The heart beat\<close>

definition Cloud_HB_Status_init :: "cloud \<Rightarrow> cloud" where
  "Cloud_HB_Status_init c = c\<lparr>pingTime := 0, loseTime := 0\<rparr>"

definition set_broker_fd :: "int \<Rightarrow> cloud \<Rightarrow> cloud" where
  "set_broker_fd fd = with_gw (\<lambda>g. g\<lparr>g_stMQTTBroker := (g_stMQTTBroker g)\<lparr>mb_socketid := fd\<rparr>\<rparr>)"

definition Cloud_Mqtt_HB_Timer :: "env \<Rightarrow> cloud \<Rightarrow> cloud \<times> effect list" where
  "Cloud_Mqtt_HB_Timer e c =
     (if broker_fd c < 0 then (c, [])
      else
        let c = c\<lparr>pingTime := pingTime c + 1\<rparr>;
            (c, eff) = (if 50 \<le> pingTime c
              then (c\<lparr>loseTime := loseTime c + 1, pingTime := 0\<rparr>,
                    map (Send (broker_fd c)) (snd (mqtt_ping (e_send e) (g_stMQTTBroker (gwst c)))))
              else (c, []))
        in if 2 \<le> loseTime c \<and> 20 \<le> pingTime c
           then (Cloud_HB_Status_init (set_broker_fd (-1) (c\<lparr>g_ConCloud_Status := CONCLOUD_REQ_LOGIN\<rparr>)),
                 eff @ [CloseFd (broker_fd c)])
           else (c, eff))"

definition GAgent_Cloud_Timer :: "env \<Rightarrow> cloud \<Rightarrow> cloud \<times> effect list" where
  "GAgent_Cloud_Timer = Cloud_Mqtt_HB_Timer"

section \<open>Receiving\<close>

text \<open>
  One \<open>recv\<close> of at most \<open>bufferLen\<close> bytes into the cleared buffer. Everything received is taken for one
  packet; a packet that is not complete yet counts as -3 and its bytes are lost.
\<close>

definition MQTT_readPacket :: "recv_result \<Rightarrow> nat \<Rightarrow> (int \<times> bytes) option" where
  "MQTT_readPacket r bufferLen = (case r of
     SelectFailed \<Rightarrow> Some (-2, zeros bufferLen)
   | NothingReceived \<Rightarrow> Some (0, zeros bufferLen)
   | RecvFailed \<Rightarrow> Some (-1, zeros bufferLen)
   | Received d \<Rightarrow>
       (let got = take bufferLen d; packetBuffer = put (zeros bufferLen) 0 got
        in if got = [] then Some (-1, packetBuffer)
           else do {
             messageLen \<leftarrow> mqtt_parse_rem_len packetBuffer;
             varLen \<leftarrow> mqtt_num_rem_len_bytes packetBuffer;
             Some (if length got < unat varLen + unat messageLen + 1 then -3 else int (length got), packetBuffer)
           }))"

definition Mqtt_DoLogin :: "env \<Rightarrow> bytes \<Rightarrow> cloud \<Rightarrow> (cloud \<times> effect list) option" where
  "Mqtt_DoLogin e packet c = do {
     code \<leftarrow> rd packet 3;
     if code \<noteq> 0 then Some (c\<lparr>g_ConCloud_Status := CONCLOUD_REQ_DID\<rparr>, [])
     else map_option (\<lambda>(c, eff). (Cloud_HB_Status_init c, eff)) (Mqtt_SubLoginTopic e c)
   }"

section \<open>Commands from the cloud\<close>

text \<open>
  The command in a message. As in the LAN dispatcher the number of length bytes is counted from the
  second of them.
\<close>

definition MQTT_DoCloudMCUCmd :: "env \<Rightarrow> bytes \<Rightarrow> cloud \<Rightarrow> (int \<times> cloud \<times> effect list) option" where
  "MQTT_DoCloudMCUCmd e pHiP0Data c = do {
     varlen \<leftarrow> mqtt_num_rem_len_bytes (drop 4 pHiP0Data);
     datalen \<leftarrow> mqtt_parse_rem_len (drop 3 pHiP0Data);
     (ret, g) \<leftarrow> GAgentV4_CtlDev_with_p0 e (drop (7 + unat varlen) pHiP0Data) (datalen - 3) (gwst c);
     if ret = 0 then do {
       (g, eff) \<leftarrow> ResponseDevStatus e (mb_socketid (g_stMQTTBroker g)) g;
       Some (ret, c\<lparr>gwst := g\<rparr>, eff)
     } else Some (ret, c\<lparr>gwst := g\<rparr>, [])
   }"

text \<open>
  Copying up to a delimiter into an array: \<open>until d s buf i\<close> copies \<open>s\<close> to \<open>buf\<close> from index \<open>i\<close> on,
  writes the terminator, and gives the rest behind the delimiter's position, the array, and the count.
\<close>

fun copy_until :: "u8 \<Rightarrow> bytes \<Rightarrow> bytes \<Rightarrow> nat \<Rightarrow> (bytes \<times> bytes \<times> nat) option" where
  "copy_until d [] buf i = None"
| "copy_until d (x # s) buf i =
     (if x = d then map_option (\<lambda>b. (x # s, b, i)) (wr buf i 0)
      else do { b \<leftarrow> wr buf i x; copy_until d s b (i + 1) })"

definition take_over_did :: "bytes \<Rightarrow> nat \<Rightarrow> gw \<Rightarrow> (gw \<times> effect list) option" where
  "take_over_did DIDBuffer i g =
     (if DIdLen g = 0 then do {
        did \<leftarrow> rd_seg DIDBuffer 0 i;
        a \<leftarrow> wr_seg (zeros 24) 0 did;
        b \<leftarrow> wr_seg (zeros 24) 0 did;
        b \<leftarrow> wr b i 0;
        let cfg = (g_stGAgentConfigData g)\<lparr>Cloud_DId := b\<rparr>;
        Some (g\<lparr>DID := a, g_stGAgentConfigData := cfg, DIdLen := i\<rparr>, [SaveConfig cfg])
      } else Some (g, []))"

text \<open>
  The uninitialised part of \<open>topic[128]\<close> is \<open>stack\<close>. The block of the message is as long as the packet
  less its topic, and is cleared over this length; a negative length that gets a block overruns it. It is released on
  every path but that of \<open>ser2cli_res\<close>.
\<close>

definition app2dev :: bytes where "app2dev = ascii ''app2dev/''"

definition dispatch_app2dev :: "env \<Rightarrow> bytes \<Rightarrow> bytes \<Rightarrow> cloud \<Rightarrow> (cloud \<times> effect list) option" where
  "dispatch_app2dev e topic pHiP0Data c = do {
     (rest, DIDBuffer, i) \<leftarrow> copy_until 0x2f (drop 8 topic) (zeros 32) 0;
     (g, eff1) \<leftarrow> take_over_did DIDBuffer i (gwst c);
     (_, clientid, _) \<leftarrow> copy_until 0 (drop 1 rest) (zeros 32) 0;
     phone \<leftarrow> nst_strcpy (phoneClientId c) clientid;
     (_, c, eff2) \<leftarrow> MQTT_DoCloudMCUCmd e pHiP0Data (c\<lparr>gwst := g, phoneClientId := phone\<rparr>);
     Some (c, eff1 @ eff2)
   }"

definition Mqtt_DispatchPublishPacket ::
  "env \<Rightarrow> bytes \<Rightarrow> bytes \<Rightarrow> nat \<Rightarrow> cloud \<Rightarrow> (int \<times> cloud \<times> effect list) option" where
  "Mqtt_DispatchPublishPacket e stack packetBuffer packetLen c = do {
     (topiclen, topic) \<leftarrow> mqtt_parse_pub_topic packetBuffer stack;
     topic \<leftarrow> wr topic (unat topiclen) 0;
     let HiP0DataLen = int packetLen - int (unat topiclen);
     if mem_malloc (e_mem e 0) HiP0DataLen = None then Some (-1, c, [])
     else if HiP0DataLen < 0 then None
     else do {
       let c = c\<lparr>packet_copies := packet_copies c + 1\<rparr>;
       (_, pHiP0Data) \<leftarrow> mqtt_parse_publish_msg packetBuffer (zeros (packetLen - unat topiclen));
       cmd \<leftarrow> rd_seg pHiP0Data 4 2;
       a \<leftarrow> nst_strncmp topic (app2dev @ [0]) 8;
       if a = 0 then do {
         (c, eff) \<leftarrow> dispatch_app2dev (later_mem 1 e) topic pHiP0Data c;
         Some (0, c\<lparr>packet_copies := packet_copies c - 1\<rparr>, eff)
       } else do {
         r \<leftarrow> nst_strncmp topic (ascii ''ser2cli_res/'' @ [0]) 12;
         if r = 0 then Some (-3, c, [])
         else do {
           n \<leftarrow> nst_strncmp topic (ascii ''ser2cli_noti/'' @ [0]) 13;
           Some (0, c\<lparr>packet_copies := packet_copies c - 1\<rparr>, [])
         }
       }
     }
   }"

text \<open>Everything but the receiving.\<close>

definition handle_packet :: "env \<Rightarrow> bytes \<Rightarrow> bytes \<Rightarrow> nat \<Rightarrow> cloud \<Rightarrow> (cloud \<times> effect list) option" where
  "handle_packet e stack buf packetLen c = do {
     packettype \<leftarrow> MQTTParseMessageType buf;
     let c = Cloud_HB_Status_init c;
     if packettype = MQTT_MSG_PINGRESP then
       let c = with_gw (\<lambda>g. g\<lparr>sys_wifi_status := SYS_STATUS_WIFI_STA_LOGIN\<rparr>) c
       in Some (if socket_flag c = 0
            then (with_gw (\<lambda>g. g\<lparr>device := BSP_GPIOSetValue USER_GPIO_IDX_LED 1 (device g)\<rparr>) c)\<lparr>socket_flag := 1\<rparr> else c, [])
     else if packettype = MQTT_MSG_CONNACK then
       if g_MQTTStatus (gwst c) = MQTT_STATUS_LOGIN then Mqtt_DoLogin e buf c else Some (c, [])
     else if packettype = MQTT_MSG_SUBACK then do {
       id \<leftarrow> mqtt_parse_msg_id buf;
       if g_Msgsub_id c = ucast id then Mqtt_SubLoginTopic e c else Some (c, [])
     }
     else if packettype = MQTT_MSG_PUBLISH then
       if g_MQTTStatus (gwst c) = MQTT_STATUS_RUNNING
       then map_option (\<lambda>(r, c, eff). (c, eff)) (Mqtt_DispatchPublishPacket e stack buf packetLen c) else Some (c, [])
     else Some (c, [])
   }"

definition MQTT_handlePacket :: "cloud_env \<Rightarrow> cloud \<Rightarrow> (cloud \<times> effect list) option" where
  "MQTT_handlePacket ev c =
     (if broker_fd c = -1 then Some (c, [])
      else do {
        (packetLen, buf) \<leftarrow> MQTT_readPacket (ce_recv ev) 2048;
        let c = c\<lparr>g_MQTTBuffer := buf\<rparr>;
        if 0 < packetLen then handle_packet (ce ev) (ce_stack ev) buf (nat packetLen) c else Some (c, [])
      })"

section \<open>Connecting\<close>

text \<open>
  \<open>pDID\<close> is NULL for a registration by MQTT, which nothing asks for. The letters of the random client
  id are A to Y; the passcode is copied into an array of 12.
\<close>

definition GetRegClientid :: "nat list \<Rightarrow> cloud \<Rightarrow> bytes \<times> cloud" where
  "GetRegClientid draws c =
     (let id = ascii ''ano'' @ map (\<lambda>r. of_nat (65 + r mod 25)) (take 20 (draws @ replicate 20 0)) @ [0] in (id, c\<lparr>Clientid := id\<rparr>))"

definition Cloud_MQTT_initSocket :: "cloud_env \<Rightarrow> cloud \<Rightarrow> (int \<times> cloud \<times> effect list) option" where
  "Cloud_MQTT_initSocket ev c =
     (let (ip, c) = GAgent_GetHostByName (ce_dns ev) c
      in case ip of
        None \<Rightarrow> Some (1, c, [])
      | Some MqttServerIpAddr \<Rightarrow>
          (let eff0 = (if broker_fd c \<noteq> -1 then [CloseFd (broker_fd c)] else []);
               c = set_broker_fd (-1) c;
               s = ce_socket ev
           in if s < 0 then Some (1, c, eff0)
              else
                let eff1 = eff0 @ connect_mqtt_socket s (word_of_int (m2m_Port c)) MqttServerIpAddr
                in if ce_connect ev < 0 then Some (3, c, eff1 @ [CloseFd s])
                   else do {
                     (c, eff2) \<leftarrow> MQTT_handlePacket ev c;
                     Some (0, set_broker_fd s (with_gw (\<lambda>g. g\<lparr>g_stMQTTBroker := mqtt_set_alive (g_stMQTTBroker g) 55\<rparr>) c), eff1 @ eff2)
                   }))"

definition Mqtt_SendConnetPacket :: "cloud_env \<Rightarrow> bytes option \<Rightarrow> cloud \<Rightarrow> (int \<times> cloud \<times> effect list) option" where
  "Mqtt_SendConnetPacket ev pDID c = do {
     c \<leftarrow> (case pDID of
        None \<Rightarrow> do {
          let (id, c) = GetRegClientid (ce_rand ev) c;
          b \<leftarrow> mqtt_init (g_stMQTTBroker (gwst c)) (Some id);
          Some (with_gw (\<lambda>g. g\<lparr>g_stMQTTBroker := b\<rparr>) c)
        }
      | Some did \<Rightarrow> do {
          p \<leftarrow> rd_seg (wifipasscode (g_stGAgentConfigData (gwst c))) 0 10;
          b \<leftarrow> mqtt_init (g_stMQTTBroker (gwst c)) (Some did);
          b \<leftarrow> mqtt_init_auth b (Some did) (Some (p @ [0]));
          Some (with_gw (\<lambda>g. g\<lparr>g_stMQTTBroker := b\<rparr>) c)
        });
     (ret, c, eff1) \<leftarrow> Cloud_MQTT_initSocket ev c;
     if ret = 0 then do {
       (r, packets) \<leftarrow> mqtt_connect (e_mem (ce ev)) (e_send (ce ev)) (g_stMQTTBroker (gwst c));
       Some (if r \<noteq> 0 then 1 else 0, c, eff1 @ map (Send (broker_fd c)) packets)
     } else Some (1, c, eff1)
   }"

definition Mqtt_Login2Server :: "cloud_env \<Rightarrow> cloud \<Rightarrow> (int \<times> cloud \<times> effect list) option" where
  "Mqtt_Login2Server ev c = Mqtt_SendConnetPacket ev (Some (DID (gwst c))) c"

section \<open>Packets inside a larger buffer\<close>

text \<open>What the parsers find in a packet they also find when more bytes follow.\<close>

lemma rd_ext: "rd b i = Some v \<Longrightarrow> rd (b @ r) i = Some v"
  by (auto simp: rd_def nth_append split: if_splits)

lemma rd_seg_ext: "rd_seg b i n = Some v \<Longrightarrow> rd_seg (b @ r) i n = Some v"
  by (auto simp: rd_seg_def split: if_splits)

lemma num_rem_len_ext: "mqtt_num_rem_len_bytes b = Some v \<Longrightarrow> mqtt_num_rem_len_bytes (b @ r) = Some v"
  by (auto simp: mqtt_num_rem_len_bytes_def rd_ext split: Option.bind_splits if_splits)

lemma rem_len_loop_ext: "rem_len_loop b k a = Some v \<Longrightarrow> rem_len_loop (b @ r) k a = Some v"
  by (induction b k a rule: rem_len_loop.induct) (auto simp: Let_def split: if_splits)

lemma parse_rem_len_ext: "mqtt_parse_rem_len b = Some v \<Longrightarrow> mqtt_parse_rem_len (b @ r) = Some v"
  by (cases b) (auto simp: mqtt_parse_rem_len_def dest: rem_len_loop_ext)

lemma parse_type_ext: "MQTTParseMessageType b = Some v \<Longrightarrow> MQTTParseMessageType (b @ r) = Some v"
  by (auto simp: MQTTParseMessageType_def rd_ext)

lemma parse_qos_ext: "MQTTParseMessageQos b = Some v \<Longrightarrow> MQTTParseMessageQos (b @ r) = Some v"
  by (auto simp: MQTTParseMessageQos_def rd_ext)

lemma utf_len_ext: "utf_len b i = Some v \<Longrightarrow> utf_len (b @ r) i = Some v"
  by (auto simp: utf_len_def rd_ext split: Option.bind_splits)

lemma utf_len_bound: "utf_len b i = Some v \<Longrightarrow> i + 2 \<le> length b"
  by (auto simp: utf_len_def rd_def split: if_splits Option.bind_splits)

lemma topic_ptr_ext:
  assumes "mqtt_parse_pub_topic_ptr b = Some (len, Some p)"
  shows "mqtt_parse_pub_topic_ptr (b @ r) = Some (len, Some (p @ r))"
proof -
  obtain rlb where h: "MQTTParseMessageType b = Some MQTT_MSG_PUBLISH" "mqtt_num_rem_len_bytes b = Some rlb"
    "utf_len b (1 + unat rlb) = Some len" "p = drop (1 + unat rlb + 2) b"
    using assms by (auto simp: mqtt_parse_pub_topic_ptr_def split: Option.bind_splits if_splits)
  then show ?thesis
    using parse_type_ext[OF h(1), of r] num_rem_len_ext[OF h(2), of r] utf_len_ext[OF h(3), of r] utf_len_bound[OF h(3)]
    by (simp add: mqtt_parse_pub_topic_ptr_def)
qed

lemma msg_ptr_ext:
  assumes "mqtt_parse_pub_msg_ptr b = Some (len, Some p)" and "p \<noteq> []"
  shows "mqtt_parse_pub_msg_ptr (b @ r) = Some (len, Some (p @ r))"
proof -
  obtain rlb tl qos rem where h: "MQTTParseMessageType b = Some MQTT_MSG_PUBLISH" "mqtt_num_rem_len_bytes b = Some rlb"
    "utf_len b (1 + unat rlb) = Some tl" "MQTTParseMessageQos b = Some qos" "mqtt_parse_rem_len b = Some rem"
    using assms by (auto simp: mqtt_parse_pub_msg_ptr_def Let_def split: Option.bind_splits if_splits)
  let ?o = "lo8 tl + (1 + rlb + 2)"
  let ?off = "if qos \<noteq> 0 then ?o + 2 else ?o"
  have p: "p = drop (unat ?off) b" "len = rem - (ucast ?off - (ucast rlb + 1))"
    using assms(1) h by (auto simp: mqtt_parse_pub_msg_ptr_def Let_def)
  then have "unat ?off \<le> length b" using assms(2) by (metis drop_all nat_le_linear)
  then show ?thesis
    using p parse_type_ext[OF h(1), of r] num_rem_len_ext[OF h(2), of r] utf_len_ext[OF h(3), of r] parse_qos_ext[OF h(4), of r]
      parse_rem_len_ext[OF h(5), of r]
    by (cases "qos = 0") (simp_all add: mqtt_parse_pub_msg_ptr_def Let_def ac_simps)
qed

section \<open>Reading a packet\<close>

lemma readPacket_whole:
  assumes "length p \<le> n" and "p \<noteq> []" and "mqtt_parse_rem_len p = Some rem" and "mqtt_num_rem_len_bytes p = Some k"
    and "unat k + unat rem + 1 \<le> length p"
  shows "MQTT_readPacket (Received p) n = Some (int (length p), p @ zeros (n - length p))"
proof -
  have "put (zeros n) 0 p = p @ zeros (n - length p)" by (simp add: put_def)
  then show ?thesis
    using assms parse_rem_len_ext[OF assms(3)] num_rem_len_ext[OF assms(4)] by (simp add: MQTT_readPacket_def Let_def)
qed

section \<open>Dispatching\<close>

lemma copy_until_exact:
  assumes "d \<notin> set s"
  shows "copy_until d (s @ d # r) (pre @ zeros n) (length pre) =
    (if length s < n then Some (d # r, pre @ s @ zeros (n - length s), length pre + length s) else None)"
  using assms
proof (induction s arbitrary: pre n)
  case Nil
  have "(pre @ zeros n)[length pre := 0] = pre @ zeros n" by (cases n) (simp_all add: list_update_append zeros_def list_update_beyond)
  then show ?case by (simp add: wr_def)
next
  case (Cons x s)
  show ?case
  proof (cases n)
    case 0
    then show ?thesis using Cons.prems by (simp add: wr_def)
  next
    case (Suc k)
    have "(pre @ zeros n)[length pre := x] = (pre @ [x]) @ zeros k" by (simp add: list_update_append zeros_def Suc)
    then show ?thesis using Cons.prems Cons.IH[of "pre @ [x]" k] Suc by (auto simp: wr_def)
  qed
qed

lemma copy_until_zeros:
  "d \<notin> set s \<Longrightarrow> copy_until d (s @ d # r) (zeros n) 0 =
    (if length s < n then Some (d # r, s @ zeros (n - length s), length s) else None)"
  using copy_until_exact[of d s r "[]" n] by simp

lemma decodeInt16_ext: "decodeInt16 b i = Some v \<Longrightarrow> decodeInt16 (b @ r) i = Some v"
  by (auto simp: decodeInt16_def rd_ext split: Option.bind_splits)

lemma bind_mono: "(m \<bind> f) = Some y \<Longrightarrow> (\<And>x. m = Some x \<Longrightarrow> m' = Some x) \<Longrightarrow> (\<And>x. m = Some x \<Longrightarrow> f x = Some y \<Longrightarrow> g x = Some y) \<Longrightarrow>
   (m' \<bind> g) = Some y"
  by (auto simp: Option.bind_eq_Some_conv)

lemma device_control_ext:
  assumes "device_control ticks action flags b s = Some s'"
  shows "device_control ticks action flags (b @ r) s = Some s'"
proof -
  obtain t where t: "strip_data_parse ticks flags b s = Some t" "s' = t\<lparr>status_flag := 1\<rparr>"
    using assms by (auto simp: device_control_def strip_start_def)
  have "strip_data_parse ticks flags (b @ r) s = Some t"
    using t(1) unfolding strip_data_parse_def Let_def
    by (elim bind_mono) (auto simp: rd_ext decodeInt16_ext split: if_splits Option.bind_splits)
  then show ?thesis using t(2) by (simp add: device_control_def strip_start_def)
qed

text \<open>A command frame as the cloud carries it: version, length, flags, command, P0.\<close>

definition control_frame :: "u8 \<Rightarrow> u8 \<Rightarrow> bytes \<Rightarrow> bytes" where
  "control_frame c1 c2 p0 = [0, 0, 0, 3] @ Tran2varc (of_nat (3 + length p0)) @ [0, c1, c2] @ p0"

lemma control_frame_short:
  assumes "length p0 \<le> 124"
  shows "control_frame c1 c2 p0 = [0, 0, 0, 3, of_nat (3 + length p0), 0, c1, c2] @ p0"
    and "unat (of_nat (3 + length p0) :: u8) = 3 + length p0"
proof -
  have u: "unat (of_nat (3 + length p0) :: u16) = 3 + length p0" using assms by (intro unat_of_nat16) simp
  have v: "unat (of_nat (3 + length p0) :: u8) = 3 + length p0" using assms by (intro unat_of_nat8) simp
  have "Tran2varc (of_nat (3 + length p0)) = rem_len_field (of_nat (3 + length p0))"
    using u assms by (intro Tran2varc_field) simp
  also have "\<dots> = [ucast (of_nat (3 + length p0) :: u16)]"
    using u assms by (simp add: rem_len_field_def word_le_nat_alt)
  also have "\<dots> = [of_nat (3 + length p0)]"
    unfolding word_unat_eq_iff list.inject unat_ucast8 u v using assms by simp
  finally show "control_frame c1 c2 p0 = [0, 0, 0, 3, of_nat (3 + length p0), 0, c1, c2] @ p0"
    by (simp add: control_frame_def)
  show "unat (of_nat (3 + length p0) :: u8) = 3 + length p0" by (rule v)
qed

definition report_sum :: "strip_t \<Rightarrow> gw \<Rightarrow> u8" where
  "report_sum dev g = sum_list (drop 2 (report_body (socket_status dev))) + mcuStatus_sum g"

lemma cloud_command:
  assumes "length data \<le> 122" and "flags \<noteq> 0"
    and "device_control (e_ticks e) action flags data (device (gwst c)) = Some dev"
    and "\<And>i. e_mem e i" and "g_MQTTStatus (gwst c) = MQTT_STATUS_RUNNING"
    and "cstr (DID (gwst c)) = Some did" and "length did < 192"
  shows "MQTT_DoCloudMCUCmd e (control_frame c1 c2 (action # flags # data) @ r) c =
    Some (0, with_gw (\<lambda>g. g\<lparr>device := dev, mcuStatus_sum := report_sum dev g\<rparr>) c,
      report_effects did (report_sum dev (gwst c)) ((gwst c)\<lparr>device := dev\<rparr>))"
proof -
  let ?p0 = "action # flags # data"
  let ?l = "of_nat (3 + length ?p0) :: u8"
  have l: "length ?p0 \<le> 124" using assms(1) by simp
  note f = control_frame_short(1)[OF l, of c1 c2] control_frame_short(2)[OF l]
  have n: "mqtt_num_rem_len_bytes (drop 4 (control_frame c1 c2 ?p0 @ r)) = Some 1"
    unfolding f(1) by (simp add: num_bytes)
  have "mqtt_parse_rem_len (drop 3 (control_frame c1 c2 ?p0 @ r)) = Some (ucast ?l)"
    unfolding f(1) using parse_one[of ?l 3 "[0, c1, c2] @ ?p0 @ r"] f(2) l by simp
  moreover have "ucast ?l - 3 = (of_nat (length ?p0) :: u16)"
  proof -
    have "(ucast ?l :: u16) = of_nat (3 + length ?p0)"
      unfolding word_unat_eq_iff unat_ucast16 f(2) by (rule unat_of_nat16[symmetric]) (use l in simp)
    then show ?thesis by simp
  qed
  moreover have "drop 8 (control_frame c1 c2 ?p0 @ r) = ?p0 @ r" unfolding f(1) by simp
  moreover have "\<not> 4096 < (of_nat (length ?p0) :: u16)"
  proof -
    have "unat (of_nat (length ?p0) :: u16) = length ?p0" using l by (intro unat_of_nat16) simp
    then show ?thesis using l by (simp add: word_less_nat_alt)
  qed
  ultimately have "MQTT_DoCloudMCUCmd e (control_frame c1 c2 ?p0 @ r) c = do {
      (g, eff) \<leftarrow> ResponseDevStatus e (mb_socketid (g_stMQTTBroker (gwst c))) ((gwst c)\<lparr>device := dev\<rparr>);
      Some (0, c\<lparr>gwst := g\<rparr>, eff) }"
    using n device_control_ext[OF assms(3), of r] assms(2)
    by (simp only: MQTT_DoCloudMCUCmd_def bind.bind_lunit GAgentV4_CtlDev_with_p0_def)
      (simp add: rd_def)
  then show ?thesis
    using ResponseDevStatus_exact[of e "(gwst c)\<lparr>device := dev\<rparr>" did] assms(4-7)
    by (auto simp: with_gw_def report_sum_def)
qed

text \<open>The topic of a command: \<open>app2dev/\<close>, the device, \<open>/\<close>, the client.\<close>

definition command_topic :: "bytes \<Rightarrow> bytes \<Rightarrow> bytes" where
  "command_topic did client = app2dev @ did @ [0x2f] @ client"

definition topic_ok :: "bytes \<Rightarrow> bytes \<Rightarrow> bool" where
  "topic_ok did client \<longleftrightarrow> no_nul did \<and> 0x2f \<notin> set did \<and> length did < 32 \<and> no_nul client \<and> length client < 32"

lemma topic_okD:
  assumes "topic_ok did client"
  shows "no_nul (command_topic did client)" and "length (command_topic did client) \<le> 71"
  using assms by (auto simp: topic_ok_def command_topic_def app2dev_def no_nul_def ascii_def)

lemma dispatch_app2dev_command:
  assumes "topic_ok did client" and "DIdLen (gwst c) \<noteq> 0" and "length (phoneClientId c) = 32"
    and "MQTT_DoCloudMCUCmd e msg (c\<lparr>phoneClientId := client @ 0 # drop (length client + 1) (phoneClientId c)\<rparr>) = Some (r, c', eff)"
  shows "dispatch_app2dev e (command_topic did client @ 0 # rest) msg c = Some (c', eff)"
proof -
  have t: "drop 8 (command_topic did client @ 0 # rest) = did @ 0x2f # client @ 0 # rest"
    by (simp add: command_topic_def app2dev_def)
  have "32 - length client = Suc (31 - length client)" using assms(1) unfolding topic_ok_def by linarith
  then have "client @ zeros (32 - length client) = client @ 0 # zeros (31 - length client)"
    by (simp add: zeros_def)
  then have "nst_strcpy (phoneClientId c) (client @ zeros (32 - length client)) =
      Some (client @ 0 # drop (length client + 1) (phoneClientId c))"
    using assms(1,3) strcpy_eq[of client "phoneClientId c"] by (simp add: topic_ok_def wr_seg_def put_def)
  moreover have "copy_until 0x2f (did @ 0x2f # client @ 0 # rest) (zeros 32) 0 = Some (0x2f # client @ 0 # rest, did @ zeros (32 - length did), length did)"
    using assms(1) by (simp add: copy_until_zeros topic_ok_def)
  moreover have "copy_until 0 (client @ 0 # rest) (zeros 32) 0 = Some (0 # rest, client @ zeros (32 - length client), length client)"
    using assms(1) by (simp add: copy_until_zeros topic_ok_def no_nul_def)
  ultimately show ?thesis
    using assms(2,4) by (simp add: dispatch_app2dev_def t take_over_did_def del: drop_append)
qed

text \<open>A PUBLISH in the receive buffer, as the dispatcher takes it apart.\<close>

lemma publish_in_buffer:
  assumes "rem_total t m qos < 16384" and "header_len t m qos < 256" and "m \<noteq> []"
    and "length t < 128" and "length stack = 128" and "p = publish_packet b t m retain qos"
  shows "mqtt_parse_pub_topic (p @ r) stack = Some (of_nat (length t), put stack 0 t)"
    and "wr (put stack 0 t) (unat (of_nat (length t) :: u16)) 0 = Some (t @ 0 # drop (length t + 1) stack)"
    and "mqtt_parse_publish_msg (p @ r) (zeros (length p - unat (of_nat (length t) :: u16))) =
      Some (of_nat (length m), m @ zeros (length p - length t - length m))"
    and "unat (of_nat (length t) :: u16) \<le> length p"
    and "room \<Longrightarrow> length m < 8000 \<Longrightarrow> mem_malloc room (int (length p) - int (unat (of_nat (length t) :: u16))) \<noteq> None"
proof -
  have lp: "length p = header_len t m qos + length m"
    using publish_packet_len(3)[OF assms(1), of b retain] assms(6) by (simp add: header_len_def rem_total_def)
  have ut: "unat (of_nat (length t) :: u16) = length t" using assms(4) by (intro unat_of_nat16) simp
  have um: "unat (of_nat (length m) :: u16) = length m" using assms(1) by (intro unat_of_nat16) (simp add: rem_total_def)
  obtain q where "mqtt_parse_pub_topic_ptr p = Some (of_nat (length t), Some (t @ q))"
    using parse_topic_exact[OF assms(1), of b retain] assms(6) by blast
  then have "mqtt_parse_pub_topic_ptr (p @ r) = Some (of_nat (length t), Some (t @ q @ r))"
    using topic_ptr_ext by fastforce
  moreover have "wr_seg stack 0 t = Some (put stack 0 t)" using assms(4,5) by (simp add: wr_seg_def)
  moreover have "rd_seg (t @ q @ r) 0 (length t) = Some t" by (simp add: rd_seg_def)
  moreover have "t = [] \<Longrightarrow> put stack 0 t = stack" by (simp add: put_def)
  ultimately show "mqtt_parse_pub_topic (p @ r) stack = Some (of_nat (length t), put stack 0 t)"
    using ut by (cases "t = []") (auto simp: mqtt_parse_pub_topic_def copy_out_def word_unat_eq_iff)
  have "drop (length t) stack = stack ! length t # drop (length t + 1) stack"
    using assms(4,5) by (simp add: Cons_nth_drop_Suc)
  then show "wr (put stack 0 t) (unat (of_nat (length t) :: u16)) 0 = Some (t @ 0 # drop (length t + 1) stack)"
    using assms(4,5) ut by (simp add: wr_def put_def list_update_append)
  have "mqtt_parse_pub_msg_ptr (p @ r) = Some (of_nat (length m), Some (m @ r))"
    using msg_ptr_ext[OF _ assms(3)] publish_packet_msg[OF assms(1,2)] assms(6) by simp
  moreover have "length m \<le> length p - length t" using lp by (simp add: header_len_def)
  moreover have "wr_seg (zeros (length p - length t)) 0 m = Some (m @ zeros (length p - length t - length m))"
    using \<open>length m \<le> length p - length t\<close> by (simp add: wr_seg_def put_def)
  moreover have "of_nat (length m) \<noteq> (0 :: u16)" using um assms(3) by (auto simp: word_unat_eq_iff)
  ultimately show "mqtt_parse_publish_msg (p @ r) (zeros (length p - unat (of_nat (length t) :: u16))) =
      Some (of_nat (length m), m @ zeros (length p - length t - length m))"
    by (simp add: mqtt_parse_publish_msg_def copy_out_def ut um rd_seg_def)
  show "unat (of_nat (length t) :: u16) \<le> length p" using ut lp by (simp add: header_len_def)
  show "mem_malloc room (int (length p) - int (unat (of_nat (length t) :: u16))) \<noteq> None" if "room" "length m < 8000"
  proof -
    have "0 < int (length p) - int (length t)" "int (length p) - int (length t) \<le> 8192"
      using lp assms(4,5) that(2) by (simp_all add: header_len_def rlb_def qos_size_def)
    from mem_malloc_fits[OF that(1) this] show ?thesis unfolding ut by auto
  qed
qed

lemma strncmp_prefix:
  assumes "no_nul a" and "no_nul b" and "length b = n" and "0 < n"
  shows "\<exists>k. nst_strncmp (a @ 0 # r) (b @ [0]) n = Some k \<and> (k = 0 \<longleftrightarrow> take n a = b)"
  using strncmp_eq_0[OF assms(1,2,4), of r "[]"] assms(3,4) by (simp add: nst_strncmp_def)

lemma topic_names [simp]: "no_nul app2dev" "length app2dev = 8" "no_nul (ascii ''ser2cli_res/'')" "no_nul (ascii ''ser2cli_noti/'')"
  by (simp_all add: no_nul_def ascii_def app2dev_def)

lemma cmd_read: "6 \<le> length m \<Longrightarrow> \<exists>v. rd_seg (m @ r) 4 2 = Some v"
  by (simp add: rd_seg_def)

lemma dispatch_command:
  assumes "topic_ok did client" and "DIdLen (gwst c) \<noteq> 0" and "length (phoneClientId c) = 32" and "length stack = 128"
    and "6 \<le> length m" and "length m < 8000" and "p = publish_packet b (command_topic did client) m retain qos" and "e_mem e 0"
    and "\<And>z c0. gwst c0 = gwst c \<Longrightarrow> MQTT_DoCloudMCUCmd (later_mem 1 e) (m @ z) c0 = Some (0, with_gw f c0, E)"
  shows "Mqtt_DispatchPublishPacket e stack (p @ z) (length p) c =
    Some (0, with_gw f c\<lparr>phoneClientId := client @ 0 # drop (length client + 1) (phoneClientId c)\<rparr>, E)"
proof -
  let ?t = "command_topic did client" and ?c = "c\<lparr>packet_copies := packet_copies c + 1\<rparr>"
  note t = topic_okD[OF assms(1)]
  have r: "rem_total ?t m qos < 16384" "header_len ?t m qos < 256"
    using t(2) assms(6) by (auto simp: rem_total_def header_len_def rlb_def qos_size_def)
  have m: "m \<noteq> []" using assms(5) by auto
  have lt: "length ?t < 128" using t(2) by simp
  note pub = publish_in_buffer(1)[OF r m lt assms(4) assms(7), of z] publish_in_buffer(2)[OF r m lt assms(4) assms(7)]
    publish_in_buffer(3)[OF r m lt assms(4) assms(7), of z] publish_in_buffer(4)[OF r m lt assms(4) assms(7)]
  have pre: "take 8 ?t = app2dev" by (simp add: command_topic_def)
  obtain k where k: "nst_strncmp (?t @ 0 # drop (length ?t + 1) stack) (app2dev @ [0]) 8 = Some k" "k = 0"
    using strncmp_prefix[of ?t app2dev 8 "drop (length ?t + 1) stack"] t(1) pre by auto
  obtain v where v: "rd_seg (m @ zeros (length p - length ?t - length m)) 4 2 = Some v"
    using cmd_read[OF assms(5)] by blast
  have d: "dispatch_app2dev (later_mem 1 e) (?t @ 0 # drop (length ?t + 1) stack) (m @ zeros (length p - length ?t - length m)) ?c =
      Some (with_gw f (?c\<lparr>phoneClientId := client @ 0 # drop (length client + 1) (phoneClientId c)\<rparr>), E)"
    using assms(9)[of "?c\<lparr>phoneClientId := client @ 0 # drop (length client + 1) (phoneClientId c)\<rparr>"] assms(2,3)
    by (intro dispatch_app2dev_command[OF assms(1)]) simp_all
  have "\<not> int (length p) - int (unat (of_nat (length ?t) :: u16)) < 0" using pub(4) by linarith
  moreover have "(mem_malloc (e_mem e 0) (int (length p) - int (unat (of_nat (length ?t) :: u16))) = None) = False"
    using publish_in_buffer(5)[OF r m lt assms(4,7,8,6)] by simp
  ultimately show ?thesis
    using pub(1-3) k v d
    by (simp only: Mqtt_DispatchPublishPacket_def bind.bind_lunit prod.case Let_def not_True_eq_False if_False if_True simp_thms)
      (simp add: with_gw_def)
qed

section \<open>A packet from the socket\<close>

lemma handlePacket_received:
  assumes "broker_fd c \<noteq> -1" and "ce_recv ev = Received p" and "MQTT_readPacket (Received p) 2048 = Some (int n, buf)" and "0 < n"
  shows "MQTT_handlePacket ev c = handle_packet (ce ev) (ce_stack ev) buf n (c\<lparr>g_MQTTBuffer := buf\<rparr>)"
  using assms by (simp add: MQTT_handlePacket_def)

lemma handlePacket_publish:
  assumes "broker_fd c \<noteq> -1" and "ce_recv ev = Received p" and "p = publish_packet b t m retain qos"
    and "rem_total t m qos < 2000" and "g_MQTTStatus (gwst c) = MQTT_STATUS_RUNNING"
  shows "MQTT_handlePacket ev c =
    map_option (\<lambda>(r, c, eff). (c, eff)) (Mqtt_DispatchPublishPacket (ce ev) (ce_stack ev) (p @ zeros (2048 - length p)) (length p)
      (Cloud_HB_Status_init (c\<lparr>g_MQTTBuffer := p @ zeros (2048 - length p)\<rparr>)))"
proof -
  have r: "rem_total t m qos < 16384" using assms(4) by simp
  note l = publish_packet_len[OF r, of b retain, folded assms(3)]
  have u: "unat (of_nat (rem_total t m qos) :: u16) = rem_total t m qos" using assms(4) by (intro unat_of_nat16) simp
  have "MQTT_readPacket (Received p) 2048 = Some (int (length p), p @ zeros (2048 - length p))"
  proof (rule readPacket_whole[OF _ _ l(1,2)])
    show "length p \<le> 2048" using l(3) assms(4) by (simp add: rlb_def)
    show "p \<noteq> []" using l(3) by auto
    show "unat (of_nat (rlb t m qos) :: u8) + unat (of_nat (rem_total t m qos) :: u16) + 1 \<le> length p"
      unfolding u unat_rlb l(3) by simp
  qed
  moreover have "0 < length p" using l(3) by simp
  ultimately have "MQTT_handlePacket ev c = handle_packet (ce ev) (ce_stack ev) (p @ zeros (2048 - length p)) (length p)
      (c\<lparr>g_MQTTBuffer := p @ zeros (2048 - length p)\<rparr>)"
    by (rule handlePacket_received[OF assms(1,2)])
  moreover have "MQTTParseMessageType (p @ zeros (2048 - length p)) = Some MQTT_MSG_PUBLISH"
    using parse_type_ext[OF publish_packet_type(1)[of b t m retain qos]] assms(3) by simp
  ultimately show ?thesis using assms(5) by (simp add: handle_packet_def Cloud_HB_Status_init_def)
qed

text \<open>A report the cloud sends about firmware, or about anything else that is not a command.\<close>

lemma dispatch_other:
  assumes "no_nul t" and "length t < 128" and "take 8 t \<noteq> app2dev" and "length stack = 128" and "6 \<le> length m" and "length m < 1500"
    and "p = publish_packet b t m retain qos" and "e_mem e 0"
  shows "Mqtt_DispatchPublishPacket e stack (p @ z) (length p) c =
    (if take 12 t = ascii ''ser2cli_res/'' then Some (-3, c\<lparr>packet_copies := packet_copies c + 1\<rparr>, []) else Some (0, c, []))"
proof -
  let ?s = "t @ 0 # drop (length t + 1) stack"
  have r: "rem_total t m qos < 16384" "header_len t m qos < 256"
    using assms(2,6) by (auto simp: rem_total_def header_len_def rlb_def qos_size_def)
  have m: "m \<noteq> []" using assms(5) by auto
  note pub = publish_in_buffer(1)[OF r m assms(2,4,7), of z] publish_in_buffer(2)[OF r m assms(2,4,7)]
    publish_in_buffer(3)[OF r m assms(2,4,7), of z] publish_in_buffer(4)[OF r m assms(2,4,7)]
  obtain k where k: "nst_strncmp ?s (app2dev @ [0]) 8 = Some k" "k \<noteq> 0"
    using strncmp_prefix[of t app2dev 8 "drop (length t + 1) stack"] assms(1,3) by auto
  obtain j where j: "nst_strncmp ?s (ascii ''ser2cli_res/'' @ [0]) 12 = Some j" "j = 0 \<longleftrightarrow> take 12 t = ascii ''ser2cli_res/''"
    using strncmp_prefix[of t "ascii ''ser2cli_res/''" 12 "drop (length t + 1) stack"] assms(1) by auto
  obtain i where i: "nst_strncmp ?s (ascii ''ser2cli_noti/'' @ [0]) 13 = Some i"
    using strncmp_prefix[of t "ascii ''ser2cli_noti/''" 13 "drop (length t + 1) stack"] assms(1) by auto
  obtain v where v: "rd_seg (m @ zeros (length p - length t - length m)) 4 2 = Some v"
    using cmd_read[OF assms(5)] by blast
  have "\<not> int (length p) - int (unat (of_nat (length t) :: u16)) < 0" using pub(4) by linarith
  moreover have "length m < 8000" using assms(6) by simp
  then have "(mem_malloc (e_mem e 0) (int (length p) - int (unat (of_nat (length t) :: u16))) = None) = False"
    using publish_in_buffer(5)[OF r m assms(2,4,7,8)] by simp
  ultimately show ?thesis
    using pub(1-3) k j i v
    by (simp only: Mqtt_DispatchPublishPacket_def bind.bind_lunit prod.case Let_def not_True_eq_False if_False if_True simp_thms)
      simp
qed

text \<open>What a broker answers.\<close>

definition connack :: "u8 \<Rightarrow> bytes" where "connack code = [0x20, 2, 0, code]"
definition suback :: "u16 \<Rightarrow> bytes" where "suback mid = [0x90, 3] @ be16 mid @ [0]"
definition pingresp :: bytes where "pingresp = [0xD0, 0]"

section \<open>An example\<close>

text \<open>A device with the id did1 and its session on socket 3, on a machine with memory and a network that takes everything.\<close>

definition cloud1 :: cloud where
  "cloud1 = cloud0\<lparr>gwst := gw0\<lparr>g_MQTTStatus := MQTT_STATUS_RUNNING, DID := ascii ''did1'' @ zeros 20, DIdLen := 22,
     product_key := replicate 32 65 @ [0], g_stMQTTBroker := broker0\<rparr>, g_ConCloud_Status := CONCLOUD_RUNNING\<rparr>"

definition cenv :: "recv_result \<Rightarrow> cloud_env" where
  "cenv r = \<lparr>ce = env0\<lparr>e_mem := \<lambda>_. True\<rparr>, ce_time = (\<lambda>_. 0), ce_dns = DnsCached 0x01020304, ce_socket = 5, ce_connect = 0,
     ce_recv = r, ce_stack = zeros 128, ce_rand = []\<rparr>"

lemma cenv_simps [simp]: "ce (cenv r) = env0\<lparr>e_mem := \<lambda>_. True\<rparr>" "ce_recv (cenv r) = r" "ce_stack (cenv r) = zeros 128"
  "ce_time (cenv r) i = 0" "ce_dns (cenv r) = DnsCached 0x01020304" "ce_socket (cenv r) = 5" "ce_connect (cenv r) = 0"
  by (simp_all add: cenv_def)

lemma cloud1_simps [simp]: "g_MQTTStatus (gwst cloud1) = MQTT_STATUS_RUNNING" "DIdLen (gwst cloud1) = 22" "broker_fd cloud1 = 3"
  "length (phoneClientId cloud1) = 32" "cstr (DID (gwst cloud1)) = Some (ascii ''did1'')" "pingTime cloud1 = 0" "loseTime cloud1 = 0"
  by (simp_all add: cloud1_def cloud0_def broker_fd_def broker0_def example_did)

lemma example_topic: "topic_ok (ascii ''did1'') (ascii ''phone'')"
  by (simp add: topic_ok_def no_nul_def ascii_def)

lemma example_device: "device_control t 1 1 [1] d = Some ((switch_on d)\<lparr>status_flag := 1\<rparr>)"
  by (simp add: device_control_def strip_start_def strip_data_parse_def rd_def set_switch_def)

section \<open>Properties of a received packet\<close>

text \<open>C4 A command sent through the cloud runs on the device: when the session runs, a PUBLISH on
  \<open>app2dev/\<close> name \<open>/\<close> client whose message is a control frame with attribute flags makes the device execute
  exactly that command, remembers the client, and sends the report of the new status to every logged-in
  phone and to the cloud. Nothing stays allocated, and the heart beat starts anew.\<close>

theorem cloud_command_runs_device:
  assumes "topic_ok name client" and "DIdLen (gwst c) \<noteq> 0" and "length (phoneClientId c) = 32" and "length (ce_stack ev) = 128"
    and "length data \<le> 122" and "flags \<noteq> 0"
    and "device_control (e_ticks (ce ev)) action flags data (device (gwst c)) = Some dev"
    and "\<And>i. e_mem (ce ev) i" and "g_MQTTStatus (gwst c) = MQTT_STATUS_RUNNING" and "broker_fd c \<noteq> -1"
    and "cstr (DID (gwst c)) = Some did" and "length did < 192"
    and "ce_recv ev = Received (publish_packet b (command_topic name client) (control_frame c1 c2 (action # flags # data)) retain qos)"
  shows "\<exists>c' x. MQTT_handlePacket ev c = Some (c', report_effects did x ((gwst c)\<lparr>device := dev\<rparr>)) \<and>
    gwst c' = (gwst c)\<lparr>device := dev, mcuStatus_sum := x\<rparr> \<and> cstr (phoneClientId c') = Some client \<and>
    packet_copies c' = packet_copies c \<and> pingTime c' = 0 \<and> loseTime c' = 0"
proof -
  let ?m = "control_frame c1 c2 (action # flags # data)" and ?t = "command_topic name client"
  define p where "p = publish_packet b ?t ?m retain qos"
  define c0 where "c0 = Cloud_HB_Status_init (c\<lparr>g_MQTTBuffer := p @ zeros (2048 - length p)\<rparr>)"
  let ?f = "\<lambda>g. g\<lparr>device := dev, mcuStatus_sum := report_sum dev g\<rparr>"
  let ?E = "report_effects did (report_sum dev (gwst c)) ((gwst c)\<lparr>device := dev\<rparr>)"
  have lm: "length ?m = 10 + length data" using control_frame_short(1)[of "action # flags # data" c1 c2] assms(5) by simp
  have g0: "gwst c0 = gwst c" "phoneClientId c0 = phoneClientId c" "packet_copies c0 = packet_copies c" "pingTime c0 = 0" "loseTime c0 = 0"
    by (simp_all add: c0_def Cloud_HB_Status_init_def)
  have "MQTT_handlePacket ev c = map_option (\<lambda>(r, c, eff). (c, eff))
      (Mqtt_DispatchPublishPacket (ce ev) (ce_stack ev) (p @ zeros (2048 - length p)) (length p) c0)"
    unfolding c0_def
    by (rule handlePacket_publish[OF assms(10) _ p_def _ assms(9)])
      (use assms(13) topic_okD(2)[OF assms(1)] lm assms(5) in \<open>auto simp: p_def rem_total_def qos_size_def\<close>)
  moreover have "Mqtt_DispatchPublishPacket (ce ev) (ce_stack ev) (p @ zeros (2048 - length p)) (length p) c0 =
      Some (0, with_gw ?f c0\<lparr>phoneClientId := client @ 0 # drop (length client + 1) (phoneClientId c0)\<rparr>, ?E)"
  proof (rule dispatch_command[OF assms(1) _ _ assms(4) _ _ p_def])
    show "MQTT_DoCloudMCUCmd (later_mem 1 (ce ev)) (?m @ z) c1 = Some (0, with_gw ?f c1, ?E)" if "gwst c1 = gwst c0" for z c1
      using cloud_command[of data flags "later_mem 1 (ce ev)" action c1 dev did] assms(5-9,11,12) that g0(1)
      by (simp add: later_mem_def)
  qed (use assms(2,3,5,8) g0 lm in simp_all)
  ultimately show ?thesis
    using g0 assms(1) by (simp add: with_gw_def topic_ok_def) (rule exI[of _ "report_sum dev (gwst c)"], simp)
qed

theorem cloud_command_runs_device_witness:
  "\<exists>c' x. MQTT_handlePacket (cenv (Received (publish_packet broker0 (command_topic (ascii ''did1'') (ascii ''phone''))
        (control_frame 0 0x90 (1 # 1 # [1])) 0 0))) cloud1 =
      Some (c', report_effects (ascii ''did1'') x ((gwst cloud1)\<lparr>device := (switch_on (device (gwst cloud1)))\<lparr>status_flag := 1\<rparr>\<rparr>)) \<and>
    gwst c' = (gwst cloud1)\<lparr>device := (switch_on (device (gwst cloud1)))\<lparr>status_flag := 1\<rparr>, mcuStatus_sum := x\<rparr> \<and>
    cstr (phoneClientId c') = Some (ascii ''phone'') \<and> packet_copies c' = packet_copies cloud1 \<and> pingTime c' = 0 \<and> loseTime c' = 0"
  by (rule cloud_command_runs_device[OF example_topic]) (simp_all add: example_device)

text \<open>C34 An answer of the cloud about firmware, on \<open>ser2cli_res/\<close>, costs one block of the heap each time
  and does nothing else; any other topic costs nothing. In this build the block of the message is
  released only inside the part that is compiled out.\<close>

theorem firmware_reply_leaks:
  assumes "no_nul t" and "length t < 128" and "take 8 t \<noteq> app2dev" and "length (ce_stack ev) = 128" and "6 \<le> length m"
    and "length m < 1500" and "e_mem (ce ev) 0" and "g_MQTTStatus (gwst c) = MQTT_STATUS_RUNNING" and "broker_fd c \<noteq> -1"
    and "ce_recv ev = Received (publish_packet b t m retain qos)"
  shows "\<exists>c'. MQTT_handlePacket ev c = Some (c', []) \<and> gwst c' = gwst c \<and>
    packet_copies c' = packet_copies c + (if take 12 t = ascii ''ser2cli_res/'' then 1 else 0)"
proof -
  define p where "p = publish_packet b t m retain qos"
  have "MQTT_handlePacket ev c = map_option (\<lambda>(r, c, eff). (c, eff))
      (Mqtt_DispatchPublishPacket (ce ev) (ce_stack ev) (p @ zeros (2048 - length p)) (length p)
        (Cloud_HB_Status_init (c\<lparr>g_MQTTBuffer := p @ zeros (2048 - length p)\<rparr>)))"
    by (rule handlePacket_publish[OF assms(9) _ p_def _ assms(8)])
      (use assms(2,6,10) in \<open>auto simp: p_def rem_total_def qos_size_def\<close>)
  then show ?thesis
    using dispatch_other[OF assms(1-6) p_def assms(7)] by (simp add: Cloud_HB_Status_init_def)
qed

theorem firmware_reply_leaks_witness:
  "\<exists>c'. MQTT_handlePacket (cenv (Received (publish_packet broker0 (ascii ''ser2cli_res/did1'') (zeros 14) 0 0))) cloud1 = Some (c', []) \<and>
    gwst c' = gwst cloud1 \<and>
    packet_copies c' = packet_copies cloud1 + (if take 12 (ascii ''ser2cli_res/did1'') = ascii ''ser2cli_res/'' then 1 else 0)"
  by (rule firmware_reply_leaks) (simp_all add: no_nul_def ascii_def app2dev_def)

lemma suback_id: "mqtt_parse_msg_id (suback mid @ z) = Some (lo8 mid)"
proof -
  have "(0x30 :: u8) \<le> 0x90 \<and> (0x90 :: u8) \<le> 0xB0" by simp
  then show ?thesis
    by (simp add: suback_def mqtt_parse_msg_id_def MQTTParseMessageType_def MQTTParseMessageQos_def num_bytes utf_len_def rd_def be16_def)
qed

text \<open>The answers of a broker that carry no message: nothing behind them is looked at.\<close>

definition short_answer :: "bytes \<Rightarrow> bool" where
  "short_answer p \<longleftrightarrow> p = pingresp \<or> (\<exists>code. p = connack code) \<or> (\<exists>mid. p = suback mid)"

lemma subscribe_stage_buffer:
  "subscribe_stage e n k st (c\<lparr>g_MQTTBuffer := b\<rparr>) = map_option (\<lambda>(c, eff). (c\<lparr>g_MQTTBuffer := b\<rparr>, eff)) (subscribe_stage e n k st c)"
  by (auto simp: subscribe_stage_def with_gw_def set_mqtt_status_def broker_fd_def Let_def split: bind_splits option.splits)

lemma SubLoginTopic_buffer:
  "Mqtt_SubLoginTopic e (c\<lparr>g_MQTTBuffer := b\<rparr>) = map_option (\<lambda>(c, eff). (c\<lparr>g_MQTTBuffer := b\<rparr>, eff)) (Mqtt_SubLoginTopic e c)"
  by (simp add: Mqtt_SubLoginTopic_def subscribe_stage_buffer Mqtt_IntoRunning_def set_mqtt_status_def with_gw_def broker_fd_def)

lemma buffer_swap: "c\<lparr>g_MQTTBuffer := b, pingTime := x, loseTime := y\<rparr> = c\<lparr>pingTime := x, loseTime := y, g_MQTTBuffer := b\<rparr>"
  by (cases c) simp

lemma short_answer_handled:
  assumes "short_answer p"
  shows "handle_packet e stack (p @ z) n (c\<lparr>g_MQTTBuffer := b\<rparr>) =
    map_option (\<lambda>(c, eff). (c\<lparr>g_MQTTBuffer := b\<rparr>, eff)) (handle_packet e stack (p @ z') n' c)"
proof -
  consider "p = pingresp" | code where "p = connack code" | mid where "p = suback mid" using assms by (auto simp: short_answer_def)
  then show ?thesis
  proof cases
    case 1
    then show ?thesis
      by (simp add: handle_packet_def pingresp_def MQTTParseMessageType_def rd_def Cloud_HB_Status_init_def with_gw_def Let_def)
  next
    case 2
    have "Mqtt_DoLogin e (connack code @ z) (d\<lparr>g_MQTTBuffer := b\<rparr>) =
        map_option (\<lambda>(c, eff). (c\<lparr>g_MQTTBuffer := b\<rparr>, eff)) (Mqtt_DoLogin e (connack code @ z') d)" for d
      by (simp add: Mqtt_DoLogin_def connack_def rd_def SubLoginTopic_buffer option.map_comp comp_def case_prod_beta Cloud_HB_Status_init_def buffer_swap)
    from this[of "Cloud_HB_Status_init c"] show ?thesis
      by (simp add: handle_packet_def 2 connack_def MQTTParseMessageType_def rd_def Cloud_HB_Status_init_def buffer_swap Let_def)
  next
    case 3
    have "MQTTParseMessageType (suback mid @ r) = Some MQTT_MSG_SUBACK" for r by (simp add: suback_def MQTTParseMessageType_def rd_def)
    then show ?thesis using SubLoginTopic_buffer[of e b "Cloud_HB_Status_init c"]
      by (simp add: handle_packet_def 3 suback_id Cloud_HB_Status_init_def buffer_swap Let_def)
  qed
qed

lemma short_answer_read:
  assumes "short_answer p" and "length (p @ others) \<le> 2048"
  shows "MQTT_readPacket (Received (p @ others)) 2048 = Some (int (length (p @ others)), p @ others @ zeros (2048 - length (p @ others)))"
proof -
  obtain ty n rest where p: "p = ty # n # rest" "unat n < 128" "length rest = unat n"
    using assms(1) by (auto simp: short_answer_def pingresp_def connack_def suback_def)
  have "mqtt_parse_rem_len (p @ others) = Some (ucast n)" "mqtt_num_rem_len_bytes (p @ others) = Some 1"
    using p by (simp_all add: parse_one num_bytes)
  from readPacket_whole[OF assms(2) _ this] p show ?thesis by (simp add: unat_ucast16)
qed

text \<open>C32 Packets that arrive together are taken for one: when other packets wait in the socket behind a ping
  answer, a connection acknowledgement or a subscription acknowledgement, up to the size of the receive buffer, they
  are dropped without being looked at, whatever they are. Effects and state are those of the first packet alone, up to the
  contents of the receive buffer.\<close>

theorem packets_together_lost:
  assumes "broker_fd c \<noteq> -1" and "short_answer p" and "length (p @ others) \<le> 2048" and "ce_recv ev = Received (p @ others)"
  shows "MQTT_handlePacket ev c = map_option (\<lambda>(c', eff). (c'\<lparr>g_MQTTBuffer := p @ others @ zeros (2048 - length (p @ others))\<rparr>, eff))
    (MQTT_handlePacket (ev\<lparr>ce_recv := Received p\<rparr>) c)"
proof -
  have ne: "0 < length (p @ r)" for r using assms(2) by (auto simp: short_answer_def pingresp_def connack_def suback_def)
  have l: "length (p @ []) \<le> 2048" using assms(3) by simp
  have 1: "MQTT_handlePacket ev c = handle_packet (ce ev) (ce_stack ev) (p @ others @ zeros (2048 - length (p @ others))) (length (p @ others))
      (c\<lparr>g_MQTTBuffer := p @ others @ zeros (2048 - length (p @ others))\<rparr>)"
    by (rule handlePacket_received[OF assms(1,4) short_answer_read[OF assms(2,3)] ne])
  have 2: "MQTT_handlePacket (ev\<lparr>ce_recv := Received p\<rparr>) c = handle_packet (ce ev) (ce_stack ev) (p @ zeros (2048 - length p)) (length p)
      (c\<lparr>g_MQTTBuffer := p @ zeros (2048 - length p)\<rparr>)"
    using handlePacket_received[OF assms(1), of "ev\<lparr>ce_recv := Received p\<rparr>", OF _ short_answer_read[OF assms(2) l]] ne[of "[]"] by simp
  show ?thesis
    unfolding 1 2
    using short_answer_handled[OF assms(2), where c = "c\<lparr>g_MQTTBuffer := p @ zeros (2048 - length p)\<rparr>"
      and z = "others @ zeros (2048 - length (p @ others))"] by simp
qed

theorem packets_together_lost_witness:
  "MQTT_handlePacket (cenv (Received (pingresp @ connack 0))) cloud1 =
     map_option (\<lambda>(c', eff). (c'\<lparr>g_MQTTBuffer := pingresp @ connack 0 @ zeros (2048 - length (pingresp @ connack 0))\<rparr>, eff))
       (MQTT_handlePacket ((cenv (Received (pingresp @ connack 0)))\<lparr>ce_recv := Received pingresp\<rparr>) cloud1)"
  by (rule packets_together_lost) (simp_all add: short_answer_def pingresp_def connack_def)

section \<open>The heart beat\<close>

fun hb_ticks :: "env \<Rightarrow> nat \<Rightarrow> cloud \<Rightarrow> cloud \<times> effect list" where
  "hb_ticks e 0 c = (c, [])"
| "hb_ticks e (Suc n) c = (let (c, eff1) = hb_ticks e n c; (c, eff2) = GAgent_Cloud_Timer e c in (c, eff1 @ eff2))"

abbreviation (input) "pings n c \<equiv> replicate n (Send (broker_fd c) [0xC0, 0])"

lemma of_nat_mod_step: "n mod 50 \<noteq> 49 \<Longrightarrow> Suc n mod 50 = Suc (n mod 50) \<and> Suc n div 50 = n div 50"
  by (auto simp: mod_Suc div_Suc)

lemma of_nat_mod_wrap: "n mod 50 = 49 \<Longrightarrow> Suc n mod 50 = 0 \<and> Suc n div 50 = Suc (n div 50)"
  by (auto simp: mod_Suc div_Suc)

lemma hb_silent:
  assumes "0 \<le> broker_fd c" and "pingTime c = 0" and "loseTime c = 0" and "n < 120"
  shows "hb_ticks e n c = (c\<lparr>pingTime := of_nat (n mod 50), loseTime := of_nat (n div 50)\<rparr>, pings (n div 50) c)"
  using assms(4)
proof (induction n)
  case 0
  have "c\<lparr>pingTime := 0, loseTime := 0\<rparr> = c" using assms(2,3) by (cases c) simp
  then show ?case by simp
next
  case (Suc n)
  let ?c = "c\<lparr>pingTime := of_nat (n mod 50), loseTime := of_nat (n div 50)\<rparr>"
  have IH: "hb_ticks e n c = (?c, pings (n div 50) c)" using Suc by simp
  have fd: "broker_fd (c\<lparr>pingTime := x, loseTime := y\<rparr>) = broker_fd c" "broker_fd (c\<lparr>loseTime := y, pingTime := x\<rparr>) = broker_fd c" for x y
    by (simp_all add: broker_fd_def)
  have ping: "map (Send (broker_fd c)) (snd (mqtt_ping s b)) = pings 1 c" for s b by (simp add: mqtt_ping_def Let_def)
  have u: "unat (of_nat k :: u32) = k" if "k < 200" for k using that by (intro unat_of_nat32) simp
  have small: "n mod 50 < 50" by simp
  show ?case
  proof (cases "n mod 50 = 49")
    case True
    have "of_nat (n mod 50) + 1 = (50 :: u32)" unfolding True by simp
    moreover have "(20 :: u32) \<le> 0 \<longleftrightarrow> False" by simp
    ultimately show ?thesis
      using IH of_nat_mod_wrap[OF True] assms(1) fd ping
      by (simp add: GAgent_Cloud_Timer_def Cloud_Mqtt_HB_Timer_def Let_def replicate_append_same add.commute)
  next
    case False
    note s = of_nat_mod_step[OF False]
    have p: "of_nat (n mod 50) + 1 = (of_nat (Suc n mod 50) :: u32)" using s by (simp add: add.commute)
    have "\<not> (50 :: u32) \<le> of_nat (Suc n mod 50)" using u[of "Suc n mod 50"] by (simp add: word_le_nat_alt)
    moreover have "\<not> ((2 :: u32) \<le> of_nat (n div 50) \<and> (20 :: u32) \<le> of_nat (Suc n mod 50))"
    proof -
      have "n mod 50 < 19" if "\<not> n div 50 < 2"
        using that Suc.prems mult_div_mod_eq[of 50 n] by linarith
      then have "n div 50 < 2 \<or> Suc n mod 50 < 20" using s by auto
      moreover have "unat (of_nat (Suc n mod 50) :: u32) = Suc n mod 50" "unat (of_nat (n div 50) :: u32) = n div 50"
        using u[of "Suc n mod 50"] u[of "n div 50"] small s Suc.prems by simp_all
      ultimately show ?thesis by (simp add: word_le_nat_alt not_le)
    qed
    ultimately show ?thesis
      using IH assms(1) fd s by (simp add: GAgent_Cloud_Timer_def Cloud_Mqtt_HB_Timer_def Let_def p del: of_nat_Suc)
  qed
qed

lemma hb_dead:
  assumes "0 \<le> broker_fd c" and "pingTime c = 0" and "loseTime c = 0"
  shows "hb_ticks e 120 c = (Cloud_HB_Status_init (set_broker_fd (-1) (c\<lparr>loseTime := 2, pingTime := 20, g_ConCloud_Status := CONCLOUD_REQ_LOGIN\<rparr>)),
      pings 2 c @ [CloseFd (broker_fd c)])"
proof -
  have "hb_ticks e 119 c = (c\<lparr>pingTime := 19, loseTime := 2\<rparr>, pings 2 c)"
    using hb_silent[OF assms, of 119 e] by simp
  then have "hb_ticks e (Suc 119) c = (Cloud_HB_Status_init (set_broker_fd (-1) (c\<lparr>loseTime := 2, pingTime := 20, g_ConCloud_Status := CONCLOUD_REQ_LOGIN\<rparr>)),
      pings 2 c @ [CloseFd (broker_fd c)])"
    unfolding hb_ticks.simps(2) using assms(1)
    by (simp add: GAgent_Cloud_Timer_def Cloud_Mqtt_HB_Timer_def Let_def broker_fd_def set_broker_fd_def with_gw_def del: hb_ticks.simps)
  then show ?thesis by (simp del: hb_ticks.simps)
qed

text \<open>C14 A dead connection is noticed after exactly 120 seconds: while nothing is received the client
  sends a ping after 50 and after 100 seconds and keeps the session; at the 120th second it closes the
  socket and goes back to logging in.\<close>

theorem dead_connection_relogin:
  assumes "0 \<le> broker_fd c" and "pingTime c = 0" and "loseTime c = 0" and "n < 120"
  shows "g_ConCloud_Status (fst (hb_ticks e n c)) = g_ConCloud_Status c \<and> broker_fd (fst (hb_ticks e n c)) = broker_fd c \<and>
    snd (hb_ticks e n c) = pings (n div 50) c \<and>
    g_ConCloud_Status (fst (hb_ticks e 120 c)) = CONCLOUD_REQ_LOGIN \<and> broker_fd (fst (hb_ticks e 120 c)) = -1 \<and>
    snd (hb_ticks e 120 c) = pings 2 c @ [CloseFd (broker_fd c)]"
  using hb_silent[OF assms, of e] hb_dead[OF assms(1-3), of e]
  by (simp add: broker_fd_def Cloud_HB_Status_init_def set_broker_fd_def with_gw_def del: hb_ticks.simps)

theorem dead_connection_relogin_witness:
  "g_ConCloud_Status (fst (hb_ticks env0 60 cloud1)) = g_ConCloud_Status cloud1 \<and> broker_fd (fst (hb_ticks env0 60 cloud1)) = broker_fd cloud1 \<and>
    snd (hb_ticks env0 60 cloud1) = pings (60 div 50) cloud1 \<and>
    g_ConCloud_Status (fst (hb_ticks env0 120 cloud1)) = CONCLOUD_REQ_LOGIN \<and> broker_fd (fst (hb_ticks env0 120 cloud1)) = -1 \<and>
    snd (hb_ticks env0 120 cloud1) = pings 2 cloud1 @ [CloseFd (broker_fd cloud1)]"
  by (rule dead_connection_relogin) simp_all

section \<open>The stages of a session\<close>

definition stage :: "cloud \<Rightarrow> nat" where
  "stage c = (let s = g_MQTTStatus (gwst c) in
     if s = MQTT_STATUS_LOGINTOPIC1 then 1 else if s = MQTT_STATUS_LOGINTOPIC2 then 2
     else if s = MQTT_STATUS_LOGINTOPIC3 then 3 else if s = MQTT_STATUS_RUNNING then 4 else 0)"

text \<open>A packet that acknowledges the last request of the client.\<close>

definition acknowledges :: "bytes \<Rightarrow> cloud \<Rightarrow> bool" where
  "acknowledges buf c \<longleftrightarrow>
     (MQTTParseMessageType buf = Some MQTT_MSG_CONNACK \<and> g_MQTTStatus (gwst c) = MQTT_STATUS_LOGIN \<and> rd buf 3 = Some 0) \<or>
     (MQTTParseMessageType buf = Some MQTT_MSG_SUBACK \<and> map_option ucast (mqtt_parse_msg_id buf) = Some (g_Msgsub_id c))"

text \<open>The abstract session: five stages, one step forward for an acknowledgement, commands in the last.\<close>

inductive session_step :: "bool \<Rightarrow> bool \<Rightarrow> nat \<Rightarrow> nat \<Rightarrow> bool" where
  stay: "session_step ack False s s"
| advance: "s < 4 \<Longrightarrow> session_step True False s (Suc s)"
| command: "session_step ack True 4 4"

inductive_cases session_stepE: "session_step ack cmd s s'"

lemma stage_simps:
  "stage (set_mqtt_status MQTT_STATUS_LOGINTOPIC1 c) = 1" "stage (set_mqtt_status MQTT_STATUS_LOGINTOPIC2 c) = 2"
  "stage (set_mqtt_status MQTT_STATUS_LOGINTOPIC3 c) = 3" "stage (set_mqtt_status MQTT_STATUS_RUNNING c) = 4"
  by (simp_all add: stage_def set_mqtt_status_def with_gw_def Let_def)

lemma stage_HB [simp]: "stage (Cloud_HB_Status_init c) = stage c"
  by (simp add: stage_def Cloud_HB_Status_init_def Let_def)

lemma HB_gwst [simp]: "gwst (Cloud_HB_Status_init c) = gwst c"
  by (simp add: Cloud_HB_Status_init_def)

lemma HB_Msgsub [simp]: "g_Msgsub_id (Cloud_HB_Status_init c) = g_Msgsub_id c"
  by (simp add: Cloud_HB_Status_init_def)

lemma subscribe_stage_effect:
  assumes "subscribe_stage e n k st c = Some (c', eff)"
  shows "device (gwst c') = device (gwst c) \<and> (stage c' = stage c \<or> stage c' = stage (set_mqtt_status st c))"
proof -
  obtain topic r b id packets t where
    "init_subTopic (gwst c) (zeros 100) n = Some topic"
    "mqtt_subscribe (e_mem e) (e_send e) (g_stMQTTBroker (gwst c)) topic True = Some (r, b, id, packets)"
    "cstr topic = Some t"
    using assms by (auto simp: subscribe_stage_def Let_def split: Option.bind_splits)
  then show ?thesis using assms
    by (auto simp: subscribe_stage_def Let_def with_gw_def set_mqtt_status_def stage_def split: if_splits)
qed

lemma SubLoginTopic_effect:
  assumes "Mqtt_SubLoginTopic e c = Some (c', eff)"
  shows "device (gwst c') = device (gwst c) \<and> (stage c' = stage c \<or> stage c < 4 \<and> stage c' = Suc (stage c))"
proof -
  let ?s = "g_MQTTStatus (gwst c)"
  consider "?s = MQTT_STATUS_LOGIN" | "?s = MQTT_STATUS_LOGINTOPIC1" | "?s = MQTT_STATUS_LOGINTOPIC2" | "?s = MQTT_STATUS_LOGINTOPIC3"
    | "?s \<noteq> MQTT_STATUS_LOGIN" "?s \<noteq> MQTT_STATUS_LOGINTOPIC1" "?s \<noteq> MQTT_STATUS_LOGINTOPIC2" "?s \<noteq> MQTT_STATUS_LOGINTOPIC3"
    by blast
  then show ?thesis
  proof cases
    case 1
    moreover from this have "stage c = 0" by (simp add: stage_def)
    ultimately show ?thesis using assms subscribe_stage_effect[of e 1 19 MQTT_STATUS_LOGINTOPIC1 c c' eff]
      by (auto simp: Mqtt_SubLoginTopic_def stage_simps)
  next
    case 2
    moreover from this have "stage c = 1" by (simp add: stage_def)
    ultimately show ?thesis using assms subscribe_stage_effect[of e 2 22 MQTT_STATUS_LOGINTOPIC2 c c' eff]
      by (auto simp: Mqtt_SubLoginTopic_def stage_simps)
  next
    case 3
    moreover from this have "stage c = 2" by (simp add: stage_def)
    ultimately show ?thesis using assms subscribe_stage_effect[of e 3 22 MQTT_STATUS_LOGINTOPIC3 c c' eff]
      by (auto simp: Mqtt_SubLoginTopic_def stage_simps)
  next
    case 4
    then show ?thesis using assms
      by (auto simp: Mqtt_SubLoginTopic_def Mqtt_IntoRunning_def stage_simps) (simp_all add: stage_def set_mqtt_status_def with_gw_def)
  next
    case 5
    then show ?thesis using assms by (simp add: Mqtt_SubLoginTopic_def)
  qed
qed

lemma PubMsg_status: "PubMsg e t p n fl g = Some (r, g', eff) \<Longrightarrow> g_MQTTStatus g' = g_MQTTStatus g"
  by (auto simp: PubMsg_def split: if_splits Option.bind_splits)

lemma SendPublish_status: "MCU_SendPublishPacket e b n g = Some (r, g', eff) \<Longrightarrow> g_MQTTStatus g' = g_MQTTStatus g"
  by (auto simp: MCU_SendPublishPacket_def dest: PubMsg_status split: if_splits Option.bind_splits)

lemma ResponseDevStatus_status: "ResponseDevStatus e fd g = Some (g', eff) \<Longrightarrow> g_MQTTStatus g' = g_MQTTStatus g"
  by (auto simp: ResponseDevStatus_def report_exact Let_def dest: SendPublish_status split: Option.bind_splits)

lemma CtlDev_status: "GAgentV4_CtlDev_with_p0 e d n g = Some (r, g') \<Longrightarrow> g_MQTTStatus g' = g_MQTTStatus g"
  by (auto simp: GAgentV4_CtlDev_with_p0_def split: if_splits Option.bind_splits)

lemma DoCloudMCUCmd_status: "MQTT_DoCloudMCUCmd e d c = Some (r, c', eff) \<Longrightarrow> g_MQTTStatus (gwst c') = g_MQTTStatus (gwst c)"
  by (auto simp: MQTT_DoCloudMCUCmd_def dest!: ResponseDevStatus_status CtlDev_status split: if_splits Option.bind_splits)

lemma take_over_status: "take_over_did b i g = Some (g', eff) \<Longrightarrow> g_MQTTStatus g' = g_MQTTStatus g"
  by (auto simp: take_over_did_def Let_def split: if_splits Option.bind_splits)

lemma app2dev_status: "dispatch_app2dev e t m c = Some (c', eff) \<Longrightarrow> g_MQTTStatus (gwst c') = g_MQTTStatus (gwst c)"
  by (auto simp: dispatch_app2dev_def dest!: DoCloudMCUCmd_status take_over_status split: Option.bind_splits)

lemma dispatch_keeps_session:
  "Mqtt_DispatchPublishPacket e stack buf n c = Some (r, c', eff) \<Longrightarrow> g_MQTTStatus (gwst c') = g_MQTTStatus (gwst c)"
  by (auto simp: Mqtt_DispatchPublishPacket_def Let_def dest!: app2dev_status split: if_splits Option.bind_splits)

text \<open>What one packet does, seen from the five stages.\<close>

definition session_sim :: "bytes \<Rightarrow> cloud \<Rightarrow> cloud \<Rightarrow> bool" where
  "session_sim buf c c' \<longleftrightarrow> (\<exists>cmd. session_step (acknowledges buf c) cmd (stage c) (stage c') \<and>
    (cmd \<or> device (gwst c') = (device (gwst c))\<lparr>pins := pins (device (gwst c'))\<rparr>) \<and>
    (cmd = (MQTTParseMessageType buf = Some MQTT_MSG_PUBLISH \<and> stage c = 4)))"

lemma session_pingresp:
  assumes "handle_packet e stack buf n c = Some (c', eff)" and ty: "MQTTParseMessageType buf = Some MQTT_MSG_PINGRESP"
  shows "session_sim buf c c'"
proof -
  have "stage c' = stage c" "device (gwst c') = (device (gwst c))\<lparr>pins := pins (device (gwst c'))\<rparr>"
    using assms ty by (auto simp: handle_packet_def Let_def with_gw_def stage_def BSP_GPIOSetValue_def split: if_splits)
  then show ?thesis using ty by (unfold session_sim_def, intro exI[of _ False]) (simp add: session_step.stay)
qed

lemma session_connack:
  assumes "handle_packet e stack buf n c = Some (c', eff)" and ty: "MQTTParseMessageType buf = Some MQTT_MSG_CONNACK"
  shows "session_sim buf c c'"
proof -
  let ?c = "Cloud_HB_Status_init c"
  show ?thesis
  proof (cases "g_MQTTStatus (gwst c) = MQTT_STATUS_LOGIN \<and> rd buf 3 = Some 0")
    case True
    then obtain c1 where "Mqtt_SubLoginTopic e ?c = Some (c1, eff)" "c' = Cloud_HB_Status_init c1"
      using assms ty by (auto simp: handle_packet_def Mqtt_DoLogin_def split: Option.bind_splits)
    then have "device (gwst c') = device (gwst c)" "stage c' = stage c \<or> stage c < 4 \<and> stage c' = Suc (stage c)"
      using SubLoginTopic_effect[of e ?c c1 eff] by simp_all
    then show ?thesis using ty True
      by (unfold session_sim_def, intro exI[of _ False]) (auto simp: acknowledges_def intro: session_step.intros)
  next
    case False
    then have "stage c' = stage c" "device (gwst c') = device (gwst c)"
      using assms ty by (auto simp: handle_packet_def Mqtt_DoLogin_def stage_def Let_def split: Option.bind_splits if_splits)
    then show ?thesis using ty by (unfold session_sim_def, intro exI[of _ False]) (simp add: session_step.stay)
  qed
qed

lemma session_suback:
  assumes "handle_packet e stack buf n c = Some (c', eff)" and ty: "MQTTParseMessageType buf = Some MQTT_MSG_SUBACK"
  shows "session_sim buf c c'"
proof -
  let ?c = "Cloud_HB_Status_init c"
  obtain id where id: "mqtt_parse_msg_id buf = Some id"
    "(if g_Msgsub_id c = ucast id then Mqtt_SubLoginTopic e ?c else Some (?c, [])) = Some (c', eff)"
    using assms ty by (auto simp: handle_packet_def Let_def split: Option.bind_splits)
  show ?thesis
  proof (cases "g_Msgsub_id c = ucast id")
    case True
    then have "device (gwst c') = device (gwst c)" "stage c' = stage c \<or> stage c < 4 \<and> stage c' = Suc (stage c)"
      using SubLoginTopic_effect[of e ?c c' eff] id by simp_all
    moreover have "acknowledges buf c" using True id ty by (simp add: acknowledges_def)
    ultimately show ?thesis using ty by (unfold session_sim_def, intro exI[of _ False]) (auto intro: session_step.intros)
  next
    case False
    then have "c' = ?c" using id by simp
    then show ?thesis using ty by (unfold session_sim_def, intro exI[of _ False]) (simp add: session_step.stay)
  qed
qed

lemma session_publish:
  assumes "handle_packet e stack buf n c = Some (c', eff)" and ty: "MQTTParseMessageType buf = Some MQTT_MSG_PUBLISH"
  shows "session_sim buf c c'"
proof -
  let ?c = "Cloud_HB_Status_init c"
  show ?thesis
  proof (cases "stage c = 4")
    case True
    then have run: "g_MQTTStatus (gwst c) = MQTT_STATUS_RUNNING" by (simp add: stage_def Let_def split: if_splits)
    then obtain r where "Mqtt_DispatchPublishPacket e stack buf n ?c = Some (r, c', eff)"
      using assms ty by (auto simp: handle_packet_def split: Option.bind_splits)
    then have "stage c' = 4" using dispatch_keeps_session run by (simp add: stage_def)
    then show ?thesis using True ty by (unfold session_sim_def, intro exI[of _ True]) (simp add: session_step.command)
  next
    case False
    then have "g_MQTTStatus (gwst c) \<noteq> MQTT_STATUS_RUNNING" by (auto simp: stage_def)
    then have "c' = ?c" using assms ty by (auto simp: handle_packet_def)
    then show ?thesis using False ty by (unfold session_sim_def, intro exI[of _ False]) (simp add: session_step.stay)
  qed
qed

lemma session_other:
  assumes "handle_packet e stack buf n c = Some (c', eff)" and ty: "MQTTParseMessageType buf = Some ty"
    and other: "ty \<noteq> MQTT_MSG_PINGRESP" "ty \<noteq> MQTT_MSG_CONNACK" "ty \<noteq> MQTT_MSG_SUBACK" "ty \<noteq> MQTT_MSG_PUBLISH"
  shows "session_sim buf c c'"
proof -
  let ?c = "Cloud_HB_Status_init c"
  have "c' = ?c" using assms other by (auto simp: handle_packet_def Let_def)
  then show ?thesis using ty other by (unfold session_sim_def, intro exI[of _ False]) (simp add: session_step.stay)
qed

text \<open>C9 The session refines five stages: whatever packet arrives, the detailed code makes a step of the
  abstract session. A stage is entered one after the other, only for an acknowledgement of the last
  request (a positive CONNACK, a SUBACK with its id), and the device obeys only in the last stage, to a
  PUBLISH.\<close>

theorem session_refines_stages:
  assumes "handle_packet e stack buf n c = Some (c', eff)"
  shows "\<exists>cmd. session_step (acknowledges buf c) cmd (stage c) (stage c') \<and>
    (cmd \<or> device (gwst c') = (device (gwst c))\<lparr>pins := pins (device (gwst c'))\<rparr>) \<and>
    (cmd = (MQTTParseMessageType buf = Some MQTT_MSG_PUBLISH \<and> stage c = 4))"
proof -
  obtain ty where ty: "MQTTParseMessageType buf = Some ty"
    using assms by (auto simp: handle_packet_def split: Option.bind_splits)
  have "session_sim buf c c'"
    using session_pingresp[OF assms] session_connack[OF assms] session_suback[OF assms] session_publish[OF assms]
      session_other[OF assms ty] ty by blast
  then show ?thesis by (simp only: session_sim_def)
qed

theorem session_refines_stages_witness:
  "\<exists>c' eff cmd. handle_packet env0 (zeros 128) (pingresp @ zeros 2046) 2 cloud1 = Some (c', eff) \<and>
    session_step (acknowledges (pingresp @ zeros 2046) cloud1) cmd (stage cloud1) (stage c') \<and>
    (cmd \<or> device (gwst c') = (device (gwst cloud1))\<lparr>pins := pins (device (gwst c'))\<rparr>) \<and>
    (cmd = (MQTTParseMessageType (pingresp @ zeros 2046) = Some MQTT_MSG_PUBLISH \<and> stage cloud1 = 4))"
proof -
  obtain c' eff where "handle_packet env0 (zeros 128) (pingresp @ zeros 2046) 2 cloud1 = Some (c', eff)"
    by (cases "handle_packet env0 (zeros 128) (pingresp @ zeros 2046) 2 cloud1")
      (auto simp: handle_packet_def pingresp_def MQTTParseMessageType_def rd_def Let_def)
  with session_refines_stages[OF this] show ?thesis by blast
qed

text \<open>C36 The topic of a command is copied into two arrays of 32 bytes without looking at their size: the
  dispatcher stays inside them exactly when the device name in the topic and the name of the client
  have at most 31 bytes each. (A broker's client names may be longer than that.)\<close>

theorem command_topic_bounds:
  assumes "no_nul name" and "0x2f \<notin> set name" and "no_nul client" and "DIdLen (gwst c) \<noteq> 0" and "length (phoneClientId c) = 32"
    and "\<And>c1. gwst c1 = gwst c \<Longrightarrow> \<exists>r. MQTT_DoCloudMCUCmd e msg c1 = Some r"
  shows "(\<exists>r. dispatch_app2dev e (command_topic name client @ 0 # rest) msg c = Some r) \<longleftrightarrow> length name < 32 \<and> length client < 32"
proof (cases "length name < 32 \<and> length client < 32")
  case True
  then have ok: "topic_ok name client" using assms by (simp add: topic_ok_def)
  obtain r c' eff where "MQTT_DoCloudMCUCmd e msg (c\<lparr>phoneClientId := client @ 0 # drop (length client + 1) (phoneClientId c)\<rparr>) = Some (r, c', eff)"
    using assms(6)[of "c\<lparr>phoneClientId := client @ 0 # drop (length client + 1) (phoneClientId c)\<rparr>"] by auto
  then show ?thesis using dispatch_app2dev_command[OF ok assms(4,5)] True by blast
next
  case False
  have t: "drop 8 (command_topic name client @ 0 # rest) = name @ 0x2f # client @ 0 # rest"
    by (simp add: command_topic_def app2dev_def)
  have "dispatch_app2dev e (command_topic name client @ 0 # rest) msg c = None"
  proof (cases "length name < 32")
    case True
    then have "\<not> length client < 32" using False by simp
    then show ?thesis
      using assms(2-4) True by (auto simp: dispatch_app2dev_def t copy_until_zeros take_over_did_def no_nul_def simp del: drop_append split: Option.bind_splits)
  next
    case False
    then show ?thesis using assms(2) by (simp add: dispatch_app2dev_def t copy_until_zeros del: drop_append)
  qed
  then show ?thesis using False by auto
qed

theorem command_topic_bounds_witness:
  "(\<exists>r. dispatch_app2dev (env0\<lparr>e_mem := \<lambda>_. True\<rparr>) (command_topic (ascii ''did1'') (replicate 40 97) @ 0 # [])
      (control_frame 0 0x90 (1 # 1 # [1]) @ zeros 10) cloud1 = Some r) \<longleftrightarrow>
    length (ascii ''did1'') < 32 \<and> length (replicate 40 (97 :: u8)) < 32"
proof (rule command_topic_bounds)
  show "\<exists>r. MQTT_DoCloudMCUCmd (env0\<lparr>e_mem := \<lambda>_. True\<rparr>) (control_frame 0 0x90 (1 # 1 # [1]) @ zeros 10) c1 = Some r"
    if "gwst c1 = gwst cloud1" for c1
    using cloud_command[of "[1]" 1 "env0\<lparr>e_mem := \<lambda>_. True\<rparr>" 1 c1 _ "ascii ''did1''"] that by (simp add: example_device)
qed (simp_all add: no_nul_def ascii_def)

section \<open>Subscribing completely\<close>

definition sub_packet :: "mqtt_broker_handle_t \<Rightarrow> bytes \<Rightarrow> bytes" where
  "sub_packet broker t = [0x82, of_nat (length t + 5)] @ be16 (mb_seq broker) @ be16 (of_nat (length t)) @ t @ [0]"

lemma subscribe_sent:
  assumes "no_nul t" and "length t < 65536" and "mem 0" and "mem 1" and "\<And>fd p. mqttsend fd p = int (length p)"
  shows "mqtt_subscribe mem mqttsend broker (t @ 0 # r) True =
    Some (1, broker\<lparr>mb_seq := mb_seq broker + 1\<rparr>, Some (mb_seq broker), [sub_packet broker t])"
proof -
  have u: "utf_topic t (length t + 3) = Some (be16 (of_nat (length t)) @ t @ [0])"
    using utf_topic_exact[of t 1] by (simp add: zeros_def numeral_3_eq_3)
  show ?thesis
    using u topic_arg_eq[OF assms(1,2)] assms(3-5)
    by (simp add: mqtt_subscribe_def topic_request_def assemble_exact short_int_def zeros_def Let_def sub_packet_def)
qed

definition sub_topic :: "gw \<Rightarrow> bytes \<Rightarrow> nat \<Rightarrow> bytes" where
  "sub_topic g did n = (if n = 1 then ascii ''ser2cli_noti/'' @ take 32 (product_key g)
     else if n = 2 then ascii ''ser2cli_res/'' @ did else ascii ''app2dev/'' @ did @ [0x2f, 0x23])"

text \<open>The identity a session needs: a product key of 32 characters and a device id.\<close>

definition identity_ok :: "gw \<Rightarrow> bytes \<Rightarrow> bool" where
  "identity_ok g did \<longleftrightarrow> length (product_key g) = 33 \<and> no_nul (take 32 (product_key g)) \<and> g_productKeyLen g = 32 \<and>
     cstr (DID g) = Some did \<and> length did < 24"

lemma sub_topic_ok:
  assumes "identity_ok g did"
  shows "no_nul (sub_topic g did n)" and "length (sub_topic g did n) \<le> 45"
proof -
  have "no_nul did" using assms cstr_no_nul by (auto simp: identity_ok_def)
  then show "no_nul (sub_topic g did n)" using assms by (auto simp: sub_topic_def identity_ok_def no_nul_def ascii_def)
  show "length (sub_topic g did n) \<le> 45" using assms by (auto simp: sub_topic_def identity_ok_def)
qed

lemma zeros_Suc: "0 < k \<Longrightarrow> zeros k = 0 # zeros (k - 1)"
  by (cases k) (simp_all add: zeros_def)

lemma put_zeros: "length s \<le> k \<Longrightarrow> off = length pre \<Longrightarrow> wr_seg (pre @ zeros k) off s = Some ((pre @ s) @ zeros (k - length s))"
  by (simp add: wr_seg_end)

lemma wr_zeros: "0 < k \<Longrightarrow> off = length pre \<Longrightarrow> wr (pre @ zeros k) off v = Some ((pre @ [v]) @ zeros (k - 1))"
  using zeros_Suc[of k] by (simp add: wr_def list_update_append)

lemma init_subTopic_exact:
  assumes "identity_ok g did" and "n = 1 \<or> n = 2 \<or> n = 3"
  shows "\<exists>r. init_subTopic g (zeros 100) n = Some (sub_topic g did n @ 0 # r)"
proof -
  note id = assms(1)[unfolded identity_ok_def]
  have 0: "wr_seg (zeros 100) 0 s = Some (s @ zeros (100 - length s))" if "length s \<le> 100" for s
    using put_zeros[of s 100 0 "[]"] that by simp
  consider "n = 1" | "n = 2" | "n = 3" using assms(2) by blast
  then show ?thesis
  proof cases
    case 1
    have "rd_seg (product_key g) 0 32 = Some (take 32 (product_key g))" using id by (simp add: rd_seg_def)
    then show ?thesis
      using 1 0[of "ascii ''ser2cli_noti/''"] put_zeros[of "take 32 (product_key g)" 87 13 "ascii ''ser2cli_noti/''"]
        wr_zeros[of 55 45 "ascii ''ser2cli_noti/'' @ take 32 (product_key g)" 0] id
      by (simp add: init_subTopic_def sub_topic_def)
  next
    case 2
    then show ?thesis
      using 0[of "ascii ''ser2cli_res/''"] put_zeros[of did 88 12 "ascii ''ser2cli_res/''"]
        wr_zeros[of "88 - length did" "12 + length did" "ascii ''ser2cli_res/'' @ did" 0] id
      by (simp add: init_subTopic_def sub_topic_def)
  next
    case 3
    then show ?thesis
      using 0[of "ascii ''app2dev/''"] put_zeros[of did 92 8 "ascii ''app2dev/''"]
        wr_zeros[of "92 - length did" "8 + length did" "ascii ''app2dev/'' @ did" "0x2f"] wr_zeros[of "91 - length did" "8 + length did + 1" "ascii ''app2dev/'' @ did @ [0x2f]" "0x23"]
        wr_zeros[of "90 - length did" "8 + length did + 2" "ascii ''app2dev/'' @ did @ [0x2f, 0x23]" 0] id
      by (simp add: init_subTopic_def sub_topic_def)
  qed
qed

lemma subscribe_stage_sent:
  assumes "identity_ok (gwst c) did" and "n = 1 \<or> n = 2 \<or> n = 3" and "k \<le> 22"
    and "\<And>i. e_mem e i" and "\<And>fd p. e_send e fd p = int (length p)"
  shows "subscribe_stage e n k st c =
    Some (set_mqtt_status st ((with_gw (\<lambda>g. g\<lparr>g_stMQTTBroker := (g_stMQTTBroker g)\<lparr>mb_seq := mb_seq (g_stMQTTBroker g) + 1\<rparr>\<rparr>) c)
        \<lparr>g_Msgsub_id := mb_seq (g_stMQTTBroker (gwst c))\<rparr>),
      [Send (broker_fd c) (sub_packet (g_stMQTTBroker (gwst c)) (sub_topic (gwst c) did n))])"
proof -
  let ?t = "sub_topic (gwst c) did n"
  obtain r where t: "init_subTopic (gwst c) (zeros 100) n = Some (?t @ 0 # r)"
    using init_subTopic_exact[OF assms(1,2)] by blast
  have l: "length ?t < 65536" using sub_topic_ok(2)[OF assms(1), of n] by simp
  have "k + length ?t + 2 \<le> 100" using sub_topic_ok(2)[OF assms(1), of n] assms(3) by simp
  then show ?thesis
    using t subscribe_sent[OF sub_topic_ok(1)[OF assms(1)] l, of "e_mem e" "e_send e"] assms(4,5) cstr_append[OF sub_topic_ok(1)[OF assms(1)]]
    by (simp add: subscribe_stage_def with_gw_def Let_def)
qed

section \<open>A login answered by the broker\<close>

lemma readPacket_small:
  assumes "p = ty # n # rest" and "unat n < 128" and "length rest = unat n"
  shows "MQTT_readPacket (Received p) 2048 = Some (int (length p), p @ zeros (2048 - length p))"
proof (rule readPacket_whole)
  show "mqtt_parse_rem_len p = Some (ucast n)" "mqtt_num_rem_len_bytes p = Some 1"
    using assms by (simp_all add: parse_one num_bytes)
qed (use assms in \<open>simp_all add: unat_ucast16\<close>)


lemma answers_read:
  "MQTT_readPacket (Received (connack code)) 2048 = Some (int 4, connack code @ zeros 2044)"
  "MQTT_readPacket (Received (suback mid)) 2048 = Some (int 5, suback mid @ zeros 2043)"
  "MQTT_readPacket (Received pingresp) 2048 = Some (int 2, pingresp @ zeros 2046)"
  using readPacket_small[of "connack code" "0x20" 2 "[0, code]"] readPacket_small[of "suback mid" "0x90" 3 "be16 mid @ [0]"]
    readPacket_small[of pingresp "0xD0" 0 "[]"]
  by (simp_all add: connack_def suback_def pingresp_def)

text \<open>The state after one subscription has been sent in stage \<open>st\<close>: the status, and the id of the request.\<close>

definition subscribed :: "int \<Rightarrow> cloud \<Rightarrow> cloud \<Rightarrow> bool" where
  "subscribed st c c' \<longleftrightarrow>
     gwst c' = (gwst c)\<lparr>g_MQTTStatus := st, g_stMQTTBroker := (g_stMQTTBroker (gwst c))\<lparr>mb_seq := mb_seq (g_stMQTTBroker (gwst c)) + 1\<rparr>\<rparr> \<and>
     g_Msgsub_id c' = mb_seq (g_stMQTTBroker (gwst c)) \<and> g_ConCloud_Status c' = g_ConCloud_Status c \<and>
     connect2CloudLastTime c' = connect2CloudLastTime c \<and> wifiStatus c' = wifiStatus c \<and> packet_copies c' = packet_copies c \<and>
     phoneClientId c' = phoneClientId c"

lemma SubLoginTopic_sent:
  assumes "identity_ok (gwst c) did" and "\<And>i. e_mem e i" and "\<And>fd p. e_send e fd p = int (length p)"
    and "(g_MQTTStatus (gwst c), n, st) \<in> {(MQTT_STATUS_LOGIN, 1, MQTT_STATUS_LOGINTOPIC1),
      (MQTT_STATUS_LOGINTOPIC1, 2, MQTT_STATUS_LOGINTOPIC2), (MQTT_STATUS_LOGINTOPIC2, 3, MQTT_STATUS_LOGINTOPIC3)}"
  shows "\<exists>c'. Mqtt_SubLoginTopic e c = Some (c', [Send (broker_fd c) (sub_packet (g_stMQTTBroker (gwst c)) (sub_topic (gwst c) did n))]) \<and>
    subscribed st c c'"
proof -
  have n: "n = 1 \<or> n = 2 \<or> n = 3" using assms(4) by auto
  have "Mqtt_SubLoginTopic e c = subscribe_stage e n (if n = 1 then 19 else 22) st c"
    using assms(4) by (auto simp: Mqtt_SubLoginTopic_def)
  then show ?thesis
    using subscribe_stage_sent[OF assms(1) n, of "if n = 1 then 19 else 22" e st] assms(2,3)
    by (simp add: subscribed_def set_mqtt_status_def with_gw_def)
qed

lemma subscribed_HB [simp]: "subscribed st c (Cloud_HB_Status_init c') = subscribed st c c'"
  "subscribed st (Cloud_HB_Status_init c) c' = subscribed st c c'"
  by (simp_all add: subscribed_def Cloud_HB_Status_init_def)

lemma subscribed_buffer [simp]: "subscribed st (c\<lparr>g_MQTTBuffer := b\<rparr>) c' = subscribed st c c'"
  by (simp add: subscribed_def)

lemma broker_fd_simps [simp]: "broker_fd (Cloud_HB_Status_init c) = broker_fd c" "broker_fd (c\<lparr>g_MQTTBuffer := b\<rparr>) = broker_fd c"
  by (simp_all add: broker_fd_def)

lemma connack_answered:
  assumes "identity_ok (gwst c) did" and "\<And>i. e_mem (ce ev) i" and "\<And>fd p. e_send (ce ev) fd p = int (length p)"
    and "broker_fd c \<noteq> -1" and "g_MQTTStatus (gwst c) = MQTT_STATUS_LOGIN" and "ce_recv ev = Received (connack 0)"
  shows "\<exists>c'. MQTT_handlePacket ev c = Some (c', [Send (broker_fd c) (sub_packet (g_stMQTTBroker (gwst c)) (sub_topic (gwst c) did 1))]) \<and>
    subscribed MQTT_STATUS_LOGINTOPIC1 c c'"
proof -
  let ?b = "connack 0 @ zeros 2044"
  let ?c = "Cloud_HB_Status_init (c\<lparr>g_MQTTBuffer := ?b\<rparr>)"
  have "MQTT_handlePacket ev c = handle_packet (ce ev) (ce_stack ev) ?b 4 (c\<lparr>g_MQTTBuffer := ?b\<rparr>)"
    by (rule handlePacket_received[OF assms(4,6) answers_read(1)]) simp
  also have "\<dots> = map_option (\<lambda>(c, eff). (Cloud_HB_Status_init c, eff)) (Mqtt_SubLoginTopic (ce ev) ?c)"
    using assms(5) by (simp add: handle_packet_def MQTTParseMessageType_def connack_def rd_def Mqtt_DoLogin_def)
  finally show ?thesis
    using SubLoginTopic_sent[of ?c did "ce ev" 1 MQTT_STATUS_LOGINTOPIC1] assms(1-3,5) by auto
qed

lemma suback_handled:
  assumes "broker_fd c \<noteq> -1" and "ce_recv ev = Received (suback (g_Msgsub_id c))" and "unat (g_Msgsub_id c) < 256"
  shows "\<exists>c0. MQTT_handlePacket ev c = Mqtt_SubLoginTopic (ce ev) c0 \<and> c0 = Cloud_HB_Status_init (c\<lparr>g_MQTTBuffer := suback (g_Msgsub_id c) @ zeros 2043\<rparr>)"
proof -
  let ?b = "suback (g_Msgsub_id c) @ zeros 2043"
  have "ucast (lo8 (g_Msgsub_id c)) = g_Msgsub_id c"
    unfolding word_unat_eq_iff unat_ucast16 lo8_def unat_ucast8 using assms(3) by simp
  moreover have "MQTT_handlePacket ev c = handle_packet (ce ev) (ce_stack ev) ?b 5 (c\<lparr>g_MQTTBuffer := ?b\<rparr>)"
    by (rule handlePacket_received[OF assms(1,2) answers_read(2)]) simp
  moreover have "MQTTParseMessageType ?b = Some MQTT_MSG_SUBACK"
    by (simp add: suback_def MQTTParseMessageType_def rd_def)
  ultimately show ?thesis by (simp add: handle_packet_def suback_id)
qed

lemma suback_answered:
  assumes "identity_ok (gwst c) did" and "\<And>i. e_mem (ce ev) i" and "\<And>fd p. e_send (ce ev) fd p = int (length p)"
    and "broker_fd c \<noteq> -1" and "ce_recv ev = Received (suback (g_Msgsub_id c))" and "unat (g_Msgsub_id c) < 256"
    and "(g_MQTTStatus (gwst c), n, st) \<in> {(MQTT_STATUS_LOGINTOPIC1, 2, MQTT_STATUS_LOGINTOPIC2), (MQTT_STATUS_LOGINTOPIC2, 3, MQTT_STATUS_LOGINTOPIC3)}"
  shows "\<exists>c'. MQTT_handlePacket ev c = Some (c', [Send (broker_fd c) (sub_packet (g_stMQTTBroker (gwst c)) (sub_topic (gwst c) did n))]) \<and>
    subscribed st c c'"
proof -
  obtain c0 where c0: "MQTT_handlePacket ev c = Mqtt_SubLoginTopic (ce ev) c0" "c0 = Cloud_HB_Status_init (c\<lparr>g_MQTTBuffer := suback (g_Msgsub_id c) @ zeros 2043\<rparr>)"
    using suback_handled[OF assms(4-6)] by blast
  then show ?thesis
    using SubLoginTopic_sent[of c0 did "ce ev" n st] assms(1-3,7) by auto
qed

lemma last_suback_runs:
  assumes "broker_fd c \<noteq> -1" and "ce_recv ev = Received (suback (g_Msgsub_id c))" and "unat (g_Msgsub_id c) < 256"
    and "g_MQTTStatus (gwst c) = MQTT_STATUS_LOGINTOPIC3"
  shows "\<exists>c'. MQTT_handlePacket ev c = Some (c', [Send (broker_fd c) [0xC0, 0]]) \<and>
    gwst c' = (gwst c)\<lparr>g_MQTTStatus := MQTT_STATUS_RUNNING\<rparr> \<and> g_ConCloud_Status c' = g_ConCloud_Status c \<and> packet_copies c' = packet_copies c"
proof -
  obtain c0 where c0: "MQTT_handlePacket ev c = Mqtt_SubLoginTopic (ce ev) c0" "c0 = Cloud_HB_Status_init (c\<lparr>g_MQTTBuffer := suback (g_Msgsub_id c) @ zeros 2043\<rparr>)"
    using suback_handled[OF assms(1-3)] by blast
  then show ?thesis
    using assms(4)
    by (simp add: Mqtt_SubLoginTopic_def Mqtt_IntoRunning_def mqtt_ping_def Let_def set_mqtt_status_def with_gw_def Cloud_HB_Status_init_def broker_fd_def)
qed

section \<open>Logging in\<close>

lemma c_strncpy_cstr:
  assumes "cstr b = Some s" and "n \<le> m"
  shows "c_strncpy (zeros m) b n = Some (take n s @ zeros (m - length (take n s)))"
proof -
  have "0 \<in> set b" and s: "takeWhile (\<lambda>x. x \<noteq> 0) b = s" using assms(1) by (auto simp: cstr_def split: if_splits)
  then show ?thesis using assms(2)
    by (simp add: c_strncpy_def wr_seg_def put_def Let_def zeros_def replicate_add [symmetric])
qed

definition credentials :: "bytes \<Rightarrow> bytes \<Rightarrow> mqtt_broker_handle_t \<Rightarrow> mqtt_broker_handle_t" where
  "credentials did pass b = b\<lparr>mb_clientid := did @ zeros (50 - length did), mb_username := did @ zeros (24 - length did),
     mb_password := pass @ zeros (24 - length pass), mb_clean_session := 1, mb_seq := 1, mb_alive := 120\<rparr>"

lemma init_credentials:
  assumes "cstr buf = Some did" and "did \<noteq> []" and "length did < 24" and "no_nul pass" and "pass \<noteq> []" and "length pass < 24"
  shows "mqtt_init broker (Some buf) \<bind> (\<lambda>b. mqtt_init_auth b (Some buf) (Some (pass @ [0]))) = Some (credentials did pass broker)"
proof -
  have h: "\<exists>v. rd b 0 = Some v \<and> v \<noteq> 0" if "cstr b = Some s" "s \<noteq> []" for b s :: bytes
    using that by (cases b) (auto simp: cstr_def rd_def split: if_splits)
  have p: "cstr (pass @ [0]) = Some pass" using cstr_append[OF assms(4)] by simp
  obtain u v where "rd buf 0 = Some u" "u \<noteq> 0" "rd (pass @ [0]) 0 = Some v" "v \<noteq> 0"
    using h[OF assms(1,2)] h[OF p assms(5)] by blast
  then show ?thesis
    using assms c_strncpy_cstr[OF assms(1), of 50 50] c_strncpy_cstr[OF assms(1), of 23 24] c_strncpy_cstr[OF p, of 23 24]
    by (simp add: mqtt_init_def mqtt_init_auth_def mqtt_set_alive_def Let_def credentials_def)
qed

text \<open>What a login needs of the stored configuration.\<close>

definition login_ready :: "gw \<Rightarrow> bytes \<Rightarrow> bytes \<Rightarrow> bool" where
  "login_ready g did pass \<longleftrightarrow> identity_ok g did \<and> did \<noteq> [] \<and> length (wifipasscode (g_stGAgentConfigData g)) = 16 \<and>
     pass = take 10 (wifipasscode (g_stGAgentConfigData g)) \<and> no_nul pass"

lemma login_sent:
  assumes "login_ready (gwst c) did pass" and "\<And>i. e_mem (ce ev) i" and "\<And>fd p. e_send (ce ev) fd p = int (length p)"
    and "GAgent_GetHostByName (ce_dns ev) = (\<lambda>c. (Some ip, h c))" and "\<And>c. gwst (h c) = gwst c" and "\<And>c. m2m_Port (h c) = m2m_Port c"
    and "0 \<le> ce_socket ev" and "0 \<le> ce_connect ev"
  defines "b \<equiv> (credentials did pass (g_stMQTTBroker (gwst c)))\<lparr>mb_socketid := ce_socket ev, mb_alive := 55\<rparr>"
  shows "\<exists>packet. mqtt_connect (e_mem (ce ev)) (e_send (ce ev)) b = Some (0, [packet]) \<and>
    Mqtt_Login2Server ev c = Some (0, (h (with_gw (\<lambda>g. g\<lparr>g_stMQTTBroker := credentials did pass (g_stMQTTBroker (gwst c))\<rparr>) c))
        \<lparr>gwst := (gwst c)\<lparr>g_stMQTTBroker := b\<rparr>\<rparr>,
      (if broker_fd c \<noteq> -1 then [CloseFd (broker_fd c)] else []) @ [ConnectTo (ce_socket ev) ip (word_of_int (m2m_Port c)), Send (ce_socket ev) packet])"
proof -
  note rdy = assms(1)[unfolded login_ready_def identity_ok_def]
  have np: "no_nul did" using rdy cstr_no_nul by blast
  let ?b0 = "credentials did pass (g_stMQTTBroker (gwst c))"
  let ?c0 = "with_gw (\<lambda>g. g\<lparr>g_stMQTTBroker := ?b0\<rparr>) c"
  have pass: "rd_seg (wifipasscode (g_stGAgentConfigData (gwst c))) 0 10 = Some pass" "pass \<noteq> []" "length pass = 10"
    using rdy by (auto simp: rd_seg_def)
  have init: "mqtt_init (g_stMQTTBroker (gwst c)) (Some (DID (gwst c))) \<bind>
      (\<lambda>b. mqtt_init_auth b (Some (DID (gwst c))) (Some (pass @ [0]))) = Some ?b0"
    by (rule init_credentials) (use rdy pass in auto)
  have z: "0 \<in> set (s @ zeros k)" if "0 < k" for s k using that by (cases k) (simp_all add: zeros_def)
  have "field_ok (mb_clientid b) 50" "field_ok (mb_username b) 24" "field_ok (mb_password b) 24"
    using rdy pass(3) z by (auto simp: b_def credentials_def field_ok_def simp del: set_append)
  from connect_sent[where mqttsend = "e_send (ce ev)" and mem = "e_mem (ce ev)", OF this assms(2) assms(2)] assms(3)
  obtain packet where packet: "mqtt_connect (e_mem (ce ev)) (e_send (ce ev)) b = Some (0, [packet])" by auto
  have fd: "broker_fd (h ?c0) = broker_fd c" by (simp add: broker_fd_def assms(5) with_gw_def credentials_def)
  have np: "MQTT_handlePacket ev (set_broker_fd (-1) x) = Some (set_broker_fd (-1) x, [])" for x
    by (simp add: MQTT_handlePacket_def broker_fd_def set_broker_fd_def with_gw_def)
  have "Cloud_MQTT_initSocket ev ?c0 = Some (0, (h ?c0)\<lparr>gwst := (gwst c)\<lparr>g_stMQTTBroker := b\<rparr>\<rparr>,
      (if broker_fd c \<noteq> -1 then [CloseFd (broker_fd c)] else []) @ [ConnectTo (ce_socket ev) ip (word_of_int (m2m_Port c))])"
    using assms(4,7,8) np fd
    by (simp add: Cloud_MQTT_initSocket_def connect_mqtt_socket_def Let_def)
      (simp add: set_broker_fd_def with_gw_def mqtt_set_alive_def assms(5,6) b_def)
  then show ?thesis
    using init pass packet
    by (intro exI[of _ packet]) (auto simp: Mqtt_Login2Server_def Mqtt_SendConnetPacket_def broker_fd_def b_def Option.bind_eq_Some_conv)
qed

end
