(* ===== verification/CloudHttp.thy ===== *)
theory CloudHttp
  imports MqttSession
begin

text \<open>
  The HTTP side of the cloud client (App/GizWitsWifi/cloud/http.c, \<open>Mqtt_Register2Server\<close> of
  cloud/mqttxpg.c, the two receivers of system/gagent_login_cloud.c): requests as text, and what is read
  out of the answers. \<open>NULL\<close> from \<open>GAgent_strstr\<close> is \<open>None\<close> inside \<open>Some\<close>; using it as an address is
  outside every object.
\<close>

section \<open>Texts\<close>

definition kCRLFNewLine :: bytes where "kCRLFNewLine = [13, 10]"
definition kCRLFLineEnding :: bytes where "kCRLFLineEnding = [13, 10, 13, 10]"
definition HTTP_SERVER :: bytes where "HTTP_SERVER = ascii ''api.gizwits.com''"

text \<open>\<open>%d\<close> of a number that is not negative, and \<open>atoi\<close>.\<close>

fun dec_str :: "nat \<Rightarrow> bytes" where
  "dec_str n = (if n < 10 then [of_nat (48 + n)] else dec_str (n div 10) @ [of_nat (48 + n mod 10)])"

declare dec_str.simps [simp del]

definition is_digit :: "u8 \<Rightarrow> bool" where
  "is_digit d \<longleftrightarrow> 48 \<le> d \<and> d \<le> 57"

fun digits :: "bytes \<Rightarrow> int \<Rightarrow> int" where
  "digits [] v = v"
| "digits (d # ds) v = (if is_digit d then digits ds (v * 10 + int (unat d) - 48) else v)"

definition atoi :: "bytes \<Rightarrow> int option" where
  "atoi b = do {
     s \<leftarrow> cstr b;
     let s = dropWhile (\<lambda>c. c = 32 \<or> 9 \<le> c \<and> c \<le> 13) s;
     Some (case s of [] \<Rightarrow> 0 | c # r \<Rightarrow> if c = 45 then - digits r 0 else if c = 43 then digits r 0 else digits s 0)
   }"

section \<open>Connecting and asking\<close>

definition Http_InitSocket :: "cloud_env \<Rightarrow> cloud \<Rightarrow> int \<times> cloud \<times> effect list" where
  "Http_InitSocket ev c =
     (let (ip, c) = GAgent_GetHostByName (ce_dns ev) c
      in case ip of
        None \<Rightarrow> (1, c, [])
      | Some HttpServerIpAddr \<Rightarrow>
          let (c, eff0) = (if 0 < http_socketid c then (c\<lparr>http_socketid := 0\<rparr>, [CloseFd (http_socketid c)]) else (c, []));
              s = ce_socket ev
          in if s < 0 then (1, c, eff0)
             else let eff1 = eff0 @ connect_mqtt_socket s 80 HttpServerIpAddr
               in if ce_connect ev < 0 then (3, c, eff1 @ [CloseFd s]) else (0, c\<lparr>http_socketid := s\<rparr>, eff1))"

definition post_content :: "bytes \<Rightarrow> bytes \<Rightarrow> bytes \<Rightarrow> bytes" where
  "post_content passcode mac key =
     ascii ''passcode='' @ passcode @ ascii ''&mac='' @ mac @ ascii ''&product_key='' @ key"

definition content_type :: bytes where
  "content_type = ascii ''Content-Type: application/x-www-form-urlencoded''"

text \<open>The arguments are C strings. The content is printed into an array of 100 without a limit.\<close>

definition Http_POST :: "env \<Rightarrow> bytes \<Rightarrow> bytes \<Rightarrow> bytes \<Rightarrow> cloud \<Rightarrow> (int \<times> effect list) option" where
  "Http_POST e passcode mac key c =
     (if \<not> e_mem e 0 then Some (1, [])
      else do {
        p \<leftarrow> cstr passcode;
        m \<leftarrow> cstr mac;
        k \<leftarrow> cstr key;
        let Content = post_content p m k;
        let postBuf = take 399 (ascii ''POST /dev/devices HTTP/1.1'' @ kCRLFNewLine @ ascii ''Host: '' @ HTTP_SERVER @ kCRLFNewLine
          @ ascii ''Content-Length: '' @ dec_str (length Content) @ kCRLFNewLine @ content_type @ kCRLFNewLine @ kCRLFNewLine @ Content);
        if 100 \<le> length Content then None else Some (0, [Send (http_socketid c) postBuf])
      })"

definition get_text :: "bytes \<Rightarrow> bytes" where
  "get_text did = ascii ''GET /dev/devices/'' @ did @ ascii '' HTTP/1.1'' @ kCRLFNewLine @ ascii ''Host: '' @ HTTP_SERVER @ kCRLFNewLine
     @ ascii ''Cache-Control: no-cache'' @ kCRLFNewLine @ content_type @ kCRLFLineEnding"

definition Http_GET :: "env \<Rightarrow> bytes \<Rightarrow> cloud \<Rightarrow> (int \<times> effect list) option" where
  "Http_GET e did c =
     (if \<not> e_mem e 0 then Some (1, [])
      else do {
        d \<leftarrow> cstr did;
        let getBuf = take 199 (get_text d);
        Some (if e_send e (http_socketid c) getBuf \<le> 0 then 1 else 0, [Send (http_socketid c) getBuf])
      })"

definition Http_Sent_Provision :: "cloud_env \<Rightarrow> cloud \<Rightarrow> (int \<times> cloud \<times> effect list) option" where
  "Http_Sent_Provision ev c =
     (if DIdLen (gwst c) = 0 then Some (1, c, [])
      else let (ret, c, eff1) = Http_InitSocket ev c
        in if ret \<noteq> 0 then Some (1, c, eff1)
           else do {
             (r, eff2) \<leftarrow> Http_GET (ce ev) (DID (gwst c)) c;
             Some (if r \<noteq> 0 then 1 else 0, c, eff1 @ eff2)
           })"

definition Mqtt_Register2Server :: "cloud_env \<Rightarrow> cloud \<Rightarrow> (int \<times> cloud \<times> effect list) option" where
  "Mqtt_Register2Server ev c =
     (let (ret, c, eff1) = Http_InitSocket ev c
      in if ret \<noteq> 0 then Some (1, c, eff1)
         else do {
           (r, eff2) \<leftarrow> Http_POST (ce ev) (wifipasscode (g_stGAgentConfigData (gwst c))) (a_mac c) (product_key (gwst c)) c;
           Some (if r \<noteq> 0 then 1 else 0, c, eff1 @ eff2)
         })"

section \<open>Answers\<close>

definition Http_ReadSocket :: "recv_result \<Rightarrow> nat \<Rightarrow> cloud \<Rightarrow> int \<times> bytes \<times> cloud \<times> effect list" where
  "Http_ReadSocket r bufLen c = (case r of
     SelectFailed \<Rightarrow> (-1, zeros bufLen, c, [])
   | NothingReceived \<Rightarrow> (0, zeros bufLen, c, [])
   | RecvFailed \<Rightarrow> (-2, zeros bufLen, c\<lparr>http_socketid := -1\<rparr>, [CloseFd (http_socketid c)])
   | Received d \<Rightarrow>
       if d = [] then (-2, zeros bufLen, c\<lparr>http_socketid := -1\<rparr>, [CloseFd (http_socketid c)])
       else (int (length (take bufLen d)), put (zeros bufLen) 0 (take bufLen d), c, []))"

definition Http_Response_Code :: "bytes \<Rightarrow> int option" where
  "Http_Response_Code b = do {
     p \<leftarrow> GAgent_strstr b [0x20, 0];
     i \<leftarrow> p;
     let start = drop (i + 1) b;
     p_end \<leftarrow> GAgent_strstr start [0x20, 0];
     re_code \<leftarrow> (case p_end of Some j \<Rightarrow> wr_seg (zeros 10) 0 (take j start) | None \<Rightarrow> Some (zeros 10));
     atoi re_code
   }"

definition Http_Response_DID :: "bytes \<Rightarrow> (int \<times> bytes) option" where
  "Http_Response_DID b = do {
     p \<leftarrow> GAgent_strstr b (ascii ''did='' @ [0]);
     (case p of
        None \<Rightarrow> Some (1, zeros 24)
      | Some i \<Rightarrow> do {
          did \<leftarrow> rd_seg b (i + 4) 22;
          a \<leftarrow> wr_seg (zeros 24) 0 did;
          a \<leftarrow> wr a 22 0;
          Some (0, a)
        })
   }"

text \<open>
  The domain goes to an array of 100, the port to one of 10. Without an ampersand behind the port the
  length of the copy is the difference to NULL.
\<close>

definition Http_getdomain_port :: "bytes \<Rightarrow> int \<Rightarrow> (int \<times> bytes \<times> int) option" where
  "Http_getdomain_port b port = do {
     p \<leftarrow> GAgent_strstr b (ascii ''host='' @ [0]);
     (case p of
        None \<Rightarrow> Some (1, zeros 100, port)
      | Some i \<Rightarrow> do {
          let start = drop (i + 5) b;
          q \<leftarrow> GAgent_strstr start [0x26, 0];
          (case q of
             None \<Rightarrow> Some (1, zeros 100, port)
           | Some j \<Rightarrow> do {
               domain \<leftarrow> wr_seg (zeros 100) 0 (take j start);
               domain \<leftarrow> wr domain j 0;
               let rest = drop (j + 1) start;
               p \<leftarrow> GAgent_strstr rest (ascii ''port='' @ [0]);
               (case p of
                  None \<Rightarrow> Some (1, domain, port)
                | Some k \<Rightarrow> do {
                    let start = drop (k + 5) rest;
                    q \<leftarrow> GAgent_strstr start [0x26, 0];
                    l \<leftarrow> q;
                    t \<leftarrow> wr_seg (zeros 10) 0 (take l start);
                    n \<leftarrow> atoi t;
                    Some (0, domain, n)
                  })
             })
        })
   }"

definition Http_Recive_Did :: "cloud_env \<Rightarrow> cloud \<Rightarrow> (int \<times> cloud \<times> effect list) option" where
  "Http_Recive_Did ev c =
     (let (ret, buf, c, eff) = Http_ReadSocket (ce_recv ev) 1024 c
      in if ret \<le> 0 then Some (-1, c, eff)
         else do {
           response_code \<leftarrow> Http_Response_Code buf;
           if response_code = 201 then do {
             (r, did) \<leftarrow> Http_Response_DID buf;
             Some (r, with_gw (\<lambda>g. g\<lparr>DID := did\<rparr>) c, eff)
           } else Some (-1, c, eff)
         })"

definition Http_Recive_M2minfo :: "cloud_env \<Rightarrow> cloud \<Rightarrow> (int \<times> cloud \<times> effect list) option" where
  "Http_Recive_M2minfo ev c =
     (let (ret, buf, c, eff) = Http_ReadSocket (ce_recv ev) 1024 c
      in if ret \<le> 0 then Some (-1, c, eff)
         else do {
           response_code \<leftarrow> Http_Response_Code buf;
           if response_code \<noteq> 200 then Some (-1, c, eff)
           else do {
             (r, server, port) \<leftarrow> Http_getdomain_port buf (m2m_Port c);
             Some (r, c\<lparr>m2m_SERVER := server, m2m_Port := port\<rparr>, eff)
           }
         })"

section \<open>Numbers as text\<close>

lemma unat_digit: "k < 10 \<Longrightarrow> unat (of_nat (48 + k) :: u8) = 48 + k"
  by (intro unat_of_nat8) simp

lemma is_digit_of: "k < 10 \<Longrightarrow> is_digit (of_nat (48 + k))"
  using unat_digit[of k] by (simp add: is_digit_def word_le_nat_alt)

lemma digits_dec_str: "digits (dec_str n @ r) v = digits r (v * 10 ^ length (dec_str n) + int n)"
proof (induction n arbitrary: r v rule: dec_str.induct)
  case (1 n)
  have step: "digits (of_nat (48 + k) # r) v = digits r (v * 10 + int k)" if "k < 10" for k v and r
    using is_digit_of[OF that] unat_digit[OF that] by (simp del: of_nat_add) simp
  show ?case
  proof (cases "n < 10")
    case True
    then show ?thesis using step[of n r v] by (subst (1 2) dec_str.simps) simp
  next
    case False
    have "digits (dec_str n @ r) v = digits (dec_str (n div 10) @ of_nat (48 + n mod 10) # r) v"
      by (subst dec_str.simps) (use False in simp)
    also have "\<dots> = digits (of_nat (48 + n mod 10) # r) (v * 10 ^ length (dec_str (n div 10)) + int (n div 10))"
      by (rule 1[OF False])
    also have "\<dots> = digits r ((v * 10 ^ length (dec_str (n div 10)) + int (n div 10)) * 10 + int (n mod 10))"
      by (rule step) simp
    also have "(v * 10 ^ length (dec_str (n div 10)) + int (n div 10)) * 10 + int (n mod 10) =
        v * 10 ^ length (dec_str n) + int n"
    proof -
      have "length (dec_str n) = Suc (length (dec_str (n div 10)))" by (subst dec_str.simps) (use False in simp)
      moreover have "int n = int (n div 10) * 10 + int (n mod 10)"
        using div_mult_mod_eq[of n 10] by (metis of_nat_add of_nat_mult of_nat_numeral)
      ultimately show ?thesis by (simp only: power_Suc distrib_right add.assoc mult.assoc mult.commute[of 10])
    qed
    finally show ?thesis .
  qed
qed

lemma dec_str_digits: "list_all is_digit (dec_str n)"
proof (induction n rule: dec_str.induct)
  case (1 n)
  then show ?case using is_digit_of[of n] is_digit_of[of "n mod 10"] by (subst dec_str.simps) simp
qed

lemma dec_str_nonempty: "dec_str n \<noteq> []"
  by (subst dec_str.simps) simp

lemma dec_str_length: "n < 10 ^ k \<Longrightarrow> 0 < k \<Longrightarrow> length (dec_str n) \<le> k"
proof (induction k arbitrary: n)
  case (Suc k)
  show ?case
  proof (cases "n < 10")
    case True
    then show ?thesis by (subst dec_str.simps) simp
  next
    case False
    then have "0 < k" using Suc.prems by (cases k) auto
    moreover have "n div 10 < 10 ^ k" using Suc.prems by (simp add: less_mult_imp_div_less mult.commute)
    ultimately have "length (dec_str (n div 10)) \<le> k" using Suc.IH by simp
    then show ?thesis by (subst dec_str.simps) simp
  qed
qed simp

lemma digit_not_special:
  assumes "is_digit d"
  shows "d \<noteq> 0" and "d \<noteq> 32" and "\<not> (9 \<le> d \<and> d \<le> 13)" and "d \<noteq> 45" and "d \<noteq> 43" and "d \<noteq> 0x26"
  using assms by (auto simp: is_digit_def word_le_nat_alt)

lemma dec_str_no_nul: "no_nul (dec_str n)" and dec_str_no_amp: "0x26 \<notin> set (dec_str n)"
  using dec_str_digits[of n] digit_not_special(1,6) by (auto simp: no_nul_def list_all_iff)

lemma atoi_dec_str:
  assumes "0 < k"
  shows "atoi (dec_str n @ zeros k) = Some (int n)"
proof -
  obtain d ds where d: "dec_str n = d # ds" "is_digit d"
    using dec_str_nonempty[of n] dec_str_digits[of n] by (cases "dec_str n") auto
  have "cstr (dec_str n @ zeros k) = Some (dec_str n)" by (rule cstr_padded[OF dec_str_no_nul assms])
  moreover have "dropWhile (\<lambda>c. c = 32 \<or> 9 \<le> c \<and> c \<le> 13) (dec_str n) = dec_str n"
    using d digit_not_special[OF d(2)] by auto
  moreover have "digits (dec_str n) 0 = int n" using digits_dec_str[of n "[]" 0] by simp
  ultimately show ?thesis using d digit_not_special[OF d(2)] by (auto simp: atoi_def Let_def)
qed

section \<open>Searching the answer\<close>

lemma strstr_first: "no_nul a \<Longrightarrow> no_nul b \<Longrightarrow> b \<noteq> [] \<Longrightarrow> GAgent_strstr (a @ 0 # r) (b @ [0]) = Some (first_occurrence a b)"
  using strstr_loop_eq[of a b 0 r "[]"] by (cases b) (auto simp: GAgent_strstr_def rd_def first_occurrence_def no_nul_def)

lemma first_occurrence_char:
  assumes "x \<notin> set a"
  shows "first_occurrence (a @ x # b) [x] = Some (length a)"
proof -
  have "List.find (\<lambda>i. prefix [x] (drop i (a @ x # b))) [k..<length (a @ x # b)] = Some (length a)" if "k \<le> length a" for k
    using that
  proof (induction "length a - k" arbitrary: k)
    case 0
    have u: "[k..<length (a @ x # b)] = k # [Suc k..<length (a @ x # b)]" using 0 by (intro upt_conv_Cons) simp
    show ?case unfolding u using 0 by simp
  next
    case (Suc n)
    then have k: "k < length a" by simp
    then have "drop k (a @ x # b) = a ! k # drop (Suc k) a @ x # b" by (simp add: Cons_nth_drop_Suc)
    moreover have "a ! k \<noteq> x" using assms k by auto
    moreover have u: "[k..<length (a @ x # b)] = k # [Suc k..<length (a @ x # b)]" using k by (intro upt_conv_Cons) simp
    ultimately show ?case using Suc(1)[of "Suc k"] Suc(2) k unfolding u by simp
  qed
  then show ?thesis by (simp add: first_occurrence_def)
qed

lemma first_occurrence_0: "b \<noteq> [] \<Longrightarrow> first_occurrence (b @ r) b = Some 0"
  by (simp add: first_occurrence_def upt_conv_Cons)

lemma no_nul_append: "no_nul (a @ b) \<longleftrightarrow> no_nul a \<and> no_nul b" "no_nul (x # a) \<longleftrightarrow> x \<noteq> 0 \<and> no_nul a"
  by (auto simp: no_nul_def)

text \<open>The status line: a version, a space, the code, a space.\<close>

definition status_line :: "bytes \<Rightarrow> nat \<Rightarrow> bytes" where
  "status_line version code = version @ [0x20] @ dec_str code @ [0x20]"

lemma Response_Code_exact:
  assumes "0x20 \<notin> set version" and "no_nul version" and "no_nul body" and "code < 1000000000"
  shows "Http_Response_Code (status_line version code @ body @ 0 # r) = Some (int code)"
proof -
  let ?t = "dec_str code @ 0x20 # body"
  have l: "length (dec_str code) \<le> 9" using dec_str_length[of code 9] assms(4) by simp
  have sp: "no_nul [0x20 :: u8]" by (simp add: no_nul_def)
  have nt: "no_nul ?t" using dec_str_no_nul assms(3) by (simp add: no_nul_append)
  have "no_nul (version @ 0x20 # ?t)" using nt assms(2) by (simp add: no_nul_append)
  then have 1: "GAgent_strstr ((version @ 0x20 # ?t) @ 0 # r) ([0x20] @ [0]) = Some (Some (length version))"
    using strstr_first[OF _ sp, of "version @ 0x20 # ?t" r] first_occurrence_char[OF assms(1)] by simp
  have "0x20 \<notin> set (dec_str code)" using dec_str_digits[of code] digit_not_special(2) by (auto simp: list_all_iff)
  then have 2: "GAgent_strstr (?t @ 0 # r) ([0x20] @ [0]) = Some (Some (length (dec_str code)))"
    using strstr_first[OF nt sp, of r] first_occurrence_char[of "0x20" "dec_str code" body] by simp
  have "wr_seg (zeros 10) 0 (dec_str code) = Some (dec_str code @ zeros (10 - length (dec_str code)))"
    using l by (simp add: wr_seg_def put_def)
  moreover have "atoi (dec_str code @ zeros (10 - length (dec_str code))) = Some (int code)"
    using l by (intro atoi_dec_str) simp
  ultimately show ?thesis using 1 2 by (simp add: Http_Response_Code_def status_line_def)
qed

lemma search_words [simp]: "no_nul (ascii ''did='')" "no_nul (ascii ''host='')" "no_nul (ascii ''port='')"
  "ascii ''did='' \<noteq> []" "ascii ''host='' \<noteq> []" "ascii ''port='' \<noteq> []"
  by (simp_all add: no_nul_def ascii_def)

lemma Response_DID_exact:
  assumes "no_nul txt" and "first_occurrence txt (ascii ''did='') = Some i" and "i + 26 \<le> length txt"
  shows "Http_Response_DID (txt @ 0 # r) = Some (0, take 22 (drop (i + 4) txt) @ zeros 2)"
proof -
  let ?d = "take 22 (drop (i + 4) txt)"
  have l: "length ?d = 22" using assms(3) by simp
  have "rd_seg (txt @ 0 # r) (i + 4) 22 = Some ?d" using assms(3) by (simp add: rd_seg_def)
  moreover have "wr_seg (zeros 24) 0 ?d = Some (?d @ zeros 2)" using l by (simp add: wr_seg_def put_def)
  moreover have "wr (?d @ zeros 2) 22 0 = Some (?d @ zeros 2)"
    using l by (simp add: wr_def list_update_append zeros_def numeral_2_eq_2)
  ultimately show ?thesis
    using strstr_first[OF assms(1), of "ascii ''did=''" r] assms(2) by (simp add: Http_Response_DID_def)
qed

definition server_entry :: "bytes \<Rightarrow> nat \<Rightarrow> bytes" where
  "server_entry host port = ascii ''host='' @ host @ [0x26] @ ascii ''port='' @ dec_str port @ [0x26]"

lemma getdomain_exact:
  assumes "no_nul pre" and "no_nul host" and "no_nul post" and "0x26 \<notin> set host" and "length host < 100" and "port < 1000000000"
    and "first_occurrence (pre @ server_entry host port @ post) (ascii ''host='') = Some (length pre)"
  shows "Http_getdomain_port ((pre @ server_entry host port @ post) @ 0 # r) old = Some (0, host @ zeros (100 - length host), int port)"
proof -
  let ?txt = "pre @ server_entry host port @ post"
  let ?num = "dec_str port @ 0x26 # post" and ?p = "ascii ''port=''"
  have amp: "no_nul [0x26 :: u8]" by (simp add: no_nul_def)
  have n3: "no_nul ?num" using dec_str_no_nul assms(3) by (simp add: no_nul_append)
  then have n2: "no_nul (?p @ ?num)" by (simp add: no_nul_append)
  then have n1: "no_nul (host @ 0x26 # ?p @ ?num)" using assms(2) by (simp add: no_nul_append)
  then have "no_nul ?txt" using assms(1) by (simp add: server_entry_def no_nul_append)
  then have 1: "GAgent_strstr (?txt @ 0 # r) (ascii ''host='' @ [0]) = Some (Some (length pre))"
    using strstr_first[of ?txt "ascii ''host=''" r] assms(7) by simp
  have d1: "drop (length pre + 5) (?txt @ 0 # r) = (host @ 0x26 # ?p @ ?num) @ 0 # r"
    by (simp add: server_entry_def)
  have 2: "GAgent_strstr ((host @ 0x26 # ?p @ ?num) @ 0 # r) ([0x26] @ [0]) = Some (Some (length host))"
    using strstr_first[OF n1 amp, of r] first_occurrence_char[OF assms(4)] by simp
  have w1: "wr_seg (zeros 100) 0 host = Some (host @ zeros (100 - length host))"
    using assms(5) by (simp add: wr_seg_def put_def)
  have w2: "wr (host @ zeros (100 - length host)) (length host) 0 = Some (host @ zeros (100 - length host))"
    using wr_zeros[of "100 - length host" "length host" host 0] zeros_Suc[of "100 - length host"] assms(5) by simp
  have 3: "GAgent_strstr ((?p @ ?num) @ 0 # r) (?p @ [0]) = Some (Some 0)"
    using strstr_first[OF n2, of ?p r] first_occurrence_0[of ?p ?num] by simp
  have 4: "GAgent_strstr (?num @ 0 # r) ([0x26] @ [0]) = Some (Some (length (dec_str port)))"
    using strstr_first[OF n3 amp, of r] first_occurrence_char[OF dec_str_no_amp] by simp
  have l: "length (dec_str port) \<le> 9" using dec_str_length[of port 9] assms(6) by simp
  have w3: "wr_seg (zeros 10) 0 (dec_str port) = Some (dec_str port @ zeros (10 - length (dec_str port)))"
    using l by (simp add: wr_seg_def put_def)
  have a: "atoi (dec_str port @ zeros (10 - length (dec_str port))) = Some (int port)"
    using l by (intro atoi_dec_str) simp
  have d2: "drop (length host + 1) ((host @ 0x26 # ?p @ ?num) @ 0 # r) = (?p @ ?num) @ 0 # r" by simp
  have d3: "drop (0 + 5) ((?p @ ?num) @ 0 # r) = ?num @ 0 # r" by simp
  have t: "take (length host) ((host @ 0x26 # ?p @ ?num) @ 0 # r) = host" "take (length (dec_str port)) (?num @ 0 # r) = dec_str port"
    by simp_all
  have br: "([0x26, 0] :: bytes) = [0x26] @ [0]" by simp
  show ?thesis
    unfolding Http_getdomain_port_def br
    by (simp only: 1 2 3 4 bind.bind_lunit option.case Let_def d1 d2 d3 t w1 w2 w3 a)
qed

lemma ReadSocket_text:
  assumes "no_nul txt" and "txt \<noteq> []" and "length txt < 1024"
  shows "Http_ReadSocket (Received txt) 1024 c = (int (length txt), txt @ 0 # zeros (1023 - length txt), c, [])"
proof -
  have "zeros (1024 - length txt) = 0 # zeros (1023 - length txt)"
    using zeros_Suc[of "1024 - length txt"] assms(3) by simp
  then show ?thesis using assms by (simp add: Http_ReadSocket_def put_def)
qed

text \<open>C38 What the client learns from the answers. An answer 201 gives the device id: the 22 characters
  behind the first \<open>did=\<close>, terminated. An answer 200 gives the broker: the name between \<open>host=\<close> and the
  next ampersand, and the port as the number its decimal digits denote.\<close>

theorem server_answers_understood:
  assumes "0x20 \<notin> set version" and "no_nul version" and "no_nul pre" and "no_nul host" and "no_nul post" and "0x26 \<notin> set host"
    and "length host < 100" and "port < 1000000000" and "no_nul did" and "length did = 22"
    and "first_occurrence (status_line version 200 @ pre @ server_entry host port @ post) (ascii ''host='') = Some (length (status_line version 200 @ pre))"
    and "first_occurrence (status_line version 201 @ pre @ ascii ''did='' @ did @ post) (ascii ''did='') = Some (length (status_line version 201 @ pre))"
    and "length (status_line version 200 @ pre @ server_entry host port @ post) < 1024"
    and "length (status_line version 201 @ pre @ ascii ''did='' @ did @ post) < 1024"
  shows "Http_Recive_Did (ev\<lparr>ce_recv := Received (status_line version 201 @ pre @ ascii ''did='' @ did @ post)\<rparr>) c =
      Some (0, with_gw (\<lambda>g. g\<lparr>DID := did @ zeros 2\<rparr>) c, []) \<and>
    Http_Recive_M2minfo (ev\<lparr>ce_recv := Received (status_line version 200 @ pre @ server_entry host port @ post)\<rparr>) c =
      Some (0, c\<lparr>m2m_SERVER := host @ zeros (100 - length host), m2m_Port := int port\<rparr>, [])"
proof
  have st: "no_nul (status_line version k)" for k
    using assms(2) dec_str_no_nul[of k] by (simp add: status_line_def no_nul_append) (simp add: no_nul_def)
  let ?a = "status_line version 201 @ pre @ ascii ''did='' @ did @ post"
  have na: "no_nul ?a" using st assms(3,5,9) by (simp add: no_nul_append)
  have body: "no_nul (pre @ ascii ''did='' @ did @ post)" using assms(3,5,9) by (simp add: no_nul_append)
  have ne: "?a \<noteq> []" by (simp add: status_line_def)
  have "Http_Response_Code (?a @ 0 # r) = Some 201" for r
    using Response_Code_exact[OF assms(1,2) body, of 201 r] by simp
  moreover have "Http_Response_DID (?a @ 0 # r) = Some (0, did @ zeros 2)" for r
  proof -
    have "take 22 (drop (length (status_line version 201 @ pre) + 4) ?a) = did" using assms(10) by simp
    then show ?thesis using Response_DID_exact[OF na assms(12)] assms(10) by simp
  qed
  ultimately show "Http_Recive_Did (ev\<lparr>ce_recv := Received ?a\<rparr>) c = Some (0, with_gw (\<lambda>g. g\<lparr>DID := did @ zeros 2\<rparr>) c, [])"
    using ReadSocket_text[OF na ne assms(14), of c] ne by (simp only: Http_Recive_Did_def) simp
  let ?b = "status_line version 200 @ pre @ server_entry host port @ post"
  have nb: "no_nul ?b" using st assms(3-5) dec_str_no_nul by (simp add: no_nul_append server_entry_def)
  have body: "no_nul (pre @ server_entry host port @ post)" using assms(3-5) dec_str_no_nul by (simp add: no_nul_append server_entry_def)
  have ne: "?b \<noteq> []" by (simp add: status_line_def)
  then have nle: "\<not> int (length ?b) \<le> 0" by (metis length_0_conv of_nat_le_0_iff)
  have "Http_Response_Code (?b @ 0 # r) = Some 200" for r
    using Response_Code_exact[OF assms(1,2) body, of 200 r] by simp
  moreover have "Http_getdomain_port (?b @ 0 # r) old = Some (0, host @ zeros (100 - length host), int port)" for r old
    using getdomain_exact[of "status_line version 200 @ pre" host post port r old] st assms(3-8,11) by (simp add: no_nul_append)
  ultimately show "Http_Recive_M2minfo (ev\<lparr>ce_recv := Received ?b\<rparr>) c =
      Some (0, c\<lparr>m2m_SERVER := host @ zeros (100 - length host), m2m_Port := int port\<rparr>, [])"
    using ReadSocket_text[OF nb ne assms(13), of c] nle by (simp only: Http_Recive_M2minfo_def) simp
qed

theorem server_answers_understood_witness:
  "Http_Recive_Did (cenv NothingReceived\<lparr>ce_recv := Received (status_line (ascii ''HTTP/1.1'') 201 @ [79, 75, 13, 10, 13, 10] @ ascii ''did=''
        @ replicate 22 65 @ [])\<rparr>) cloud1 =
      Some (0, with_gw (\<lambda>g. g\<lparr>DID := replicate 22 65 @ zeros 2\<rparr>) cloud1, []) \<and>
    Http_Recive_M2minfo (cenv NothingReceived\<lparr>ce_recv := Received (status_line (ascii ''HTTP/1.1'') 200 @ [79, 75, 13, 10, 13, 10]
        @ server_entry (ascii ''m2m.gizwits.com'') 1883 @ [])\<rparr>) cloud1 =
      Some (0, cloud1\<lparr>m2m_SERVER := ascii ''m2m.gizwits.com'' @ zeros (100 - length (ascii ''m2m.gizwits.com'')), m2m_Port := int 1883\<rparr>, [])"
proof (rule server_answers_understood)
  show "first_occurrence (status_line (ascii ''HTTP/1.1'') 200 @ [79, 75, 13, 10, 13, 10] @ server_entry (ascii ''m2m.gizwits.com'') 1883 @ []) (ascii ''host='') =
      Some (length (status_line (ascii ''HTTP/1.1'') 200 @ [79, 75, 13, 10, 13, 10]))"
    by code_simp
  show "first_occurrence (status_line (ascii ''HTTP/1.1'') 201 @ [79, 75, 13, 10, 13, 10] @ ascii ''did='' @ replicate 22 65 @ []) (ascii ''did='') =
      Some (length (status_line (ascii ''HTTP/1.1'') 201 @ [79, 75, 13, 10, 13, 10]))"
    by code_simp
  show "length (status_line (ascii ''HTTP/1.1'') 200 @ [79, 75, 13, 10, 13, 10] @ server_entry (ascii ''m2m.gizwits.com'') 1883 @ []) < 1024"
    by code_simp
  show "length (status_line (ascii ''HTTP/1.1'') 201 @ [79, 75, 13, 10, 13, 10] @ ascii ''did='' @ replicate 22 65 @ []) < 1024"
    by code_simp
qed (simp_all add: no_nul_def ascii_def)

end
