(* ===== verification/CloudLogin.thy ===== *)
theory CloudLogin
  imports CloudHttp
begin

text \<open>
  The state machine that takes the device to the cloud (App/GizWitsWifi/system/gagent_login_cloud.c):
  registration by HTTP, the address of the broker by HTTP, the login by MQTT, then the session. One
  \<open>GAgent_Login_Cloud\<close> is one pass of the cloud task, ten times a second.
\<close>

section \<open>The state machine\<close>

abbreviation (input) "WIFI_MODE_STATION \<equiv> (2 :: u16)"
abbreviation (input) "WIFI_STATION_STATUS \<equiv> (16 :: u16)"
abbreviation (input) "HTTP_TIMEOUT \<equiv> (60 :: u32)"
abbreviation (input) "MQTT_CONNECT_TIMEOUT \<equiv> (300 :: u32)"

definition on_station :: "cloud \<Rightarrow> bool" where
  "on_station c \<longleftrightarrow> wifiStatus c AND WIFI_MODE_STATION = WIFI_MODE_STATION \<and> wifiStatus c AND WIFI_STATION_STATUS = WIFI_STATION_STATUS"

text \<open>The three states that ask are left alone for the rest of the second in which they last asked.\<close>

definition too_soon :: "cloud_env \<Rightarrow> cloud \<Rightarrow> bool" where
  "too_soon ev c \<longleftrightarrow> ce_time ev 0 - connect2CloudLastTime c < 1"

definition login_req_did :: "cloud_env \<Rightarrow> cloud \<Rightarrow> (cloud \<times> effect list) option" where
  "login_req_did ev c =
     (if too_soon ev c then Some (c, [])
      else do {
        (r, c, eff) \<leftarrow> Mqtt_Register2Server ev (c\<lparr>connect2CloudLastTime := ce_time ev 1\<rparr>);
        Some (if r = 0 then c\<lparr>g_ConCloud_Status := CONCLOUD_REQ_DID_ACK, send2HttpLastTime := ce_time ev 2\<rparr> else c, eff)
      })"

definition store_did :: "cloud \<Rightarrow> (cloud \<times> effect list) option" where
  "store_did c = do {
     let g = gwst c;
     did \<leftarrow> rd_seg (DID g) 0 22;
     d \<leftarrow> wr_seg (Cloud_DId (g_stGAgentConfigData g)) 0 did;
     d \<leftarrow> wr d 22 0;
     let cfg = (g_stGAgentConfigData g)\<lparr>Cloud_DId := d\<rparr>;
     Some (c\<lparr>gwst := g\<lparr>DIdLen := 22, g_stGAgentConfigData := cfg\<rparr>, g_ConCloud_Status := CONCLOUD_REQ_M2MINFO\<rparr>, [SaveConfig cfg])
   }"

definition login_req_did_ack :: "cloud_env \<Rightarrow> cloud \<Rightarrow> (cloud \<times> effect list) option" where
  "login_req_did_ack ev c =
     (if HTTP_TIMEOUT \<le> ce_time ev 0 - send2HttpLastTime c \<or> http_socketid c \<le> 0
      then Some (c\<lparr>g_ConCloud_Status := CONCLOUD_REQ_DID_ACK\<rparr>, [])
      else do {
        (r, c, eff) \<leftarrow> Http_Recive_Did ev c;
        if r = 0 then map_option (\<lambda>(c, eff2). (c, eff @ eff2)) (store_did c) else Some (c, eff)
      })"

definition login_req_m2minfo :: "cloud_env \<Rightarrow> cloud \<Rightarrow> (cloud \<times> effect list) option" where
  "login_req_m2minfo ev c =
     (if too_soon ev c then Some (c, [])
      else do {
        (r, c, eff) \<leftarrow> Http_Sent_Provision ev (c\<lparr>connect2CloudLastTime := ce_time ev 1\<rparr>);
        Some (if r = 0 then c\<lparr>send2HttpLastTime := ce_time ev 2, g_ConCloud_Status := CONCLOUD_REQ_M2MINFO_ACK\<rparr> else c, eff)
      })"

definition login_req_m2minfo_ack :: "cloud_env \<Rightarrow> cloud \<Rightarrow> (cloud \<times> effect list) option" where
  "login_req_m2minfo_ack ev c =
     (if HTTP_TIMEOUT \<le> ce_time ev 0 - send2HttpLastTime c \<or> http_socketid c \<le> 0
      then Some (c\<lparr>g_ConCloud_Status := CONCLOUD_REQ_M2MINFO\<rparr>, [])
      else do {
        (r, c, eff) \<leftarrow> Http_Recive_M2minfo ev c;
        Some (if r = 0 then c\<lparr>g_ConCloud_Status := CONCLOUD_REQ_LOGIN\<rparr> else c, eff)
      })"

definition login_req_login :: "cloud_env \<Rightarrow> cloud \<Rightarrow> (cloud \<times> effect list) option" where
  "login_req_login ev c =
     (if too_soon ev c then Some (c, [])
      else do {
        (r, c, eff) \<leftarrow> Mqtt_Login2Server ev (c\<lparr>connect2CloudLastTime := ce_time ev 1\<rparr>);
        Some (if r = 0 then set_mqtt_status MQTT_STATUS_LOGIN (c\<lparr>g_ConCloud_Status := CONCLOUD_RUNNING\<rparr>) else c, eff)
      })"

definition login_running :: "cloud_env \<Rightarrow> cloud \<Rightarrow> (cloud \<times> effect list) option" where
  "login_running ev c =
     (if g_MQTTStatus (gwst c) = MQTT_STATUS_LOGIN \<and> MQTT_CONNECT_TIMEOUT \<le> ce_time ev 0 - connect2CloudLastTime c
      then Some (c\<lparr>g_ConCloud_Status := CONCLOUD_REQ_LOGIN\<rparr>, [])
      else MQTT_handlePacket ev c)"

definition GAgent_Login_Cloud :: "cloud_env \<Rightarrow> cloud \<Rightarrow> (cloud \<times> effect list) option" where
  "GAgent_Login_Cloud ev c =
     (let s = g_ConCloud_Status c
      in if \<not> on_station c then Some (c, [])
         else if s = CONCLOUD_REQ_DID then login_req_did ev c
         else if s = CONCLOUD_REQ_DID_ACK then login_req_did_ack ev c
         else if s = CONCLOUD_REQ_M2MINFO then login_req_m2minfo ev c
         else if s = CONCLOUD_REQ_M2MINFO_ACK then login_req_m2minfo_ack ev c
         else if s = CONCLOUD_REQ_LOGIN then login_req_login ev c
         else if s = CONCLOUD_RUNNING then login_running ev c
         else Some (c, []))"

text \<open>A history of the client: passes of its task, and seconds of the heart beat timer.\<close>

datatype cloud_event = Pass cloud_env | Second env

fun cloud_step :: "cloud_event \<Rightarrow> cloud \<Rightarrow> (cloud \<times> effect list) option" where
  "cloud_step (Pass ev) c = GAgent_Login_Cloud ev c"
| "cloud_step (Second e) c = Some (GAgent_Cloud_Timer e c)"

fun cloud_run :: "cloud_event list \<Rightarrow> cloud \<Rightarrow> (cloud \<times> effect list) option" where
  "cloud_run [] c = Some (c, [])"
| "cloud_run (x # xs) c = do {
     (c, eff1) \<leftarrow> cloud_step x c;
     (c, eff2) \<leftarrow> cloud_run xs c;
     Some (c, eff1 @ eff2)
   }"

lemma cloud_run_append:
  "cloud_run (xs @ ys) c = do { (c, eff1) \<leftarrow> cloud_run xs c; (c, eff2) \<leftarrow> cloud_run ys c; Some (c, eff1 @ eff2) }"
proof (induction xs arbitrary: c)
  case Nil
  then show ?case by (simp add: Option.bind_eq_None_conv split: Option.bind_splits)
next
  case (Cons x xs)
  then show ?case by (cases "cloud_step x c") (auto split: Option.bind_splits)
qed

section \<open>Registration that does not come back\<close>

text \<open>C17 A registration whose connection the server closes before its answer is overdue is never repeated, as long as
  the client has no connection to the broker, as is the case from its start until it is registered: the client stays in
  the state that waits for the answer and sends nothing to the cloud any more, whatever it receives and however long,
  until the device is restarted. (A client that registers anew after a refused login still has a connection to the broker;
  its heart beat asks for the login again when it has been silent for two minutes, see \<open>dead_connection_relogin\<close>.)\<close>

theorem registration_stuck:
  assumes "g_ConCloud_Status c = CONCLOUD_REQ_DID_ACK" and "on_station c" and "broker_fd c < 0" and "0 < http_socketid c"
    and "ce_recv ev = RecvFailed" and "ce_time ev 0 - send2HttpLastTime c < HTTP_TIMEOUT"
  defines "c' \<equiv> c\<lparr>http_socketid := -1\<rparr>"
  shows "GAgent_Login_Cloud ev c = Some (c', [CloseFd (http_socketid c)]) \<and> (\<forall>xs. cloud_run xs c' = Some (c', []))"
proof
  show "GAgent_Login_Cloud ev c = Some (c', [CloseFd (http_socketid c)])"
    using assms(1,2,4-6)
    by (simp add: GAgent_Login_Cloud_def login_req_did_ack_def Http_Recive_Did_def Http_ReadSocket_def Let_def c'_def)
  have "c'\<lparr>g_ConCloud_Status := CONCLOUD_REQ_DID_ACK\<rparr> = c'" using assms(1) by (cases c) (simp add: c'_def)
  then have "cloud_step x c' = Some (c', [])" for x
    using assms(1,3)
    by (cases x) (simp_all add: GAgent_Login_Cloud_def login_req_did_ack_def GAgent_Cloud_Timer_def Cloud_Mqtt_HB_Timer_def Let_def
        c'_def broker_fd_def)
  then have "cloud_run xs c' = Some (c', [])" for xs by (induction xs) simp_all
  then show "\<forall>xs. cloud_run xs c' = Some (c', [])" ..
qed

theorem registration_stuck_witness:
  "GAgent_Login_Cloud (cenv RecvFailed) (cloud0\<lparr>g_ConCloud_Status := CONCLOUD_REQ_DID_ACK, http_socketid := 4\<rparr>) =
      Some (cloud0\<lparr>g_ConCloud_Status := CONCLOUD_REQ_DID_ACK, http_socketid := 4\<rparr>\<lparr>http_socketid := -1\<rparr>,
        [CloseFd (http_socketid (cloud0\<lparr>g_ConCloud_Status := CONCLOUD_REQ_DID_ACK, http_socketid := 4\<rparr>))]) \<and>
   (\<forall>xs. cloud_run xs (cloud0\<lparr>g_ConCloud_Status := CONCLOUD_REQ_DID_ACK, http_socketid := 4\<rparr>\<lparr>http_socketid := -1\<rparr>) =
      Some (cloud0\<lparr>g_ConCloud_Status := CONCLOUD_REQ_DID_ACK, http_socketid := 4\<rparr>\<lparr>http_socketid := -1\<rparr>, []))"
  by (rule registration_stuck) (simp_all add: on_station_def broker_fd_def cloud0_def)

section \<open>A subscription that is not acknowledged\<close>

lemma seconds_run: "cloud_run (replicate n (Second e)) c = Some (hb_ticks e n c)"
proof (induction n)
  case (Suc n)
  have "replicate (Suc n) (Second e) = replicate n (Second e) @ [Second e]" by (simp add: replicate_append_same)
  then show ?case using Suc by (simp only: cloud_run_append) (simp split: prod.splits)
qed simp

text \<open>Complete packets of the broker other than a SUBACK, and histories in which such packets come often enough for the
  heart beat, at most 119 seconds apart, \<open>k\<close> seconds after the last one: passes, idle or not, and seconds in any order.\<close>

definition other_packet :: "bytes \<Rightarrow> bool" where
  "other_packet d = (case MQTT_readPacket (Received d) 2048 of
     Some (n, buf) \<Rightarrow> 0 < n \<and> (case MQTTParseMessageType buf of Some ty \<Rightarrow> ty \<noteq> MQTT_MSG_SUBACK | None \<Rightarrow> False)
   | None \<Rightarrow> False)"

fun kept_alive :: "nat \<Rightarrow> cloud_event list \<Rightarrow> bool" where
  "kept_alive k [] = True"
| "kept_alive k (Second e # xs) = (k + 1 < 120 \<and> kept_alive (k + 1) xs)"
| "kept_alive k (Pass ev # xs) = (case ce_recv ev of Received d \<Rightarrow> other_packet d \<and> kept_alive 0 xs | _ \<Rightarrow> kept_alive k xs)"

text \<open>The client still waits for the same SUBACK, \<open>k\<close> seconds after the last packet.\<close>

definition suback_wait :: "cloud \<Rightarrow> nat \<Rightarrow> cloud \<Rightarrow> bool" where
  "suback_wait c k c' \<longleftrightarrow> g_ConCloud_Status c' = CONCLOUD_RUNNING \<and> on_station c' \<and> g_MQTTStatus (gwst c') = g_MQTTStatus (gwst c) \<and>
     broker_fd c' = broker_fd c \<and> k < 120 \<and> pingTime c' = of_nat (k mod 50) \<and> loseTime c' = of_nat (k div 50)"

lemma second_waits:
  assumes "suback_wait c k c1" and "0 \<le> broker_fd c" and "Suc k < 120"
  shows "\<exists>c2 eff. cloud_step (Second e) c1 = Some (c2, eff) \<and> suback_wait c (Suc k) c2 \<and> set eff \<subseteq> {Send (broker_fd c) [0xC0, 0]}"
proof -
  let ?c0 = "c1\<lparr>pingTime := 0, loseTime := 0\<rparr>"
  have f: "0 \<le> broker_fd ?c0" "broker_fd ?c0 = broker_fd c" using assms(1,2) by (simp_all add: suback_wait_def broker_fd_def)
  have c1: "?c0\<lparr>pingTime := of_nat (k mod 50), loseTime := of_nat (k div 50)\<rparr> = c1" using assms(1) by (cases c1) (simp add: suback_wait_def)
  have k: "hb_ticks e k ?c0 = (c1, pings (k div 50) ?c0)" using hb_silent[OF f(1), of k e] assms(3) c1 by simp
  obtain c2 eff where t: "GAgent_Cloud_Timer e c1 = (c2, eff)" by fastforce
  have "hb_ticks e (Suc k) ?c0 = (?c0\<lparr>pingTime := of_nat (Suc k mod 50), loseTime := of_nat (Suc k div 50)\<rparr>, pings (Suc k div 50) ?c0)"
    using hb_silent[OF f(1), of "Suc k" e] assms(3) by simp
  then have "c2 = ?c0\<lparr>pingTime := of_nat (Suc k mod 50), loseTime := of_nat (Suc k div 50)\<rparr>" "pings (k div 50) ?c0 @ eff = pings (Suc k div 50) ?c0"
    using k t by simp_all
  moreover from this(2) have "set eff \<subseteq> set (pings (Suc k div 50) ?c0)" by (metis set_append Un_upper2)
  ultimately show ?thesis
    using t assms(1,3) f(2) by (auto simp: suback_wait_def on_station_def broker_fd_def)
qed

lemma pass_waits:
  assumes w: "suback_wait c k c1" and "0 \<le> broker_fd c" and st: "g_MQTTStatus (gwst c) \<noteq> MQTT_STATUS_LOGIN" "g_MQTTStatus (gwst c) \<noteq> MQTT_STATUS_RUNNING"
    and d: "\<And>d. ce_recv ev = Received d \<Longrightarrow> other_packet d"
  shows "\<exists>c2. cloud_step (Pass ev) c1 = Some (c2, []) \<and> suback_wait c (case ce_recv ev of Received _ \<Rightarrow> 0 | _ \<Rightarrow> k) c2"
proof -
  have p: "cloud_step (Pass ev) c1 = MQTT_handlePacket ev c1"
    using w st by (simp add: suback_wait_def GAgent_Login_Cloud_def login_running_def on_station_def Let_def)
  have b: "broker_fd c1 \<noteq> -1" using w assms(2) by (simp add: suback_wait_def)
  have s1: "g_MQTTStatus (gwst c1) \<noteq> MQTT_STATUS_LOGIN" "g_MQTTStatus (gwst c1) \<noteq> MQTT_STATUS_RUNNING" using w st by (simp_all add: suback_wait_def)
  show ?thesis
  proof (cases "ce_recv ev")
    case (Received x)
    then obtain n buf ty where n: "MQTT_readPacket (Received x) 2048 = Some (n, buf)" "0 < n" "MQTTParseMessageType buf = Some ty" "ty \<noteq> MQTT_MSG_SUBACK"
      using d[OF Received] by (auto simp: other_packet_def split: option.splits)
    have "MQTT_handlePacket ev c1 = handle_packet (ce ev) (ce_stack ev) buf (nat n) (c1\<lparr>g_MQTTBuffer := buf\<rparr>)"
      using handlePacket_received[OF b Received, of "nat n" buf] n by simp
    moreover have "\<exists>c2. handle_packet (ce ev) (ce_stack ev) buf (nat n) (c1\<lparr>g_MQTTBuffer := buf\<rparr>) = Some (c2, []) \<and> suback_wait c 0 c2"
      using n(3,4) s1 w by (auto simp: handle_packet_def Let_def with_gw_def Cloud_HB_Status_init_def suback_wait_def on_station_def broker_fd_def)
    ultimately show ?thesis using p Received by simp
  qed (use p b w in \<open>auto simp: MQTT_handlePacket_def MQTT_readPacket_def suback_wait_def on_station_def broker_fd_def\<close>)
qed

text \<open>C27 A lost subscription acknowledgement stops the cloud for good: while the client waits for a SUBACK
  and the connection lives, it never asks again nor gives the session up, so the state in which commands are obeyed is
  not reached. The history is any sequence of idle passes, passes that receive other packets of the broker, and
  seconds, in which packets are at most 119 seconds apart, as the answers to the pings are; nothing but pings is sent.\<close>

theorem lost_suback_stuck:
  assumes "g_ConCloud_Status c = CONCLOUD_RUNNING" and "on_station c" and "0 \<le> broker_fd c" and "pingTime c = 0" and "loseTime c = 0"
    and "stage c \<in> {1, 2, 3}" and "kept_alive 0 xs"
  shows "\<exists>c' eff. cloud_run xs c = Some (c', eff) \<and> set eff \<subseteq> {Send (broker_fd c) [0xC0, 0]} \<and>
    g_ConCloud_Status c' = CONCLOUD_RUNNING \<and> stage c' = stage c"
proof -
  have st: "g_MQTTStatus (gwst c) \<noteq> MQTT_STATUS_LOGIN" "g_MQTTStatus (gwst c) \<noteq> MQTT_STATUS_RUNNING" using assms(6) by (auto simp: stage_def)
  have "\<exists>c' eff k. cloud_run xs c1 = Some (c', eff) \<and> set eff \<subseteq> {Send (broker_fd c) [0xC0, 0]} \<and> suback_wait c k c'"
    if "suback_wait c k c1" "kept_alive k xs" for k c1
    using that
  proof (induction xs arbitrary: k c1)
    case Nil
    then show ?case by auto
  next
    case (Cons x xs)
    obtain k2 c2 eff where s: "cloud_step x c1 = Some (c2, eff)" "suback_wait c k2 c2" "set eff \<subseteq> {Send (broker_fd c) [0xC0, 0]}" "kept_alive k2 xs"
    proof (cases x)
      case (Second e)
      then show ?thesis using second_waits[OF Cons.prems(1) assms(3), of e] Cons.prems(2) that by auto
    next
      case (Pass ev)
      then show ?thesis using pass_waits[OF Cons.prems(1) assms(3) st, of ev] Cons.prems(2) that by (auto split: recv_result.splits)
    qed
    from Cons.IH[OF s(2,4)] s(1,3) show ?case by fastforce
  qed
  from this[of 0 c] obtain c' eff k where "cloud_run xs c = Some (c', eff)" "set eff \<subseteq> {Send (broker_fd c) [0xC0, 0]}" "suback_wait c k c'"
    using assms by (auto simp: suback_wait_def)
  then show ?thesis by (auto simp: suback_wait_def stage_def)
qed

text \<open>A minute with an idle pass after every second and the answer to the ping.\<close>

definition minute :: "cloud_event list" where
  "minute = concat (replicate 60 [Second env0, Pass (cenv NothingReceived)]) @ [Pass (cenv (Received pingresp))]"

theorem lost_suback_stuck_witness:
  "\<exists>c' eff. cloud_run (minute @ minute @ minute) (set_mqtt_status MQTT_STATUS_LOGINTOPIC2 cloud1) = Some (c', eff) \<and>
    set eff \<subseteq> {Send (broker_fd (set_mqtt_status MQTT_STATUS_LOGINTOPIC2 cloud1)) [0xC0, 0]} \<and>
    g_ConCloud_Status c' = CONCLOUD_RUNNING \<and> stage c' = stage (set_mqtt_status MQTT_STATUS_LOGINTOPIC2 cloud1)"
proof (rule lost_suback_stuck)
  have "other_packet pingresp" using answers_read(3) by (simp add: other_packet_def pingresp_def MQTTParseMessageType_def rd_def)
  then show "kept_alive 0 (minute @ minute @ minute)" by (simp add: minute_def eval_nat_numeral)
qed (simp_all add: stage_simps, simp_all add: set_mqtt_status_def with_gw_def on_station_def cloud1_def cloud0_def broker_fd_def broker0_def)

section \<open>A login that is answered\<close>

lemma identity_ok_frame [simp]:
  "identity_ok (g\<lparr>g_MQTTStatus := st, g_stMQTTBroker := b\<rparr>) did = identity_ok g did"
  "identity_ok (g\<lparr>g_stMQTTBroker := b\<rparr>) did = identity_ok g did"
  "identity_ok (g\<lparr>g_MQTTStatus := st\<rparr>) did = identity_ok g did"
  by (simp_all add: identity_ok_def)

lemma sub_topic_frame [simp]:
  "sub_topic (g\<lparr>g_MQTTStatus := st, g_stMQTTBroker := b\<rparr>) did n = sub_topic g did n"
  "sub_topic (g\<lparr>g_stMQTTBroker := b\<rparr>) did n = sub_topic g did n"
  "sub_topic (g\<lparr>g_MQTTStatus := st\<rparr>) did n = sub_topic g did n"
  by (simp_all add: sub_topic_def)

lemma running_pass:
  assumes "on_station c" and "g_ConCloud_Status c = CONCLOUD_RUNNING"
    and "g_MQTTStatus (gwst c) \<noteq> MQTT_STATUS_LOGIN \<or> ce_time ev 0 - connect2CloudLastTime c < MQTT_CONNECT_TIMEOUT"
  shows "cloud_step (Pass ev) c = MQTT_handlePacket ev c"
  using assms by (auto simp: GAgent_Login_Cloud_def login_running_def Let_def)

definition answered_login :: "cloud_env \<Rightarrow> u32 \<Rightarrow> cloud_event list" where
  "answered_login ev t = Pass ev # Pass (ev\<lparr>ce_recv := Received (connack 0), ce_time := \<lambda>_. t\<rparr>)
     # map (\<lambda>id. Pass (ev\<lparr>ce_recv := Received (suback id)\<rparr>)) [1, 2, 3]"

text \<open>The packets of a login: CONNECT on a new connection, the three subscriptions, a ping.\<close>

definition login_effects :: "cloud_env \<Rightarrow> u32 \<Rightarrow> bytes \<Rightarrow> bytes \<Rightarrow> cloud \<Rightarrow> effect list" where
  "login_effects ev ip connect did c =
     (let s = ce_socket ev; sub = (\<lambda>k. sub_packet ((g_stMQTTBroker (gwst c))\<lparr>mb_seq := of_nat k\<rparr>) (sub_topic (gwst c) did k))
      in (if broker_fd c \<noteq> -1 then [CloseFd (broker_fd c)] else []) @ [ConnectTo s ip (word_of_int (m2m_Port c)), Send s connect,
          Send s (sub 1), Send s (sub 2), Send s (sub 3), Send s [0xC0, 0]])"

text \<open>The four answers, from the CONNACK on.\<close>

lemma subscriptions_answered:
  assumes id: "identity_ok (gwst c1) did" and mem: "\<And>i. e_mem (ce ev) i" and snd: "\<And>fd p. e_send (ce ev) fd p = int (length p)"
    and f1: "broker_fd c1 \<noteq> -1" and st: "on_station c1" and run: "g_ConCloud_Status c1 = CONCLOUD_RUNNING"
    and login: "g_MQTTStatus (gwst c1) = MQTT_STATUS_LOGIN" and seq: "mb_seq (g_stMQTTBroker (gwst c1)) = 1"
    and t: "t - connect2CloudLastTime c1 < MQTT_CONNECT_TIMEOUT"
  shows "\<exists>c'. cloud_run (tl (answered_login ev t)) c1 = Some (c', map (Send (broker_fd c1))
      (map (\<lambda>k. sub_packet ((g_stMQTTBroker (gwst c1))\<lparr>mb_seq := of_nat k\<rparr>) (sub_topic (gwst c1) did k)) [1, 2, 3] @ [[0xC0, 0]])) \<and>
    g_ConCloud_Status c' = CONCLOUD_RUNNING \<and> stage c' = 4 \<and> broker_fd c' = broker_fd c1"
proof -
  let ?e2 = "ev\<lparr>ce_recv := Received (connack 0), ce_time := \<lambda>_. t\<rparr>" and ?e = "\<lambda>id. ev\<lparr>ce_recv := Received (suback id)\<rparr>"
  obtain c2 where c2: "MQTT_handlePacket ?e2 c1 = Some (c2, [Send (broker_fd c1) (sub_packet (g_stMQTTBroker (gwst c1)) (sub_topic (gwst c1) did 1))])"
    "subscribed MQTT_STATUS_LOGINTOPIC1 c1 c2"
    using connack_answered[OF id, of ?e2] mem snd f1 login by auto
  note s2 = c2(2)[unfolded subscribed_def]
  have i2: "identity_ok (gwst c2) did" and f2: "broker_fd c2 = broker_fd c1" and m2: "g_Msgsub_id c2 = 1"
    using s2 id seq by (simp_all add: broker_fd_def)
  obtain c3 where c3: "MQTT_handlePacket (?e 1) c2 = Some (c3, [Send (broker_fd c2) (sub_packet (g_stMQTTBroker (gwst c2)) (sub_topic (gwst c2) did 2))])"
    "subscribed MQTT_STATUS_LOGINTOPIC2 c2 c3"
    using suback_answered[OF i2, of "?e 1" 2 MQTT_STATUS_LOGINTOPIC2] mem snd f1 f2 m2 s2 by auto
  note s3 = c3(2)[unfolded subscribed_def]
  have i3: "identity_ok (gwst c3) did" and f3: "broker_fd c3 = broker_fd c1" and m3: "g_Msgsub_id c3 = 2"
    using s3 s2 i2 f2 seq by (simp_all add: broker_fd_def)
  obtain c4 where c4: "MQTT_handlePacket (?e 2) c3 = Some (c4, [Send (broker_fd c3) (sub_packet (g_stMQTTBroker (gwst c3)) (sub_topic (gwst c3) did 3))])"
    "subscribed MQTT_STATUS_LOGINTOPIC3 c3 c4"
    using suback_answered[OF i3, of "?e 2" 3 MQTT_STATUS_LOGINTOPIC3] mem snd f1 f3 m3 s3 by auto
  note s4 = c4(2)[unfolded subscribed_def]
  have f4: "broker_fd c4 = broker_fd c1" and m4: "g_Msgsub_id c4 = 3"
    using s4 s3 s2 f3 seq by (simp_all add: broker_fd_def)
  obtain c5 where c5: "MQTT_handlePacket (?e 3) c4 = Some (c5, [Send (broker_fd c4) [0xC0, 0]])"
    "gwst c5 = (gwst c4)\<lparr>g_MQTTStatus := MQTT_STATUS_RUNNING\<rparr>" "g_ConCloud_Status c5 = g_ConCloud_Status c4"
    using last_suback_runs[of c4 "?e 3"] f1 f4 m4 s4 by auto
  have p1: "cloud_step (Pass ?e2) c1 = MQTT_handlePacket ?e2 c1" by (rule running_pass) (use st run t in simp_all)
  have p2: "cloud_step (Pass (?e 1)) c2 = MQTT_handlePacket (?e 1) c2" by (rule running_pass) (use st run s2 in \<open>simp_all add: on_station_def\<close>)
  have p3: "cloud_step (Pass (?e 2)) c3 = MQTT_handlePacket (?e 2) c3" by (rule running_pass) (use st run s2 s3 in \<open>simp_all add: on_station_def\<close>)
  have p4: "cloud_step (Pass (?e 3)) c4 = MQTT_handlePacket (?e 3) c4" by (rule running_pass) (use st run s2 s3 s4 in \<open>simp_all add: on_station_def\<close>)
  have "sub_topic (gwst c2) did k = sub_topic (gwst c1) did k" "sub_topic (gwst c3) did k = sub_topic (gwst c1) did k" for k
    using s2 s3 by simp_all
  moreover have "mb_seq (g_stMQTTBroker (gwst c2)) = 2" "mb_seq (g_stMQTTBroker (gwst c3)) = 3" using s2 s3 seq by simp_all
  ultimately show ?thesis
    using p1 p2 p3 p4 c2(1) c3(1) c4(1) c5 f2 f3 f4 seq s2 s3 s4 run
    by (simp add: answered_login_def sub_packet_def stage_def broker_fd_def del: cloud_step.simps)
qed

text \<open>C5 A login that the broker answers completes: five passes after it was asked for, the session is in
  its last stage. On the way the client has closed the old connection, sent one CONNECT with the device id
  and the passcode on a new one, subscribed to exactly the three topics of its product and its id, under
  the ids 1, 2 and 3, and sent a first ping.\<close>

theorem cloud_login_completes:
  assumes "g_ConCloud_Status c = CONCLOUD_REQ_LOGIN" and "on_station c" and "\<not> too_soon ev c"
    and "login_ready (gwst c) did pass" and "\<And>i. e_mem (ce ev) i" and "\<And>fd p. e_send (ce ev) fd p = int (length p)"
    and "ce_dns ev = DnsCached ip" and "0 \<le> ce_socket ev" and "0 \<le> ce_connect ev" and "t - ce_time ev 1 < MQTT_CONNECT_TIMEOUT"
  shows "\<exists>c' connect. cloud_run (answered_login ev t) c = Some (c', login_effects ev ip connect did c) \<and>
    mqtt_connect (e_mem (ce ev)) (e_send (ce ev))
      ((credentials did pass (g_stMQTTBroker (gwst c)))\<lparr>mb_socketid := ce_socket ev, mb_alive := 55\<rparr>) = Some (0, [connect]) \<and>
    g_ConCloud_Status c' = CONCLOUD_RUNNING \<and> stage c' = 4 \<and> broker_fd c' = ce_socket ev"
proof -
  let ?s = "ce_socket ev" and ?last = "c\<lparr>connect2CloudLastTime := ce_time ev 1\<rparr>"
  define b where "b = (credentials did pass (g_stMQTTBroker (gwst c)))\<lparr>mb_socketid := ?s, mb_alive := 55\<rparr>"
  have host: "GAgent_GetHostByName (ce_dns ev) = (\<lambda>c. (Some ip, c))" by (simp add: assms(7) GAgent_GetHostByName_def fun_eq_iff)
  have fd0: "broker_fd ?last = broker_fd c" by (simp add: broker_fd_def)
  have rdy: "login_ready (gwst ?last) did pass" using assms(4) by simp
  let ?c0 = "with_gw (\<lambda>g. g\<lparr>g_stMQTTBroker := credentials did pass (g_stMQTTBroker (gwst ?last))\<rparr>) ?last"
  let ?eff = "(if broker_fd c \<noteq> -1 then [CloseFd (broker_fd c)] else []) @ [ConnectTo ?s ip (word_of_int (m2m_Port c))]"
  obtain connect where con: "mqtt_connect (e_mem (ce ev)) (e_send (ce ev)) b = Some (0, [connect])"
    "Mqtt_Login2Server ev ?last = Some (0, ?c0\<lparr>gwst := (gwst c)\<lparr>g_stMQTTBroker := b\<rparr>\<rparr>, ?eff @ [Send ?s connect])"
    using login_sent[OF rdy assms(5,6) host refl refl assms(8,9)] unfolding b_def fd0 by auto
  define c1 where "c1 = set_mqtt_status MQTT_STATUS_LOGIN ((?c0\<lparr>gwst := (gwst c)\<lparr>g_stMQTTBroker := b\<rparr>\<rparr>)\<lparr>g_ConCloud_Status := CONCLOUD_RUNNING\<rparr>)"
  have p1: "cloud_step (Pass ev) c = Some (c1, ?eff @ [Send ?s connect])"
    using con(2) assms(1-3) by (simp add: GAgent_Login_Cloud_def login_req_login_def Let_def c1_def)
  have g1: "gwst c1 = (gwst c)\<lparr>g_stMQTTBroker := b, g_MQTTStatus := MQTT_STATUS_LOGIN\<rparr>" "g_ConCloud_Status c1 = CONCLOUD_RUNNING"
    "connect2CloudLastTime c1 = ce_time ev 1" "wifiStatus c1 = wifiStatus c"
    by (simp_all add: c1_def set_mqtt_status_def with_gw_def)
  have b: "mb_socketid b = ?s" "mb_seq b = 1" by (simp_all add: b_def credentials_def)
  have f1: "broker_fd c1 = ?s" "broker_fd c1 \<noteq> -1" using assms(8) b(1) by (simp_all add: broker_fd_def g1(1))
  have i1: "identity_ok (gwst c1) did" using assms(4) by (simp add: g1(1) identity_ok_def login_ready_def)
  obtain c' where c': "cloud_run (tl (answered_login ev t)) c1 = Some (c', map (Send (broker_fd c1))
      (map (\<lambda>k. sub_packet ((g_stMQTTBroker (gwst c1))\<lparr>mb_seq := of_nat k\<rparr>) (sub_topic (gwst c1) did k)) [1, 2, 3] @ [[0xC0, 0]]))"
    "g_ConCloud_Status c' = CONCLOUD_RUNNING" "stage c' = 4" "broker_fd c' = broker_fd c1"
    using subscriptions_answered[OF i1 assms(5,6) f1(2), of t] assms(2,10) g1 b(2) by (auto simp: on_station_def)
  have run: "cloud_run (Pass ev # xs) c = map_option (\<lambda>(c, eff). (c, (?eff @ [Send ?s connect]) @ eff)) (cloud_run xs c1)" for xs
    using p1 by (cases "cloud_run xs c1") (simp_all del: cloud_step.simps split: prod.split)
  have "sub_topic (gwst c1) did k = sub_topic (gwst c) did k" for k using g1(1) by (simp add: sub_topic_def)
  then have eff: "(?eff @ [Send ?s connect]) @ map (Send (broker_fd c1))
      (map (\<lambda>k. sub_packet ((g_stMQTTBroker (gwst c1))\<lparr>mb_seq := of_nat k\<rparr>) (sub_topic (gwst c1) did k)) [1, 2, 3] @ [[0xC0, 0]])
      = login_effects ev ip connect did c"
    using f1(1) by (simp add: login_effects_def sub_packet_def Let_def)
  have "answered_login ev t = Pass ev # tl (answered_login ev t)" by (simp add: answered_login_def)
  then have "cloud_run (answered_login ev t) c = cloud_run (Pass ev # tl (answered_login ev t)) c" by (rule arg_cong)
  then have "cloud_run (answered_login ev t) c = Some (c', login_effects ev ip connect did c)"
    unfolding run c'(1) eff[symmetric] by simp
  then show ?thesis using con(1) c'(2-4) f1(1) unfolding b_def by (intro exI[of _ c'] exI[of _ connect]) simp
qed

theorem cloud_login_completes_witness:
  "\<exists>c' connect. cloud_run (answered_login (cenv NothingReceived\<lparr>ce_time := \<lambda>_. 100\<rparr>) 120)
      (cloud1\<lparr>g_ConCloud_Status := CONCLOUD_REQ_LOGIN\<rparr>) =
      Some (c', login_effects (cenv NothingReceived\<lparr>ce_time := \<lambda>_. 100\<rparr>) 0x01020304 connect (ascii ''did1'') (cloud1\<lparr>g_ConCloud_Status := CONCLOUD_REQ_LOGIN\<rparr>)) \<and>
    mqtt_connect (e_mem (ce (cenv NothingReceived\<lparr>ce_time := \<lambda>_. 100\<rparr>))) (e_send (ce (cenv NothingReceived\<lparr>ce_time := \<lambda>_. 100\<rparr>)))
      ((credentials (ascii ''did1'') (replicate 10 65) (g_stMQTTBroker (gwst (cloud1\<lparr>g_ConCloud_Status := CONCLOUD_REQ_LOGIN\<rparr>))))
        \<lparr>mb_socketid := ce_socket (cenv NothingReceived\<lparr>ce_time := \<lambda>_. 100\<rparr>), mb_alive := 55\<rparr>) = Some (0, [connect]) \<and>
    g_ConCloud_Status c' = CONCLOUD_RUNNING \<and> stage c' = 4 \<and> broker_fd c' = ce_socket (cenv NothingReceived\<lparr>ce_time := \<lambda>_. 100\<rparr>)"
proof (rule cloud_login_completes)
  show "login_ready (gwst (cloud1\<lparr>g_ConCloud_Status := CONCLOUD_REQ_LOGIN\<rparr>)) (ascii ''did1'') (replicate 10 65)"
    by (simp add: login_ready_def identity_ok_def no_nul_def cloud1_def gw0_def config0_def example_did) (simp add: ascii_def)
qed (simp_all add: on_station_def too_soon_def cloud1_def cloud0_def env0_def)

end
