(* ===== verification/CoreTimers.thy ===== *)
theory CoreTimers
  imports CloudLogin LanServer
begin

text \<open>
  The second timers of the agent (App/GizWitsWifi/system/core_gagent.c): a table of 32 entries that an
  interrupt counter drives. What an entry calls is a value of a type \<open>'f\<close>, so that the table can be studied
  without the callbacks; the two callbacks of the program follow at the end. A count of seconds is an
  unbounded number here; the \<open>int\<close> of the code would wrap after 68 years.
\<close>

section \<open>The table\<close>

record 'f CORE_GAGENT_TIMER_S =
  nextSeconds :: int
  initSecods :: int
  pfFunc :: "'f option"
  tmr_flag :: int

abbreviation (input) "GAGENT_MAXTIMER \<equiv> (32 :: nat)"
abbreviation (input) "GAGENT_TIMER_PERIOD \<equiv> (1 :: int)"
abbreviation (input) "GAGENT_TIMER_CLOCK \<equiv> (2 :: int)"

definition no_timer :: "'f CORE_GAGENT_TIMER_S" where
  "no_timer = \<lparr>nextSeconds = 0, initSecods = 0, pfFunc = None, tmr_flag = 0\<rparr>"

definition GAgent_TimerInit :: "'f CORE_GAGENT_TIMER_S list" where
  "GAgent_TimerInit = replicate GAGENT_MAXTIMER no_timer"

fun create_scan :: "nat \<Rightarrow> int \<Rightarrow> int \<Rightarrow> 'f \<Rightarrow> 'f CORE_GAGENT_TIMER_S list \<Rightarrow> int \<times> 'f CORE_GAGENT_TIMER_S list" where
  "create_scan i flag seconds f [] = (-1, [])"
| "create_scan i flag seconds f (t # ts) =
     (if tmr_flag t = 0 then (int i, t\<lparr>tmr_flag := flag, nextSeconds := seconds, initSecods := seconds, pfFunc := Some f\<rparr> # ts)
      else let (r, ts) = create_scan (i + 1) flag seconds f ts in (r, t # ts))"

definition GAgent_CreateTimer ::
  "int \<Rightarrow> u32 \<Rightarrow> 'f \<Rightarrow> 'f CORE_GAGENT_TIMER_S list \<Rightarrow> int \<times> 'f CORE_GAGENT_TIMER_S list" where
  "GAgent_CreateTimer flag ms f tab =
     (let seconds = int (unat ((ms + 900) div 1000))
      in if flag \<noteq> GAGENT_TIMER_PERIOD \<and> flag \<noteq> GAGENT_TIMER_CLOCK then (-1, tab)
         else create_scan 0 flag seconds f tab)"

text \<open>One second. \<open>call\<close> runs a callback on the state of the program; calling through a zero pointer ends
  in \<open>None\<close>.\<close>

fun GAgent_Timer :: "('f \<Rightarrow> 's \<Rightarrow> 's) \<Rightarrow> 'f CORE_GAGENT_TIMER_S list \<Rightarrow> 's \<Rightarrow> ('f CORE_GAGENT_TIMER_S list \<times> 's) option" where
  "GAgent_Timer call [] s = Some ([], s)"
| "GAgent_Timer call (t # ts) s =
     (if tmr_flag t = 0 then map_option (\<lambda>(ts, s). (t # ts, s)) (GAgent_Timer call ts s)
      else
        let t = t\<lparr>nextSeconds := nextSeconds t - 1\<rparr>
        in if nextSeconds t \<noteq> 0 then map_option (\<lambda>(ts, s). (t # ts, s)) (GAgent_Timer call ts s)
           else do {
             f \<leftarrow> pfFunc t;
             let t = (if tmr_flag t = GAGENT_TIMER_CLOCK then t\<lparr>tmr_flag := 0, initSecods := 0\<rparr> else t\<lparr>nextSeconds := initSecods t\<rparr>);
             map_option (\<lambda>(ts, s). (t # ts, s)) (GAgent_Timer call ts (call f s))
           })"

definition GAgent_TimerHandler :: "int \<Rightarrow> int" where
  "GAgent_TimerHandler g_iCoreTimerInterruptTime = g_iCoreTimerInterruptTime + 1"

fun timer_run :: "('f \<Rightarrow> 's \<Rightarrow> 's) \<Rightarrow> nat \<Rightarrow> 'f CORE_GAGENT_TIMER_S list \<Rightarrow> 's \<Rightarrow> ('f CORE_GAGENT_TIMER_S list \<times> 's) option" where
  "timer_run call 0 tab s = Some (tab, s)"
| "timer_run call (Suc n) tab s = do { (tab, s) \<leftarrow> GAgent_Timer call tab s; timer_run call n tab s }"

text \<open>\<open>GAgent_TimerRun\<close>: one round for each interrupt that was counted; the counter ends at 0 (or stays, if
  it is not positive).\<close>

definition GAgent_TimerRun ::
  "('f \<Rightarrow> 's \<Rightarrow> 's) \<Rightarrow> int \<Rightarrow> 'f CORE_GAGENT_TIMER_S list \<Rightarrow> 's \<Rightarrow> (int \<times> 'f CORE_GAGENT_TIMER_S list \<times> 's) option" where
  "GAgent_TimerRun call g_iCoreTimerInterruptTime tab s =
     map_option (\<lambda>(tab, s). (min 0 g_iCoreTimerInterruptTime, tab, s)) (timer_run call (nat g_iCoreTimerInterruptTime) tab s)"

text \<open>The main loop while interrupts come in bunches: so many before each of its passes.\<close>

fun timer_bunches ::
  "('f \<Rightarrow> 's \<Rightarrow> 's) \<Rightarrow> nat list \<Rightarrow> int \<times> 'f CORE_GAGENT_TIMER_S list \<times> 's \<Rightarrow> (int \<times> 'f CORE_GAGENT_TIMER_S list \<times> 's) option" where
  "timer_bunches call [] x = Some x"
| "timer_bunches call (n # ns) (k, tab, s) = do { x \<leftarrow> GAgent_TimerRun call ((GAgent_TimerHandler ^^ n) k) tab s; timer_bunches call ns x }"

lemma timer_run_add: "timer_run call (m + n) tab s = do { (tab, s) \<leftarrow> timer_run call m tab s; timer_run call n tab s }"
  by (induction m arbitrary: tab s) (simp_all split: Option.bind_splits prod.splits)

lemma timer_bunches_run: "timer_bunches call ns (0, tab, s) = map_option (\<lambda>(tab, s). (0, tab, s)) (timer_run call (sum_list ns) tab s)"
proof (induction ns arbitrary: tab s)
  case (Cons n ns)
  have "(GAgent_TimerHandler ^^ n) 0 = int n" by (induction n) (simp_all add: GAgent_TimerHandler_def)
  then have "timer_bunches call (n # ns) (0, tab, s) = do { (tab, s) \<leftarrow> timer_run call n tab s; timer_bunches call ns (0, tab, s) }"
    by (cases "timer_run call n tab s") (simp_all add: GAgent_TimerRun_def case_prod_beta)
  then show ?case unfolding Cons.IH sum_list.Cons timer_run_add by (cases "timer_run call n tab s") (simp_all add: case_prod_beta)
qed simp

section \<open>What a timer promises\<close>

text \<open>A timer by itself: it is off, or it calls \<open>f\<close> in \<open>k > 0\<close> seconds, and then every \<open>p > 0\<close> seconds if
  it is periodic. The calls within \<open>n\<close> seconds:\<close>

datatype 'f timer_spec = Off | Once nat 'f | Every nat nat 'f

fun second :: "'f timer_spec \<Rightarrow> 'f list \<times> 'f timer_spec" where
  "second Off = ([], Off)"
| "second (Once k f) = (if k \<le> 1 then ([f], Off) else ([], Once (k - 1) f))"
| "second (Every k p f) = (if k \<le> 1 then ([f], Every p p f) else ([], Every (k - 1) p f))"

fun seconds_calls :: "nat \<Rightarrow> 'f timer_spec list \<Rightarrow> 'f list \<times> 'f timer_spec list" where
  "seconds_calls 0 ts = ([], ts)"
| "seconds_calls (Suc n) ts =
     (let (calls, ts') = (concat (map (fst \<circ> second) ts), map (snd \<circ> second) ts); (more, ts'') = seconds_calls n ts'
      in (calls @ more, ts''))"

definition abs_timer :: "'f CORE_GAGENT_TIMER_S \<Rightarrow> 'f timer_spec" where
  "abs_timer t = (case pfFunc t of None \<Rightarrow> Off | Some f \<Rightarrow>
     if tmr_flag t = GAGENT_TIMER_CLOCK then Once (nat (nextSeconds t)) f
     else if tmr_flag t = GAGENT_TIMER_PERIOD then Every (nat (nextSeconds t)) (nat (initSecods t)) f
     else Off)"

definition timer_ok :: "'f CORE_GAGENT_TIMER_S \<Rightarrow> bool" where
  "timer_ok t \<longleftrightarrow> tmr_flag t = 0 \<or>
     (tmr_flag t = GAGENT_TIMER_CLOCK \<or> tmr_flag t = GAGENT_TIMER_PERIOD) \<and> 0 < nextSeconds t \<and> 0 < initSecods t \<and> pfFunc t \<noteq> None"

lemma GAgent_Timer_refines:
  "list_all timer_ok tab \<Longrightarrow> \<exists>tab'. GAgent_Timer call tab s = Some (tab', fold call (concat (map (fst \<circ> second \<circ> abs_timer) tab)) s) \<and>
     map abs_timer tab' = map (snd \<circ> second \<circ> abs_timer) tab \<and> list_all timer_ok tab'"
proof (induction tab arbitrary: s)
  case (Cons t ts)
  have t: "timer_ok t" "list_all timer_ok ts" using Cons.prems by simp_all
  show ?case
  proof (cases "tmr_flag t = 0")
    case True
    then show ?thesis using Cons.IH[OF t(2), of s] t(1) by (auto simp: abs_timer_def split: option.splits)
  next
    case False
    then obtain f where f: "pfFunc t = Some f" "0 < nextSeconds t" "0 < initSecods t" "tmr_flag t = 2 \<or> tmr_flag t = 1"
      using t(1) by (auto simp: timer_ok_def)
    show ?thesis
    proof (cases "nextSeconds t = 1")
      case True
      then show ?thesis using Cons.IH[OF t(2), of "call f s"] f by (auto simp: timer_ok_def abs_timer_def)
    next
      case False
      then have "\<not> nat (nextSeconds t) \<le> 1" "nat (nextSeconds t) - 1 = nat (nextSeconds t - 1)" "0 < nextSeconds t - 1" using f(2) by auto
      then show ?thesis using Cons.IH[OF t(2), of s] f False \<open>tmr_flag t \<noteq> 0\<close> by (auto simp: timer_ok_def abs_timer_def)
    qed
  qed
qed simp

lemma timer_run_refines:
  "list_all timer_ok tab \<Longrightarrow> \<exists>tab'. timer_run call n tab s = Some (tab', fold call (fst (seconds_calls n (map abs_timer tab))) s) \<and>
     map abs_timer tab' = snd (seconds_calls n (map abs_timer tab)) \<and> list_all timer_ok tab'"
proof (induction n arbitrary: tab s)
  case (Suc n)
  let ?calls = "concat (map (fst \<circ> second \<circ> abs_timer) tab)"
  obtain tab1 where t1: "GAgent_Timer call tab s = Some (tab1, fold call ?calls s)"
    "map abs_timer tab1 = map (snd \<circ> second \<circ> abs_timer) tab" "list_all timer_ok tab1"
    using GAgent_Timer_refines[OF Suc.prems, of call s] by blast
  obtain tab2 where "timer_run call n tab1 (fold call ?calls s) =
      Some (tab2, fold call (fst (seconds_calls n (map abs_timer tab1))) (fold call ?calls s))"
    "map abs_timer tab2 = snd (seconds_calls n (map abs_timer tab1))" "list_all timer_ok tab2"
    using Suc.IH[OF t1(3), of "fold call ?calls s"] by blast
  moreover have "map abs_timer tab1 = map (snd \<circ> second) (map abs_timer tab)" "?calls = concat (map (fst \<circ> second) (map abs_timer tab))"
    using t1(2) by (simp_all add: comp_assoc)
  ultimately show ?case using t1(1) by (simp add: Let_def case_prod_beta del: map_map GAgent_Timer.simps)
qed simp

text \<open>C28 The table keeps what each timer promises: with any table of valid timers and any callbacks, serving
  \<open>n\<close> interrupts runs exactly the calls the timers by themselves make in \<open>n\<close> seconds, second by second in
  the order of the table, takes all interrupts off the counter and calls no zero pointer; the table then
  stands for the timers as they are after \<open>n\<close> seconds.\<close>

theorem timers_refine_calls:
  assumes "list_all timer_ok tab"
  shows "\<exists>tab'. GAgent_TimerRun call (int n) tab s = Some (0, tab', fold call (fst (seconds_calls n (map abs_timer tab))) s) \<and>
    map abs_timer tab' = snd (seconds_calls n (map abs_timer tab))"
  using timer_run_refines[OF assms, of call n s] by (auto simp: GAgent_TimerRun_def)

theorem timers_refine_calls_witness:
  "\<exists>tab'. GAgent_TimerRun (\<lambda>f s. s @ [f]) (int 5) [no_timer\<lparr>tmr_flag := 1, nextSeconds := 2, initSecods := 2, pfFunc := Some True\<rparr>,
        no_timer\<lparr>tmr_flag := 2, nextSeconds := 3, initSecods := 3, pfFunc := Some False\<rparr>] [] =
      Some (0, tab', fold (\<lambda>f s. s @ [f]) (fst (seconds_calls 5 (map abs_timer
        [no_timer\<lparr>tmr_flag := 1, nextSeconds := 2, initSecods := 2, pfFunc := Some True\<rparr>,
        no_timer\<lparr>tmr_flag := 2, nextSeconds := 3, initSecods := 3, pfFunc := Some False\<rparr>]))) []) \<and>
    map abs_timer tab' = snd (seconds_calls 5 (map abs_timer [no_timer\<lparr>tmr_flag := 1, nextSeconds := 2, initSecods := 2, pfFunc := Some True\<rparr>,
        no_timer\<lparr>tmr_flag := 2, nextSeconds := 3, initSecods := 3, pfFunc := Some False\<rparr>]))"
  by (rule timers_refine_calls) (simp add: timer_ok_def no_timer_def)

section \<open>One timer\<close>

lemma periodic_calls:
  "1 \<le> k \<Longrightarrow> k \<le> p \<Longrightarrow> fst (seconds_calls n (Every k p f # replicate m Off)) = replicate ((n + p - k) div p) f"
proof (induction n arbitrary: k)
  case (Suc n)
  have off: "concat (map (fst \<circ> second) (replicate m Off)) = []" "map (snd \<circ> second) (replicate m Off) = replicate m Off"
    by (induction m) simp_all
  show ?case
  proof (cases "k = 1")
    case True
    have "(Suc n + p - 1) div p = Suc (n div p)" using Suc.prems by (simp add: div_add_self2)
    then show ?thesis using Suc.IH[of p] Suc.prems True off by (simp add: case_prod_beta Let_def)
  next
    case False
    have "n + p - (k - 1) = Suc n + p - k" using Suc.prems False by simp
    then show ?thesis using Suc.IH[of "k - 1"] Suc.prems False off by (simp add: case_prod_beta Let_def)
  qed
qed simp

lemma stopped_timer:
  "tmr_flag t = 1 \<Longrightarrow> nextSeconds t \<le> 0 \<Longrightarrow> \<exists>t'. GAgent_Timer call (t # replicate m no_timer) s = Some (t' # replicate m no_timer, s) \<and>
     tmr_flag t' = 1 \<and> nextSeconds t' \<le> 0"
proof -
  have "GAgent_Timer call (replicate m no_timer) s = Some (replicate m no_timer, s)" by (induction m) (simp_all add: no_timer_def)
  then show "tmr_flag t = 1 \<Longrightarrow> nextSeconds t \<le> 0 \<Longrightarrow> ?thesis" by simp
qed

lemma stopped_run:
  "tmr_flag t = 1 \<Longrightarrow> nextSeconds t \<le> 0 \<Longrightarrow> \<exists>tab'. timer_run call n (t # replicate m no_timer) s = Some (tab', s)"
proof (induction n arbitrary: t)
  case (Suc n)
  obtain t' where t': "GAgent_Timer call (t # replicate m no_timer) s = Some (t' # replicate m no_timer, s)"
    "tmr_flag t' = 1" "nextSeconds t' \<le> 0"
    using stopped_timer[OF Suc.prems, of call m s] by blast
  show ?case using Suc.IH[OF t'(2,3)] by (simp add: t'(1) del: GAgent_Timer.simps)
qed simp

lemma create_first: "GAgent_CreateTimer 1 ms f GAgent_TimerInit =
    (0, no_timer\<lparr>tmr_flag := 1, nextSeconds := int (unat ((ms + 900) div 1000)), initSecods := int (unat ((ms + 900) div 1000)), pfFunc := Some f\<rparr>
      # replicate 31 no_timer)"
proof -
  have e: "GAgent_TimerInit = no_timer # replicate 31 no_timer" unfolding GAgent_TimerInit_def by (simp flip: replicate_Suc)
  show ?thesis unfolding GAgent_CreateTimer_def Let_def e by (simp add: no_timer_def)
qed

text \<open>How often a periodic timer fires: one of \<open>ms\<close> milliseconds in an empty table is called once in every
  \<open>(ms + 900) div 1000\<close> seconds, so a period counts as one second from 100 milliseconds on; one of less
  than 100 milliseconds is never called.\<close>

theorem periodic_timer_rate:
  assumes "unat ms + 900 < 4294967296"
  shows "\<exists>tab'. GAgent_TimerRun (\<lambda>f s. s @ [f]) (int n) (snd (GAgent_CreateTimer 1 ms f GAgent_TimerInit)) [] =
    Some (0, tab', if 100 \<le> unat ms then replicate (n div ((unat ms + 900) div 1000)) f else [])"
proof -
  let ?t = "no_timer\<lparr>tmr_flag := 1, nextSeconds := int (unat ((ms + 900) div 1000)), initSecods := int (unat ((ms + 900) div 1000)), pfFunc := Some f\<rparr>"
  have u: "unat ((ms + 900) div 1000) = (unat ms + 900) div 1000"
    using assms by (simp add: unat_div unat_word_ariths)
  have tab: "snd (GAgent_CreateTimer 1 ms f GAgent_TimerInit) = ?t # replicate 31 no_timer" by (simp only: create_first snd_conv)
  show ?thesis
  proof (cases "100 \<le> unat ms")
    case True
    then have pos: "1 \<le> (unat ms + 900) div 1000" by simp
    then have ok: "list_all timer_ok (?t # replicate 31 no_timer)" unfolding u by (simp add: timer_ok_def no_timer_def list_all_iff)
    have m: "map abs_timer (?t # replicate 31 no_timer) = Every ((unat ms + 900) div 1000) ((unat ms + 900) div 1000) f # replicate 31 Off"
      unfolding u by (simp add: no_timer_def abs_timer_def)
    have log: "fold (\<lambda>f s. s @ [f]) xs ys = ys @ xs" for xs ys :: "'a list" by (induction xs arbitrary: ys) simp_all
    have "(n + (unat ms + 900) div 1000 - (unat ms + 900) div 1000) div ((unat ms + 900) div 1000) = n div ((unat ms + 900) div 1000)" by simp
    then have "fst (seconds_calls n (map abs_timer (?t # replicate 31 no_timer))) = replicate (n div ((unat ms + 900) div 1000)) f"
      unfolding m using periodic_calls[OF pos order_refl, of n f 31] by simp
    then obtain tab' where "timer_run (\<lambda>f s. s @ [f]) n (?t # replicate 31 no_timer) [] =
        Some (tab', replicate (n div ((unat ms + 900) div 1000)) f)"
      using timer_run_refines[OF ok, of "\<lambda>f s. s @ [f]" n "[]"] unfolding log by (auto simp only: append_Nil)
    then show ?thesis using True by (simp add: tab GAgent_TimerRun_def del: timer_run.simps)
  next
    case False
    then have "(unat ms + 900) div 1000 = 0" by simp
    then have "nextSeconds ?t \<le> 0" "tmr_flag ?t = 1" unfolding u by simp_all
    then obtain tab' where "timer_run (\<lambda>f s. s @ [f]) n (?t # replicate 31 no_timer) [] = Some (tab', [])"
      using stopped_run[of ?t "\<lambda>f s. s @ [f]" n 31 "[]"] by blast
    then show ?thesis using False by (simp add: tab GAgent_TimerRun_def del: timer_run.simps)
  qed
qed

theorem periodic_timer_rate_witness:
  "\<exists>tab'. GAgent_TimerRun (\<lambda>f s. s @ [f]) (int 60) (snd (GAgent_CreateTimer 1 5000 () GAgent_TimerInit)) [] =
    Some (0, tab', if 100 \<le> unat (5000 :: u32) then replicate (60 div ((unat (5000 :: u32) + 900) div 1000)) () else [])"
  by (rule periodic_timer_rate) simp

section \<open>The timers of the program\<close>

text \<open>\<open>Init_Service\<close> and \<open>GAgent_Init\<close> create the two timers; the callbacks work on the client's state and
  append what they send.\<close>

datatype timer_fn = Socket_ClientTimeoutTimer_fn | GAgent_Cloud_Timer_fn

fun program_call :: "env \<Rightarrow> timer_fn \<Rightarrow> cloud \<times> effect list \<Rightarrow> cloud \<times> effect list" where
  "program_call e Socket_ClientTimeoutTimer_fn (c, eff) =
     (let (g, more) = Socket_ClientTimeoutTimer (gwst c) in (c\<lparr>gwst := g\<rparr>, eff @ more))"
| "program_call e GAgent_Cloud_Timer_fn (c, eff) = (let (c, more) = GAgent_Cloud_Timer e c in (c, eff @ more))"

definition program_timers :: "timer_fn CORE_GAGENT_TIMER_S list" where
  "program_timers = snd (GAgent_CreateTimer GAGENT_TIMER_PERIOD 1000 GAgent_Cloud_Timer_fn
     (snd (GAgent_CreateTimer GAGENT_TIMER_PERIOD 1000 Socket_ClientTimeoutTimer_fn GAgent_TimerInit)))"

lemma program_timers_eq: "program_timers =
    no_timer\<lparr>tmr_flag := 1, nextSeconds := 1, initSecods := 1, pfFunc := Some Socket_ClientTimeoutTimer_fn\<rparr>
    # no_timer\<lparr>tmr_flag := 1, nextSeconds := 1, initSecods := 1, pfFunc := Some GAgent_Cloud_Timer_fn\<rparr> # replicate 30 no_timer"
proof -
  have e: "GAgent_TimerInit = no_timer # no_timer # replicate 30 no_timer" unfolding GAgent_TimerInit_def by (simp flip: replicate_Suc)
  show ?thesis unfolding program_timers_def GAgent_CreateTimer_def Let_def e by (simp add: no_timer_def)
qed

lemma program_calls:
  "fst (seconds_calls n (map abs_timer program_timers)) = concat (replicate n [Socket_ClientTimeoutTimer_fn, GAgent_Cloud_Timer_fn])"
proof -
  have m: "map abs_timer program_timers = Every 1 1 Socket_ClientTimeoutTimer_fn # Every 1 1 GAgent_Cloud_Timer_fn # replicate 30 Off"
    unfolding program_timers_eq by (simp add: abs_timer_def no_timer_def)
  have off: "concat (map (fst \<circ> second) (replicate k Off)) = []" "map (snd \<circ> second) (replicate k Off) = replicate k Off" for k
    by (induction k) simp_all
  show ?thesis unfolding m
    by (induction n) (simp_all add: case_prod_beta Let_def off del: map_replicate)
qed

text \<open>The clients' table and the login table are all that the first callback changes, and the second one
  neither reads nor changes them.\<close>

definition with_clients :: "gw \<Rightarrow> cloud \<Rightarrow> cloud" where
  "with_clients g c = with_gw (\<lambda>h. h\<lparr>g_stTCPSocketClients := g_stTCPSocketClients g, g_SocketLogin := g_SocketLogin g\<rparr>) c"

lemma hb_frame: "GAgent_Cloud_Timer e (with_clients g c) = (with_clients g (fst (GAgent_Cloud_Timer e c)), snd (GAgent_Cloud_Timer e c))"
  by (simp add: GAgent_Cloud_Timer_def Cloud_Mqtt_HB_Timer_def with_clients_def with_gw_def broker_fd_def Let_def set_broker_fd_def
      Cloud_HB_Status_init_def)

lemma tick_frame: "fst (Socket_ClientTimeoutTimer (gwst (with_clients g c))) = gwst (with_clients (tick g) c)"
  by (simp add: Socket_ClientTimeoutTimer_def with_clients_def with_gw_def tick_def case_prod_beta)

lemma with_clients_again [simp]: "(with_clients g c)\<lparr>gwst := gwst (with_clients h c)\<rparr> = with_clients h c"
  by (simp add: with_clients_def with_gw_def)

lemma with_clients_self: "with_clients (gwst c) c = c"
  by (simp add: with_clients_def with_gw_def)

lemma program_second:
  "\<exists>eff'. program_call e GAgent_Cloud_Timer_fn (program_call e Socket_ClientTimeoutTimer_fn (with_clients g c, eff)) =
     (with_clients (tick g) (fst (GAgent_Cloud_Timer e c)), eff')"
  using tick_frame[of g c] by (simp add: case_prod_beta hb_frame)

lemma program_seconds:
  "\<exists>eff. fold (program_call e) (concat (replicate n [Socket_ClientTimeoutTimer_fn, GAgent_Cloud_Timer_fn])) (c, []) =
     (with_clients ((tick ^^ n) (gwst c)) (fst (hb_ticks e n c)), eff)"
proof (induction n)
  case 0
  then show ?case by (simp add: with_clients_self)
next
  case (Suc n)
  have r: "replicate (Suc n) [Socket_ClientTimeoutTimer_fn, GAgent_Cloud_Timer_fn] =
      replicate n [Socket_ClientTimeoutTimer_fn, GAgent_Cloud_Timer_fn] @ [[Socket_ClientTimeoutTimer_fn, GAgent_Cloud_Timer_fn]]"
    by (simp flip: replicate_append_same)
  obtain eff where "fold (program_call e) (concat (replicate n [Socket_ClientTimeoutTimer_fn, GAgent_Cloud_Timer_fn])) (c, []) =
     (with_clients ((tick ^^ n) (gwst c)) (fst (hb_ticks e n c)), eff)" using Suc by blast
  then show ?case
    unfolding r concat_append fold_append using program_second[of e "(tick ^^ n) (gwst c)" "fst (hb_ticks e n c)" eff]
    by (simp add: case_prod_beta Let_def del: replicate.simps)
qed

lemma expiring_mono: "expiring m c \<Longrightarrow> m \<le> n \<Longrightarrow> expiring n c"
  by (auto simp: expiring_def)

lemma program_timers_stay: "timer_run call n program_timers s = Some (tab, s') \<Longrightarrow> tab = program_timers"
proof (induction n arbitrary: s)
  case (Suc n)
  have off: "GAgent_Timer call (replicate k no_timer) s = Some (replicate k no_timer, s)" for k s by (induction k) (simp_all add: no_timer_def)
  have "GAgent_Timer call program_timers s =
      Some (program_timers, call GAgent_Cloud_Timer_fn (call Socket_ClientTimeoutTimer_fn s))"
    unfolding program_timers_eq by (simp add: off Let_def)
  then show ?case using Suc by simp
qed simp

text \<open>C15 Silence on both sides. If for 120 seconds after a packet of the broker neither the broker nor any phone, whose
  time-outs are at most the twelve that a message sets, sends anything, then whatever number of these seconds is
  counted before each pass of the main loop, the session is given up and every phone is
  disconnected in the end: the interrupt, the timer table, the heart beat and the client timeouts together. The table
  is then again as it was.\<close>

theorem two_silent_minutes:
  assumes "0 \<le> broker_fd c" and "pingTime c = 0" and "loseTime c = 0" and "list_all (expiring 12) (g_stTCPSocketClients (gwst c))"
    and "sum_list bunches = 120"
  shows "\<exists>c' eff. timer_bunches (program_call e) bunches (0, program_timers, c, []) = Some (0, program_timers, c', eff) \<and>
    broker_fd c' = -1 \<and> g_ConCloud_Status c' = CONCLOUD_REQ_LOGIN \<and>
    list_all (\<lambda>s. SocketFD s = -1) (g_stTCPSocketClients (gwst c'))"
proof -
  have ok: "list_all timer_ok program_timers" unfolding program_timers_eq by (simp add: timer_ok_def no_timer_def list_all_iff)
  let ?c = "with_clients ((tick ^^ 120) (gwst c)) (fst (hb_ticks e 120 c))"
  obtain tab where t: "timer_run (program_call e) 120 program_timers (c, []) = Some (tab, fold (program_call e)
      (fst (seconds_calls 120 (map abs_timer program_timers))) (c, []))"
    using timer_run_refines[OF ok, of "program_call e" 120 "(c, [])"] by blast
  moreover obtain eff where "fold (program_call e) (fst (seconds_calls 120 (map abs_timer program_timers))) (c, []) = (?c, eff)"
    unfolding program_calls using program_seconds[of e 120 c] by blast
  ultimately have run: "timer_bunches (program_call e) bunches (0, program_timers, c, []) = Some (0, program_timers, ?c, eff)"
    unfolding timer_bunches_run assms(5) using program_timers_stay[OF t] by (simp del: timer_run.simps)
  have "list_all (expiring 120) (g_stTCPSocketClients (gwst c))"
    using assms(4) expiring_mono[of 12 _ 120] by (auto simp: list_all_iff)
  then have closed: "list_all (\<lambda>s. SocketFD s = -1) (g_stTCPSocketClients ((tick ^^ 120) (gwst c)))" by (rule ticks_expire)
  have "broker_fd ?c = -1" "g_ConCloud_Status ?c = CONCLOUD_REQ_LOGIN" "g_stTCPSocketClients (gwst ?c) = g_stTCPSocketClients ((tick ^^ 120) (gwst c))"
    unfolding hb_dead[OF assms(1-3)] by (simp_all add: with_clients_def with_gw_def broker_fd_def set_broker_fd_def Cloud_HB_Status_init_def)
  then show ?thesis using run closed by auto
qed

theorem two_silent_minutes_witness:
  "\<exists>c' eff. timer_bunches (program_call env0) (replicate 50 1 @ [70]) (0, program_timers, with_gw (\<lambda>g. g\<lparr>g_stTCPSocketClients := [client5]\<rparr>) cloud1, []) =
      Some (0, program_timers, c', eff) \<and>
    broker_fd c' = -1 \<and> g_ConCloud_Status c' = CONCLOUD_REQ_LOGIN \<and>
    list_all (\<lambda>s. SocketFD s = -1) (g_stTCPSocketClients (gwst c'))"
  by (rule two_silent_minutes)
    (simp_all add: with_gw_def cloud1_def cloud0_def broker_fd_def broker0_def client5_def expiring_def sum_list_replicate)

end
