(* ===== verification/BootMode.thy ===== *)
theory BootMode
  imports CoreTimers Coding
begin

text \<open>
  From power-up to a network (App/GizWitsWifi/system/xpgmain.c, wifi/Wifi_mode.c, wifi/directconfig.c, the
  buttons of system/nl6621_drv.c): the configuration is read, the device joins the stored network, or is an
  access point, or waits for a direct configuration. The events of the WLAN library, the levels of the
  button and the results of \<open>sendto\<close> are arguments. A chip reset ends a run: it is a value of the result.
\<close>

section \<open>State\<close>

record boot =
  bc :: cloud
  flash_cfg :: GAgent_CONFIG_S
  wifi_sta_connect_ap_flag :: u8
  TestDirectCfgFlag :: int
  pLinkUpSem :: nat
  pSoftApSem :: nat
  system_reset_flag :: u32
  g_stCoreGAgentTimer :: "timer_fn CORE_GAGENT_TIMER_S list"

text \<open>How far a function came: to its end, to a wait that nothing ended yet, or to a reset of the chip.\<close>

datatype run_end = Returned | Waiting | ChipReset

abbreviation (input) "SYS_STATUS_WIFI_STOP \<equiv> (0 :: u8)"
abbreviation (input) "SYS_STATUS_WIFI_SOFTAP \<equiv> (1 :: u8)"
abbreviation (input) "SYS_STATUS_WIFI_DIRECTCONFING \<equiv> (2 :: u8)"
abbreviation (input) "SYS_STATUS_WIFI_STA_CONNECTED \<equiv> (3 :: u8)"
abbreviation (input) "SYS_STATUS_ONBOARDING_SUCCESS \<equiv> (1 :: u8)"
abbreviation (input) "SYS_STATUS_ONBOARDING_FAILED \<equiv> (0 :: u8)"
abbreviation (input) "XPG_CFG_FLAG_CONNECTED \<equiv> (1 :: u32)"
abbreviation (input) "WIFI_MODE_AP \<equiv> (1 :: u16)"
abbreviation (input) "GAGENT_MAGIC_NUMBER \<equiv> (0x12345678 :: u32)"

definition with_cloud :: "(cloud \<Rightarrow> cloud) \<Rightarrow> boot \<Rightarrow> boot" where
  "with_cloud f b = b\<lparr>bc := f (bc b)\<rparr>"

definition set_status :: "u8 \<Rightarrow> boot \<Rightarrow> boot" where
  "set_status v = with_cloud (with_gw (\<lambda>g. g\<lparr>sys_wifi_status := v\<rparr>))"

definition conf :: "boot \<Rightarrow> GAgent_CONFIG_S" where
  "conf b = g_stGAgentConfigData (gwst (bc b))"

definition set_conf :: "GAgent_CONFIG_S \<Rightarrow> boot \<Rightarrow> boot" where
  "set_conf d = with_cloud (with_gw (\<lambda>g. g\<lparr>g_stGAgentConfigData := d\<rparr>))"

text \<open>Storing and reading the configuration: \<open>flash_cfg\<close> is what a later read gives back.\<close>

definition GetConfigData :: "boot \<Rightarrow> boot" where
  "GetConfigData b = set_conf (flash_cfg b) b"

definition SaveConfigData :: "boot \<Rightarrow> boot \<times> effect list" where
  "SaveConfigData b = (b\<lparr>flash_cfg := conf b\<rparr>, [SaveConfig (conf b)])"

section \<open>Events of the WLAN library\<close>

text \<open>A reset inside the event handler ends the run as well.\<close>

definition AppEvtCallBack :: "SYS_EVT_ID \<Rightarrow> boot \<Rightarrow> run_end \<times> boot \<times> effect list" where
  "AppEvtCallBack event b = (case event of
     SYS_EVT_LINK_UP \<Rightarrow>
       let b = b\<lparr>wifi_sta_connect_ap_flag := 0\<rparr>;
           (b, eff) = (if sys_onboarding (gwst (bc b)) = SYS_STATUS_ONBOARDING_SUCCESS
             then let (b, eff) = SaveConfigData b in (b\<lparr>pSoftApSem := pSoftApSem b + 1\<rparr>, eff)
             else (b, []))
       in (Returned, b\<lparr>pLinkUpSem := pLinkUpSem b + 1, TestDirectCfgFlag := 1\<rparr>, eff)
   | SYS_EVT_JOIN_FAIL \<Rightarrow>
       let b = b\<lparr>wifi_sta_connect_ap_flag := 1\<rparr>;
           b = (if sys_wifi_status (gwst (bc b)) = SYS_STATUS_WIFI_DIRECTCONFING then b\<lparr>TestDirectCfgFlag := 2\<rparr> else b)
       in if sys_wifi_status (gwst (bc b)) = SYS_STATUS_WIFI_SOFTAP then (ChipReset, b, [ResetSystem])
          else (Returned, b\<lparr>pLinkUpSem := pLinkUpSem b + 1\<rparr>, [])
   | SYS_EVT_DIRECT_CFG_DONE \<Rightarrow> (Returned, b\<lparr>TestDirectCfgFlag := 1\<rparr>, [])
   | _ \<Rightarrow> (Returned, b, []))"

text \<open>Events while no task of the program runs.\<close>

fun run_events :: "SYS_EVT_ID list \<Rightarrow> boot \<Rightarrow> run_end \<times> boot \<times> effect list" where
  "run_events [] b = (Returned, b, [])"
| "run_events (e # es) b =
     (let (r, b, eff) = AppEvtCallBack e b
      in if r = ChipReset then (r, b, eff) else let (r, b, eff2) = run_events es b in (r, b, eff @ eff2))"

text \<open>
  A task that waits for a condition which only events change. It looks now and then: between two looks
  there is a group of events, and the groups not used are left.
\<close>

fun wait_for :: "(boot \<Rightarrow> bool) \<Rightarrow> SYS_EVT_ID list list \<Rightarrow> boot \<Rightarrow> run_end \<times> boot \<times> effect list \<times> SYS_EVT_ID list list" where
  "wait_for P [] b = (if P b then Returned else Waiting, b, [], [])"
| "wait_for P (es # ess) b =
     (if P b then (Returned, b, [], es # ess)
      else let (r, b, eff) = run_events es b
        in if r = ChipReset then (ChipReset, b, eff, ess)
           else let (r, b, eff2, ess) = wait_for P ess b in (r, b, eff @ eff2, ess))"

text \<open>\<open>OSSemPend(pLinkUpSem, 0, ...)\<close>: wait for a count and take it.\<close>

definition pend_link :: "SYS_EVT_ID list list \<Rightarrow> boot \<Rightarrow> run_end \<times> boot \<times> effect list \<times> SYS_EVT_ID list list" where
  "pend_link es b =
     (let (r, b, eff, es) = wait_for (\<lambda>b. 0 < pLinkUpSem b) es b
      in (r, if r = Returned then b\<lparr>pLinkUpSem := pLinkUpSem b - 1\<rparr> else b, eff, es))"

definition init_system_task :: "boot \<Rightarrow> boot" where
  "init_system_task b = b\<lparr>pLinkUpSem := 0, pSoftApSem := 0\<rparr>"

section \<open>Station and access point\<close>

definition DRV_WiFi_StationCustomModeStart ::
  "SYS_EVT_ID list list \<Rightarrow> boot \<Rightarrow> run_end \<times> boot \<times> effect list \<times> SYS_EVT_ID list list" where
  "DRV_WiFi_StationCustomModeStart es b =
     (let (r, b', eff, es) = pend_link es b in (r, b', StationStart (wifi_ssid (conf b)) (wifi_key (conf b)) # eff, es))"

definition start_softap :: "boot \<Rightarrow> boot \<times> effect list" where
  "start_softap b = (with_cloud (\<lambda>c. c\<lparr>wifiStatus := WIFI_MODE_AP\<rparr>) b, [SoftApStart])"

definition GAgent_WiFiStatusCheckTimer :: "boot \<Rightarrow> boot \<times> effect list" where
  "GAgent_WiFiStatusCheckTimer b =
     (let w = wifiStatus (bc b)
      in if w AND WIFI_MODE_STATION = WIFI_MODE_STATION \<and> w AND WIFI_STATION_STATUS \<noteq> WIFI_STATION_STATUS then start_softap b else (b, []))"

definition station_mode :: "boot \<Rightarrow> boot" where
  "station_mode = with_cloud (\<lambda>c. c\<lparr>wifiStatus := wifiStatus c OR WIFI_STATION_STATUS OR WIFI_MODE_STATION\<rparr>)"

definition Connect2LateWiFi :: "SYS_EVT_ID list list \<Rightarrow> boot \<Rightarrow> run_end \<times> boot \<times> effect list" where
  "Connect2LateWiFi es b =
     (if cfg_flag (conf b) AND XPG_CFG_FLAG_CONNECTED = XPG_CFG_FLAG_CONNECTED
      then let (r, b, eff, _) = DRV_WiFi_StationCustomModeStart es (station_mode b) in (r, b, eff)
      else let (b, eff) = start_softap b in (Returned, b, eff))"

section \<open>Direct configuration\<close>

text \<open>
  The packet that tells the phone who was configured: three strings printed into an array of 80 bytes. A
  string starts where its predecessor's terminator may be.
\<close>

definition print_at :: "bytes \<Rightarrow> nat \<Rightarrow> bytes \<Rightarrow> bytes option" where
  "print_at buf off str = do { s \<leftarrow> cstr str; wr_seg buf off (s @ [0]) }"

definition softap_packet :: "cloud \<Rightarrow> bytes option" where
  "softap_packet c = do {
     b \<leftarrow> wr (zeros 80) 3 0x03;
     b \<leftarrow> wr b 4 0x33;
     b \<leftarrow> wr b 5 0x00;
     b \<leftarrow> wr b 7 0x19;
     b \<leftarrow> wr b 9 0x0c;
     b \<leftarrow> print_at b 10 (a_mac c);
     b \<leftarrow> wr b 23 0x20;
     b \<leftarrow> print_at b 24 (product_key (gwst c));
     b \<leftarrow> wr b 57 0x16;
     print_at b 58 (DID (gwst c))
   }"

text \<open>The loop over \<open>sendto\<close>: failures are repeated at once, after eleven successes it ends.\<close>

fun broadcast_loop :: "effect \<Rightarrow> nat \<Rightarrow> int list \<Rightarrow> bool \<times> effect list" where
  "broadcast_loop out n [] = (False, [])"
| "broadcast_loop out n (ret # rets) =
     (if ret < 0 then broadcast_loop out n rets
      else if n = 10 then (True, [out])
      else let (d, eff) = broadcast_loop out (n + 1) rets in (d, out # eff))"

definition RespondSoftAPBroadcast :: "int \<Rightarrow> bool \<Rightarrow> int list \<Rightarrow> boot \<Rightarrow> (run_end \<times> boot \<times> effect list) option" where
  "RespondSoftAPBroadcast udp_sock setopt rets b = do {
     sendbuf \<leftarrow> softap_packet (bc b);
     (if udp_sock = -1 then Some (Returned, b, [])
      else if \<not> setopt then Some (Returned, b, [CloseFd udp_sock])
      else
        let (d, eff) = broadcast_loop (SendTo udp_sock (0xFFFFFFFF, 2415) sendbuf) 0 rets
        in if d then Some (Returned, with_cloud (with_gw (\<lambda>g. g\<lparr>sys_onboarding := SYS_STATUS_ONBOARDING_FAILED\<rparr>)) b, eff @ [CloseFd udp_sock])
           else Some (Waiting, b, eff))
   }"

text \<open>\<open>RespondUdpBroadcast\<close>, the older answer: 31 successes.\<close>

fun respond_loop :: "effect \<Rightarrow> nat \<Rightarrow> int list \<Rightarrow> bool \<times> effect list" where
  "respond_loop out n [] = (False, [])"
| "respond_loop out n (ret # rets) =
     (if ret < 0 then respond_loop out n rets
      else if n < 3 * 10 then let (d, eff) = respond_loop out (n + 1) rets in (d, out # eff)
      else (True, [out]))"

definition RespondUdpBroadcast :: "int \<Rightarrow> bool \<Rightarrow> int list \<Rightarrow> run_end \<times> effect list" where
  "RespondUdpBroadcast udp_sock setopt rets =
     (let sendbuf = (zeros 24)[0 := 0x18, 8 := 0x06, 10 := 0x01]
      in if udp_sock = -1 then (Returned, [])
         else if \<not> setopt then (Returned, [CloseFd udp_sock])
         else let (d, eff) = respond_loop (SendTo udp_sock (0xFFFFFFFF, 60002) sendbuf) 0 rets
           in if d then (Returned, eff @ [CloseFd udp_sock]) else (Waiting, eff))"

text \<open>
  \<open>TestDirectConfig\<close>: \<open>ssid\<close> and \<open>psk\<close> are the parameters as the library leaves them after a direct
  configuration. A failed join resets the chip.
\<close>

definition TestDirectConfig ::
  "bytes \<Rightarrow> bytes \<Rightarrow> int \<Rightarrow> bool \<Rightarrow> int list \<Rightarrow> SYS_EVT_ID list list \<Rightarrow> boot \<Rightarrow> (run_end \<times> boot \<times> effect list) option" where
  "TestDirectConfig ssid psk udp_sock setopt rets es b =
     (let (r, b, eff1, es) = wait_for (\<lambda>b. TestDirectCfgFlag b = 1) es b; eff1 = DirectCfgStart # eff1
      in if r \<noteq> Returned then Some (r, b, eff1)
         else
           let (r, b, eff2, es) = wait_for (\<lambda>b. TestDirectCfgFlag b \<noteq> 0) es (b\<lparr>TestDirectCfgFlag := 0\<rparr>);
               eff2 = eff1 @ WiFiStart # eff2
           in if r \<noteq> Returned then Some (r, b, eff2)
              else if TestDirectCfgFlag b = 2 then Some (ChipReset, b, eff2 @ [ResetSystem])
              else do {
                let b = b\<lparr>TestDirectCfgFlag := 0\<rparr>;
                (g, eff3) \<leftarrow> GAgent_SaveSSIDAndKey ssid psk (gwst (bc b));
                let b = with_cloud (with_gw (\<lambda>_. g)) b;
                let b = b\<lparr>flash_cfg := conf b\<rparr>;
                (r, b, eff4) \<leftarrow> RespondSoftAPBroadcast udp_sock setopt rets b;
                Some (r, b, eff2 @ eff3 @ eff4)
              })"

section \<open>The network after power-up\<close>

text \<open>What the world does while \<open>GAgent_SetDevNetWork\<close> runs; \<open>button i\<close> is the \<open>i\<close>th level read.\<close>

record world =
  button :: "nat \<Rightarrow> u8"
  w_events :: "SYS_EVT_ID list list"
  w_ssid :: bytes
  w_psk :: bytes
  w_socket :: int
  w_setopt :: bool
  w_rets :: "int list"

definition by_direct_config :: "world \<Rightarrow> boot \<Rightarrow> (run_end \<times> boot \<times> effect list) option" where
  "by_direct_config w b = do {
     (r, b, eff) \<leftarrow> TestDirectConfig (w_ssid w) (w_psk w) (w_socket w) (w_setopt w) (w_rets w) (w_events w)
       (set_status SYS_STATUS_WIFI_DIRECTCONFING b);
     (if r \<noteq> Returned then Some (r, b, eff)
      else
        let (b, eff2) = SaveConfigData (set_conf ((conf b)\<lparr>cfg_flag := cfg_flag (conf b) OR XPG_CFG_FLAG_CONNECTED\<rparr>) b)
        in Some (Returned, set_status SYS_STATUS_WIFI_STA_CONNECTED (station_mode b), eff @ eff2))
   }"

definition by_stored_config :: "world \<Rightarrow> boot \<Rightarrow> run_end \<times> boot \<times> effect list" where
  "by_stored_config w b =
     (let b = GetConfigData b;
          softap = (\<lambda>b. let (b, eff) = start_softap b in (set_status SYS_STATUS_WIFI_SOFTAP b, eff))
      in if cfg_flag (conf b) AND XPG_CFG_FLAG_CONNECTED = XPG_CFG_FLAG_CONNECTED
         then
           let (r, b, eff, _) = DRV_WiFi_StationCustomModeStart (w_events w) (station_mode (set_status SYS_STATUS_WIFI_DIRECTCONFING b))
           in if r \<noteq> Returned then (r, b, eff)
              else if wifi_sta_connect_ap_flag b \<noteq> 0 then let (b, eff2) = softap b in (Returned, b, eff @ eff2)
              else (Returned, set_status SYS_STATUS_WIFI_STA_CONNECTED b, eff)
         else let (b, eff) = softap b in (Returned, b, eff))"

definition GAgent_SetDevNetWork :: "world \<Rightarrow> boot \<Rightarrow> (run_end \<times> boot \<times> effect list) option" where
  "GAgent_SetDevNetWork w b =
     (if button w 0 = 0 \<and> button w 1 = 0 then by_direct_config w b else Some (by_stored_config w b))"

section \<open>Initialisation\<close>

definition config_zero :: GAgent_CONFIG_S where
  "config_zero = \<lparr>magicNumber = 0, cfg_flag = 0, wifipasscode = zeros 16, wifi_ssid = zeros 32, wifi_key = zeros 32,
     FirmwareId = zeros 8, Cloud_DId = zeros 24, FirmwareVerLen = zeros 2, FirmwareVer = zeros 32\<rparr>"

text \<open>The first field of the broker, its socket, is cleared and set to -1.\<close>

definition GAgent_Global_Status_Init :: "bool \<Rightarrow> u32 \<Rightarrow> boot \<Rightarrow> boot" where
  "GAgent_Global_Status_Init created now = with_cloud (\<lambda>c.
     let g = (gwst c)\<lparr>device := device_init created (device (gwst c)), g_stGAgentConfigData := config_zero, DID := zeros 24,
           product_key := zeros 33, hard_ver := zeros 9, soft_ver := zeros 9, p0_ver := zeros 9, protocol_ver := zeros 9,
           g_stMQTTBroker := (g_stMQTTBroker (gwst c))\<lparr>mb_socketid := -1\<rparr>\<rparr>
     in Cloud_HB_Status_init (c\<lparr>gwst := g, connect2CloudLastTime := now, send2HttpLastTime := 0, m2m_SERVER := zeros 100,
          m2m_Port := 0, a_mac := zeros 16, http_socketid := 0, phoneClientId := zeros 32\<rparr>))"

definition reset_config :: "nat list \<Rightarrow> boot \<Rightarrow> (int \<times> boot \<times> effect list) option" where
  "reset_config draws b = do {
     let b = with_cloud (with_gw (\<lambda>g. g\<lparr>DIdLen := 0\<rparr>)) b;
     let c = (if cfg_flag (conf b) \<noteq> XPG_CFG_FLAG_CONNECTED then config_zero else conf b);
     pass \<leftarrow> make_rand draws (wifipasscode c);
     let (b, eff) = SaveConfigData (set_conf (c\<lparr>magicNumber := GAGENT_MAGIC_NUMBER, wifipasscode := pass\<rparr>) b);
     Some (1, b, eff)
   }"

definition GAgent_Config_Status_Init :: "nat list \<Rightarrow> boot \<Rightarrow> (int \<times> boot \<times> effect list) option" where
  "GAgent_Config_Status_Init draws b = do {
     let b = GetConfigData b;
     (if magicNumber (conf b) = GAGENT_MAGIC_NUMBER
      then do {
        did \<leftarrow> cstr (Cloud_DId (conf b));
        let b = with_cloud (with_gw (\<lambda>g. g\<lparr>DIdLen := length did\<rparr>)) b;
        (if length did = 22
         then do {
           d \<leftarrow> wr_seg (DID (gwst (bc b))) 0 (did @ [0]);
           Some (0, with_cloud (with_gw (\<lambda>g. g\<lparr>DID := d\<rparr>)) b, [])
         }
         else reset_config draws b)
      }
      else reset_config draws b)
   }"

text \<open>\<open>mac\<close> is the permanent address of the radio. First the state of the program, then the network.\<close>

definition init_state :: "bool \<Rightarrow> u32 \<Rightarrow> bytes \<Rightarrow> nat list \<Rightarrow> boot \<Rightarrow> (boot \<times> effect list) option" where
  "init_state created now mac draws b = do {
     let b = GAgent_Global_Status_Init created now (with_cloud InitDomainSem b);
     m \<leftarrow> rd_seg mac 0 6;
     a \<leftarrow> wr_seg (a_mac (bc b)) 0 (concat (map hex02 m) @ [0]);
     let b = with_cloud (\<lambda>c. with_gw (\<lambda>g. GAgent_GetMCUInfo (g\<lparr>Service_mac := m\<rparr>)) (c\<lparr>a_mac := a[12 := 0]\<rparr>)) b;
     (r, b, eff) \<leftarrow> GAgent_Config_Status_Init draws b;
     let b = with_cloud (\<lambda>c. c\<lparr>g_ConCloud_Status := if r = 0 then CONCLOUD_REQ_M2MINFO else CONCLOUD_REQ_DID\<rparr>) b;
     let b = with_cloud (with_gw Init_Service) b;
     Some (b\<lparr>g_stCoreGAgentTimer := snd (GAgent_CreateTimer GAGENT_TIMER_PERIOD 1000 Socket_ClientTimeoutTimer_fn (g_stCoreGAgentTimer b))\<rparr>, eff)
   }"

definition GAgent_Init :: "bool \<Rightarrow> u32 \<Rightarrow> bytes \<Rightarrow> nat list \<Rightarrow> world \<Rightarrow> boot \<Rightarrow> (run_end \<times> boot \<times> effect list) option" where
  "GAgent_Init created now mac draws w b = do {
     (b, eff1) \<leftarrow> init_state created now mac draws b;
     (e, b, eff2) \<leftarrow> GAgent_SetDevNetWork w b;
     Some (e, if e = Returned
       then b\<lparr>g_stCoreGAgentTimer := snd (GAgent_CreateTimer GAGENT_TIMER_PERIOD 1000 GAgent_Cloud_Timer_fn (g_stCoreGAgentTimer b))\<rparr>
       else b, eff1 @ eff2)
   }"

section \<open>The buttons and the announcing task\<close>

text \<open>\<open>UdpBCTThread\<close>: one round, which ends with a reset.\<close>

definition UdpBCTThread :: "int \<Rightarrow> bool \<Rightarrow> int list \<Rightarrow> boot \<Rightarrow> (run_end \<times> boot \<times> effect list) option" where
  "UdpBCTThread udp_sock setopt rets b =
     (if pSoftApSem b = 0 then Some (Waiting, b, [])
      else do {
        (r, b, eff) \<leftarrow> RespondSoftAPBroadcast udp_sock setopt rets (b\<lparr>pSoftApSem := pSoftApSem b - 1\<rparr>);
        Some (if r = Returned then (ChipReset, b, eff @ [ResetSystem]) else (r, b, eff))
      })"

text \<open>\<open>gpio10_val\<close> and \<open>again\<close> are the two levels of the button, 50 ms apart.\<close>

definition check_socket :: "env \<Rightarrow> u8 \<Rightarrow> u8 \<Rightarrow> gw \<Rightarrow> (gw \<times> effect list) option" where
  "check_socket e gpio10_val again g =
     (if gpio10_val = 0 \<and> again = 0
      then do {
        let s = device g;
        let s = (if pins s STRIP_GPIO_NUM_ONE = 0
          then SETBIT 0 (BSP_GPIOSetValue USER_GPIO_IDX_LED 0 (BSP_GPIOSetValue STRIP_GPIO_NUM_ONE 1 s))
          else CLRBIT 0 (BSP_GPIOSetValue USER_GPIO_IDX_LED 1 (BSP_GPIOSetValue STRIP_GPIO_NUM_ONE 0 s)));
        (frame, g) \<leftarrow> ReportStatus REPORT_STATUS 0 (g\<lparr>device := s\<rparr>);
        (r, g, eff) \<leftarrow> MCU_SendPublishPacket e frame 20 g;
        Some (g, eff)
      }
      else Some (g, []))"

definition GAgent_System_reset :: "boot \<Rightarrow> boot" where
  "GAgent_System_reset b = b\<lparr>system_reset_flag := 0x12345678\<rparr>"

text \<open>The button is read up to eight times, half a second apart.\<close>

definition check_system_reset :: "(nat \<Rightarrow> u8) \<Rightarrow> boot \<Rightarrow> run_end \<times> boot \<times> effect list" where
  "check_system_reset gpio b =
     (if system_reset_flag b = 0x12345678 \<and> list_all (\<lambda>i. gpio i = 0) [0..<8]
      then let (b, eff) = SaveConfigData (set_conf ((conf b)\<lparr>wifi_ssid := zeros 32, wifi_key := zeros 32, cfg_flag := 0\<rparr>) b)
        in (ChipReset, b, eff @ [ResetSystem])
      else (Returned, b, []))"

section \<open>Onboarding\<close>

text \<open>
  \<open>Socket_DispatchUDPRecvData\<close> with the wait that is inside \<open>Udp_Onboarding\<close>: the configuration is
  changed, the station started, and only when a count of \<open>pLinkUpSem\<close> was taken the phone is answered and
  the onboarding marked. The events not used are left.
\<close>

definition dispatch_udp ::
  "bytes \<Rightarrow> u32 \<times> u16 \<Rightarrow> SYS_EVT_ID list list \<Rightarrow> boot \<Rightarrow> (run_end \<times> boot \<times> effect list \<times> SYS_EVT_ID list list) option" where
  "dispatch_udp pData addr es b = do {
     cmd \<leftarrow> rd pData 7;
     (if cmd = 0x01 \<and> sys_onboarding (gwst (bc b)) = SYS_STATUS_ONBOARDING_FAILED \<and> sys_wifi_status (gwst (bc b)) = SYS_STATUS_WIFI_SOFTAP
      then do {
        (g, eff) \<leftarrow> Udp_Onboarding pData (gwst (bc b));
        let (r, b, eff2, es) = pend_link es (with_cloud (with_gw (\<lambda>_. g)) b);
        (if r \<noteq> Returned then Some (r, b, eff @ eff2, es)
         else Some (Returned, with_cloud (with_gw (\<lambda>g. g\<lparr>sys_onboarding := SYS_STATUS_ONBOARDING_SUCCESS\<rparr>)) b,
           eff @ eff2 @ [SendTo (g_UDPServerFd (gwst (bc b))) addr [0x00, 0x00, 0x00, 0x03, 0x03, 0x00, 0x00, 0x02]], es))
      }
      else do {
        (r, g, eff) \<leftarrow> Socket_DispatchUDPRecvData pData addr (gwst (bc b));
        Some (Returned, with_cloud (with_gw (\<lambda>_. g)) b, eff, es)
      })
   }"

section \<open>The entry of the application\<close>

text \<open>\<open>ram\<close> is the memory after a reset of the chip; of it only what the flash holds matters.\<close>

definition entry_state :: "boot \<Rightarrow> boot" where
  "entry_state ram =
     (let b = set_status SYS_STATUS_WIFI_STOP (init_system_task ram);
          b = with_cloud (with_gw (\<lambda>g. g\<lparr>sys_onboarding := SYS_STATUS_ONBOARDING_FAILED\<rparr>)) b
      in b\<lparr>g_stCoreGAgentTimer := GAgent_TimerInit\<rparr>)"

definition nl6621_gizwits_entry ::
  "bool \<Rightarrow> u32 \<Rightarrow> bytes \<Rightarrow> nat list \<Rightarrow> world \<Rightarrow> boot \<Rightarrow> (run_end \<times> boot \<times> effect list) option" where
  "nl6621_gizwits_entry created now mac draws w ram = GAgent_Init created now mac draws w (entry_state ram)"

text \<open>One pass of the main loop: the timers, the socket's button, the reset button.\<close>

definition main_pass :: "env \<Rightarrow> int \<Rightarrow> u8 \<Rightarrow> u8 \<Rightarrow> (nat \<Rightarrow> u8) \<Rightarrow> boot \<Rightarrow> (run_end \<times> boot \<times> effect list) option" where
  "main_pass e ticks gpio10_val again gpio b = do {
     (t, tab, c, eff1) \<leftarrow> GAgent_TimerRun (program_call e) ticks (g_stCoreGAgentTimer b) (bc b, []);
     (g, eff2) \<leftarrow> check_socket e gpio10_val again (gwst c);
     let (r, b, eff3) = check_system_reset gpio (b\<lparr>bc := c\<lparr>gwst := g\<rparr>, g_stCoreGAgentTimer := tab\<rparr>);
     Some (r, b, eff1 @ eff2 @ eff3)
   }"


section \<open>What events do\<close>

lemmas boot_state_defs = with_cloud_def with_gw_def set_status_def conf_def set_conf_def GetConfigData_def SaveConfigData_def

definition decides :: "SYS_EVT_ID \<Rightarrow> bool" where
  "decides e \<longleftrightarrow> e = SYS_EVT_LINK_UP \<or> e = SYS_EVT_JOIN_FAIL"

text \<open>How a group of events leaves the link: nothing happened, or the last result.\<close>

definition link_result :: "SYS_EVT_ID list \<Rightarrow> bool option" where
  "link_result es = (if filter decides es = [] then None else Some (last (filter decides es) = SYS_EVT_LINK_UP))"

fun link_outcome :: "SYS_EVT_ID list list \<Rightarrow> bool option" where
  "link_outcome [] = None"
| "link_outcome (es # ess) = (case link_result es of None \<Rightarrow> link_outcome ess | Some r \<Rightarrow> Some r)"

lemma link_result_snoc: "link_result (es @ [e]) = (if decides e then Some (e = SYS_EVT_LINK_UP) else link_result es)"
  by (simp add: link_result_def)

lemma run_events_append:
  "run_events (es @ fs) b = (let (r, b, eff) = run_events es b
    in if r = ChipReset then (r, b, eff) else let (r, b, eff2) = run_events fs b in (r, b, eff @ eff2))"
  by (induction es arbitrary: b) (auto simp: Let_def split: prod.splits)

lemma callback_frame:
  assumes "AppEvtCallBack e b = (r, b', eff)"
  shows "bc b' = bc b" and "g_stCoreGAgentTimer b' = g_stCoreGAgentTimer b" and "system_reset_flag b' = system_reset_flag b"
  using assms by (auto simp: AppEvtCallBack_def SaveConfigData_def Let_def split: SYS_EVT_ID.splits if_splits)

lemma quiet_events:
  assumes "list_all (Not \<circ> decides) es"
  shows "\<exists>t. run_events es b = (Returned, b\<lparr>TestDirectCfgFlag := t\<rparr>, [])"
  using assms
proof (induction es arbitrary: b)
  case Nil
  show ?case by (rule exI[of _ "TestDirectCfgFlag b"]) simp
next
  case (Cons e es)
  then have e: "e \<noteq> SYS_EVT_LINK_UP" "e \<noteq> SYS_EVT_JOIN_FAIL" by (simp_all add: decides_def)
  then have "\<exists>t. AppEvtCallBack e b = (Returned, b\<lparr>TestDirectCfgFlag := t\<rparr>, [])"
    by (cases e) (auto simp: AppEvtCallBack_def intro: exI[of _ "TestDirectCfgFlag b"] exI[of _ 1])
  then obtain t where t: "AppEvtCallBack e b = (Returned, b\<lparr>TestDirectCfgFlag := t\<rparr>, [])" by blast
  obtain u where "run_events es (b\<lparr>TestDirectCfgFlag := t\<rparr>) = (Returned, b\<lparr>TestDirectCfgFlag := t\<rparr>\<lparr>TestDirectCfgFlag := u\<rparr>, [])"
    using Cons.IH[of "b\<lparr>TestDirectCfgFlag := t\<rparr>"] Cons.prems by auto
  with t show ?case by (intro exI[of _ u]) simp
qed

text \<open>Outside onboarding and outside the access point an event changes three variables only.\<close>

lemma link_events:
  assumes "sys_onboarding (gwst (bc b)) = 0" and "sys_wifi_status (gwst (bc b)) \<noteq> 1"
  shows "\<exists>t. run_events es b = (Returned, b\<lparr>TestDirectCfgFlag := t, pLinkUpSem := pLinkUpSem b + length (filter decides es),
    wifi_sta_connect_ap_flag := (case link_result es of None \<Rightarrow> wifi_sta_connect_ap_flag b | Some r \<Rightarrow> if r then 0 else 1)\<rparr>, [])"
proof (induction es rule: rev_induct)
  case Nil
  show ?case by (rule exI[of _ "TestDirectCfgFlag b"]) (simp add: link_result_def)
next
  case (snoc e es)
  then obtain t where t: "run_events es b = (Returned, b\<lparr>TestDirectCfgFlag := t, pLinkUpSem := pLinkUpSem b + length (filter decides es),
    wifi_sta_connect_ap_flag := (case link_result es of None \<Rightarrow> wifi_sta_connect_ap_flag b | Some r \<Rightarrow> if r then 0 else 1)\<rparr>, [])"
    (is "_ = (_, ?b, _)") by blast
  have s: "\<exists>u. AppEvtCallBack e ?b = (Returned, ?b\<lparr>TestDirectCfgFlag := u, pLinkUpSem := pLinkUpSem ?b + (if decides e then 1 else 0),
      wifi_sta_connect_ap_flag := (if e = SYS_EVT_LINK_UP then 0 else if e = SYS_EVT_JOIN_FAIL then 1 else wifi_sta_connect_ap_flag ?b)\<rparr>, [])"
    using assms by (cases e) (auto simp: AppEvtCallBack_def decides_def Let_def intro: exI[of _ t] exI[of _ 1] exI[of _ 2])
  then obtain u where "AppEvtCallBack e ?b = (Returned, ?b\<lparr>TestDirectCfgFlag := u, pLinkUpSem := pLinkUpSem ?b + (if decides e then 1 else 0),
      wifi_sta_connect_ap_flag := (if e = SYS_EVT_LINK_UP then 0 else if e = SYS_EVT_JOIN_FAIL then 1 else wifi_sta_connect_ap_flag ?b)\<rparr>, [])" by blast
  moreover have "decides e \<Longrightarrow> e \<noteq> SYS_EVT_LINK_UP \<Longrightarrow> e = SYS_EVT_JOIN_FAIL" by (simp add: decides_def)
  moreover have "\<not> decides e \<Longrightarrow> e \<noteq> SYS_EVT_LINK_UP \<and> e \<noteq> SYS_EVT_JOIN_FAIL" by (simp add: decides_def)
  ultimately show ?case
    by (intro exI[of _ u]) (cases "decides e"; cases "e = SYS_EVT_LINK_UP"; simp add: run_events_append t link_result_snoc)
qed

text \<open>A wait for the link with no count left.\<close>

lemma pend_exact:
  assumes "sys_onboarding (gwst (bc b)) = 0" and "sys_wifi_status (gwst (bc b)) \<noteq> 1" and "pLinkUpSem b = 0"
  shows "\<exists>t k f ess'. pend_link ess b = (if link_outcome ess = None then Waiting else Returned,
    b\<lparr>TestDirectCfgFlag := t, pLinkUpSem := k, wifi_sta_connect_ap_flag := f\<rparr>, [], ess') \<and>
    (case link_outcome ess of None \<Rightarrow> f = wifi_sta_connect_ap_flag b | Some r \<Rightarrow> f = (if r then 0 else 1))"
  using assms
proof (induction ess arbitrary: b)
  case Nil
  then show ?case by (intro exI[of _ "TestDirectCfgFlag b"] exI[of _ 0] exI[of _ "wifi_sta_connect_ap_flag b"]) (simp add: pend_link_def)
next
  case (Cons es ess)
  obtain t where t: "run_events es b = (Returned, b\<lparr>TestDirectCfgFlag := t, pLinkUpSem := pLinkUpSem b + length (filter decides es),
    wifi_sta_connect_ap_flag := (case link_result es of None \<Rightarrow> wifi_sta_connect_ap_flag b | Some r \<Rightarrow> if r then 0 else 1)\<rparr>, [])"
    using link_events[OF Cons.prems(1,2)] by blast
  show ?case
  proof (cases "link_result es")
    case None
    let ?b = "b\<lparr>TestDirectCfgFlag := t, pLinkUpSem := 0, wifi_sta_connect_ap_flag := wifi_sta_connect_ap_flag b\<rparr>"
    from None have "filter decides es = []" by (simp add: link_result_def split: if_splits)
    then have r: "run_events es b = (Returned, ?b, [])" using t None Cons.prems(3) by simp
    obtain u k f ess' where u: "pend_link ess ?b = (if link_outcome ess = None then Waiting else Returned,
      ?b\<lparr>TestDirectCfgFlag := u, pLinkUpSem := k, wifi_sta_connect_ap_flag := f\<rparr>, [], ess')"
      "case link_outcome ess of None \<Rightarrow> f = wifi_sta_connect_ap_flag ?b | Some r \<Rightarrow> f = (if r then 0 else 1)"
      using Cons.IH[of ?b] Cons.prems by auto
    have "pend_link (es # ess) b = pend_link ess ?b" using r Cons.prems(3) by (simp add: pend_link_def Let_def split: prod.splits)
    with u None show ?thesis by (intro exI[of _ u] exI[of _ k] exI[of _ f] exI[of _ ess']) (simp split: option.splits)
  next
    case (Some r)
    then have "0 < length (filter decides es)" by (simp add: link_result_def split: if_splits)
    then have "pend_link (es # ess) b = (Returned, b\<lparr>TestDirectCfgFlag := t, pLinkUpSem := length (filter decides es) - 1,
        wifi_sta_connect_ap_flag := if r then 0 else 1\<rparr>, [], ess)"
      using t Some Cons.prems(3) by (cases ess) (simp_all add: pend_link_def Let_def)
    with Some show ?thesis by auto
  qed
qed

lemma pend_count: "0 < pLinkUpSem b \<Longrightarrow> pend_link ess b = (Returned, b\<lparr>pLinkUpSem := pLinkUpSem b - 1\<rparr>, [], ess)"
  by (cases ess) (simp_all add: pend_link_def)


section \<open>What a start of the program finds\<close>

definition registered :: "GAgent_CONFIG_S \<Rightarrow> bool" where
  "registered f \<longleftrightarrow> magicNumber f = GAGENT_MAGIC_NUMBER \<and> map_option length (cstr (Cloud_DId f)) = Some 22"

definition config_ok :: "GAgent_CONFIG_S \<Rightarrow> bool" where
  "config_ok f \<longleftrightarrow> length (wifipasscode f) = 16 \<and> length (Cloud_DId f) = 24 \<and>
     (magicNumber f = GAGENT_MAGIC_NUMBER \<longrightarrow> 0 \<in> set (Cloud_DId f))"

definition kept :: "GAgent_CONFIG_S \<Rightarrow> bool" where
  "kept f \<longleftrightarrow> registered f \<or> cfg_flag f = XPG_CFG_FLAG_CONNECTED"

text \<open>The configuration that a start leaves: as stored, or with a new passcode, or blank with a passcode.\<close>

definition start_conf :: "bytes \<Rightarrow> GAgent_CONFIG_S \<Rightarrow> GAgent_CONFIG_S" where
  "start_conf pass f = (if registered f then f
     else (if kept f then f else config_zero)\<lparr>magicNumber := GAGENT_MAGIC_NUMBER, wifipasscode := pass\<rparr>)"

text \<open>What the device calls itself: the address of the radio, the product, the DID.\<close>

definition identity :: "boot \<Rightarrow> bytes option \<times> bytes \<times> bytes option" where
  "identity b = (cstr (a_mac (bc b)), product_key (gwst (bc b)), cstr (DID (gwst (bc b))))"

definition start_identity :: "bytes \<Rightarrow> GAgent_CONFIG_S \<Rightarrow> bytes option \<times> bytes \<times> bytes option" where
  "start_identity mac f = (Some (concat (map hex02 (take 6 mac))), ascii ''9877965c9cf04dff9a585e5f8d77dedb'' @ [0],
     if registered f then cstr (Cloud_DId f) else Some [])"

text \<open>\<open>b\<close> is started from the stored configuration \<open>f\<close>.\<close>

definition started :: "bytes \<Rightarrow> bytes \<Rightarrow> GAgent_CONFIG_S \<Rightarrow> boot \<Rightarrow> bool" where
  "started mac pass f b \<longleftrightarrow> conf b = start_conf pass f \<and> flash_cfg b = conf b \<and> pLinkUpSem b = 0 \<and> pSoftApSem b = 0 \<and>
     sys_onboarding (gwst (bc b)) = 0 \<and>
     g_ConCloud_Status (bc b) = (if registered f then CONCLOUD_REQ_M2MINFO else CONCLOUD_REQ_DID) \<and>
     identity b = start_identity mac f"

lemma hex_no_nul: "no_nul (concat (map hex02 xs))"
proof -
  have "list_all (\<lambda>n. 0 \<notin> set (hex02 (of_nat n))) [0..<256]" by code_simp
  then have "0 \<notin> set (hex02 (of_nat n))" if "n < 256" for n using that by (simp add: list_all_iff)
  from this[OF u8_less] have "0 \<notin> set (hex02 x)" for x by simp
  then show ?thesis by (simp add: no_nul_def)
qed

lemma make_rand_defined:
  assumes "length draws = 10" and "length a = 16"
  shows "\<exists>pass. make_rand draws a = Some pass \<and> length pass = 16"
  using assms by (simp add: make_rand_def wr_seg_def wr_def length_put)

lemma save_conf: "SaveConfigData (set_conf c b) = ((set_conf c b)\<lparr>flash_cfg := c\<rparr>, [SaveConfig c])"
  by (simp add: boot_state_defs)

lemma zeros_cstr: "0 < n \<Longrightarrow> cstr (zeros n) = Some []"
  by (cases n) (simp_all add: zeros_def cstr_def)

lemma global_init:
  "let b' = GAgent_Global_Status_Init created now b in flash_cfg b' = flash_cfg b \<and> pLinkUpSem b' = pLinkUpSem b \<and>
     pSoftApSem b' = pSoftApSem b \<and> TestDirectCfgFlag b' = TestDirectCfgFlag b \<and> sys_onboarding (gwst (bc b')) = sys_onboarding (gwst (bc b)) \<and>
     length (a_mac (bc b')) = 16 \<and> DID (gwst (bc b')) = zeros 24"
  by (simp add: GAgent_Global_Status_Init_def boot_state_defs Let_def Cloud_HB_Status_init_def zeros_def)

lemma config_init:
  assumes "config_ok (flash_cfg b)" and "length draws = 10" and "DID (gwst (bc b)) = zeros 24"
  shows "\<exists>pass b' eff. GAgent_Config_Status_Init draws b = Some (if registered (flash_cfg b) then 0 else 1, b', eff) \<and>
     length pass = 16 \<and> conf b' = start_conf pass (flash_cfg b) \<and> flash_cfg b' = conf b' \<and>
     eff = (if registered (flash_cfg b) then [] else [SaveConfig (conf b')]) \<and>
     bc b' = (bc b)\<lparr>gwst := (gwst (bc b))\<lparr>g_stGAgentConfigData := conf b', DIdLen := DIdLen (gwst (bc b')), DID := DID (gwst (bc b'))\<rparr>\<rparr> \<and>
     b' = b\<lparr>bc := bc b', flash_cfg := flash_cfg b'\<rparr> \<and>
     cstr (DID (gwst (bc b'))) = (if registered (flash_cfg b) then cstr (Cloud_DId (flash_cfg b)) else Some [])"
proof -
  let ?f = "flash_cfg b"
  let ?c = "if cfg_flag ?f \<noteq> XPG_CFG_FLAG_CONNECTED then config_zero else ?f"
  have "length (wifipasscode ?c) = 16" using assms(1) by (simp add: config_ok_def config_zero_def zeros_def)
  then obtain pass where pass: "make_rand draws (wifipasscode ?c) = Some pass" "length pass = 16"
    using make_rand_defined[OF assms(2)] by blast
  show ?thesis
  proof (cases "registered ?f")
    case True
    then obtain did where did: "magicNumber ?f = GAGENT_MAGIC_NUMBER" "cstr (Cloud_DId ?f) = Some did" "length did = 22"
      by (auto simp: registered_def)
    have "no_nul did" by (rule cstr_no_nul[OF did(2)])
    moreover have "wr_seg (zeros 24) 0 (did @ [0]) = Some (did @ 0 # zeros 1)"
      using did(3) by (simp add: wr_seg_def put_def)
    ultimately show ?thesis using True did assms(3) pass(2)
      by (intro exI[of _ pass]) (simp add: GAgent_Config_Status_Init_def boot_state_defs start_conf_def)
  next
    case False
    have "reset_config draws (with_cloud (with_gw (\<lambda>g. g\<lparr>DIdLen := n\<rparr>)) (GetConfigData b)) = reset_config draws (GetConfigData b)" for n
      by (simp add: reset_config_def boot_state_defs)
    moreover have "0 \<in> set (Cloud_DId ?f)" if "magicNumber ?f = GAGENT_MAGIC_NUMBER" using assms(1) that by (simp add: config_ok_def)
    ultimately have "GAgent_Config_Status_Init draws b = reset_config draws (GetConfigData b)"
      using False by (cases "magicNumber ?f = GAGENT_MAGIC_NUMBER")
        (auto simp: GAgent_Config_Status_Init_def registered_def boot_state_defs cstr_def)
    moreover have "conf (GetConfigData b) = ?f" by (simp add: boot_state_defs)
    ultimately show ?thesis using False pass assms(3)
      by (intro exI[of _ pass]) (auto simp: reset_config_def boot_state_defs start_conf_def kept_def Let_def zeros_cstr)
  qed
qed

lemma init_state_starts:
  assumes "config_ok (flash_cfg ram)" and "length draws = 10" and "6 \<le> length mac"
  shows "\<exists>pass b. length pass = 16 \<and> started mac pass (flash_cfg ram) b \<and> TestDirectCfgFlag b = TestDirectCfgFlag ram \<and>
    init_state created now mac draws (entry_state ram) = Some (b, if registered (flash_cfg ram) then [] else [SaveConfig (conf b)])"
proof -
  let ?b0 = "GAgent_Global_Status_Init created now (with_cloud InitDomainSem (entry_state ram))"
  have b0: "flash_cfg ?b0 = flash_cfg ram" "pLinkUpSem ?b0 = 0" "pSoftApSem ?b0 = 0" "TestDirectCfgFlag ?b0 = TestDirectCfgFlag ram" "sys_onboarding (gwst (bc ?b0)) = 0"
    "length (a_mac (bc ?b0)) = 16" "DID (gwst (bc ?b0)) = zeros 24"
    using global_init[of created now "with_cloud InitDomainSem (entry_state ram)"]
    by (simp_all add: entry_state_def init_system_task_def boot_state_defs InitDomainSem_def Let_def)
  have m: "rd_seg mac 0 6 = Some (take 6 mac)" using assms(3) by (simp add: rd_seg_def)
  have "length (concat (map hex02 (take 6 mac))) = 12"
    using assms(3) by (simp add: length_concat hex02_def comp_def sum_list_triv)
  then have "\<exists>a z. wr_seg (a_mac (bc ?b0)) 0 (concat (map hex02 (take 6 mac)) @ [0]) = Some a \<and>
      a[12 := 0] = concat (map hex02 (take 6 mac)) @ 0 # z"
    using b0(6) by (simp add: wr_seg_def put_def list_update_append)
  then obtain a z where a: "wr_seg (a_mac (bc ?b0)) 0 (concat (map hex02 (take 6 mac)) @ [0]) = Some a"
    "a[12 := 0] = concat (map hex02 (take 6 mac)) @ 0 # z" by blast
  define b1 where "b1 = with_cloud (\<lambda>c. with_gw (\<lambda>g. GAgent_GetMCUInfo (g\<lparr>Service_mac := take 6 mac\<rparr>)) (c\<lparr>a_mac := a[12 := 0]\<rparr>)) ?b0"
  have b1: "flash_cfg b1 = flash_cfg ram" "pLinkUpSem b1 = 0" "pSoftApSem b1 = 0" "sys_onboarding (gwst (bc b1)) = 0"
    "DID (gwst (bc b1)) = zeros 24" "cstr (a_mac (bc b1)) = Some (concat (map hex02 (take 6 mac)))"
    "product_key (gwst (bc b1)) = ascii ''9877965c9cf04dff9a585e5f8d77dedb'' @ [0]"
    using b0 by (simp_all add: b1_def boot_state_defs GAgent_GetMCUInfo_def a(2) hex_no_nul)
  obtain pass b2 eff where c: "GAgent_Config_Status_Init draws b1 = Some (if registered (flash_cfg ram) then 0 else 1, b2, eff)"
     "length pass = 16" "conf b2 = start_conf pass (flash_cfg ram)" "flash_cfg b2 = conf b2"
     "eff = (if registered (flash_cfg ram) then [] else [SaveConfig (conf b2)])"
     "bc b2 = (bc b1)\<lparr>gwst := (gwst (bc b1))\<lparr>g_stGAgentConfigData := conf b2, DIdLen := DIdLen (gwst (bc b2)), DID := DID (gwst (bc b2))\<rparr>\<rparr>"
     "b2 = b1\<lparr>bc := bc b2, flash_cfg := flash_cfg b2\<rparr>"
     "cstr (DID (gwst (bc b2))) = (if registered (flash_cfg ram) then cstr (Cloud_DId (flash_cfg ram)) else Some [])"
    using config_init[of b1 draws] assms(1,2) b1(1,5) by auto
  have o: "sys_onboarding (gwst (bc b2)) = 0" using arg_cong[OF c(6), of "\<lambda>c. sys_onboarding (gwst c)"] b1(4) by simp
  have n: "a_mac (bc b2) = a_mac (bc b1)" "product_key (gwst (bc b2)) = product_key (gwst (bc b1))"
    using arg_cong[OF c(6), of a_mac] arg_cong[OF c(6), of "\<lambda>c. product_key (gwst c)"] by simp_all
  have "TestDirectCfgFlag b1 = TestDirectCfgFlag ram" using b0(4) by (simp add: b1_def boot_state_defs)
  then have p: "pLinkUpSem b2 = 0" "pSoftApSem b2 = 0" "TestDirectCfgFlag b2 = TestDirectCfgFlag ram"
    using arg_cong[OF c(7), of pLinkUpSem] arg_cong[OF c(7), of pSoftApSem] arg_cong[OF c(7), of TestDirectCfgFlag] b1(2,3) by simp_all
  define b3 where "b3 = with_cloud (with_gw Init_Service) (with_cloud (\<lambda>c. c\<lparr>g_ConCloud_Status :=
    if registered (flash_cfg ram) then CONCLOUD_REQ_M2MINFO else CONCLOUD_REQ_DID\<rparr>) b2)"
  define b4 where "b4 = b3\<lparr>g_stCoreGAgentTimer := snd (GAgent_CreateTimer GAGENT_TIMER_PERIOD 1000 Socket_ClientTimeoutTimer_fn (g_stCoreGAgentTimer b3))\<rparr>"
  have i: "init_state created now mac draws (entry_state ram) = Some (b4, eff)"
    by (simp add: init_state_def m a(1) Let_def b1_def[symmetric] c(1) b4_def b3_def)
  have f: "conf b4 = conf b2" "flash_cfg b4 = flash_cfg b2" "pLinkUpSem b4 = 0" "pSoftApSem b4 = 0" "TestDirectCfgFlag b4 = TestDirectCfgFlag ram" "sys_onboarding (gwst (bc b4)) = 0"
    "g_ConCloud_Status (bc b4) = (if registered (flash_cfg ram) then CONCLOUD_REQ_M2MINFO else CONCLOUD_REQ_DID)"
    "identity b4 = start_identity mac (flash_cfg ram)"
    using o p n b1(6,7) c(8) by (simp_all add: b4_def b3_def boot_state_defs Init_Service_def identity_def start_identity_def)
  show ?thesis
    by (rule exI[of _ pass], rule exI[of _ b4]) (simp add: i c(2) started_def f c(3,4,5))
qed

section \<open>The network after a start\<close>

definition stored_net :: "GAgent_CONFIG_S \<Rightarrow> bool" where
  "stored_net f \<longleftrightarrow> cfg_flag f AND XPG_CFG_FLAG_CONNECTED = XPG_CFG_FLAG_CONNECTED"

text \<open>How the start ends, the status, and what is done after the station was started.\<close>

fun after_station :: "bool option \<Rightarrow> run_end \<times> u8 \<times> effect list" where
  "after_station None = (Waiting, SYS_STATUS_WIFI_DIRECTCONFING, [])"
| "after_station (Some True) = (Returned, SYS_STATUS_WIFI_STA_CONNECTED, [])"
| "after_station (Some False) = (Returned, SYS_STATUS_WIFI_SOFTAP, [SoftApStart])"

lemma stored_config_network:
  assumes "conf b = flash_cfg b" and "sys_onboarding (gwst (bc b)) = 0" and "pLinkUpSem b = 0"
  shows "\<exists>r b' eff. by_stored_config w b = (r, b', eff) \<and> flash_cfg b' = flash_cfg b \<and> conf b' = conf b \<and>
    pSoftApSem b' = pSoftApSem b \<and> g_ConCloud_Status (bc b') = g_ConCloud_Status (bc b) \<and>
    identity b' = identity b \<and> sys_onboarding (gwst (bc b')) = 0 \<and>
    (if stored_net (conf b)
     then \<exists>eff'. eff = StationStart (wifi_ssid (conf b)) (wifi_key (conf b)) # eff' \<and>
       (r, sys_wifi_status (gwst (bc b')), eff') = after_station (link_outcome (w_events w))
     else r = Returned \<and> sys_wifi_status (gwst (bc b')) = SYS_STATUS_WIFI_SOFTAP \<and> eff = [SoftApStart])"
proof -
  have g: "GetConfigData b = b" using assms(1) by (simp add: boot_state_defs)
  show ?thesis
  proof (cases "stored_net (conf b)")
    case False
    then show ?thesis using g assms(1,2)
      by (simp add: by_stored_config_def stored_net_def Let_def start_softap_def boot_state_defs identity_def)
  next
    case True
    define sb where "sb = station_mode (set_status SYS_STATUS_WIFI_DIRECTCONFING b)"
    have b: "sys_onboarding (gwst (bc sb)) = 0" "sys_wifi_status (gwst (bc sb)) = 2" "pLinkUpSem sb = 0" "conf sb = conf b"
      "flash_cfg sb = flash_cfg b" "pSoftApSem sb = pSoftApSem b" "g_ConCloud_Status (bc sb) = g_ConCloud_Status (bc b)"
      "identity sb = identity b"
      using assms(2,3) by (simp_all add: sb_def identity_def station_mode_def boot_state_defs)
    obtain t k f ess' where p: "pend_link (w_events w) sb = (if link_outcome (w_events w) = None then Waiting else Returned,
        sb\<lparr>TestDirectCfgFlag := t, pLinkUpSem := k, wifi_sta_connect_ap_flag := f\<rparr>, [], ess')"
      "case link_outcome (w_events w) of None \<Rightarrow> f = wifi_sta_connect_ap_flag sb | Some r \<Rightarrow> f = (if r then 0 else 1)"
      using pend_exact[of sb "w_events w"] b(1-3) by auto
    have "by_stored_config w b = (let (r, b, eff, _) = DRV_WiFi_StationCustomModeStart (w_events w) sb
       in if r \<noteq> Returned then (r, b, eff)
          else if wifi_sta_connect_ap_flag b \<noteq> 0
          then let (b, eff2) = (let (b, eff) = start_softap b in (set_status SYS_STATUS_WIFI_SOFTAP b, eff)) in (Returned, b, eff @ eff2)
          else (Returned, set_status SYS_STATUS_WIFI_STA_CONNECTED b, eff))"
      unfolding by_stored_config_def Let_def g sb_def using True by (simp only: stored_net_def simp_thms if_True)
    moreover have "conf (sb\<lparr>TestDirectCfgFlag := t, pLinkUpSem := k, wifi_sta_connect_ap_flag := f\<rparr>) = conf b"
      using b(4) by (simp add: conf_def)
    ultimately show ?thesis using True p b
      by (cases "link_outcome (w_events w)"; cases "the (link_outcome (w_events w))")
        (simp_all add: DRV_WiFi_StationCustomModeStart_def start_softap_def boot_state_defs identity_def)
  qed
qed

lemma start_conf_stored: "stored_net (start_conf pass f) = (kept f \<and> stored_net f)"
  by (simp add: start_conf_def stored_net_def kept_def config_zero_def)

lemma start_conf_net: "kept f \<Longrightarrow> wifi_ssid (start_conf pass f) = wifi_ssid f \<and> wifi_key (start_conf pass f) = wifi_key f"
  by (simp add: start_conf_def)

lemma entry_exact:
  assumes f: "flash_cfg ram = f" and ok: "config_ok f" and "length draws = 10" and "6 \<le> length mac" and "button w 0 \<noteq> 0 \<or> button w 1 \<noteq> 0"
  shows "\<exists>pass e b eff. nl6621_gizwits_entry created now mac draws w ram =
      Some (e, b, (if registered f then [] else [SaveConfig (start_conf pass f)]) @ eff) \<and>
    length pass = 16 \<and> flash_cfg b = start_conf pass f \<and>
    g_ConCloud_Status (bc b) = (if registered f then CONCLOUD_REQ_M2MINFO else CONCLOUD_REQ_DID) \<and>
    identity b = start_identity mac f \<and> sys_onboarding (gwst (bc b)) = 0 \<and>
    (if kept f \<and> stored_net f
     then \<exists>eff'. eff = StationStart (wifi_ssid f) (wifi_key f) # eff' \<and>
       (e, sys_wifi_status (gwst (bc b)), eff') = after_station (link_outcome (w_events w))
     else e = Returned \<and> sys_wifi_status (gwst (bc b)) = SYS_STATUS_WIFI_SOFTAP \<and> eff = [SoftApStart])"
proof -
  obtain pass b where i: "length pass = 16" "started mac pass f b"
    "init_state created now mac draws (entry_state ram) = Some (b, if registered f then [] else [SaveConfig (conf b)])"
    using init_state_starts[OF ok[folded f] assms(3,4)] unfolding f by blast
  have s: "conf b = start_conf pass f" "flash_cfg b = conf b" "pLinkUpSem b = 0" "sys_onboarding (gwst (bc b)) = 0"
    using i(2) by (simp_all add: started_def)
  obtain r b' eff where n: "by_stored_config w b = (r, b', eff)" "flash_cfg b' = flash_cfg b" "conf b' = conf b"
    "g_ConCloud_Status (bc b') = g_ConCloud_Status (bc b)" "identity b' = identity b" "sys_onboarding (gwst (bc b')) = 0"
    "if stored_net (conf b)
     then \<exists>eff'. eff = StationStart (wifi_ssid (conf b)) (wifi_key (conf b)) # eff' \<and>
       (r, sys_wifi_status (gwst (bc b')), eff') = after_station (link_outcome (w_events w))
     else r = Returned \<and> sys_wifi_status (gwst (bc b')) = SYS_STATUS_WIFI_SOFTAP \<and> eff = [SoftApStart]"
    using stored_config_network[of b w] s by auto
  define b'' where "b'' = (if r = Returned
    then b'\<lparr>g_stCoreGAgentTimer := snd (GAgent_CreateTimer GAGENT_TIMER_PERIOD 1000 GAgent_Cloud_Timer_fn (g_stCoreGAgentTimer b'))\<rparr> else b')"
  have e: "nl6621_gizwits_entry created now mac draws w ram = Some (r, b'', (if registered f then [] else [SaveConfig (conf b)]) @ eff)"
    using assms(5) by (auto simp: nl6621_gizwits_entry_def GAgent_Init_def i(3) GAgent_SetDevNetWork_def n(1) b''_def)
  have "bc b'' = bc b'" "flash_cfg b'' = flash_cfg b'" "identity b'' = identity b'" by (simp_all add: b''_def identity_def)
  then show ?thesis using e i(1,2) n(2-7) unfolding s(1) start_conf_stored
    by (intro exI[of _ pass] exI[of _ r] exI[of _ b''] exI[of _ eff]) (auto simp: started_def start_conf_net)
qed

text \<open>C7 A start with a stored network and the button not pressed. Whatever the memory holds, the program asks for exactly the stored
  name and key, and the first group of events with a result of the link decides: a connection makes the
  device a station, a failure an access point, and with neither the start never ends. The device goes to the
  cloud with its DID if it has one; if not, it has a new passcode.\<close>

theorem start_joins_network:
  assumes "config_ok f" and "stored_net f" and "registered f \<or> cfg_flag f = XPG_CFG_FLAG_CONNECTED"
    and "length draws = 10" and "6 \<le> length mac" and "button w 0 \<noteq> 0 \<or> button w 1 \<noteq> 0"
  shows "\<exists>pass e b eff. nl6621_gizwits_entry created now mac draws w (ram\<lparr>flash_cfg := f\<rparr>) =
      Some (e, b, (if registered f then [] else [SaveConfig (start_conf pass f)]) @ StationStart (wifi_ssid f) (wifi_key f) # eff) \<and>
    (e, sys_wifi_status (gwst (bc b)), eff) = after_station (link_outcome (w_events w)) \<and>
    flash_cfg b = start_conf pass f \<and>
    g_ConCloud_Status (bc b) = (if registered f then CONCLOUD_REQ_M2MINFO else CONCLOUD_REQ_DID)"
proof -
  have "kept f \<and> stored_net f" using assms(2,3) by (simp add: kept_def)
  moreover have "flash_cfg (ram\<lparr>flash_cfg := f\<rparr>) = f" by simp
  ultimately obtain pass e b eff where "nl6621_gizwits_entry created now mac draws w (ram\<lparr>flash_cfg := f\<rparr>) =
      Some (e, b, (if registered f then [] else [SaveConfig (start_conf pass f)]) @ StationStart (wifi_ssid f) (wifi_key f) # eff)"
    "(e, sys_wifi_status (gwst (bc b)), eff) = after_station (link_outcome (w_events w))" "flash_cfg b = start_conf pass f"
    "g_ConCloud_Status (bc b) = (if registered f then CONCLOUD_REQ_M2MINFO else CONCLOUD_REQ_DID)"
    using entry_exact[OF _ assms(1,4-6), of "ram\<lparr>flash_cfg := f\<rparr>" created now] by auto
  then show ?thesis by blast
qed

section \<open>Examples\<close>

text \<open>A new device as an open access point; its memory and its world.\<close>

definition boot0 :: boot where
  "boot0 = \<lparr>bc = cloud0\<lparr>gwst := gw0\<lparr>product_key := ascii ''9877965c9cf04dff9a585e5f8d77dedb'' @ [0]\<rparr>, a_mac := ascii ''001bfe9a23c4'' @ [0, 0, 0, 0]\<rparr>,
     flash_cfg = config0, wifi_sta_connect_ap_flag = 0, TestDirectCfgFlag = 0, pLinkUpSem = 1, pSoftApSem = 0,
     system_reset_flag = 0x12345678, g_stCoreGAgentTimer = []\<rparr>"

definition mac0 :: bytes where "mac0 = [0x00, 0x1b, 0xfe, 0x9a, 0x23, 0xc4]"

definition world0 :: "u8 \<Rightarrow> SYS_EVT_ID list list \<Rightarrow> world" where
  "world0 level ess = \<lparr>button = \<lambda>_. level, w_events = ess, w_ssid = ascii ''home'' @ zeros 28, w_psk = ascii ''secret'' @ zeros 26,
     w_socket = 4, w_setopt = True, w_rets = replicate 11 80\<rparr>"

definition header0 :: bytes where "header0 = [0, 0, 0, 3, 20, 0, 0, 1]"

lemma example_config: "config_ok config0" "\<not> stored_net config0" "cfg_flag config0 \<in> {0, 1}" "\<not> registered config0" "conf boot0 = config0"
  by (simp_all add: config_ok_def config0_def stored_net_def registered_def cstr_def zeros_def conf_def boot0_def gw0_def)

lemma example_world: "button (world0 level ess) i = level" "w_events (world0 level ess) = ess" "length mac0 = 6"
  "length header0 = 8" "header0 ! 7 = 1" "no_nul (ascii ''home'')" "no_nul (ascii ''secret'')"
  by (simp_all add: world0_def mac0_def header0_def no_nul_def ascii_def)

theorem start_joins_network_witness:
  "\<exists>pass e b eff. nl6621_gizwits_entry True 0 mac0 [0..<10] (world0 1 [[SYS_EVT_SCAN_DONE], [SYS_EVT_LINK_UP]])
        (boot0\<lparr>flash_cfg := config0\<lparr>cfg_flag := 1\<rparr>\<rparr>) =
      Some (e, b, [SaveConfig (start_conf pass (config0\<lparr>cfg_flag := 1\<rparr>))] @ StationStart (zeros 32) (zeros 32) # eff) \<and>
    (e, sys_wifi_status (gwst (bc b)), eff) = (Returned, 3, []) \<and> flash_cfg b = start_conf pass (config0\<lparr>cfg_flag := 1\<rparr>) \<and>
    g_ConCloud_Status (bc b) = CONCLOUD_REQ_DID"
proof -
  have "config_ok (config0\<lparr>cfg_flag := 1\<rparr>)" "stored_net (config0\<lparr>cfg_flag := 1\<rparr>)" "\<not> registered (config0\<lparr>cfg_flag := 1\<rparr>)"
    using example_config by (simp_all add: config_ok_def stored_net_def registered_def)
  moreover have "link_outcome [[SYS_EVT_SCAN_DONE], [SYS_EVT_LINK_UP]] = Some True" by (simp add: link_result_def decides_def)
  ultimately show ?thesis
    using start_joins_network[of "config0\<lparr>cfg_flag := 1\<rparr>" "[0..<10]" mac0 "world0 1 [[SYS_EVT_SCAN_DONE], [SYS_EVT_LINK_UP]]" True 0 boot0]
    by (simp add: example_world config0_def)
qed

end
