(* ===== verification/Onboarding.thy ===== *)
theory Onboarding
  imports BootMode
begin

text \<open>
  How a device comes into a network: the onboarding by UDP together with the events of the WLAN library, the
  announcement and the next start; the direct configuration; the reset button. The socket's button is here too.
\<close>

section \<open>The announcement\<close>

text \<open>The packet when it fits: the three strings at their places.\<close>

definition announcement_packet :: "bytes \<Rightarrow> bytes \<Rightarrow> bytes \<Rightarrow> bytes" where
  "announcement_packet a pk d = [0, 0, 0, 0x03, 0x33, 0, 0, 0x19, 0, 0x0c] @ a @ [0, 0x20] @ pk @ [0, 0x16] @ d @ zeros (22 - length d)"

lemma print_over:
  assumes "cstr str = Some s" and "length pre = off" and "length s < m"
  shows "print_at (pre @ zeros m) off str = Some (pre @ s @ zeros (m - length s))"
proof -
  have "zeros m = zeros (length s) @ 0 # zeros (m - length s - 1)" using assms(3)
    by (metis append_Cons append_Nil zeros_def replicate_Suc replicate_add Suc_diff_Suc diff_Suc_1 add_diff_inverse_nat less_imp_le_nat not_less add.commute)
  moreover have "zeros (m - length s) = 0 # zeros (m - length s - 1)" using assms(3)
    by (metis zeros_def replicate_Suc Suc_diff_Suc diff_Suc_1 add_diff_cancel_left' less_natE plus_1_eq_Suc diff_Suc_Suc Suc_pred zero_less_diff)
  ultimately show ?thesis using assms
    by (simp add: print_at_def wr_seg_def put_def zeros_def)
qed

lemma print_over_None:
  "cstr str = Some s \<Longrightarrow> length pre = off \<Longrightarrow> m \<le> length s \<Longrightarrow> print_at (pre @ zeros m) off str = None"
  by (simp add: print_at_def wr_seg_def zeros_def)

lemma softap_packet_exact:
  assumes "cstr (a_mac c) = Some a" and "length a = 12" and "cstr (product_key (gwst c)) = Some pk" and "length pk = 32"
    and "cstr (DID (gwst c)) = Some d"
  shows "softap_packet c = (if length d \<le> 21 then Some (announcement_packet a pk d) else None)"
proof -
  let ?h = "[0, 0, 0, 0x03, 0x33, 0, 0, 0x19, 0, 0x0c] :: bytes"
  have z: "zeros 80 = [0, 0, 0, 0, 0, 0, 0, 0, 0, 0] @ zeros 70" by (simp add: zeros_def numeral_eq_Suc)
  have h: "do { b \<leftarrow> wr (zeros 80) 3 0x03; b \<leftarrow> wr b 4 0x33; b \<leftarrow> wr b 5 0x00; b \<leftarrow> wr b 7 0x19; wr b 9 0x0c } = Some (?h @ zeros 70)"
    unfolding z by (simp add: wr_def)
  have p1: "print_at (?h @ zeros 70) 10 (a_mac c) = Some (?h @ a @ zeros 58)" using print_over[OF assms(1), of ?h 10 70] assms(2) by simp
  have w1: "wr (?h @ a @ zeros 58) 23 0x20 = Some ((?h @ a @ [0, 0x20]) @ zeros 56)"
    using assms(2) by (simp add: wr_def list_update_append zeros_def numeral_eq_Suc)
  have p2: "print_at ((?h @ a @ [0, 0x20]) @ zeros 56) 24 (product_key (gwst c)) = Some ((?h @ a @ [0, 0x20]) @ pk @ zeros 24)"
    using print_over[OF assms(3), of "?h @ a @ [0, 0x20]" 24 56] assms(2,4) by simp
  have w2: "wr ((?h @ a @ [0, 0x20]) @ pk @ zeros 24) 57 0x16 = Some ((?h @ a @ [0, 0x20] @ pk @ [0, 0x16]) @ zeros 22)"
    using assms(2,4) by (simp add: wr_def list_update_append zeros_def numeral_eq_Suc)
  have l: "length (?h @ a @ [0, 0x20] @ pk @ [0, 0x16]) = 58" using assms(2,4) by simp
  have "softap_packet c = do { b \<leftarrow> (do { b \<leftarrow> wr (zeros 80) 3 0x03; b \<leftarrow> wr b 4 0x33; b \<leftarrow> wr b 5 0x00; b \<leftarrow> wr b 7 0x19; wr b 9 0x0c });
      b \<leftarrow> print_at b 10 (a_mac c); b \<leftarrow> wr b 23 0x20; b \<leftarrow> print_at b 24 (product_key (gwst c)); b \<leftarrow> wr b 57 0x16;
      print_at b 58 (DID (gwst c)) }" by (simp add: softap_packet_def)
  also have "\<dots> = print_at ((?h @ a @ [0, 0x20] @ pk @ [0, 0x16]) @ zeros 22) 58 (DID (gwst c))"
    by (simp only: h p1 w1 p2 w2 bind.bind_lunit)
  also have "\<dots> = (if length d \<le> 21 then Some (announcement_packet a pk d) else None)"
    using print_over[OF assms(5) l, of 22] print_over_None[OF assms(5) l, of 22] by (simp add: announcement_packet_def)
  finally show ?thesis .
qed

text \<open>The packet of a device that has no DID: the address of its radio and its product.\<close>

abbreviation (input) "own_packet mac \<equiv>
  announcement_packet (concat (map hex02 (take 6 mac))) (ascii ''9877965c9cf04dff9a585e5f8d77dedb'') []"

lemma own_packet:
  assumes "identity b = start_identity mac f" and "\<not> registered f" and "6 \<le> length mac"
  shows "softap_packet (bc b) = Some (own_packet mac)"
proof -
  have pk: "cstr (ascii ''9877965c9cf04dff9a585e5f8d77dedb'' @ [0]) = Some (ascii ''9877965c9cf04dff9a585e5f8d77dedb'')"
    by (rule cstr_append) (simp add: no_nul_def ascii_def)
  have l: "length (concat (map hex02 (take 6 mac))) = 12"
    using assms(3) by (simp add: length_concat hex02_def comp_def sum_list_triv)
  have "cstr (DID (gwst (bc b))) = Some []" using assms(1,2) by (simp add: identity_def start_identity_def)
  from softap_packet_exact[of "bc b", OF _ l _ _ this] assms(1) pk
  show ?thesis by (simp add: identity_def start_identity_def)
qed

section \<open>Onboarding\<close>

abbreviation (input) "onboard_packet h x ssid y key rest \<equiv>
  h @ [x, of_nat (length ssid)] @ ssid @ [y, of_nat (length key)] @ key @ rest"

abbreviation (input) "padded s \<equiv> s @ zeros (32 - length s)"

text \<open>What the packet leaves in the configuration.\<close>

definition onboarded :: "bytes \<Rightarrow> bytes \<Rightarrow> GAgent_CONFIG_S \<Rightarrow> GAgent_CONFIG_S" where
  "onboarded ssid key f = f\<lparr>wifi_ssid := padded ssid, wifi_key := padded key, cfg_flag := cfg_flag f OR XPG_CFG_FLAG_CONNECTED\<rparr>"

definition open_ap :: "boot \<Rightarrow> bool" where
  "open_ap b \<longleftrightarrow> sys_onboarding (gwst (bc b)) = SYS_STATUS_ONBOARDING_FAILED \<and> sys_wifi_status (gwst (bc b)) = SYS_STATUS_WIFI_SOFTAP"

definition onboard_ack :: "boot \<Rightarrow> u32 \<times> u16 \<Rightarrow> effect" where
  "onboard_ack b addr = SendTo (g_UDPServerFd (gwst (bc b))) addr [0x00, 0x00, 0x00, 0x03, 0x03, 0x00, 0x00, 0x02]"

lemma dispatch_onboarding:
  assumes "length h = 8" and "h ! 7 = 1" and "length ssid \<le> 30" and "length key \<le> 30" and "no_nul ssid" and "no_nul key"
    and "open_ap b"
  shows "dispatch_udp (onboard_packet h x ssid y key rest) addr ess b =
    (let (r, b', eff, ess') = pend_link ess (set_conf (onboarded ssid key (conf b)) b); st = StationStart (padded ssid) (padded key)
     in Some (if r \<noteq> Returned then (r, b', st # eff, ess')
       else (Returned, with_cloud (with_gw (\<lambda>g. g\<lparr>sys_onboarding := SYS_STATUS_ONBOARDING_SUCCESS\<rparr>)) b', st # eff @ [onboard_ack b' addr], ess')))"
proof -
  have cmd: "rd (onboard_packet h x ssid y key rest) 7 = Some 1" using assms(1,2) by (simp add: rd_def nth_append)
  have u: "Udp_Onboarding (onboard_packet h x ssid y key rest) (gwst (bc b)) =
      Some ((gwst (bc b))\<lparr>g_stGAgentConfigData := onboarded ssid key (conf b)\<rparr>, [StationStart (padded ssid) (padded key)])"
    using onboarding_exact[of h ssid key x y rest "gwst (bc b)"] assms by (simp add: Let_def onboarded_def conf_def)
  have s: "with_cloud (with_gw (\<lambda>_. (gwst (bc b))\<lparr>g_stGAgentConfigData := onboarded ssid key (conf b)\<rparr>)) b = set_conf (onboarded ssid key (conf b)) b"
    by (simp add: boot_state_defs)
  obtain r b' eff ess' where p: "pend_link ess (set_conf (onboarded ssid key (conf b)) b) = (r, b', eff, ess')"
    using prod_cases4 by blast
  show ?thesis unfolding dispatch_udp_def cmd
    using assms(7) by (simp add: u[simplified] s p open_ap_def onboard_ack_def)
qed

text \<open>With a count left from the start of the access point the wait is over at once, and the handler is
  the one of the LAN server.\<close>

lemma dispatch_udp_refines:
  assumes "0 < pLinkUpSem b"
  shows "\<exists>n. dispatch_udp pData addr ess b = map_option (\<lambda>(r, g, eff).
    (Returned, (with_cloud (with_gw (\<lambda>_. g)) b)\<lparr>pLinkUpSem := n\<rparr>, eff, ess)) (Socket_DispatchUDPRecvData pData addr (gwst (bc b)))"
proof (cases "rd pData 7")
  case None
  then show ?thesis by (simp add: dispatch_udp_def Socket_DispatchUDPRecvData_def)
next
  case (Some cmd)
  have k: "(with_cloud (with_gw (\<lambda>_. g)) b)\<lparr>pLinkUpSem := pLinkUpSem b\<rparr> = with_cloud (with_gw (\<lambda>_. g)) b" for g
    by (simp add: boot_state_defs)
  show ?thesis
  proof (cases "cmd = 1 \<and> open_ap b")
    case False
    then show ?thesis using Some
      by (intro exI[of _ "pLinkUpSem b"], cases "Socket_DispatchUDPRecvData pData addr (gwst (bc b))")
        (auto simp: dispatch_udp_def open_ap_def k)
  next
    case True
    then have c: "cmd = 1" "sys_onboarding (gwst (bc b)) = 0" "sys_wifi_status (gwst (bc b)) = 1" by (simp_all add: open_ap_def)
    have "pend_link ess (with_cloud (with_gw (\<lambda>_. g)) b) =
        (Returned, (with_cloud (with_gw (\<lambda>_. g)) b)\<lparr>pLinkUpSem := pLinkUpSem b - 1\<rparr>, [], ess)" for g
      using assms pend_count[of "with_cloud (with_gw (\<lambda>_. g)) b" ess] by (simp add: boot_state_defs)
    then show ?thesis using Some c
      by (intro exI[of _ "pLinkUpSem b - 1"], cases "Udp_Onboarding pData (gwst (bc b))")
        (auto simp: dispatch_udp_def Socket_DispatchUDPRecvData_def boot_state_defs)
  qed
qed

lemma broadcast_enough:
  "n \<le> 10 \<Longrightarrow> 11 \<le> n + length (filter (\<lambda>r. 0 \<le> r) rets) \<Longrightarrow> broadcast_loop out n rets = (True, replicate (11 - n) out)"
proof (induction rets arbitrary: n)
  case Nil
  then show ?case by simp
next
  case (Cons r rets)
  show ?case
  proof (cases "r < 0")
    case True
    then show ?thesis using Cons by simp
  next
    case False
    then have "broadcast_loop out (n + 1) rets = (True, replicate (11 - (n + 1)) out)" if "n \<noteq> 10"
      using Cons.IH[of "n + 1"] Cons.prems that by simp
    moreover have "replicate (11 - n) out = out # replicate (11 - (n + 1)) out" using Cons.prems(1)
      by (metis Suc_diff_Suc Suc_eq_plus1 le_imp_less_Suc replicate_Suc eval_nat_numeral(3))
    ultimately show ?thesis using False by simp
  qed
qed

definition announcement :: "int \<Rightarrow> bytes \<Rightarrow> effect list" where
  "announcement fd out = replicate 11 (SendTo fd (0xFFFFFFFF, 2415) out) @ [CloseFd fd]"

lemma announce:
  assumes "0 < pSoftApSem b" and "softap_packet (bc b) = Some out" and "fd \<noteq> -1" and "11 \<le> length (filter (\<lambda>r. 0 \<le> r) rets)"
  shows "UdpBCTThread fd True rets b = Some (ChipReset,
    (with_cloud (with_gw (\<lambda>g. g\<lparr>sys_onboarding := SYS_STATUS_ONBOARDING_FAILED\<rparr>)) b)\<lparr>pSoftApSem := pSoftApSem b - 1\<rparr>,
    announcement fd out @ [ResetSystem])"
  using assms broadcast_enough[of 0 rets "SendTo fd (0xFFFFFFFF, 2415) out"]
  by (simp add: UdpBCTThread_def RespondSoftAPBroadcast_def announcement_def boot_state_defs)

lemma packet_frame:
  "a_mac c' = a_mac c \<Longrightarrow> product_key (gwst c') = product_key (gwst c) \<Longrightarrow> DID (gwst c') = DID (gwst c) \<Longrightarrow> softap_packet c' = softap_packet c"
  by (simp add: softap_packet_def)

lemma link_up_onboarding:
  assumes "sys_onboarding (gwst (bc b)) = SYS_STATUS_ONBOARDING_SUCCESS" and "list_all (Not \<circ> decides) pre"
  shows "\<exists>t n. run_events (pre @ [SYS_EVT_LINK_UP]) b = (Returned, b\<lparr>TestDirectCfgFlag := t, pLinkUpSem := n,
    wifi_sta_connect_ap_flag := 0, flash_cfg := conf b, pSoftApSem := pSoftApSem b + 1\<rparr>, [SaveConfig (conf b)])"
proof -
  obtain t where "run_events pre b = (Returned, b\<lparr>TestDirectCfgFlag := t\<rparr>, [])" using quiet_events[OF assms(2)] by blast
  then show ?thesis using assms(1)
    by (intro exI[of _ 1] exI[of _ "pLinkUpSem b + 1"]) (simp add: run_events_append AppEvtCallBack_def Let_def boot_state_defs)
qed

lemma onboarded_conf:
  assumes "config_ok f" and "cfg_flag f \<in> {0, 1}"
  shows "config_ok (onboarded ssid key f)" and "stored_net (onboarded ssid key f)" and "registered (onboarded ssid key f) = registered f"
    and "cfg_flag (onboarded ssid key f) = XPG_CFG_FLAG_CONNECTED"
proof -
  have fl: "cfg_flag f OR 1 = 1" using assms(2) by auto
  show "config_ok (onboarded ssid key f)" "stored_net (onboarded ssid key f)" "registered (onboarded ssid key f) = registered f"
    "cfg_flag (onboarded ssid key f) = XPG_CFG_FLAG_CONNECTED"
    using assms(1) by (simp_all add: config_ok_def onboarded_def stored_net_def registered_def fl)
qed

text \<open>C3 Onboarding from the access point to the station, for a device that is not registered yet (with a DID
  the announcement overruns its array: \<open>announcement_bounds\<close>) and whose access point has counted its own link
  event (\<open>access_point_opens\<close>; without the count: \<open>onboarding_delayed\<close>). The configuration is as a start leaves
  it, and \<open>mac\<close> is the address of the radio. A phone sends name and key, at most 30 characters each: it is
  answered, the station is started with them, and when the link comes up the configuration is saved, the
  device announces itself with its address and product and resets, if the socket of the announcement can be
  made and eleven calls of \<open>sendto\<close> succeed. The start after that, whatever else the memory holds, with the button
  not pressed, asks for exactly that network, and is a station if the link comes up.\<close>

theorem onboarding_to_station:
  assumes "length h = 8" and "h ! 7 = 1" and "length ssid \<le> 30" and "length key \<le> 30" and "no_nul ssid" and "no_nul key"
    and "open_ap b" and "0 < pLinkUpSem b" and "config_ok (conf b)" and "cfg_flag (conf b) \<in> {0, 1}"
    and "list_all (Not \<circ> decides) pre" and "identity b = start_identity mac (conf b)" and "\<not> registered (conf b)"
    and "fd \<noteq> -1" and "11 \<le> length (filter (\<lambda>r. 0 \<le> r) rets)"
    and "length draws = 10" and "6 \<le> length mac" and "button w 0 \<noteq> 0 \<or> button w 1 \<noteq> 0"
  shows "\<exists>b1 b2 b3 pass e b4 eff.
    dispatch_udp (onboard_packet h x ssid y key rest) addr ess b =
      Some (Returned, b1, [StationStart (padded ssid) (padded key), onboard_ack b addr], ess) \<and>
    run_events (pre @ [SYS_EVT_LINK_UP]) b1 = (Returned, b2, [SaveConfig (onboarded ssid key (conf b))]) \<and>
    UdpBCTThread fd True rets b2 = Some (ChipReset, b3, announcement fd (own_packet mac) @ [ResetSystem]) \<and>
    nl6621_gizwits_entry created now mac draws w (ram\<lparr>flash_cfg := flash_cfg b3\<rparr>) =
      Some (e, b4, [SaveConfig (start_conf pass (onboarded ssid key (conf b))), StationStart (padded ssid) (padded key)] @ eff) \<and>
    (e, sys_wifi_status (gwst (bc b4)), eff) = after_station (link_outcome (w_events w))"
proof -
  let ?f = "onboarded ssid key (conf b)"
  let ?b = "set_conf ?f b"
  let ?b1 = "with_cloud (with_gw (\<lambda>g. g\<lparr>sys_onboarding := SYS_STATUS_ONBOARDING_SUCCESS\<rparr>)) (?b\<lparr>pLinkUpSem := pLinkUpSem ?b - 1\<rparr>)"
  note f = onboarded_conf[OF assms(9,10), of ssid key]
  have "pend_link ess ?b = (Returned, ?b\<lparr>pLinkUpSem := pLinkUpSem ?b - 1\<rparr>, [], ess)"
    using assms(8) by (intro pend_count) (simp add: boot_state_defs)
  then have d: "dispatch_udp (onboard_packet h x ssid y key rest) addr ess b =
      Some (Returned, ?b1, [StationStart (padded ssid) (padded key), onboard_ack b addr], ess)"
    unfolding dispatch_onboarding[OF assms(1-7)] by (simp add: onboard_ack_def boot_state_defs)
  have c1: "conf ?b1 = ?f" "sys_onboarding (gwst (bc ?b1)) = 1" "softap_packet (bc ?b1) = Some (own_packet mac)"
    using own_packet[OF assms(12,13,17)] by (simp_all add: boot_state_defs softap_packet_def)
  obtain t n where u: "run_events (pre @ [SYS_EVT_LINK_UP]) ?b1 = (Returned, ?b1\<lparr>TestDirectCfgFlag := t, pLinkUpSem := n,
      wifi_sta_connect_ap_flag := 0, flash_cfg := ?f, pSoftApSem := pSoftApSem ?b1 + 1\<rparr>, [SaveConfig ?f])" (is "_ = (_, ?b2, _)")
    using link_up_onboarding[OF c1(2) assms(11)] unfolding c1(1) by blast
  have "0 < pSoftApSem ?b2" "softap_packet (bc ?b2) = Some (own_packet mac)" using c1(3) by simp_all
  from announce[OF this assms(14,15)]
  have a: "\<exists>b3. UdpBCTThread fd True rets ?b2 = Some (ChipReset, b3, announcement fd (own_packet mac) @ [ResetSystem]) \<and> flash_cfg b3 = ?f"
    by (simp add: boot_state_defs)
  then obtain b3 where b3: "UdpBCTThread fd True rets ?b2 = Some (ChipReset, b3, announcement fd (own_packet mac) @ [ResetSystem])" "flash_cfg b3 = ?f"
    by blast
  have k: "kept ?f \<and> stored_net ?f" using f by (simp add: kept_def)
  have "flash_cfg (ram\<lparr>flash_cfg := flash_cfg b3\<rparr>) = ?f" using b3(2) by simp
  from entry_exact[OF this f(1) assms(16-18), of created now] k
  obtain pass e b4 eff where "nl6621_gizwits_entry created now mac draws w (ram\<lparr>flash_cfg := flash_cfg b3\<rparr>) =
      Some (e, b4, (if registered ?f then [] else [SaveConfig (start_conf pass ?f)]) @ StationStart (wifi_ssid ?f) (wifi_key ?f) # eff)"
    "(e, sys_wifi_status (gwst (bc b4)), eff) = after_station (link_outcome (w_events w))" by auto
  then show ?thesis using d u b3(1) f(3) assms(13) by (auto simp: onboarded_def)
qed

text \<open>Without a count the wait takes the event of the station itself; groups of other events change nothing.\<close>

lemma quiet_pend:
  assumes "list_all (list_all (Not \<circ> decides)) ess" and "pLinkUpSem b = 0"
  shows "\<exists>t. \<forall>more. pend_link (ess @ more) b = pend_link more (b\<lparr>TestDirectCfgFlag := t\<rparr>)"
  using assms
proof (induction ess arbitrary: b)
  case Nil
  show ?case by (rule exI[of _ "TestDirectCfgFlag b"]) simp
next
  case (Cons es ess)
  have q: "list_all (Not \<circ> decides) es" "list_all (list_all (Not \<circ> decides)) ess" using Cons.prems(1) by (simp_all add: comp_def)
  obtain t where t: "run_events es b = (Returned, b\<lparr>TestDirectCfgFlag := t\<rparr>, [])" using quiet_events[OF q(1)] by blast
  obtain u where u: "\<forall>more. pend_link (ess @ more) (b\<lparr>TestDirectCfgFlag := t\<rparr>) = pend_link more (b\<lparr>TestDirectCfgFlag := t, TestDirectCfgFlag := u\<rparr>)"
    using Cons.IH[OF q(2), of "b\<lparr>TestDirectCfgFlag := t\<rparr>"] Cons.prems(2) by auto
  have "pend_link ((es # ess) @ more) b = pend_link (ess @ more) (b\<lparr>TestDirectCfgFlag := t\<rparr>)" for more
    using t Cons.prems(2) by (simp add: pend_link_def Let_def split: prod.splits)
  with u show ?case by (intro exI[of _ u]) simp
qed

lemma own_event:
  assumes "open_ap b" and "pLinkUpSem b = 0" and "list_all (list_all (Not \<circ> decides)) ess" and "list_all (Not \<circ> decides) pre"
  shows "\<exists>t u. pend_link ess b = (Waiting, b\<lparr>TestDirectCfgFlag := t\<rparr>, [], []) \<and>
    pend_link (ess @ [pre @ [SYS_EVT_LINK_UP]]) b = (Returned, b\<lparr>TestDirectCfgFlag := 1, wifi_sta_connect_ap_flag := 0\<rparr>, [], []) \<and>
    pend_link (ess @ [pre @ [SYS_EVT_JOIN_FAIL]]) b = (ChipReset, b\<lparr>TestDirectCfgFlag := u, wifi_sta_connect_ap_flag := 1\<rparr>, [ResetSystem], [])"
proof -
  obtain t where t: "\<And>more. pend_link (ess @ more) b = pend_link more (b\<lparr>TestDirectCfgFlag := t\<rparr>)"
    using quiet_pend[OF assms(3,2)] by blast
  let ?b = "b\<lparr>TestDirectCfgFlag := t\<rparr>"
  have o: "sys_onboarding (gwst (bc ?b)) = 0" "sys_wifi_status (gwst (bc ?b)) = 1" "pLinkUpSem ?b = 0"
    using assms(1,2) by (simp_all add: open_ap_def)
  obtain u where q: "run_events pre ?b = (Returned, ?b\<lparr>TestDirectCfgFlag := u\<rparr>, [])" using quiet_events[OF assms(4)] by blast
  have w: "pend_link ess b = (Waiting, ?b, [], [])" using t[of "[]"] o(3) by (simp add: pend_link_def)
  have "pend_link [pre @ [SYS_EVT_LINK_UP]] ?b = (Returned, ?b\<lparr>TestDirectCfgFlag := 1, wifi_sta_connect_ap_flag := 0\<rparr>, [], [])"
    using o q by (simp add: pend_link_def run_events_append AppEvtCallBack_def Let_def)
  moreover have "pend_link [pre @ [SYS_EVT_JOIN_FAIL]] ?b =
      (ChipReset, ?b\<lparr>TestDirectCfgFlag := u, wifi_sta_connect_ap_flag := 1\<rparr>, [ResetSystem], [])"
    using o q by (simp add: pend_link_def run_events_append AppEvtCallBack_def Let_def)
  ultimately show ?thesis using w unfolding t by (intro exI[of _ t] exI[of _ u]) simp
qed

lemma unmarked_onboarding:
  assumes "length h = 8" and "h ! 7 = 1" and "length ssid \<le> 30" and "length key \<le> 30" and "no_nul ssid" and "no_nul key"
    and "open_ap b" and "pLinkUpSem b = 0" and "list_all (list_all (Not \<circ> decides)) ess" and "list_all (Not \<circ> decides) pre"
  shows "\<exists>b0 b1 b2.
    dispatch_udp (onboard_packet h x ssid y key rest) addr ess b = Some (Waiting, b0, [StationStart (padded ssid) (padded key)], []) \<and>
    dispatch_udp (onboard_packet h x ssid y key rest) addr (ess @ [pre @ [SYS_EVT_LINK_UP]]) b =
      Some (Returned, b1, [StationStart (padded ssid) (padded key), onboard_ack b addr], []) \<and>
    flash_cfg b1 = flash_cfg b \<and> pSoftApSem b1 = pSoftApSem b \<and> conf b1 = onboarded ssid key (conf b) \<and>
    sys_onboarding (gwst (bc b1)) = SYS_STATUS_ONBOARDING_SUCCESS \<and>
    dispatch_udp (onboard_packet h x ssid y key rest) addr (ess @ [pre @ [SYS_EVT_JOIN_FAIL]]) b =
      Some (ChipReset, b2, [StationStart (padded ssid) (padded key), ResetSystem], []) \<and> flash_cfg b2 = flash_cfg b"
proof -
  let ?b = "set_conf (onboarded ssid key (conf b)) b"
  have "open_ap ?b" "pLinkUpSem ?b = 0" using assms(7,8) by (simp_all add: open_ap_def boot_state_defs)
  from own_event[OF this assms(9,10)] obtain t u where e: "pend_link ess ?b = (Waiting, ?b\<lparr>TestDirectCfgFlag := t\<rparr>, [], [])"
    "pend_link (ess @ [pre @ [SYS_EVT_LINK_UP]]) ?b = (Returned, ?b\<lparr>TestDirectCfgFlag := 1, wifi_sta_connect_ap_flag := 0\<rparr>, [], [])"
    "pend_link (ess @ [pre @ [SYS_EVT_JOIN_FAIL]]) ?b = (ChipReset, ?b\<lparr>TestDirectCfgFlag := u, wifi_sta_connect_ap_flag := 1\<rparr>, [ResetSystem], [])"
    by blast
  have "onboard_ack (?b\<lparr>TestDirectCfgFlag := 1, wifi_sta_connect_ap_flag := 0\<rparr>) addr = onboard_ack b addr"
    by (simp add: onboard_ack_def boot_state_defs)
  then show ?thesis unfolding dispatch_onboarding[OF assms(1-7)] e Let_def by (simp add: boot_state_defs)
qed

text \<open>C19 What onboarding depends on: the access point of a device with no stored network, at whose start no link
  event was counted. Other events leave the request of the phone unanswered. The event of the station itself
  ends the wait before the onboarding is marked: the phone is answered, but nothing is saved, the announcing
  task goes on waiting, and a start from there, with the button not pressed, is the access point again. Only
  a second link event, which finds the mark, saves the network and wakes the announcing task. If the station
  cannot join, the chip resets with nothing saved.\<close>

theorem onboarding_delayed:
  assumes "length h = 8" and "h ! 7 = 1" and "length ssid \<le> 30" and "length key \<le> 30" and "no_nul ssid" and "no_nul key"
    and "open_ap b" and "pLinkUpSem b = 0" and "pSoftApSem b = 0" and "config_ok (flash_cfg b)" and "\<not> stored_net (flash_cfg b)"
    and "list_all (list_all (Not \<circ> decides)) ess" and "list_all (Not \<circ> decides) pre" and "list_all (Not \<circ> decides) pre2"
    and "length draws = 10" and "6 \<le> length mac" and "button w 0 \<noteq> 0 \<or> button w 1 \<noteq> 0"
  shows "\<exists>b0 b1 b2 b3 pass b4.
    dispatch_udp (onboard_packet h x ssid y key rest) addr ess b = Some (Waiting, b0, [StationStart (padded ssid) (padded key)], []) \<and>
    dispatch_udp (onboard_packet h x ssid y key rest) addr (ess @ [pre @ [SYS_EVT_LINK_UP]]) b =
      Some (Returned, b1, [StationStart (padded ssid) (padded key), onboard_ack b addr], []) \<and>
    flash_cfg b1 = flash_cfg b \<and> UdpBCTThread fd setopt rets b1 = Some (Waiting, b1, []) \<and>
    nl6621_gizwits_entry created now mac draws w (ram\<lparr>flash_cfg := flash_cfg b1\<rparr>) =
      Some (Returned, b4, (if registered (flash_cfg b) then [] else [SaveConfig (start_conf pass (flash_cfg b))]) @ [SoftApStart]) \<and>
    open_ap b4 \<and>
    run_events (pre2 @ [SYS_EVT_LINK_UP]) b1 = (Returned, b2, [SaveConfig (onboarded ssid key (conf b))]) \<and>
    flash_cfg b2 = onboarded ssid key (conf b) \<and> pSoftApSem b2 = 1 \<and>
    dispatch_udp (onboard_packet h x ssid y key rest) addr (ess @ [pre @ [SYS_EVT_JOIN_FAIL]]) b =
      Some (ChipReset, b3, [StationStart (padded ssid) (padded key), ResetSystem], []) \<and> flash_cfg b3 = flash_cfg b"
proof -
  obtain b0 b1 b3 where u:
    "dispatch_udp (onboard_packet h x ssid y key rest) addr ess b = Some (Waiting, b0, [StationStart (padded ssid) (padded key)], [])"
    "dispatch_udp (onboard_packet h x ssid y key rest) addr (ess @ [pre @ [SYS_EVT_LINK_UP]]) b =
      Some (Returned, b1, [StationStart (padded ssid) (padded key), onboard_ack b addr], [])"
    "flash_cfg b1 = flash_cfg b" "pSoftApSem b1 = pSoftApSem b" "conf b1 = onboarded ssid key (conf b)" "sys_onboarding (gwst (bc b1)) = 1"
    "dispatch_udp (onboard_packet h x ssid y key rest) addr (ess @ [pre @ [SYS_EVT_JOIN_FAIL]]) b =
      Some (ChipReset, b3, [StationStart (padded ssid) (padded key), ResetSystem], [])" "flash_cfg b3 = flash_cfg b"
    using unmarked_onboarding[OF assms(1-8,12,13), of x y rest addr] by blast
  have w: "UdpBCTThread fd setopt rets b1 = Some (Waiting, b1, [])" using u(4) assms(9) by (simp add: UdpBCTThread_def)
  have l: "\<exists>b2. run_events (pre2 @ [SYS_EVT_LINK_UP]) b1 = (Returned, b2, [SaveConfig (onboarded ssid key (conf b))]) \<and>
      flash_cfg b2 = onboarded ssid key (conf b) \<and> pSoftApSem b2 = 1"
    using link_up_onboarding[OF u(6) assms(14)] u(4,5) assms(9) by auto
  have "flash_cfg (ram\<lparr>flash_cfg := flash_cfg b1\<rparr>) = flash_cfg b" using u(3) by simp
  from entry_exact[OF this assms(10,15-17), of created now] assms(11)
  have "\<exists>pass b4. nl6621_gizwits_entry created now mac draws w (ram\<lparr>flash_cfg := flash_cfg b1\<rparr>) =
      Some (Returned, b4, (if registered (flash_cfg b) then [] else [SaveConfig (start_conf pass (flash_cfg b))]) @ [SoftApStart]) \<and> open_ap b4"
    by (auto simp: open_ap_def)
  with l show ?thesis using u(1-3,7,8) w by blast
qed

section \<open>Announcements and buttons\<close>

text \<open>C29 What the device announces after a start: the address of its radio, its product and its DID. The array
  holds it exactly as long as the device has no DID: with the 22 characters of a registered one \<open>sprintf\<close> writes
  its terminator behind the array.\<close>

theorem announcement_bounds:
  assumes "config_ok f" and "length draws = 10" and "6 \<le> length mac" and "button w 0 \<noteq> 0 \<or> button w 1 \<noteq> 0"
  shows "\<exists>e b eff. nl6621_gizwits_entry created now mac draws w (ram\<lparr>flash_cfg := f\<rparr>) = Some (e, b, eff) \<and>
    softap_packet (bc b) = (if registered f then None
      else Some (announcement_packet (concat (map hex02 (take 6 mac))) (ascii ''9877965c9cf04dff9a585e5f8d77dedb'') []))"
proof -
  have "flash_cfg (ram\<lparr>flash_cfg := f\<rparr>) = f" by simp
  from entry_exact[OF this assms, of created now]
  obtain e b eff where e: "nl6621_gizwits_entry created now mac draws w (ram\<lparr>flash_cfg := f\<rparr>) = Some (e, b, eff)"
    "identity b = start_identity mac f" by blast
  have pk: "cstr (ascii ''9877965c9cf04dff9a585e5f8d77dedb'' @ [0]) = Some (ascii ''9877965c9cf04dff9a585e5f8d77dedb'')"
    by (rule cstr_append) (simp add: no_nul_def ascii_def)
  have l: "length (concat (map hex02 (take 6 mac))) = 12"
    using assms(3) by (simp add: length_concat hex02_def comp_def sum_list_triv)
  have "cstr (DID (gwst (bc b))) = (if registered f then cstr (Cloud_DId f) else Some [])"
    using e(2) by (simp add: identity_def start_identity_def)
  moreover have "registered f \<Longrightarrow> \<exists>d. cstr (Cloud_DId f) = Some d \<and> length d = 22" by (auto simp: registered_def)
  ultimately obtain d where d: "cstr (DID (gwst (bc b))) = Some d" "length d = (if registered f then 22 else 0)"
    by (cases "registered f") auto
  show ?thesis using e softap_packet_exact[of "bc b", OF _ l _ _ d(1)] d(2) pk
    by (intro exI[of _ e] exI[of _ b] exI[of _ eff]) (auto simp: identity_def start_identity_def)
qed

definition forgotten :: "GAgent_CONFIG_S \<Rightarrow> GAgent_CONFIG_S" where
  "forgotten f = f\<lparr>wifi_ssid := zeros 32, wifi_key := zeros 32, cfg_flag := 0\<rparr>"

text \<open>C26 The reset button: held for eight readings it clears the network, and only that, from the stored
  configuration and resets the chip. If the button is released before the next start reads it (it is the pin
  of the direct configuration too: held on, it starts that instead), the next start is an open access point.
  A registered device keeps its DID and its passcode; an unregistered one loses everything else too and has a
  new passcode. The reset check must be enabled, which it is seven seconds after a start.\<close>

theorem reset_button_forgets:
  assumes "system_reset_flag b = 0x12345678" and "list_all (\<lambda>i. gpio i = 0) [0..<8]" and "config_ok (conf b)"
    and "length draws = 10" and "6 \<le> length mac" and "button w 0 \<noteq> 0 \<or> button w 1 \<noteq> 0"
  shows "\<exists>b1 pass b2. check_system_reset gpio b = (ChipReset, b1, [SaveConfig (forgotten (conf b)), ResetSystem]) \<and>
    nl6621_gizwits_entry created now mac draws w (ram\<lparr>flash_cfg := flash_cfg b1\<rparr>) =
      Some (Returned, b2, (if registered (conf b) then [] else [SaveConfig (start_conf pass config_zero)]) @ [SoftApStart]) \<and>
    open_ap b2 \<and> flash_cfg b2 = (if registered (conf b) then forgotten (conf b) else start_conf pass config_zero) \<and>
    identity b2 = start_identity mac (conf b)"
proof -
  have r: "registered (forgotten (conf b)) = registered (conf b)" by (simp add: registered_def forgotten_def)
  have ok: "config_ok (forgotten (conf b))" using assms(3) by (simp add: config_ok_def forgotten_def)
  have z: "start_conf pass (forgotten (conf b)) = start_conf pass config_zero" if "\<not> registered (conf b)" for pass
    using that r by (simp add: start_conf_def kept_def forgotten_def registered_def[of config_zero]) (simp add: config_zero_def)
  have "\<exists>b1. check_system_reset gpio b = (ChipReset, b1, [SaveConfig (forgotten (conf b)), ResetSystem]) \<and> flash_cfg b1 = forgotten (conf b)"
    using assms(1,2) by (simp add: check_system_reset_def save_conf forgotten_def)
  then obtain b1 where b1: "check_system_reset gpio b = (ChipReset, b1, [SaveConfig (forgotten (conf b)), ResetSystem])"
    "flash_cfg b1 = forgotten (conf b)" by blast
  have f: "flash_cfg (ram\<lparr>flash_cfg := flash_cfg b1\<rparr>) = forgotten (conf b)" using b1(2) by simp
  have s: "\<not> stored_net (forgotten (conf b))" by (simp add: stored_net_def forgotten_def)
  have i: "start_identity mac (forgotten (conf b)) = start_identity mac (conf b)"
    using r by (simp add: start_identity_def) (simp add: forgotten_def)
  from entry_exact[OF f ok assms(4-6), of created now] s
  obtain pass b2 where e: "nl6621_gizwits_entry created now mac draws w (ram\<lparr>flash_cfg := flash_cfg b1\<rparr>) =
      Some (Returned, b2, (if registered (conf b) then [] else [SaveConfig (start_conf pass (forgotten (conf b)))]) @ [SoftApStart])"
    "flash_cfg b2 = start_conf pass (forgotten (conf b))" "sys_wifi_status (gwst (bc b2)) = 1" "identity b2 = start_identity mac (conf b)"
    "sys_onboarding (gwst (bc b2)) = 0"
    unfolding r i by auto
  show ?thesis using b1(1) e z r
    by (intro exI[of _ b1] exI[of _ pass] exI[of _ b2]) (auto simp: open_ap_def start_conf_def)
qed

text \<open>Calls of \<open>check_socket\<close> while the button stays pressed. Until the reset check is enabled, seven seconds
  after the start, these are the passes of the main loop; later the reset check waits in the same pass.\<close>

fun hold_button :: "env \<Rightarrow> nat \<Rightarrow> gw \<Rightarrow> (gw \<times> effect list) option" where
  "hold_button e 0 g = Some (g, [])"
| "hold_button e (Suc n) g = do {
     (g, eff) \<leftarrow> check_socket e 0 0 g;
     (g, more) \<leftarrow> hold_button e n g;
     Some (g, eff @ more)
   }"

lemma check_socket_held:
  assumes "strip_inv (device g)" and "\<And>i. e_mem e i" and "g_MQTTStatus g = MQTT_STATUS_RUNNING" and "cstr (DID g) = Some did"
    and "length did < 192"
  shows "\<exists>g' msg. check_socket e 0 0 g = Some (g', [Send (mb_socketid (g_stMQTTBroker g)) msg]) \<and> strip_inv (device g') \<and>
    pins (device g') 30 = 1 - pins (device g) 30 \<and> g_stMQTTBroker g' = g_stMQTTBroker g \<and> g_MQTTStatus g' = g_MQTTStatus g \<and> DID g' = DID g"
proof -
  let ?s = "device g"
  have p: "socket_gpio ?s = 30" "pins ?s 30 = 0 \<or> pins ?s 30 = 1" using assms(1) by (simp_all add: strip_inv_def)
  define s where "s = (if pins ?s 30 = 0 then switch_on ?s else switch_off ?s)"
  have s: "strip_inv s" "pins s 30 = 1 - pins ?s 30"
    using strip_inv_switch[OF assms(1)] p by (auto simp: s_def switch_on_def switch_off_def bit_frame BSP_GPIOSetValue_def)
  define x where "x = sum_list (drop 2 (report_body (socket_status s))) + mcuStatus_sum g"
  let ?g = "g\<lparr>device := s, mcuStatus_sum := x\<rparr>"
  have r: "ReportStatus REPORT_STATUS 0 (g\<lparr>device := s\<rparr>) = Some (report_body (socket_status s) @ [x], ?g)"
    by (simp add: report_exact x_def Let_def)
  have m: "MCU_SendPublishPacket e (report_body (socket_status s) @ [x]) 20 ?g =
      Some (0, ?g, [Send (mb_socketid (g_stMQTTBroker ?g)) (cloud_report (g_stMQTTBroker ?g) did (4 # status_bytes True (socket_status s) @ [x]))])"
    by (rule report_to_cloud) (use assms in simp_all)
  have "check_socket e 0 0 g = do { (frame, g) \<leftarrow> ReportStatus REPORT_STATUS 0 (g\<lparr>device := s\<rparr>);
      (r, g, eff) \<leftarrow> MCU_SendPublishPacket e frame 20 g; Some (g, eff) }"
    using p(1) by (simp add: check_socket_def s_def switch_on_def switch_off_def)
  also have "\<dots> = Some (?g, [Send (mb_socketid (g_stMQTTBroker g)) (cloud_report (g_stMQTTBroker g) did (4 # status_bytes True (socket_status s) @ [x]))])"
    using m by (simp add: r)
  finally show ?thesis using s by auto
qed

text \<open>The button of the socket. While it is held, every call toggles the output again: no release is awaited.
  The reported status stays the state of the pin, and each change is reported to the cloud, but to no phone of
  the local network.\<close>

theorem held_button_toggles:
  assumes "strip_inv (device g)" and "\<And>i. e_mem e i" and "g_MQTTStatus g = MQTT_STATUS_RUNNING" and "cstr (DID g) = Some did"
    and "length did < 192"
  shows "\<exists>g' eff. hold_button e n g = Some (g', eff) \<and> strip_inv (device g') \<and>
    pins (device g') 30 = (if even n then pins (device g) 30 else 1 - pins (device g) 30) \<and>
    length eff = n \<and> (\<exists>msgs. eff = map (Send (mb_socketid (g_stMQTTBroker g))) msgs)"
  using assms(1,3,4)
proof (induction n arbitrary: g)
  case 0
  then show ?case by simp
next
  case (Suc n)
  obtain g1 msg where g1: "check_socket e 0 0 g = Some (g1, [Send (mb_socketid (g_stMQTTBroker g)) msg])" "strip_inv (device g1)"
    "pins (device g1) 30 = 1 - pins (device g) 30" "g_stMQTTBroker g1 = g_stMQTTBroker g" "g_MQTTStatus g1 = g_MQTTStatus g" "DID g1 = DID g"
    using check_socket_held[OF Suc.prems(1) assms(2) Suc.prems(2,3) assms(5)] by blast
  obtain g2 msgs where g2: "hold_button e n g1 = Some (g2, map (Send (mb_socketid (g_stMQTTBroker g1))) msgs)" "strip_inv (device g2)"
    "pins (device g2) 30 = (if even n then pins (device g1) 30 else 1 - pins (device g1) 30)" "length msgs = n"
    using Suc.IH[of g1] g1 Suc.prems by auto
  have "hold_button e (Suc n) g = Some (g2, map (Send (mb_socketid (g_stMQTTBroker g))) (msg # msgs))"
    using g1(1,4) g2(1) by simp
  moreover have "pins (device g2) 30 = (if even (Suc n) then pins (device g) 30 else 1 - pins (device g) 30)" using g1(3) g2(3) by simp
  moreover have "length (map (Send (mb_socketid (g_stMQTTBroker g))) (msg # msgs)) = Suc n" using g2(4) by simp
  ultimately show ?case using g2(2) by blast
qed

section \<open>Direct configuration\<close>

lemma direct_events:
  assumes "sys_onboarding (gwst (bc b)) = 0" and "TestDirectCfgFlag b = 0"
    and "list_all (Not \<circ> decides) pre" and "list_all (Not \<circ> decides) pre2"
  shows "\<exists>n f. wait_for (\<lambda>b. TestDirectCfgFlag b = 1) [pre @ [SYS_EVT_DIRECT_CFG_DONE], pre2 @ [SYS_EVT_LINK_UP]] b =
      (Returned, b\<lparr>TestDirectCfgFlag := 1\<rparr>, [], [pre2 @ [SYS_EVT_LINK_UP]]) \<and>
    wait_for (\<lambda>b. TestDirectCfgFlag b \<noteq> 0) [pre2 @ [SYS_EVT_LINK_UP]] (b\<lparr>TestDirectCfgFlag := 0\<rparr>) =
      (Returned, b\<lparr>TestDirectCfgFlag := 1, pLinkUpSem := n, wifi_sta_connect_ap_flag := f\<rparr>, [], [])"
proof -
  obtain t where t: "run_events pre b = (Returned, b\<lparr>TestDirectCfgFlag := t\<rparr>, [])" using quiet_events[OF assms(3)] by blast
  obtain u where u: "run_events pre2 (b\<lparr>TestDirectCfgFlag := 0\<rparr>) = (Returned, b\<lparr>TestDirectCfgFlag := u\<rparr>, [])"
    using quiet_events[OF assms(4), of "b\<lparr>TestDirectCfgFlag := 0\<rparr>"] by auto
  have "wait_for (\<lambda>b. TestDirectCfgFlag b = 1) [pre @ [SYS_EVT_DIRECT_CFG_DONE], pre2 @ [SYS_EVT_LINK_UP]] b =
      (Returned, b\<lparr>TestDirectCfgFlag := 1\<rparr>, [], [pre2 @ [SYS_EVT_LINK_UP]])"
    using t assms(2) by (simp add: run_events_append AppEvtCallBack_def)
  moreover have "wait_for (\<lambda>b. TestDirectCfgFlag b \<noteq> 0) [pre2 @ [SYS_EVT_LINK_UP]] (b\<lparr>TestDirectCfgFlag := 0\<rparr>) =
      (Returned, b\<lparr>TestDirectCfgFlag := 1, pLinkUpSem := pLinkUpSem b + 1, wifi_sta_connect_ap_flag := 0\<rparr>, [], [])"
    using u assms(1) by (simp add: run_events_append AppEvtCallBack_def Let_def)
  ultimately show ?thesis by blast
qed

definition direct_conf :: "bytes \<Rightarrow> bytes \<Rightarrow> GAgent_CONFIG_S \<Rightarrow> GAgent_CONFIG_S" where
  "direct_conf ssid psk f = f\<lparr>wifi_ssid := take 32 ssid, wifi_key := take 32 psk, cfg_flag := cfg_flag f OR XPG_CFG_FLAG_CONNECTED\<rparr>"

lemma direct_config_steps:
  assumes "sys_onboarding (gwst (bc b)) = 0" and "TestDirectCfgFlag b = 0" and "32 \<le> length ssid" and "32 \<le> length psk"
    and "list_all (Not \<circ> decides) pre" and "list_all (Not \<circ> decides) pre2" and "fd \<noteq> -1" and "11 \<le> length (filter (\<lambda>r. 0 \<le> r) rets)"
    and "softap_packet (bc b) = Some out"
  shows "\<exists>b'. TestDirectConfig ssid psk fd True rets [pre @ [SYS_EVT_DIRECT_CFG_DONE], pre2 @ [SYS_EVT_LINK_UP]] b =
      Some (Returned, b', [DirectCfgStart, WiFiStart, SaveConfig (direct_conf ssid psk (conf b))] @ announcement fd out) \<and>
    conf b' = direct_conf ssid psk (conf b)"
proof -
  let ?c = "direct_conf ssid psk (conf b)"
  obtain n f where w: "wait_for (\<lambda>b. TestDirectCfgFlag b = 1) [pre @ [SYS_EVT_DIRECT_CFG_DONE], pre2 @ [SYS_EVT_LINK_UP]] b =
      (Returned, b\<lparr>TestDirectCfgFlag := 1\<rparr>, [], [pre2 @ [SYS_EVT_LINK_UP]])"
    "wait_for (\<lambda>b. TestDirectCfgFlag b \<noteq> 0) [pre2 @ [SYS_EVT_LINK_UP]] (b\<lparr>TestDirectCfgFlag := 0\<rparr>) =
      (Returned, b\<lparr>TestDirectCfgFlag := 1, pLinkUpSem := n, wifi_sta_connect_ap_flag := f\<rparr>, [], [])"
    using direct_events[OF assms(1,2,5,6)] by blast
  let ?b = "(set_conf ?c (b\<lparr>pLinkUpSem := n, wifi_sta_connect_ap_flag := f, TestDirectCfgFlag := 0\<rparr>))\<lparr>flash_cfg := ?c\<rparr>"
  have save: "GAgent_SaveSSIDAndKey ssid psk (gwst (bc b)) = Some ((gwst (bc b))\<lparr>g_stGAgentConfigData := ?c\<rparr>, [SaveConfig ?c])"
    using assms(3,4) by (simp add: GAgent_SaveSSIDAndKey_def rd_seg_def direct_conf_def conf_def Let_def)
  have p: "softap_packet (bc ?b) = Some out" using assms(9) by (simp add: softap_packet_def boot_state_defs)
  have "RespondSoftAPBroadcast fd True rets ?b = Some (Returned,
      with_cloud (with_gw (\<lambda>g. g\<lparr>sys_onboarding := SYS_STATUS_ONBOARDING_FAILED\<rparr>)) ?b, announcement fd out)"
    using p assms(7) broadcast_enough[of 0 rets "SendTo fd (0xFFFFFFFF, 2415) out"] assms(8)
    by (simp add: RespondSoftAPBroadcast_def announcement_def)
  moreover have "TestDirectConfig ssid psk fd True rets [pre @ [SYS_EVT_DIRECT_CFG_DONE], pre2 @ [SYS_EVT_LINK_UP]] b = do {
      (r, b, eff4) \<leftarrow> RespondSoftAPBroadcast fd True rets ?b; Some (r, b, [DirectCfgStart, WiFiStart, SaveConfig ?c] @ eff4) }"
    using w save by (simp add: TestDirectConfig_def Let_def boot_state_defs del: wait_for.simps)
  ultimately show ?thesis by (simp add: boot_state_defs)
qed

lemma take_string: "no_nul s \<Longrightarrow> length s \<le> 31 \<Longrightarrow> cstr (take 32 (s @ 0 # r)) = Some s"
  by (simp add: take_Cons')

lemma direct_conf_kept:
  assumes "config_ok f" and "\<not> registered f" and "0 \<in> set (Cloud_DId f)" and "length pass = 16"
  shows "config_ok (direct_conf ssid psk (start_conf pass f))" and "stored_net (direct_conf ssid psk (start_conf pass f))"
    and "kept (direct_conf ssid psk (start_conf pass f))" and "cfg_flag (direct_conf ssid psk (start_conf pass f)) = 1"
proof -
  show fl: "cfg_flag (direct_conf ssid psk (start_conf pass f)) = 1"
    using assms(2) by (simp add: direct_conf_def start_conf_def kept_def config_zero_def)
  show "stored_net (direct_conf ssid psk (start_conf pass f))" "kept (direct_conf ssid psk (start_conf pass f))"
    using fl by (simp_all add: stored_net_def kept_def)
  show "config_ok (direct_conf ssid psk (start_conf pass f))"
    using assms by (simp add: config_ok_def direct_conf_def start_conf_def config_zero_def) (simp add: zeros_def)
qed

text \<open>The start up to the direct configuration.\<close>

lemma direct_config_start:
  assumes "config_ok f" and "\<not> registered f" and "length draws = 10" and "6 \<le> length mac" and "button w 0 = 0" and "button w 1 = 0"
    and "w_events w = [pre @ [SYS_EVT_DIRECT_CFG_DONE], pre2 @ [SYS_EVT_LINK_UP]]"
    and "list_all (Not \<circ> decides) pre" and "list_all (Not \<circ> decides) pre2"
    and "32 \<le> length (w_ssid w)" and "32 \<le> length (w_psk w)" and "w_socket w \<noteq> -1" and "w_setopt w"
    and "11 \<le> length (filter (\<lambda>r. 0 \<le> r) (w_rets w))" and "TestDirectCfgFlag ram = 0"
  shows "\<exists>b eff pass. nl6621_gizwits_entry created now mac draws w (ram\<lparr>flash_cfg := f\<rparr>) = Some (Returned, b, eff) \<and>
    SendTo (w_socket w) (0xFFFFFFFF, 2415) (own_packet mac) \<in> set eff \<and>
    sys_wifi_status (gwst (bc b)) = SYS_STATUS_WIFI_STA_CONNECTED \<and>
    flash_cfg b = direct_conf (w_ssid w) (w_psk w) (start_conf pass f) \<and> length pass = 16"
proof -
  let ?ram = "ram\<lparr>flash_cfg := f\<rparr>"
  obtain pass b where i: "started mac pass f b" "TestDirectCfgFlag b = 0" "length pass = 16"
    "init_state created now mac draws (entry_state ?ram) = Some (b, [SaveConfig (conf b)])"
    using init_state_starts[of ?ram draws mac created now] assms(1-4,15) by auto
  define b1 where "b1 = set_status SYS_STATUS_WIFI_DIRECTCONFING b"
  have b1: "sys_onboarding (gwst (bc b1)) = 0" "TestDirectCfgFlag b1 = 0" "conf b1 = start_conf pass f" "identity b1 = start_identity mac f"
    using i(1,2) by (simp_all add: b1_def started_def boot_state_defs identity_def)
  note p = own_packet[OF b1(4) assms(2,4)]
  obtain b2 where b2: "TestDirectConfig (w_ssid w) (w_psk w) (w_socket w) (w_setopt w) (w_rets w) (w_events w) b1 =
      Some (Returned, b2, [DirectCfgStart, WiFiStart, SaveConfig (direct_conf (w_ssid w) (w_psk w) (conf b1))] @ announcement (w_socket w) (own_packet mac))"
    "conf b2 = direct_conf (w_ssid w) (w_psk w) (conf b1)"
    using direct_config_steps[OF b1(1,2) assms(10,11,8,9,12,14) p] assms(7,13) by auto
  have fl: "cfg_flag (start_conf pass f) = 0 \<or> cfg_flag (start_conf pass f) = 1"
    using assms(2) by (simp add: start_conf_def kept_def config_zero_def)
  have "\<exists>b' eff. by_direct_config w b = Some (Returned, b', eff) \<and> SendTo (w_socket w) (0xFFFFFFFF, 2415) (own_packet mac) \<in> set eff \<and>
      sys_wifi_status (gwst (bc b')) = 3 \<and> flash_cfg b' = direct_conf (w_ssid w) (w_psk w) (start_conf pass f)"
    using b2 fl b1(3) by (auto simp: by_direct_config_def b1_def[symmetric] save_conf announcement_def direct_conf_def)
      (auto simp: station_mode_def boot_state_defs)
  then obtain b' eff where b': "by_direct_config w b = Some (Returned, b', eff)" "SendTo (w_socket w) (0xFFFFFFFF, 2415) (own_packet mac) \<in> set eff"
      "sys_wifi_status (gwst (bc b')) = 3" "flash_cfg b' = direct_conf (w_ssid w) (w_psk w) (start_conf pass f)" by blast
  then show ?thesis using assms(5,6) i(3)
    by (intro exI[of _ "b'\<lparr>g_stCoreGAgentTimer := snd (GAgent_CreateTimer GAGENT_TIMER_PERIOD 1000 GAgent_Cloud_Timer_fn (g_stCoreGAgentTimer b'))\<rparr>"]
      exI[of _ "SaveConfig (conf b) # eff"] exI[of _ pass]) (simp add: nl6621_gizwits_entry_def GAgent_Init_def i(4) GAgent_SetDevNetWork_def)
qed

text \<open>C35 A start with the button pressed, of a device that is not registered yet (with a DID the announcement
  overruns its array: \<open>announcement_bounds\<close>). The library's direct configuration gives a name and a key of at
  most 31 characters each: 32 bytes of both are stored, so a longer key is cut. The device joins, announces itself
  to the phone (if the socket can be made and eleven calls of \<open>sendto\<close> succeed), and ends as a station whose stored
  configuration is that network: the next start, with the button released, asks for exactly it. The flash holds a
  configuration as this program writes it, and the flag that the events set is 0 at the start.\<close>

theorem direct_config_joins:
  assumes "config_ok f" and "0 \<in> set (Cloud_DId f)" and "\<not> registered f" and "length draws = 10" and "length draws2 = 10" and "6 \<le> length mac"
    and "button w 0 = 0" and "button w 1 = 0" and "button w2 0 \<noteq> 0 \<or> button w2 1 \<noteq> 0"
    and "w_events w = [pre @ [SYS_EVT_DIRECT_CFG_DONE], pre2 @ [SYS_EVT_LINK_UP]]"
    and "list_all (Not \<circ> decides) pre" and "list_all (Not \<circ> decides) pre2"
    and "w_ssid w = ssid @ 0 # r1" and "w_psk w = key @ 0 # r2" and "no_nul ssid" and "no_nul key" and "length ssid \<le> 31" and "length key \<le> 31"
    and "32 \<le> length (w_ssid w)" and "32 \<le> length (w_psk w)" and "w_socket w \<noteq> -1" and "w_setopt w"
    and "11 \<le> length (filter (\<lambda>r. 0 \<le> r) (w_rets w))" and "TestDirectCfgFlag ram = 0"
  shows "\<exists>b eff eff1 e2 b2 eff2. nl6621_gizwits_entry created now mac draws w (ram\<lparr>flash_cfg := f\<rparr>) = Some (Returned, b, eff) \<and>
    SendTo (w_socket w) (0xFFFFFFFF, 2415) (own_packet mac) \<in> set eff \<and>
    sys_wifi_status (gwst (bc b)) = SYS_STATUS_WIFI_STA_CONNECTED \<and>
    cstr (wifi_ssid (flash_cfg b)) = Some ssid \<and> cstr (wifi_key (flash_cfg b)) = Some key \<and>
    nl6621_gizwits_entry created2 now2 mac draws2 w2 (ram2\<lparr>flash_cfg := flash_cfg b\<rparr>) =
      Some (e2, b2, eff1 @ StationStart (wifi_ssid (flash_cfg b)) (wifi_key (flash_cfg b)) # eff2) \<and>
    (e2, sys_wifi_status (gwst (bc b2)), eff2) = after_station (link_outcome (w_events w2))"
proof -
  obtain b eff pass where b: "nl6621_gizwits_entry created now mac draws w (ram\<lparr>flash_cfg := f\<rparr>) = Some (Returned, b, eff)"
    "SendTo (w_socket w) (0xFFFFFFFF, 2415) (own_packet mac) \<in> set eff" "sys_wifi_status (gwst (bc b)) = 3"
    "flash_cfg b = direct_conf (w_ssid w) (w_psk w) (start_conf pass f)" "length pass = 16"
    using direct_config_start[OF assms(1,3,4,6,7,8,10-12,19-24)] by blast
  note k = direct_conf_kept[OF assms(1,3,2) b(5), of "w_ssid w" "w_psk w", folded b(4)]
  have "cstr (wifi_ssid (flash_cfg b)) = Some ssid" "cstr (wifi_key (flash_cfg b)) = Some key"
    using take_string[OF assms(15,17)] take_string[OF assms(16,18)] by (simp_all add: b(4) direct_conf_def assms(13,14))
  moreover have "\<exists>e2 b2 eff1 eff2. nl6621_gizwits_entry created2 now2 mac draws2 w2 (ram2\<lparr>flash_cfg := flash_cfg b\<rparr>) =
      Some (e2, b2, eff1 @ StationStart (wifi_ssid (flash_cfg b)) (wifi_key (flash_cfg b)) # eff2) \<and>
    (e2, sys_wifi_status (gwst (bc b2)), eff2) = after_station (link_outcome (w_events w2))"
    using entry_exact[OF _ k(1) assms(5,6,9), of "ram2\<lparr>flash_cfg := flash_cfg b\<rparr>" created2 now2] k(2,3) by auto
  ultimately show ?thesis using b(1-3) by blast
qed

section \<open>Examples\<close>

lemma example_boot: "open_ap boot0" "pLinkUpSem boot0 = 1" "pSoftApSem boot0 = 0" "flash_cfg boot0 = config0"
  "identity boot0 = start_identity mac0 (conf boot0)"
proof -
  have n: "no_nul (ascii ''001bfe9a23c4'')" by (simp add: no_nul_def ascii_def)
  have "cstr (a_mac (bc boot0)) = Some (ascii ''001bfe9a23c4'')" "cstr (DID (gwst (bc boot0))) = Some []"
    by (simp_all add: boot0_def gw0_def zeros_cstr n)
  moreover have "concat (map hex02 (take 6 mac0)) = ascii ''001bfe9a23c4''" by code_simp
  ultimately show "identity boot0 = start_identity mac0 (conf boot0)"
    using example_config(4,5) by (simp add: identity_def start_identity_def) (simp add: boot0_def)
qed (simp_all add: open_ap_def boot0_def gw0_def)

text \<open>The access point without a counted link event.\<close>

definition waiting0 :: boot where
  "waiting0 = boot0\<lparr>pLinkUpSem := 0\<rparr>"

theorem onboarding_to_station_witness:
  "\<exists>b1 b2 b3 pass e b4 eff.
    dispatch_udp (onboard_packet header0 0 (ascii ''home'') 0 (ascii ''secret'') []) (0x0A0A6401, 4000) [] boot0 =
      Some (Returned, b1, [StationStart (padded (ascii ''home'')) (padded (ascii ''secret'')), onboard_ack boot0 (0x0A0A6401, 4000)], []) \<and>
    run_events ([SYS_EVT_LINK_DOWN] @ [SYS_EVT_LINK_UP]) b1 = (Returned, b2, [SaveConfig (onboarded (ascii ''home'') (ascii ''secret'') (conf boot0))]) \<and>
    UdpBCTThread 4 True (replicate 11 80) b2 = Some (ChipReset, b3,
      announcement 4 (own_packet mac0) @ [ResetSystem]) \<and>
    nl6621_gizwits_entry True 0 mac0 [0..<10] (world0 1 [[SYS_EVT_LINK_UP]]) (boot0\<lparr>flash_cfg := flash_cfg b3\<rparr>) =
      Some (e, b4, [SaveConfig (start_conf pass (onboarded (ascii ''home'') (ascii ''secret'') (conf boot0))),
        StationStart (padded (ascii ''home'')) (padded (ascii ''secret''))] @ eff) \<and>
    (e, sys_wifi_status (gwst (bc b4)), eff) = after_station (link_outcome (w_events (world0 1 [[SYS_EVT_LINK_UP]])))"
proof (rule onboarding_to_station)
  show "cfg_flag (conf boot0) \<in> {0, 1}" unfolding example_config by (rule example_config)
qed (simp_all add: example_world example_boot example_config decides_def)

theorem onboarding_delayed_witness:
  "\<exists>b0 b1 b2 b3 pass b4.
    dispatch_udp (onboard_packet header0 0 (ascii ''home'') 0 (ascii ''secret'') []) (0x0A0A6401, 4000) [[SYS_EVT_SCAN_DONE]] waiting0 =
      Some (Waiting, b0, [StationStart (padded (ascii ''home'')) (padded (ascii ''secret''))], []) \<and>
    dispatch_udp (onboard_packet header0 0 (ascii ''home'') 0 (ascii ''secret'') []) (0x0A0A6401, 4000) ([[SYS_EVT_SCAN_DONE]] @ [[] @ [SYS_EVT_LINK_UP]]) waiting0 =
      Some (Returned, b1, [StationStart (padded (ascii ''home'')) (padded (ascii ''secret'')), onboard_ack waiting0 (0x0A0A6401, 4000)], []) \<and>
    flash_cfg b1 = flash_cfg waiting0 \<and> UdpBCTThread 4 True [] b1 = Some (Waiting, b1, []) \<and>
    nl6621_gizwits_entry True 0 mac0 [0..<10] (world0 1 []) (boot0\<lparr>flash_cfg := flash_cfg b1\<rparr>) =
      Some (Returned, b4, (if registered (flash_cfg waiting0) then [] else [SaveConfig (start_conf pass (flash_cfg waiting0))]) @ [SoftApStart]) \<and>
    open_ap b4 \<and>
    run_events ([SYS_EVT_LINK_DOWN] @ [SYS_EVT_LINK_UP]) b1 = (Returned, b2, [SaveConfig (onboarded (ascii ''home'') (ascii ''secret'') (conf waiting0))]) \<and>
    flash_cfg b2 = onboarded (ascii ''home'') (ascii ''secret'') (conf waiting0) \<and> pSoftApSem b2 = 1 \<and>
    dispatch_udp (onboard_packet header0 0 (ascii ''home'') 0 (ascii ''secret'') []) (0x0A0A6401, 4000) ([[SYS_EVT_SCAN_DONE]] @ [[] @ [SYS_EVT_JOIN_FAIL]]) waiting0 =
      Some (ChipReset, b3, [StationStart (padded (ascii ''home'')) (padded (ascii ''secret'')), ResetSystem], []) \<and> flash_cfg b3 = flash_cfg waiting0"
  by (rule onboarding_delayed) (use example_boot in \<open>simp_all add: example_world example_config waiting0_def open_ap_def decides_def\<close>)

theorem announcement_bounds_witness:
  "\<exists>e b eff. nl6621_gizwits_entry True 0 mac0 [0..<10] (world0 1 []) (boot0\<lparr>flash_cfg := config0\<rparr>) = Some (e, b, eff) \<and>
    softap_packet (bc b) = Some (announcement_packet (concat (map hex02 (take 6 mac0))) (ascii ''9877965c9cf04dff9a585e5f8d77dedb'') [])"
  using announcement_bounds[of config0 "[0..<10]" mac0 "world0 1 []" True 0 boot0] by (simp add: example_world example_config)

theorem reset_button_forgets_witness:
  "\<exists>b1 pass b2. check_system_reset (\<lambda>_. 0) boot0 = (ChipReset, b1, [SaveConfig (forgotten config0), ResetSystem]) \<and>
    nl6621_gizwits_entry True 0 mac0 [0..<10] (world0 1 []) (boot0\<lparr>flash_cfg := flash_cfg b1\<rparr>) =
      Some (Returned, b2, [SaveConfig (start_conf pass config_zero)] @ [SoftApStart]) \<and>
    open_ap b2 \<and> flash_cfg b2 = start_conf pass config_zero \<and> identity b2 = start_identity mac0 config0"
proof -
  have "system_reset_flag boot0 = 0x12345678" "list_all (\<lambda>i. (\<lambda>_. 0 :: u8) i = 0) [0..<8]" by (simp_all add: boot0_def list_all_iff)
  then show ?thesis
    using reset_button_forgets[of boot0 "\<lambda>_. 0" "[0..<10]" mac0 "world0 1 []" True 0 boot0] by (simp add: example_world example_config)
qed

theorem held_button_toggles_witness:
  "\<exists>g' eff. hold_button (env0\<lparr>e_mem := \<lambda>_. True\<rparr>) 3 (gwst cloud1) = Some (g', eff) \<and> strip_inv (device g') \<and>
    pins (device g') 30 = 1 \<and> length eff = 3 \<and> (\<exists>msgs. eff = map (Send (mb_socketid (g_stMQTTBroker (gwst cloud1)))) msgs)"
proof -
  have e: "device (gwst cloud1) = device_init True strip0" by (simp add: cloud1_def gw0_def)
  have d: "strip_inv (device (gwst cloud1))" unfolding e by (rule strip_inv_init) (simp add: strip0_def)
  moreover have "pins (device (gwst cloud1)) 30 = 0"
    unfolding e by (simp add: device_init_def strip_init_def timer_task_init_def BSP_GPIOSetValue_def strip0_def)
  ultimately show ?thesis
    using held_button_toggles[of "gwst cloud1" "env0\<lparr>e_mem := \<lambda>_. True\<rparr>" "ascii ''did1''" 3] by simp
qed

definition pressed0 :: world where
  "pressed0 = world0 0 [[] @ [SYS_EVT_DIRECT_CFG_DONE], [] @ [SYS_EVT_LINK_UP]]"

theorem direct_config_joins_witness:
  "\<exists>b eff eff1 e2 b2 eff2. nl6621_gizwits_entry True 0 mac0 [0..<10] pressed0 (boot0\<lparr>flash_cfg := config0\<rparr>) = Some (Returned, b, eff) \<and>
    SendTo (w_socket pressed0) (0xFFFFFFFF, 2415) (own_packet mac0) \<in> set eff \<and>
    sys_wifi_status (gwst (bc b)) = SYS_STATUS_WIFI_STA_CONNECTED \<and>
    cstr (wifi_ssid (flash_cfg b)) = Some (ascii ''home'') \<and> cstr (wifi_key (flash_cfg b)) = Some (ascii ''secret'') \<and>
    nl6621_gizwits_entry True 0 mac0 [0..<10] (world0 1 [[SYS_EVT_LINK_UP]]) (boot0\<lparr>flash_cfg := flash_cfg b\<rparr>) =
      Some (e2, b2, eff1 @ StationStart (wifi_ssid (flash_cfg b)) (wifi_key (flash_cfg b)) # eff2) \<and>
    (e2, sys_wifi_status (gwst (bc b2)), eff2) = after_station (link_outcome (w_events (world0 1 [[SYS_EVT_LINK_UP]])))"
proof (rule direct_config_joins[where pre = "[]" and ?pre2.0 = "[]" and ?r1.0 = "zeros 27" and ?r2.0 = "zeros 25"])
  show "w_ssid pressed0 = ascii ''home'' @ 0 # zeros 27" "w_psk pressed0 = ascii ''secret'' @ 0 # zeros 25"
    by (simp_all add: pressed0_def world0_def zeros_def numeral_eq_Suc)
  show "0 \<in> set (Cloud_DId config0)" by (simp add: config0_def zeros_def)
qed (simp_all only: example_config example_world pressed0_def, simp_all add: world0_def boot0_def ascii_def)

end
