(* ===== verification/WifiDrv.thy ===== *)
theory WifiDrv
  imports L2Link Onboarding
begin

text \<open>
  What starting the station and the access point means for the Wi-Fi parameters (App/GizWitsWifi/system/nl6621_drv.c),
  and the way of a link event from the driver through the interface (Sys/sys_mgmt.c, LwIP/port/lwIP.c) to the
  application (wifi/directconfig.c).
\<close>

section \<open>The two modes\<close>

definition softap_params :: "sys \<Rightarrow> sys" where
  "softap_params s =
     (let (_, s) = InfWiFiStop s;
          s = InfLoadDefaultParam s;
          (_, s) = InfNetModeSet 2 s;
          (_, s) = InfWiFiStart s
      in s)"

text \<open>\<open>strlen\<close> of both arguments is cut to 8 bits by the parameters of the setters.\<close>

definition station_params :: "bytes \<Rightarrow> bytes \<Rightarrow> sys \<Rightarrow> sys option" where
  "station_params StaSsid StaPass s = do {
     let (_, s) = InfWiFiStop s;
     let s = InfLoadDefaultParam s;
     let (_, s) = InfIpSet (Some \<lparr>Ip = zeros 4, Netmask = zeros 4, IpGateWay = zeros 4, Dns = zeros 4, bDhcp = 1, DhcpTryTimes = 0\<rparr>) s;
     let (_, s) = InfConTryTimesSet 5 s;
     let (_, s) = InfNetModeSet 0 s;
     let (_, s) = InfEncModeSet 4 s;
     ssid \<leftarrow> cstr StaSsid;
     (_, s) \<leftarrow> InfSsidSet (Some StaSsid) (of_nat (length ssid)) s;
     key \<leftarrow> cstr StaPass;
     (_, s) \<leftarrow> InfKeySet 0 (Some StaPass) (of_nat (length key)) s;
     let (_, s) = InfWiFiStart s;
     Some s
   }"

text \<open>The link comes up: the stack is configured, and the application hears of it if that succeeded.\<close>

fun app_events :: "sys_action list \<Rightarrow> SYS_EVT_ID list" where
  "app_events [] = []"
| "app_events (Callback ev # acts) = ev # app_events acts"
| "app_events (_ # acts) = app_events acts"

definition link_up_message :: "sys \<Rightarrow> u32 option \<Rightarrow> bool \<Rightarrow> nat \<Rightarrow> l2 \<Rightarrow> boot \<Rightarrow> (l2 \<times> run_end \<times> boot \<times> effect list) option" where
  "link_up_message s lease pcb_dhcp pcb_dns l b = do {
     (r, l) \<leftarrow> L2Link.L2LinkUp lease pcb_dhcp pcb_dns (l\<lparr>l2_cfg := cfg s\<rparr>);
     Some (l, run_events (app_events (DefaultProc s r (Some SYS_LINK_UP_ID))) b)
   }"

section \<open>Properties\<close>

lemma softap_params_cfg:
  "cfg (softap_params s) = \<lparr>WiFiCfg = default_wifi (PermanentAddress s), IPCfg = default_ip, bDhcpServer = 1, bDnsServer = 1,
     DnsName = put (zeros 33) 0 (ascii ''local.nufront'' @ [0])\<rparr>"
  "SysEvtCB (softap_params s) = SysEvtCB s" "posted (softap_params s) = posted s @ [(MLME_STOP_ID, []), (MLME_START_ID, [])]"
  by (simp_all add: softap_params_def InfWiFiStop_def InfLoadDefaultParam_def InfNetModeSet_def InfWiFiStart_def PostTaskMsg_def
      upd_wifi_def PARAM_NET_MODE_MAX_def default_wifi_def Let_def)

lemma access_point_cfg:
  assumes "length (PermanentAddress s) = 6"
  shows "cfg_ok (cfg (softap_params s))" "cstr (DnsName (cfg (softap_params s))) = Some (ascii ''local.nufront'')"
    "Protocol (WiFiCfg (cfg (softap_params s))) = 2" "bDhcpServer (cfg (softap_params s)) = 1" "bDnsServer (cfg (softap_params s)) = 1"
    "IP4_ADDR (Ip (IPCfg (cfg (softap_params s)))) = bswap32 0x0A0A64FE" "IP4_ADDR (Netmask (IPCfg (cfg (softap_params s)))) = bswap32 0xFFFFFF00"
proof -
  have p: "put (zeros 33) 0 (ascii ''local.nufront'' @ [0]) = ascii ''local.nufront'' @ 0 # zeros 19" by (simp add: put_def)
  have "no_nul (ascii ''local.nufront'')" by (simp add: no_nul_def ascii_def)
  then show "cstr (DnsName (cfg (softap_params s))) = Some (ascii ''local.nufront'')" by (simp add: softap_params_cfg p)
  show "cfg_ok (cfg (softap_params s))"
    using default_ok[of "s\<lparr>posted := []\<rparr>"] assms by (simp add: softap_params_cfg sys_ok_def InfLoadDefaultParam_def)
qed (simp_all add: softap_params_cfg default_wifi_def default_ip_def IP4_ADDR_def, code_simp+)


lemma link_up_counts:
  assumes "length (PermanentAddress s) = 6" and "SysEvtCB s" and "length (DhcpMsg (l2_dhcps l)) = SIZEOF_DHCP_MSG" and "pcb \<noteq> 0"
    and "sys_onboarding (gwst (bc b)) = 0"
  shows "\<exists>l'. link_up_message (softap_params s) lease True pcb l b = Some (l', Returned,
      b\<lparr>wifi_sta_connect_ap_flag := 0, pLinkUpSem := pLinkUpSem b + 1, TestDirectCfgFlag := 1\<rparr>, []) \<and>
    l2_dnss l' = \<lparr>dns_Socket = pcb, dns_DnsName = ascii ''local.nufront'' @ zeros 19, dns_HostIp = bswap32 0x0A0A64FE\<rparr> \<and>
    DHCPS_Start True (bswap32 0x0A0A64FE) (bswap32 0xFFFFFF00) True (l2_dhcps l) = Some (DHCPS_ERR_SUCCESS, l2_dhcps l')"
proof -
  let ?l = "l\<lparr>l2_cfg := cfg (softap_params s)\<rparr>"
  note c = access_point_cfg[OF assms(1)]
  have "both_servers ?l" using c(1,3-5) assms(3) by (simp add: both_servers_def)
  moreover have "cstr (DnsName (l2_cfg ?l)) = Some (ascii ''local.nufront'')" using c(2) by simp
  moreover have "IP4_ADDR (Netmask (IPCfg (l2_cfg ?l))) \<noteq> bswap32 0xFFFFFFFF" using c(7) by simp
  ultimately obtain l' where l': "L2Link.L2LinkUp lease True pcb ?l = Some (0, l')"
    "l2_dnss l' = \<lparr>dns_Socket = pcb, dns_DnsName = ascii ''local.nufront'' @ zeros (32 - length (ascii ''local.nufront'')), dns_HostIp = IP4_ADDR (Ip (IPCfg (l2_cfg ?l)))\<rparr>"
    "DHCPS_Start True (IP4_ADDR (Ip (IPCfg (l2_cfg ?l)))) (IP4_ADDR (Netmask (IPCfg (l2_cfg ?l)))) True (l2_dhcps ?l) = Some (DHCPS_ERR_SUCCESS, l2_dhcps l')"
    using link_up_both[of ?l "ascii ''local.nufront''" pcb True lease] assms(4) by blast
  have "run_events (app_events (DefaultProc (softap_params s) 0 (Some SYS_LINK_UP_ID))) b =
      (Returned, b\<lparr>wifi_sta_connect_ap_flag := 0, pLinkUpSem := pLinkUpSem b + 1, TestDirectCfgFlag := 1\<rparr>, [])"
    using assms(2,5) by (simp add: DefaultProc_def call_back_def softap_params_cfg AppEvtCallBack_def Let_def)
  then show ?thesis using l' c(6,7) by (simp add: link_up_message_def)
qed

text \<open>The addresses the access point gives away: 10.10.100.1 to 10.10.100.8.\<close>

abbreviation (input) "ap_pool \<equiv> map (\<lambda>i. bswap32 (0x0A0A6400 + of_nat i)) [1..<9]"

lemma ap_pool: "dhcp_pool (bswap32 0x0A0A64FE) (bswap32 0xFFFFFF00) = ap_pool"
  by (simp add: dhcp_pool_def DHCPS_HISTORY_CLIENT_NUM_def pool_ip_def pool_host_def Let_def upt_0_8 upt_rec)

text \<open>C10 The access point from the driver's message to the application. After the start of the access point with
  its default parameters, the message that the link is up brings up both servers, if each gets its control block, and
  there is memory for replies: the DHCP server runs and offers a station an address from 10.10.100.1 to
  10.10.100.8, and the name \<open>local.nufront\<close> is answered with the address 10.10.100.254. The application, which has
  registered for events and has no onboarding marked, counts one link event: exactly the count that a later
  onboarding takes.\<close>

theorem access_point_opens:
  assumes "length (PermanentAddress s) = 6" and "SysEvtCB s" and "length (DhcpMsg (l2_dhcps l)) = SIZEOF_DHCP_MSG" and "pcb \<noteq> 0"
    and "open_ap b" and "length tid = 2" and "length counts = 8" and "heap 0" and "heap 1"
    and "length xid = 4" and "length m = 6" and "length fill \<le> 304"
  shows "\<exists>l' b' d pkt. link_up_message (softap_params s) lease True pcb l b = Some (l', Returned, b', []) \<and>
    open_ap b' \<and> pLinkUpSem b' = pLinkUpSem b + 1 \<and> flash_cfg b' = flash_cfg b \<and> bc b' = bc b \<and>
    Socket (l2_dhcps l') \<and> Enable (l2_dhcps l') = 1 \<and>
    DHCPS_RecvCb True past (dhcp_discover xid m fill) (l2_dhcps l') = Some (d, [pkt]) \<and> offer_of ap_pool (bswap32 0x0A0A64FE) m pkt \<and>
    DNSS_RecvCb heap True (dns_query tid 1 0 counts [ascii ''local'', ascii ''nufront''] ([0, 1] @ [0, 1])) (l2_dnss l') =
      Some [address_reply tid [ascii ''local'', ascii ''nufront''] ([0, 1] @ [0, 1]) (bswap32 0x0A0A64FE)]"
proof -
  have o: "sys_onboarding (gwst (bc b)) = 0" using assms(5) by (simp add: open_ap_def)
  obtain l' where l': "link_up_message (softap_params s) lease True pcb l b = Some (l', Returned,
      b\<lparr>wifi_sta_connect_ap_flag := 0, pLinkUpSem := pLinkUpSem b + 1, TestDirectCfgFlag := 1\<rparr>, [])"
    "l2_dnss l' = \<lparr>dns_Socket = pcb, dns_DnsName = ascii ''local.nufront'' @ zeros 19, dns_HostIp = bswap32 0x0A0A64FE\<rparr>"
    "DHCPS_Start True (bswap32 0x0A0A64FE) (bswap32 0xFFFFFF00) True (l2_dhcps l) = Some (DHCPS_ERR_SUCCESS, l2_dhcps l')"
    using link_up_counts[OF assms(1-4) o] by blast
  have "DNSS_RecvCb heap True (dns_query tid 1 0 counts [ascii ''local'', ascii ''nufront''] ([0, 1] @ [0, 1]) @ []) (l2_dnss l') =
      Some [if name_match [ascii ''local'', ascii ''nufront''] (ascii ''local.nufront'')
        then address_reply tid [ascii ''local'', ascii ''nufront''] ([0, 1] @ [0, 1]) (dns_HostIp (l2_dnss l'))
        else error_reply tid [ascii ''local'', ascii ''nufront''] ([0, 1] @ [0, 1])]"
    by (rule RecvCb_exact) (use assms(6-9) l'(2) in \<open>simp_all add: label_ok_def no_nul_def ascii_def\<close>)
  moreover have "name_match [ascii ''local'', ascii ''nufront''] (ascii ''local.nufront'')" by code_simp
  moreover have "Socket (l2_dhcps l')" "Enable (l2_dhcps l') = 1" using start_running[OF l'(3)] by simp_all
  moreover have "\<exists>d pkt. DHCPS_RecvCb True past (dhcp_discover xid m fill) (l2_dhcps l') = Some (d, [pkt]) \<and> offer_of ap_pool (bswap32 0x0A0A64FE) m pkt"
    using first_offer[OF l'(3) assms(3,10-12), of past] unfolding ap_pool .
  ultimately show ?thesis using l' assms(5) by (auto simp: open_ap_def)
qed

text \<open>C21 When the name server gets no control block, the access point works, but its link event is not passed on:
  nothing is counted. If no count is left from before, a phone that then sends an onboarding request has to wait:
  whatever other events come, its handler, in the task that answers all datagrams of the local network, returns
  only with the link event of the station itself. Then the phone is answered, but the network is not saved and the announcing task not woken; if the
  station cannot join, the chip resets with nothing saved.\<close>

theorem dns_failure_delays_onboarding:
  assumes "length (PermanentAddress s) = 6" and "length (DhcpMsg (l2_dhcps l)) = SIZEOF_DHCP_MSG"
    and "open_ap b" and "pLinkUpSem b = 0" and "list_all (list_all (Not \<circ> decides)) ess" and "list_all (Not \<circ> decides) pre"
    and "length h = 8" and "h ! 7 = 1" and "length ssid \<le> 30" and "length key \<le> 30" and "no_nul ssid" and "no_nul key"
  shows "\<exists>l' b0 b1 b2. link_up_message (softap_params s) lease True 0 l b = Some (l', Returned, b, []) \<and>
    nif_up l' \<and> nif_ip l' = bswap32 0x0A0A64FE \<and>
    dispatch_udp (onboard_packet h x ssid y key rest) addr ess b = Some (Waiting, b0, [StationStart (padded ssid) (padded key)], []) \<and>
    dispatch_udp (onboard_packet h x ssid y key rest) addr (ess @ [pre @ [SYS_EVT_LINK_UP]]) b =
      Some (Returned, b1, [StationStart (padded ssid) (padded key), onboard_ack b addr], []) \<and>
    flash_cfg b1 = flash_cfg b \<and> pSoftApSem b1 = pSoftApSem b \<and>
    dispatch_udp (onboard_packet h x ssid y key rest) addr (ess @ [pre @ [SYS_EVT_JOIN_FAIL]]) b =
      Some (ChipReset, b2, [StationStart (padded ssid) (padded key), ResetSystem], []) \<and> flash_cfg b2 = flash_cfg b"
proof -
  note c = access_point_cfg[OF assms(1)]
  obtain e d where d: "DHCPS_Start True (bswap32 0x0A0A64FE) (bswap32 0xFFFFFF00) True (l2_dhcps l) = Some (e, d)"
    by (simp add: DHCPS_Start_def Let_def)
  have "\<exists>l'. L2Link.L2LinkUp lease True 0 (l\<lparr>l2_cfg := cfg (softap_params s)\<rparr>) = Some (-1, l') \<and> nif_up l' \<and> nif_ip l' = bswap32 0x0A0A64FE"
    using c(2-7) d by (simp add: L2Link.L2LinkUp_def LoadStaticParam_def Let_def DNSS_Start_def put_def)
  then obtain l' where "L2Link.L2LinkUp lease True 0 (l\<lparr>l2_cfg := cfg (softap_params s)\<rparr>) = Some (-1, l')" "nif_up l'" "nif_ip l' = bswap32 0x0A0A64FE"
    by blast
  moreover have "app_events (DefaultProc (softap_params s) (- 1) (Some SYS_LINK_UP_ID)) = []" by (simp add: DefaultProc_def)
  ultimately have "\<exists>l'. link_up_message (softap_params s) lease True 0 l b = Some (l', Returned, b, []) \<and> nif_up l' \<and> nif_ip l' = bswap32 0x0A0A64FE"
    by (simp add: link_up_message_def)
  then show ?thesis using unmarked_onboarding[OF assms(7-12,3,4,5,6), of x y rest addr] by blast
qed

lemma ssid_stored:
  assumes "no_nul ssid" and "length ssid \<le> 32" and "length x = 33"
  shows "\<exists>z. (put x 0 ssid)[length ssid := 0] = ssid @ 0 # z \<and> length z = 32 - length ssid"
proof -
  obtain a z where "drop (length ssid) x = a # z" using assms(2,3) by (metis Cons_nth_drop_Suc le_imp_less_Suc numeral_eq_Suc pred_numeral_simps(3) numeral_less_iff order_le_less_trans less_Suc_eq_le eval_nat_numeral(3))
  moreover from this have "length z = 32 - length ssid" using assms(2,3) by (metis length_drop length_Cons diff_Suc_1 Suc_diff_le numeral_eq_Suc eval_nat_numeral(3) diff_Suc_Suc)
  ultimately show ?thesis by (simp add: put_def list_update_append)
qed

lemma default_wifi_sizes: "length mac = 6 \<Longrightarrow> length (Ssid (default_wifi mac)) = 33 \<and> length (PSK (default_wifi mac)) = 64"
  by (simp add: default_wifi_def default_ssid_length length_put)

text \<open>The station is started with exactly the stored name and key: for any name of 1 to 32 and key of at most 64
  characters, the parameters hold them, ask for an address by DHCP, and are valid; the radio is stopped before and
  started after.\<close>

theorem station_uses_credentials:
  assumes "length (PermanentAddress s) = 6" and "no_nul ssid" and "no_nul key" and "ssid \<noteq> []" and "length ssid \<le> 32" and "length key \<le> 64"
  shows "\<exists>s'. station_params (ssid @ 0 # r1) (key @ 0 # r2) s = Some s' \<and> cfg_ok (cfg s') \<and>
    cstr (Ssid (WiFiCfg (cfg s'))) = Some ssid \<and> take (unat (KeyLength (WiFiCfg (cfg s')))) (PSK (WiFiCfg (cfg s'))) = key \<and>
    Protocol (WiFiCfg (cfg s')) = PARAM_NET_MODE_STA_BSS \<and> bDhcp (IPCfg (cfg s')) = 1 \<and>
    posted s' = posted s @ [(MLME_STOP_ID, []), (MLME_START_ID, [])]"
proof -
  let ?w = "(default_wifi (PermanentAddress s))\<lparr>ConTryTimes := 5, Protocol := 0, Encry := 4\<rparr>"
  let ?ip = "\<lparr>Ip = zeros 4, Netmask = zeros 4, IpGateWay = zeros 4, Dns = zeros 4, bDhcp = 1, DhcpTryTimes = 0\<rparr>"
  have l: "length (Ssid ?w) = 33" "length (PSK ?w) = 64" using default_wifi_sizes[OF assms(1)] by simp_all
  have n: "unat (of_nat (length ssid) :: u8) = length ssid" "unat (of_nat (length key) :: u8) = length key"
    using assms(5,6) by (simp_all add: unat_of_nat8)
  have le: "\<not> (of_nat (length ssid) :: u8) > 32" "(of_nat (length ssid) :: u8) \<noteq> 0" "\<not> (of_nat (length key) :: u8) > 64"
    using assms(4-6) n by (simp_all add: word_less_nat_alt) (metis length_0_conv unat_0)
  obtain z where z: "(put (Ssid ?w) 0 ssid)[length ssid := 0] = ssid @ 0 # z" "length z = 32 - length ssid"
    using ssid_stored[OF assms(2,5) l(1)] by blast
  let ?p = "let p = put (PSK ?w) 0 key in if (of_nat (length key) :: u8) < 64 then p[length key := 0] else p"
  have p: "length ?p = 64" "take (length key) ?p = key" using l(2) assms(6) by (simp_all add: length_put Let_def put_def)
  let ?c = "\<lparr>WiFiCfg = ?w\<lparr>Ssid := ssid @ 0 # z, KeyIndex := 0, KeyLength := of_nat (length key), PSK := ?p\<rparr>, IPCfg = ?ip, bDhcpServer = 1,
    bDnsServer = 1, DnsName = put (zeros 33) 0 (ascii ''local.nufront'' @ [0])\<rparr>"
  have "station_params (ssid @ 0 # r1) (key @ 0 # r2) s = Some (s\<lparr>cfg := ?c, posted := posted s @ [(MLME_STOP_ID, []), (MLME_START_ID, [])]\<rparr>)"
    using le n z(1) assms(2,3)
    by (simp add: station_params_def InfWiFiStop_def InfLoadDefaultParam_def set_defs upd_wifi_def PostTaskMsg_def InfSsidSet_def InfKeySet_def
      InfWiFiStart_def PARAM_NET_MODE_MAX_def PARAM_ENC_MODE_MAX_def rd_seg_def Let_def)
  moreover have "cfg_ok ?c"
  proof -
    have "cfg_ok (cfg (softap_params s))" by (rule access_point_cfg[OF assms(1)])
    then have "length (DnsName ?c) = 33 \<and> DnsName ?c ! 32 = 0" by (simp add: cfg_ok_def softap_params_cfg)
    moreover have "wifi_ok (WiFiCfg ?c)"
      using p(1) z(2) le(3) assms(5) by (simp add: wifi_ok_def default_wifi_def PARAM_NET_MODE_MAX_def PARAM_ENC_MODE_MAX_def
        PARAM_AUTH_MODE_MAX_def PARAM_PHY_MODE_MAX_def not_less)
    ultimately show ?thesis by (simp add: cfg_ok_def)
  qed
  ultimately show ?thesis using p(2) n(2) assms(2) by simp
qed

section \<open>Examples\<close>

definition driver0 :: sys where
  "driver0 = sys_reset\<lparr>SysEvtCB := True\<rparr>"

lemma example_driver: "length (PermanentAddress driver0) = 6" "SysEvtCB driver0" "length (DhcpMsg (l2_dhcps default_l2)) = SIZEOF_DHCP_MSG"
  "open_ap (boot0\<lparr>pLinkUpSem := 0\<rparr>)"
  using example_boot(1) by (simp_all add: driver0_def sys_reset_def InfLoadDefaultParam_def default_l2_def dhcps_off_def dhcps_zero_def open_ap_def)

theorem access_point_opens_witness:
  "\<exists>l' b' d pkt. link_up_message (softap_params driver0) None True 7 default_l2 (boot0\<lparr>pLinkUpSem := 0\<rparr>) = Some (l', Returned, b', []) \<and>
    open_ap b' \<and> pLinkUpSem b' = pLinkUpSem (boot0\<lparr>pLinkUpSem := 0\<rparr>) + 1 \<and> flash_cfg b' = flash_cfg (boot0\<lparr>pLinkUpSem := 0\<rparr>) \<and>
    bc b' = bc (boot0\<lparr>pLinkUpSem := 0\<rparr>) \<and> Socket (l2_dhcps l') \<and> Enable (l2_dhcps l') = 1 \<and>
    DHCPS_RecvCb True (\<lambda>_. 0) (dhcp_discover [1, 2, 3, 4] [0, 1, 2, 3, 4, 5] (zeros 304)) (l2_dhcps l') = Some (d, [pkt]) \<and>
    offer_of ap_pool (bswap32 0x0A0A64FE) [0, 1, 2, 3, 4, 5] pkt \<and>
    DNSS_RecvCb (\<lambda>_. True) True (dns_query [1, 2] 1 0 [0, 1, 0, 0, 0, 0, 0, 0] [ascii ''local'', ascii ''nufront''] ([0, 1] @ [0, 1])) (l2_dnss l') =
      Some [address_reply [1, 2] [ascii ''local'', ascii ''nufront''] ([0, 1] @ [0, 1]) (bswap32 0x0A0A64FE)]"
  by (rule access_point_opens) (simp_all only: example_driver, simp_all)

theorem dns_failure_delays_onboarding_witness:
  "\<exists>l' b0 b1 b2. link_up_message (softap_params driver0) None True 0 default_l2 (boot0\<lparr>pLinkUpSem := 0\<rparr>) =
      Some (l', Returned, boot0\<lparr>pLinkUpSem := 0\<rparr>, []) \<and>
    nif_up l' \<and> nif_ip l' = bswap32 0x0A0A64FE \<and>
    dispatch_udp (onboard_packet header0 0 (ascii ''home'') 0 (ascii ''secret'') []) (0x0A0A6401, 4000) [[SYS_EVT_SCAN_DONE]] (boot0\<lparr>pLinkUpSem := 0\<rparr>) =
      Some (Waiting, b0, [StationStart (padded (ascii ''home'')) (padded (ascii ''secret''))], []) \<and>
    dispatch_udp (onboard_packet header0 0 (ascii ''home'') 0 (ascii ''secret'') []) (0x0A0A6401, 4000) ([[SYS_EVT_SCAN_DONE]] @ [[] @ [SYS_EVT_LINK_UP]]) (boot0\<lparr>pLinkUpSem := 0\<rparr>) =
      Some (Returned, b1, [StationStart (padded (ascii ''home'')) (padded (ascii ''secret'')), onboard_ack (boot0\<lparr>pLinkUpSem := 0\<rparr>) (0x0A0A6401, 4000)], []) \<and>
    flash_cfg b1 = flash_cfg (boot0\<lparr>pLinkUpSem := 0\<rparr>) \<and> pSoftApSem b1 = pSoftApSem (boot0\<lparr>pLinkUpSem := 0\<rparr>) \<and>
    dispatch_udp (onboard_packet header0 0 (ascii ''home'') 0 (ascii ''secret'') []) (0x0A0A6401, 4000) ([[SYS_EVT_SCAN_DONE]] @ [[] @ [SYS_EVT_JOIN_FAIL]]) (boot0\<lparr>pLinkUpSem := 0\<rparr>) =
      Some (ChipReset, b2, [StationStart (padded (ascii ''home'')) (padded (ascii ''secret'')), ResetSystem], []) \<and>
    flash_cfg b2 = flash_cfg (boot0\<lparr>pLinkUpSem := 0\<rparr>)"
  by (rule dns_failure_delays_onboarding) (simp_all only: example_driver example_world, simp_all add: decides_def)

theorem station_uses_credentials_witness:
  "\<exists>s'. station_params (ascii ''home'' @ 0 # zeros 27) (ascii ''secret'' @ 0 # zeros 25) driver0 = Some s' \<and> cfg_ok (cfg s') \<and>
    cstr (Ssid (WiFiCfg (cfg s'))) = Some (ascii ''home'') \<and>
    take (unat (KeyLength (WiFiCfg (cfg s')))) (PSK (WiFiCfg (cfg s'))) = ascii ''secret'' \<and>
    Protocol (WiFiCfg (cfg s')) = PARAM_NET_MODE_STA_BSS \<and> bDhcp (IPCfg (cfg s')) = 1 \<and>
    posted s' = posted driver0 @ [(MLME_STOP_ID, []), (MLME_START_ID, [])]"
  by (rule station_uses_credentials) (simp_all only: example_driver example_world, simp_all add: ascii_def)

end
