(* ===== verification/Spec2Isabelle.thy ===== *)
theory Spec2Isabelle
  imports NstCrc OsDmem NstUtil LanUpdate NtpClient WifiDrv
begin

text \<open>
  A verification library for the firmware of the Gizwits smart socket on the NL6621 Wi-Fi chip
  (Gizwits_WIFI-Socket_SDK/Source; all file names below are relative to it).

  \<^bold>\<open>The program.\<close> A switched socket with timers is controlled by phones on the local network and,
  through an MQTT broker, from outside. One task accepts TCP clients and serves the LAN protocol, one
  answers UDP discovery and onboarding, one keeps the cloud session. All of them hand device commands
  to the gateway, which runs them on the device and reports the new status to the logged-in phones and
  to the cloud. The configuration and a new firmware are stored in NOR flash. Before it knows a network
  the chip is an access point with its own DHCP server. Below lie the heap manager, the Wi-Fi parameters
  and the utilities; LwIP (of which only the size of a heap block is modelled), uC/OS-II and the WLAN driver are
  libraries.

  \<^bold>\<open>Conventions.\<close> A C object is a list of bytes; an access outside it, which is undefined behaviour in C,
  makes the definition \<open>None\<close>, so a theorem that an operation gives \<open>Some\<close> also says that it stays
  inside its objects. Integers have their C width as words. Globals are records, passed and returned.
  What a function sends is a list of effects in order. What comes from libraries and hardware
  (received bytes, results of \<open>send\<close>, room in the heap, time, \<open>rand\<close>) is an argument, and no theorem assumes
  more of it than its statement says.

  \<^bold>\<open>Theories.\<close>
  \<^item> \<open>Prelude\<close>: widths, buffers, byte order, C strings; the interfaces as locales: a machine with an
    invariant, a running checksum, a self-delimiting code, an allocator. Each is interpreted on the
    definitions of the component that provides it.
  \<^item> \<open>NstCrc\<close> (Sys/util.c): the table-driven CRC equals the bitwise one; every change of one byte is seen.
  \<^item> \<open>OsDmem\<close> (Ports/Cortex-M3/os_dmem.c): the block list of the heap, allocation, release with merging.
    Its abstract specification is a list of free and used blocks; every history of requests keeps blocks
    disjoint, and releasing everything gives the whole heap back.
  \<^item> \<open>DhcpServer\<close> (App/DhcpServer/dhcp_server.c): options, leases, replies; no two clients share a lease.
  \<^item> \<open>SysParam\<close> (Sys/param.c, Sys/sys_mgmt.c): the setters of the Wi-Fi parameters keep them valid.
  \<^item> \<open>RemLen\<close>, \<open>MqttLib\<close> (App/GizWitsWifi/cloud/mqttlib.c): the variable length field, packets built
    and parsed.
  \<^item> \<open>NstUtil\<close> (Sys/util.c, lib/str_lib.c, lib/utilcoding.c): software timers, strings, memory move.
  \<^item> \<open>StripDevice\<close> (dev/strip.c, dev/control.c): commands and daily timers; the reported status is the
    state of the pins.
  \<^item> \<open>McuGateway\<close> (lan/mcu_v4.c, lan/mcu_common.c): frames, checksums, reports to phones and cloud; the size of the
    block that \<open>mem_malloc\<close> (LwIP/src/core/mem.c) makes of a request, which is 12 bytes for a length of -3 to -1.
  \<^item> \<open>FlashDrv\<close> (BSP/flash.c, BSP/qspi.c, system/nl6621_drv.c): the NOR flash as a chip whose bits are
    only cleared by writing; writing any range and reading it back.
  \<^item> \<open>LanServer\<close>, \<open>LanUpdate\<close> (lan/Socket.c, lan/lan.c): clients and logins, the dispatcher, discovery,
    the firmware update. The machine of the server takes accepts, data, ticks and installed updates as steps; what a
    transfer that breaks off leaves behind is a theorem of its own.
  \<^item> \<open>NetAdapter\<close> (lib/adapter_ucos.c): the state of the cloud client, host names, server sockets.
  \<^item> \<open>MqttSession\<close> (cloud/mqttxpg.c, cloud/MqttSTM.c): the session with the broker: CONNECT, three
    subscriptions, commands to the device, reports, heart beat. Its abstract specification is a session of
    five stages; every packet makes a step of it, and commands are obeyed in the last stage only.
  \<^item> \<open>CloudHttp\<close> (cloud/http.c): registration and the address of the broker by HTTP.
  \<^item> \<open>CloudLogin\<close> (system/gagent_login_cloud.c): the state machine from registration to the session, run in
    histories with the heart beat timer: an answered login completes; a lost answer to the registration (with no
    connection to the broker) or a lost SUBACK (on a connection that lives) stops it for good.
  \<^item> \<open>CoreTimers\<close> (system/core_gagent.c): the table of timers of the gateway, refined to timers that
    each count by themselves; with the program's two timers, 120 seconds of silence end everything, however
    many seconds the main loop finds at each pass.
  \<^item> \<open>Coding\<close> (lib/base64.c, lib/utilcoding.c): base64 and the coding of numbers and addresses.
  \<^item> \<open>NtpClient\<close> (lib/ntp_client.c): setting the clock, and until when that works.
  \<^item> \<open>DnsServer\<close> (App/DnsServer/dns_server.c), \<open>L2Link\<close> (LwIP/port/lwIP.c): the services of the access
    point; \<open>L2Link\<close> puts the parameters, the DHCP server and the DNS server together.
  \<^item> \<open>BootMode\<close> (system/xpgmain.c, wifi/Wifi_mode.c, wifi/directconfig.c, the buttons of system/nl6621_drv.c,
    gizwits_main.c): from the reset of the chip to the main loop. Waits, and resets of the chip, are values;
    the events of the WLAN library between two looks of a waiting task are an argument.
  \<^item> \<open>Onboarding\<close>: the LAN server, the events, the flash, the announcing task and the next start put together:
    how a network gets from a phone into the device, on what that depends (the counted link event of the access
    point, no DID yet, the button at the next start), and how it is forgotten.
  \<^item> \<open>WifiDrv\<close> (system/nl6621_drv.c, Sys/sys_mgmt.c): the parameters of the two modes, and the link event from
    the driver's message through the stack and its servers to the application.

  \<^bold>\<open>Bounds and fuel.\<close> Loops over fixed tables and buffers are recursions on the table or on the number
  of bytes left. \<open>WriteFlash\<close> and the update loop are partial functions (their result \<open>None\<close> would be
  a loop that does not end); that they return is proved (\<open>WriteFlash_returns\<close>).

  \<^bold>\<open>Not modelled.\<close> LwIP, uC/OS-II and its port (third party); the peripheral drivers other than flash
  (register accesses); start-up tables; the binary libraries; printing; the switching of the power save mode around the
  session (\<open>InfPowerSaveSet\<close>), which changes no state of these components. The direct configuration records the
  start of the library and of the radio as effects; the calls before them, which clear the parameters, stop the
  radio and set its mode, leave no trace. Planned next: the lamp (dev/light.c).
\<close>

end
